(* ===== verification/Mx_Prelude.thy ===== *)
theory Mx_Prelude
  imports Main "HOL-Library.Word" "HOL-Library.Multiset"
begin

unbundle bit_operations_syntax

text \<open>
  Prelude of the mxdriver verification library: the machine-integer types of the C code, the
  kernel error numbers the driver returns, the result type every fallible operation uses, and the
  generic lemmas on counting in lists and on word increments and decrements that the component
  theories share.

  A C function that returns \<open>0\<close> or a negative errno is modelled with result type
  \<open>unit result\<close> (\<open>Inl e\<close> is \<open>-e\<close>, \<open>Inr ()\<close> is \<open>0\<close>); a function that returns a value or a
  negative errno has type \<open>'a result\<close>. State that the function writes through a pointer is passed
  and returned explicitly on every branch, the error branches included.
\<close>

section \<open>Types\<close>

type_synonym u8 = "8 word"
type_synonym u16 = "16 word"
type_synonym u32 = "32 word"
type_synonym u64 = "64 word"

datatype errno =
    EPERM | EINTR | EIO | ENXIO | EAGAIN | ENOMEM | EACCES | EFAULT | EBUSY | EXDEV | ENODEV
  | EINVAL | ENOTTY | EOVERFLOW | EUCLEAN | EALREADY | ESTALE | EOPNOTSUPP | ETIMEDOUT
  | ESHUTDOWN | ENOIOCTLCMD

type_synonym 'a result = "errno + 'a"

abbreviation (input) OK :: "unit result" where
  "OK \<equiv> Inr ()"

abbreviation (input) U32_MAX :: u32 where
  "U32_MAX \<equiv> 4294967295"

abbreviation (input) INT_MAX :: nat where
  "INT_MAX \<equiv> 2147483647"

section \<open>Collections\<close>

named_theorems lease_sm_simps \<open>definitions of the lease state machine\<close>
named_theorems mbox_simps \<open>definitions of the mailbox indices\<close>
named_theorems prp_simps \<open>definitions of the PRP descriptor walk\<close>

section \<open>Counting in lists\<close>

definition cnt :: "('a \<Rightarrow> bool) \<Rightarrow> 'a list \<Rightarrow> nat" where
  "cnt P xs = length (filter P xs)"

text \<open>A list without its \<open>i\<close>-th element.\<close>

definition others :: "nat \<Rightarrow> 'a list \<Rightarrow> 'a list" where
  "others i xs = take i xs @ drop (Suc i) xs"

lemma cnt_Nil [simp]: "cnt P [] = 0"
  by (simp add: cnt_def)

lemma cnt_Cons [simp]: "cnt P (x # xs) = of_bool (P x) + cnt P xs"
  by (simp add: cnt_def)

lemma cnt_append [simp]: "cnt P (xs @ ys) = cnt P xs + cnt P ys"
  by (simp add: cnt_def)

lemma cnt_zero_iff: "cnt P xs = 0 \<longleftrightarrow> (\<forall>x \<in> set xs. \<not> P x)"
  by (auto simp: cnt_def filter_empty_conv)

lemma cnt_zeroD: "cnt P xs = 0 \<Longrightarrow> x \<in> set xs \<Longrightarrow> \<not> P x"
  by (simp add: cnt_zero_iff)

lemma cnt_pos: "x \<in> set xs \<Longrightarrow> P x \<Longrightarrow> 0 < cnt P xs"
  using cnt_zeroD by fastforce

lemma cnt_mono: "(\<And>x. x \<in> set xs \<Longrightarrow> P x \<Longrightarrow> Q x) \<Longrightarrow> cnt P xs \<le> cnt Q xs"
  by (induction xs) (auto simp: of_bool_def)

lemma cnt_perm: "mset xs = mset ys \<Longrightarrow> cnt P xs = cnt P ys"
  unfolding cnt_def by (metis mset_filter size_mset)

lemma cnt_le_length: "cnt P xs \<le> length xs"
  by (simp add: cnt_def)

lemma mset_others: "i < length xs \<Longrightarrow> mset (xs ! i # others i xs) = mset xs"
proof -
  assume i: "i < length xs"
  have "mset xs = mset (take i xs @ xs ! i # drop (Suc i) xs)"
    using id_take_nth_drop [OF i] by simp
  then show ?thesis by (simp add: others_def)
qed

lemma mset_list_update: "i < length xs \<Longrightarrow> mset (xs[i := v]) = mset (v # others i xs)"
  by (simp add: others_def upd_conv_take_nth_drop)

lemma set_others_subset: "set (others i xs) \<subseteq> set xs"
  by (auto simp: others_def dest: in_set_takeD in_set_dropD)

lemma nth_in_others:
  assumes "j < length xs" "j \<noteq> i"
  shows "xs ! j \<in> set (others i xs)"
proof (cases "j < i")
  case True
  with assms have "take i xs ! j = xs ! j" "j < length (take i xs)" by simp_all
  then show ?thesis unfolding others_def by (metis Un_iff nth_mem set_append)
next
  case False
  with assms have j: "j = Suc i + (j - Suc i)" by simp
  with assms have "drop (Suc i) xs ! (j - Suc i) = xs ! j" "j - Suc i < length (drop (Suc i) xs)"
    by simp_all
  then show ?thesis unfolding others_def by (metis Un_iff nth_mem set_append)
qed

section \<open>Word increments and decrements\<close>

lemma unat_inc_u32: "w \<noteq> U32_MAX \<Longrightarrow> unat (w + 1) = Suc (unat (w :: u32))"
proof -
  assume w: "w \<noteq> U32_MAX"
  have "1 + w \<noteq> 0"
  proof
    assume "1 + w = 0"
    then have "w = - 1" by (simp add: add_eq_0_iff)
    with w show False by simp
  qed
  from unatSuc [OF this] show ?thesis by (simp add: add.commute)
qed

lemma unat_dec: "w \<noteq> 0 \<Longrightarrow> unat (w - 1) = unat (w :: 'a::len word) - 1"
  by (rule unat_minus_one)

lemma unat_zero_iff: "unat (w :: 'a::len word) = 0 \<longleftrightarrow> w = 0"
  by (simp add: unat_eq_0)

lemma of_nat_unat_eq: "unat w = n \<Longrightarrow> w = of_nat n"
  by auto

lemma unat_of_nat_u32: "n < 4294967296 \<Longrightarrow> unat (of_nat n :: u32) = n"
  unfolding unat_of_nat by simp

lemma of_nat_u32_eq_iff:
  "m < 4294967296 \<Longrightarrow> n < 4294967296 \<Longrightarrow> (of_nat m :: u32) = of_nat n \<longleftrightarrow> m = n"
  using unat_of_nat_u32 by metis

lemma unat_less_max_u32: "unat (w :: u32) < 4294967295 \<Longrightarrow> w \<noteq> U32_MAX"
  by auto

end
