(* ===== verification/Lease_Abi.thy ===== *)
theory Lease_Abi
  imports Mx_Prelude
begin

text \<open>
  The lease ABI of \<open>include/uapi/mx_dma_lease.h\<close>: profile, family, phase, transition and proof
  operation codes as the \<open>u32\<close> values the ioctls carry (user space may pass any other value, so
  they are not an enumeration type), the capability and grant bits, the slot layout, and the
  request structures of the six lease ioctls as records. Fields of different structures with the
  same name carry a prefix of their structure.
\<close>

section \<open>Constants\<close>

abbreviation (input) MX_LEASE_ABI_MAGIC :: u64 where "MX_LEASE_ABI_MAGIC \<equiv> 0x4d584c4541534531"
abbreviation (input) MX_LEASE_ABI_VERSION :: u32 where "MX_LEASE_ABI_VERSION \<equiv> 1"

abbreviation (input) MX_LEASE_MAX_WORKLOAD_SLOT :: u32 where "MX_LEASE_MAX_WORKLOAD_SLOT \<equiv> 4095"
abbreviation (input) MX_LEASE_WORKLOAD_MARKER_BASE :: int where "MX_LEASE_WORKLOAD_MARKER_BASE \<equiv> 0x50590000"
abbreviation (input) MX_LEASE_LIFETIME_OFD_FLAG :: u64 where "MX_LEASE_LIFETIME_OFD_FLAG \<equiv> 0x100000000"
abbreviation (input) MX_LEASE_SLOT_MARKER_BASE :: int where "MX_LEASE_SLOT_MARKER_BASE \<equiv> 0x50584c00"
abbreviation (input) MX_LEASE_MAX_SLOT :: u32 where "MX_LEASE_MAX_SLOT \<equiv> 63"

definition MX_LEASE_WORKLOAD_LIVENESS_OFFSET :: "u32 \<Rightarrow> u64" where
  "MX_LEASE_WORKLOAD_LIVENESS_OFFSET slot = 8192 + ucast slot * 2 + 1"

definition MX_LEASE_LIFETIME_OFD_TAG :: "u32 \<Rightarrow> u64" where
  "MX_LEASE_LIFETIME_OFD_TAG slot = MX_LEASE_LIFETIME_OFD_FLAG OR ucast slot"

definition MX_LEASE_SLOT_IDENTITY_OFFSET :: "u32 \<Rightarrow> u64" where
  "MX_LEASE_SLOT_IDENTITY_OFFSET slot = ucast slot * 2"

definition MX_LEASE_SLOT_LIVENESS_OFFSET :: "u32 \<Rightarrow> u64" where
  "MX_LEASE_SLOT_LIVENESS_OFFSET slot = ucast slot * 2 + 1"

text \<open>\<open>enum mx_lease_profile\<close>\<close>

abbreviation (input) MX_LEASE_PROFILE_NONE :: u32 where "MX_LEASE_PROFILE_NONE \<equiv> 0"
abbreviation (input) MX_LEASE_PROFILE_HUB_PUBLISHER :: u32 where "MX_LEASE_PROFILE_HUB_PUBLISHER \<equiv> 1"
abbreviation (input) MX_LEASE_PROFILE_HUB_WORKLOAD :: u32 where "MX_LEASE_PROFILE_HUB_WORKLOAD \<equiv> 2"
abbreviation (input) MX_LEASE_PROFILE_STANDALONE_PUBLISHER :: u32 where
  "MX_LEASE_PROFILE_STANDALONE_PUBLISHER \<equiv> 3"
abbreviation (input) MX_LEASE_PROFILE_STANDALONE_WORKLOAD :: u32 where
  "MX_LEASE_PROFILE_STANDALONE_WORKLOAD \<equiv> 4"
abbreviation (input) MX_LEASE_PROFILE_COORDINATOR_INITIALIZER :: u32 where
  "MX_LEASE_PROFILE_COORDINATOR_INITIALIZER \<equiv> 5"
abbreviation (input) MX_LEASE_PROFILE_COORDINATOR_CONTROL :: u32 where
  "MX_LEASE_PROFILE_COORDINATOR_CONTROL \<equiv> 6"
abbreviation (input) MX_LEASE_PROFILE_COORDINATOR_WORKLOAD :: u32 where
  "MX_LEASE_PROFILE_COORDINATOR_WORKLOAD \<equiv> 7"
abbreviation (input) MX_LEASE_PROFILE_MAX :: u32 where
  "MX_LEASE_PROFILE_MAX \<equiv> MX_LEASE_PROFILE_COORDINATOR_WORKLOAD"

text \<open>\<open>enum mx_lease_family\<close>\<close>

abbreviation (input) MX_LEASE_FAMILY_NONE :: u32 where "MX_LEASE_FAMILY_NONE \<equiv> 0"
abbreviation (input) MX_LEASE_FAMILY_HUB :: u32 where "MX_LEASE_FAMILY_HUB \<equiv> 1"
abbreviation (input) MX_LEASE_FAMILY_STANDALONE :: u32 where "MX_LEASE_FAMILY_STANDALONE \<equiv> 2"
abbreviation (input) MX_LEASE_FAMILY_COORDINATOR :: u32 where "MX_LEASE_FAMILY_COORDINATOR \<equiv> 3"

text \<open>\<open>enum mx_lease_phase\<close>\<close>

abbreviation (input) MX_LEASE_PHASE_NONE :: u32 where "MX_LEASE_PHASE_NONE \<equiv> 0"
abbreviation (input) MX_LEASE_PHASE_QUIESCENT :: u32 where "MX_LEASE_PHASE_QUIESCENT \<equiv> 1"
abbreviation (input) MX_LEASE_PHASE_REPLACEMENT_CANDIDATE :: u32 where
  "MX_LEASE_PHASE_REPLACEMENT_CANDIDATE \<equiv> 2"
abbreviation (input) MX_LEASE_PHASE_WORKLOAD :: u32 where "MX_LEASE_PHASE_WORKLOAD \<equiv> 3"
abbreviation (input) MX_LEASE_PHASE_COORDINATOR_PREPARED :: u32 where
  "MX_LEASE_PHASE_COORDINATOR_PREPARED \<equiv> 4"

text \<open>\<open>enum mx_lease_transition_op\<close>\<close>

abbreviation (input) MX_LEASE_TRANSITION_NONE :: u32 where "MX_LEASE_TRANSITION_NONE \<equiv> 0"
abbreviation (input) MX_LEASE_TRANSITION_TRY_QUIESCENT :: u32 where
  "MX_LEASE_TRANSITION_TRY_QUIESCENT \<equiv> 1"
abbreviation (input) MX_LEASE_TRANSITION_ACTIVATE_WORKLOAD :: u32 where
  "MX_LEASE_TRANSITION_ACTIVATE_WORKLOAD \<equiv> 2"
abbreviation (input) MX_LEASE_TRANSITION_ACTIVATE_REPLACEMENT :: u32 where
  "MX_LEASE_TRANSITION_ACTIVATE_REPLACEMENT \<equiv> 3"
abbreviation (input) MX_LEASE_TRANSITION_ACTIVATE_COORDINATOR :: u32 where
  "MX_LEASE_TRANSITION_ACTIVATE_COORDINATOR \<equiv> 4"
abbreviation (input) MX_LEASE_TRANSITION_MAX :: u32 where
  "MX_LEASE_TRANSITION_MAX \<equiv> MX_LEASE_TRANSITION_ACTIVATE_COORDINATOR"

text \<open>\<open>enum mx_lease_proof_op\<close> and \<open>enum mx_lease_device_state\<close>\<close>

abbreviation (input) MX_LEASE_PROOF_NONE :: u32 where "MX_LEASE_PROOF_NONE \<equiv> 0"
abbreviation (input) MX_LEASE_PROOF_BIND :: u32 where "MX_LEASE_PROOF_BIND \<equiv> 1"
abbreviation (input) MX_LEASE_PROOF_UNBIND :: u32 where "MX_LEASE_PROOF_UNBIND \<equiv> 2"
abbreviation (input) MX_LEASE_PROOF_MAX :: u32 where "MX_LEASE_PROOF_MAX \<equiv> MX_LEASE_PROOF_UNBIND"
abbreviation (input) MX_LEASE_DEVICE_LIVE :: u32 where "MX_LEASE_DEVICE_LIVE \<equiv> 1"

text \<open>Grant bits reported to user space.\<close>

abbreviation (input) MX_LEASE_GRANT_PUBLISHER :: u64 where "MX_LEASE_GRANT_PUBLISHER \<equiv> push_bit 0 1"
abbreviation (input) MX_LEASE_GRANT_FAMILY_HUB :: u64 where "MX_LEASE_GRANT_FAMILY_HUB \<equiv> push_bit 1 1"
abbreviation (input) MX_LEASE_GRANT_FAMILY_STANDALONE :: u64 where
  "MX_LEASE_GRANT_FAMILY_STANDALONE \<equiv> push_bit 2 1"
abbreviation (input) MX_LEASE_GRANT_QUIESCENT :: u64 where "MX_LEASE_GRANT_QUIESCENT \<equiv> push_bit 3 1"
abbreviation (input) MX_LEASE_GRANT_WORKLOAD :: u64 where "MX_LEASE_GRANT_WORKLOAD \<equiv> push_bit 4 1"
abbreviation (input) MX_LEASE_GRANT_REPLACEMENT_CANDIDATE :: u64 where
  "MX_LEASE_GRANT_REPLACEMENT_CANDIDATE \<equiv> push_bit 5 1"
abbreviation (input) MX_LEASE_GRANT_STATE_ANCHORED :: u64 where
  "MX_LEASE_GRANT_STATE_ANCHORED \<equiv> push_bit 6 1"
abbreviation (input) MX_LEASE_GRANT_LEGACY :: u64 where "MX_LEASE_GRANT_LEGACY \<equiv> push_bit 7 1"
abbreviation (input) MX_LEASE_GRANT_SLOT_PROOF_BOUND :: u64 where
  "MX_LEASE_GRANT_SLOT_PROOF_BOUND \<equiv> push_bit 8 1"
abbreviation (input) MX_LEASE_GRANT_LIFETIME_PROOF_BOUND :: u64 where
  "MX_LEASE_GRANT_LIFETIME_PROOF_BOUND \<equiv> push_bit 9 1"
abbreviation (input) MX_LEASE_GRANT_SLOT_DOMAIN_ANCHORED :: u64 where
  "MX_LEASE_GRANT_SLOT_DOMAIN_ANCHORED \<equiv> push_bit 10 1"
abbreviation (input) MX_LEASE_GRANT_FAMILY_COORDINATOR :: u64 where
  "MX_LEASE_GRANT_FAMILY_COORDINATOR \<equiv> push_bit 11 1"
abbreviation (input) MX_LEASE_GRANT_COORDINATOR_PREPARED :: u64 where
  "MX_LEASE_GRANT_COORDINATOR_PREPARED \<equiv> push_bit 12 1"
abbreviation (input) MX_LEASE_GRANT_COORDINATOR_CONTROL :: u64 where
  "MX_LEASE_GRANT_COORDINATOR_CONTROL \<equiv> push_bit 13 1"

text \<open>Capability bits of \<open>MX_IOCTL_GET_LEASE_CAPS\<close> (bit 6, hot removal, is defined and not offered).\<close>

abbreviation (input) MX_LEASE_CAP_OFD_LIFETIME :: u64 where "MX_LEASE_CAP_OFD_LIFETIME \<equiv> push_bit 0 1"
abbreviation (input) MX_LEASE_CAP_STATE_INODE_ANCHOR :: u64 where "MX_LEASE_CAP_STATE_INODE_ANCHOR \<equiv> push_bit 1 1"
abbreviation (input) MX_LEASE_CAP_FAMILY_EXCLUSION :: u64 where "MX_LEASE_CAP_FAMILY_EXCLUSION \<equiv> push_bit 2 1"
abbreviation (input) MX_LEASE_CAP_ATOMIC_TRANSITION :: u64 where "MX_LEASE_CAP_ATOMIC_TRANSITION \<equiv> push_bit 3 1"
abbreviation (input) MX_LEASE_CAP_HUB_REPLACEMENT :: u64 where "MX_LEASE_CAP_HUB_REPLACEMENT \<equiv> push_bit 4 1"
abbreviation (input) MX_LEASE_CAP_LEGACY_EXCLUSION :: u64 where "MX_LEASE_CAP_LEGACY_EXCLUSION \<equiv> push_bit 5 1"
abbreviation (input) MX_LEASE_CAP_HOT_REMOVE_SAFE :: u64 where "MX_LEASE_CAP_HOT_REMOVE_SAFE \<equiv> push_bit 6 1"
abbreviation (input) MX_LEASE_CAP_PRIVILEGED_REPLACEMENT :: u64 where "MX_LEASE_CAP_PRIVILEGED_REPLACEMENT \<equiv> push_bit 7 1"
abbreviation (input) MX_LEASE_CAP_RESERVED_HIO_QID :: u64 where "MX_LEASE_CAP_RESERVED_HIO_QID \<equiv> push_bit 8 1"
abbreviation (input) MX_LEASE_CAP_PERSISTENT_STATE_ANCHOR :: u64 where "MX_LEASE_CAP_PERSISTENT_STATE_ANCHOR \<equiv> push_bit 9 1"
abbreviation (input) MX_LEASE_CAP_PRIVILEGED_FRESH_ANCHOR :: u64 where "MX_LEASE_CAP_PRIVILEGED_FRESH_ANCHOR \<equiv> push_bit 10 1"
abbreviation (input) MX_LEASE_CAP_PRIVILEGED_PUBLISHER :: u64 where "MX_LEASE_CAP_PRIVILEGED_PUBLISHER \<equiv> push_bit 11 1"
abbreviation (input) MX_LEASE_CAP_WORKLOAD_PROOF_BINDING :: u64 where "MX_LEASE_CAP_WORKLOAD_PROOF_BINDING \<equiv> push_bit 12 1"
abbreviation (input) MX_LEASE_CAP_CANONICAL_SLOT_OFD_PROOF :: u64 where "MX_LEASE_CAP_CANONICAL_SLOT_OFD_PROOF \<equiv> push_bit 13 1"
abbreviation (input) MX_LEASE_CAP_COORDINATED_PARTICIPANTS :: u64 where "MX_LEASE_CAP_COORDINATED_PARTICIPANTS \<equiv> push_bit 14 1"
abbreviation (input) MX_LEASE_CAP_WORKLOAD_OFD_LIFETIME :: u64 where "MX_LEASE_CAP_WORKLOAD_OFD_LIFETIME \<equiv> push_bit 15 1"
abbreviation (input) MX_LEASE_CAP_SCOPED_MEMORY_COMMANDS :: u64 where "MX_LEASE_CAP_SCOPED_MEMORY_COMMANDS \<equiv> push_bit 16 1"

section \<open>Request structures\<close>

text \<open>A two-word array is a pair; a file descriptor is an \<open>int\<close>.\<close>

record mx_lease_caps =
  cap_abi_magic :: u64
  capabilities :: u64
  cap_device_incarnation :: u64
  cap_abi_version :: u32
  cap_struct_size :: u32
  max_profile :: u32
  max_transition :: u32
  cap_reserved_hio_qid :: int

record mx_lease_acquire_req =
  acq_abi_magic :: u64
  acq_expected_incarnation :: u64
  acq_expected_generation :: u64
  acq_identity :: "u64 \<times> u64"
  acq_state_fd :: int
  acq_profile :: u32
  acq_abi_version :: u32
  acq_struct_size :: u32
  acq_device_incarnation :: u64
  acq_lease_generation :: u64
  acq_grants :: u64
  acq_state_dev :: u64
  acq_state_ino :: u64
  acq_phase :: u32
  acq_family :: u32
  acq_publisher_count :: u32
  acq_workload_count :: u32
  acq_family_holder_count :: u32
  acq_legacy_count :: u32
  acq_reserved :: u64

record mx_lease_transition_req =
  trn_abi_magic :: u64
  trn_expected_incarnation :: u64
  trn_expected_generation :: u64
  trn_operation :: u32
  trn_abi_version :: u32
  trn_struct_size :: u32
  trn_reserved0 :: u32
  trn_device_incarnation :: u64
  trn_lease_generation :: u64
  trn_grants :: u64
  trn_phase :: u32
  trn_family :: u32
  trn_publisher_count :: u32
  trn_workload_count :: u32
  trn_family_holder_count :: u32
  trn_legacy_count :: u32
  trn_reserved1 :: u64

record mx_lease_query_req =
  qry_abi_magic :: u64
  qry_expected_incarnation :: u64
  qry_abi_version :: u32
  qry_struct_size :: u32
  qry_device_incarnation :: u64
  qry_lease_generation :: u64
  qry_identity :: "u64 \<times> u64"
  qry_grants :: u64
  qry_state_dev :: u64
  qry_state_ino :: u64
  qry_profile :: u32
  qry_phase :: u32
  qry_family :: u32
  qry_publisher_count :: u32
  qry_workload_count :: u32
  qry_family_holder_count :: u32
  qry_legacy_count :: u32
  qry_device_state :: u32
  qry_slot_domain_dev :: u64
  qry_slot_domain_ino :: u64

record mx_lease_slot_domain_req =
  dom_abi_magic :: u64
  dom_expected_incarnation :: u64
  dom_expected_generation :: u64
  dom_fd :: int
  dom_abi_version :: u32
  dom_struct_size :: u32
  dom_reserved0 :: u32
  dom_dev :: u64
  dom_ino :: u64
  dom_grants :: u64

record mx_lease_proofs_req =
  prf_abi_magic :: u64
  prf_expected_incarnation :: u64
  prf_expected_generation :: u64
  prf_identity :: "u64 \<times> u64"
  prf_slot_fd :: int
  prf_lifetime_fd :: int
  prf_slot :: u32
  prf_operation :: u32
  prf_abi_version :: u32
  prf_struct_size :: u32
  prf_grants :: u64
  prf_slot_dev :: u64
  prf_slot_ino :: u64
  prf_lifetime_dev :: u64
  prf_lifetime_ino :: u64
  prf_reserved0 :: u64
  prf_reserved1 :: u64
  prf_reserved2 :: u64

end
