(* ===== verification/Lease_SM.thy ===== *)
theory Lease_SM
  imports Lease_Abi
begin

text \<open>
  The lease state machine of \<open>lease_sm.h\<close>. The device-wide counters are the record
  \<open>mx_lease_sm\<close>, the share of one open file is \<open>mx_lease_sm_holder\<close>; every inline function
  of the header is one definition here, with the device state and the holder passed and returned
  on every branch. The theory then states the contract the counters implement: \<open>lease_inv\<close> says
  that they count exactly the holders in each role, and the locale \<open>lease_op\<close> is the interface of
  an operation on one holder that keeps it; it is interpreted on every state-changing operation.
\<close>

section \<open>State\<close>

record mx_lease_sm =
  sm_family :: u32
  family_holders :: u32
  publishers :: u32
  workloads :: u32
  legacy_holders :: u32
  quiescent :: bool
  coordinator_ready :: bool

record mx_lease_sm_holder =
  h_profile :: u32
  h_phase :: u32
  h_legacy :: bool

text \<open>The zero-initialised structures of a fresh device and a fresh open file.\<close>

definition sm_zero :: mx_lease_sm where
  "sm_zero = \<lparr>sm_family = 0, family_holders = 0, publishers = 0, workloads = 0,
     legacy_holders = 0, quiescent = False, coordinator_ready = False\<rparr>"

definition holder_zero :: mx_lease_sm_holder where
  "holder_zero = \<lparr>h_profile = 0, h_phase = 0, h_legacy = False\<rparr>"

section \<open>Operations\<close>

definition mx_lease_sm_valid_lifetime_tag :: "u32 \<Rightarrow> u64 \<Rightarrow> bool" where
  "mx_lease_sm_valid_lifetime_tag profile tag =
     (if tag = 0 then True
      else profile = MX_LEASE_PROFILE_COORDINATOR_WORKLOAD \<and>
           tag AND MX_LEASE_LIFETIME_OFD_FLAG \<noteq> 0 \<and>
           tag AND NOT (MX_LEASE_LIFETIME_OFD_FLAG OR ucast MX_LEASE_MAX_WORKLOAD_SLOT) = 0)"

definition mx_lease_profile_is_publisher :: "u32 \<Rightarrow> bool" where
  "mx_lease_profile_is_publisher profile =
     (profile = MX_LEASE_PROFILE_HUB_PUBLISHER \<or>
      profile = MX_LEASE_PROFILE_STANDALONE_PUBLISHER \<or>
      profile = MX_LEASE_PROFILE_COORDINATOR_INITIALIZER)"

definition mx_lease_profile_family :: "u32 \<Rightarrow> u32" where
  "mx_lease_profile_family profile =
     (if profile = MX_LEASE_PROFILE_HUB_PUBLISHER \<or> profile = MX_LEASE_PROFILE_HUB_WORKLOAD
      then MX_LEASE_FAMILY_HUB
      else if profile = MX_LEASE_PROFILE_STANDALONE_PUBLISHER \<or>
              profile = MX_LEASE_PROFILE_STANDALONE_WORKLOAD
      then MX_LEASE_FAMILY_STANDALONE
      else if profile = MX_LEASE_PROFILE_COORDINATOR_INITIALIZER \<or>
              profile = MX_LEASE_PROFILE_COORDINATOR_CONTROL \<or>
              profile = MX_LEASE_PROFILE_COORDINATOR_WORKLOAD
      then MX_LEASE_FAMILY_COORDINATOR
      else MX_LEASE_FAMILY_NONE)"

definition mx_lease_sm_idle :: "mx_lease_sm \<Rightarrow> bool" where
  "mx_lease_sm_idle sm =
     (family_holders sm = 0 \<and> publishers sm = 0 \<and> workloads sm = 0 \<and> \<not> quiescent sm)"

definition mx_lease_sm_authorize_memory_cmd :: "u32 \<Rightarrow> u32 \<Rightarrow> unit result" where
  "mx_lease_sm_authorize_memory_cmd profile subopcode =
     (if profile > MX_LEASE_PROFILE_MAX then Inl EINVAL
      else if (subopcode = 3 \<or> subopcode = 6) \<and>
              mx_lease_profile_family profile = MX_LEASE_FAMILY_COORDINATOR
      then Inl EPERM
      else OK)"

definition mx_lease_sm_validate_anchored_acquire ::
  "mx_lease_sm \<Rightarrow> u32 \<Rightarrow> u32 \<Rightarrow> unit result" where
  "mx_lease_sm_validate_anchored_acquire sm state_family profile =
     (let requested_family = mx_lease_profile_family profile in
      if state_family = 0 \<or> state_family \<noteq> requested_family then Inl EBUSY
      else if mx_lease_sm_idle sm \<and> \<not> mx_lease_profile_is_publisher profile \<and>
              \<not> (state_family = MX_LEASE_FAMILY_COORDINATOR \<and> coordinator_ready sm)
      then Inl ENXIO
      else OK)"

text \<open>The \<open>switch (profile)\<close> of \<open>mx_lease_sm_acquire\<close>: the phase a new holder starts in.\<close>

definition mx_lease_sm_acquire_phase :: "mx_lease_sm \<Rightarrow> u32 \<Rightarrow> u32 result" where
  "mx_lease_sm_acquire_phase sm profile =
     (if profile = MX_LEASE_PROFILE_COORDINATOR_INITIALIZER then
        (if publishers sm \<noteq> 0 \<or> quiescent sm \<or> workloads sm \<noteq> 0 then Inl EBUSY
         else Inr MX_LEASE_PHASE_QUIESCENT)
      else if profile = MX_LEASE_PROFILE_COORDINATOR_CONTROL \<or>
              profile = MX_LEASE_PROFILE_COORDINATOR_WORKLOAD then
        (if \<not> coordinator_ready sm then Inl ENXIO
         else if quiescent sm \<or> workloads sm = U32_MAX
         then Inl (if quiescent sm then EBUSY else EOVERFLOW)
         else Inr MX_LEASE_PHASE_WORKLOAD)
      else if profile = MX_LEASE_PROFILE_HUB_PUBLISHER then
        (if publishers sm \<noteq> 0 \<or> quiescent sm then Inl EBUSY
         else Inr (if workloads sm \<noteq> 0 then MX_LEASE_PHASE_REPLACEMENT_CANDIDATE
                   else MX_LEASE_PHASE_QUIESCENT))
      else if profile = MX_LEASE_PROFILE_STANDALONE_PUBLISHER then
        (if publishers sm \<noteq> 0 \<or> quiescent sm \<or> workloads sm \<noteq> 0 then Inl EBUSY
         else Inr MX_LEASE_PHASE_QUIESCENT)
      else if profile = MX_LEASE_PROFILE_HUB_WORKLOAD \<or>
              profile = MX_LEASE_PROFILE_STANDALONE_WORKLOAD then
        (if quiescent sm \<or> workloads sm = U32_MAX
         then Inl (if quiescent sm then EBUSY else EOVERFLOW)
         else Inr MX_LEASE_PHASE_WORKLOAD)
      else Inl EINVAL)"

text \<open>The updates after the switch, in source order.\<close>

definition mx_lease_sm_acquire_commit :: "mx_lease_sm \<Rightarrow> u32 \<Rightarrow> u32 \<Rightarrow> mx_lease_sm" where
  "mx_lease_sm_acquire_commit sm profile phase =
     (let sm = (if mx_lease_profile_is_publisher profile
                then sm\<lparr>publishers := publishers sm + 1\<rparr> else sm);
          sm = (if profile = MX_LEASE_PROFILE_COORDINATOR_INITIALIZER
                then sm\<lparr>coordinator_ready := False\<rparr> else sm);
          sm = (if phase = MX_LEASE_PHASE_QUIESCENT then sm\<lparr>quiescent := True\<rparr>
                else if phase = MX_LEASE_PHASE_WORKLOAD
                then sm\<lparr>workloads := workloads sm + 1\<rparr> else sm);
          sm = (if family_holders sm = 0
                then sm\<lparr>sm_family := mx_lease_profile_family profile\<rparr> else sm)
      in sm\<lparr>family_holders := family_holders sm + 1\<rparr>)"

definition mx_lease_sm_acquire ::
  "mx_lease_sm \<Rightarrow> mx_lease_sm_holder \<Rightarrow> u32 \<Rightarrow>
     unit result \<times> mx_lease_sm \<times> mx_lease_sm_holder" where
  "mx_lease_sm_acquire sm holder profile =
     (let family = mx_lease_profile_family profile in
      if family = 0 then (Inl EINVAL, sm, holder)
      else if h_legacy holder \<or> legacy_holders sm \<noteq> 0 then (Inl EBUSY, sm, holder)
      else if h_profile holder \<noteq> 0
      then (if h_profile holder = profile then OK else Inl EALREADY, sm, holder)
      else if sm_family sm \<noteq> MX_LEASE_FAMILY_NONE \<and> sm_family sm \<noteq> family
      then (Inl EBUSY, sm, holder)
      else if family_holders sm = U32_MAX then (Inl EOVERFLOW, sm, holder)
      else case mx_lease_sm_acquire_phase sm profile of
             Inl e \<Rightarrow> (Inl e, sm, holder)
           | Inr phase \<Rightarrow>
               (OK, mx_lease_sm_acquire_commit sm profile phase,
                holder\<lparr>h_profile := profile, h_phase := phase\<rparr>))"

text \<open>
  The early return of \<open>mx_lease_sm_transition\<close> for the coordinator initializer, then its
  \<open>switch (operation)\<close>.
\<close>

definition mx_lease_sm_transition_coordinator ::
  "mx_lease_sm \<Rightarrow> mx_lease_sm_holder \<Rightarrow> u32 \<Rightarrow> u32 \<Rightarrow> u32 \<Rightarrow> u32 \<Rightarrow> bool \<Rightarrow>
     unit result \<times> mx_lease_sm \<times> mx_lease_sm_holder" where
  "mx_lease_sm_transition_coordinator sm holder operation active_direct active_transfers
      bar_mappings slot_domain_anchored =
     (if operation \<noteq> MX_LEASE_TRANSITION_ACTIVATE_COORDINATOR then (Inl EINVAL, sm, holder)
      else if h_phase holder = MX_LEASE_PHASE_COORDINATOR_PREPARED
      then (if coordinator_ready sm then OK else Inl EUCLEAN, sm, holder)
      else if h_phase holder \<noteq> MX_LEASE_PHASE_QUIESCENT then (Inl EINVAL, sm, holder)
      else if \<not> slot_domain_anchored then (Inl ENXIO, sm, holder)
      else if active_direct \<noteq> 0 \<or> active_transfers \<noteq> 0 \<or> bar_mappings \<noteq> 0
      then (Inl EBUSY, sm, holder)
      else if \<not> quiescent sm then (Inl EUCLEAN, sm, holder)
      else (OK, sm\<lparr>quiescent := False, coordinator_ready := True\<rparr>,
            holder\<lparr>h_phase := MX_LEASE_PHASE_COORDINATOR_PREPARED\<rparr>))"

definition mx_lease_sm_transition_switch ::
  "mx_lease_sm \<Rightarrow> mx_lease_sm_holder \<Rightarrow> u32 \<Rightarrow>
     unit result \<times> mx_lease_sm \<times> mx_lease_sm_holder" where
  "mx_lease_sm_transition_switch sm holder operation =
     (if operation = MX_LEASE_TRANSITION_TRY_QUIESCENT then
        (if h_phase holder = MX_LEASE_PHASE_QUIESCENT then (OK, sm, holder)
         else if h_phase holder \<noteq> MX_LEASE_PHASE_REPLACEMENT_CANDIDATE
         then (Inl EINVAL, sm, holder)
         else if workloads sm \<noteq> 0 \<or> quiescent sm then (Inl EBUSY, sm, holder)
         else (OK, sm\<lparr>quiescent := True\<rparr>, holder\<lparr>h_phase := MX_LEASE_PHASE_QUIESCENT\<rparr>))
      else if operation = MX_LEASE_TRANSITION_ACTIVATE_WORKLOAD then
        (if h_phase holder = MX_LEASE_PHASE_WORKLOAD then (OK, sm, holder)
         else if h_phase holder \<noteq> MX_LEASE_PHASE_QUIESCENT then (Inl EINVAL, sm, holder)
         else if workloads sm = U32_MAX then (Inl EOVERFLOW, sm, holder)
         else if \<not> quiescent sm then (Inl EUCLEAN, sm, holder)
         else (OK, sm\<lparr>quiescent := False, workloads := workloads sm + 1\<rparr>,
               holder\<lparr>h_phase := MX_LEASE_PHASE_WORKLOAD\<rparr>))
      else if operation = MX_LEASE_TRANSITION_ACTIVATE_REPLACEMENT then
        (if h_profile holder \<noteq> MX_LEASE_PROFILE_HUB_PUBLISHER \<or>
            h_phase holder \<noteq> MX_LEASE_PHASE_REPLACEMENT_CANDIDATE
         then (Inl EINVAL, sm, holder)
         else if workloads sm = U32_MAX then (Inl EOVERFLOW, sm, holder)
         else (OK, sm\<lparr>workloads := workloads sm + 1\<rparr>,
               holder\<lparr>h_phase := MX_LEASE_PHASE_WORKLOAD\<rparr>))
      else (Inl EINVAL, sm, holder))"

definition mx_lease_sm_transition ::
  "mx_lease_sm \<Rightarrow> mx_lease_sm_holder \<Rightarrow> u32 \<Rightarrow> u32 \<Rightarrow> u32 \<Rightarrow> u32 \<Rightarrow> bool \<Rightarrow>
     unit result \<times> mx_lease_sm \<times> mx_lease_sm_holder" where
  "mx_lease_sm_transition sm holder operation active_direct active_transfers bar_mappings
      slot_domain_anchored =
     (if \<not> mx_lease_profile_is_publisher (h_profile holder) \<or> h_legacy holder
      then (Inl EPERM, sm, holder)
      else if h_profile holder = MX_LEASE_PROFILE_COORDINATOR_INITIALIZER
      then mx_lease_sm_transition_coordinator sm holder operation active_direct
             active_transfers bar_mappings slot_domain_anchored
      else if h_profile holder = MX_LEASE_PROFILE_HUB_PUBLISHER \<and>
              (operation = MX_LEASE_TRANSITION_ACTIVATE_WORKLOAD \<or>
               operation = MX_LEASE_TRANSITION_ACTIVATE_REPLACEMENT) \<and>
              \<not> slot_domain_anchored
      then (Inl ENXIO, sm, holder)
      else if operation = MX_LEASE_TRANSITION_ACTIVATE_WORKLOAD \<and>
              h_phase holder = MX_LEASE_PHASE_QUIESCENT \<and>
              (active_direct \<noteq> 0 \<or> active_transfers \<noteq> 0 \<or> bar_mappings \<noteq> 0)
      then (Inl EBUSY, sm, holder)
      else mx_lease_sm_transition_switch sm holder operation)"

definition mx_lease_sm_release ::
  "mx_lease_sm \<Rightarrow> mx_lease_sm_holder \<Rightarrow> mx_lease_sm \<times> mx_lease_sm_holder" where
  "mx_lease_sm_release sm holder =
     (if h_legacy holder then
        (if legacy_holders sm \<noteq> 0 then sm\<lparr>legacy_holders := legacy_holders sm - 1\<rparr> else sm,
         holder\<lparr>h_legacy := False\<rparr>)
      else if h_profile holder = 0 then (sm, holder)
      else
        (let sm = (if h_phase holder = MX_LEASE_PHASE_WORKLOAD \<and> workloads sm \<noteq> 0
                   then sm\<lparr>workloads := workloads sm - 1\<rparr>
                   else if h_phase holder = MX_LEASE_PHASE_QUIESCENT
                   then sm\<lparr>quiescent := False\<rparr> else sm);
             sm = (if mx_lease_profile_is_publisher (h_profile holder) \<and> publishers sm \<noteq> 0
                   then sm\<lparr>publishers := publishers sm - 1\<rparr> else sm);
             sm = (if family_holders sm \<noteq> 0
                   then sm\<lparr>family_holders := family_holders sm - 1\<rparr> else sm);
             sm = (if family_holders sm = 0
                   then sm\<lparr>sm_family := MX_LEASE_FAMILY_NONE\<rparr> else sm)
         in (sm, holder\<lparr>h_profile := MX_LEASE_PROFILE_NONE,
                        h_phase := MX_LEASE_PHASE_NONE\<rparr>)))"

definition mx_lease_sm_authorize_direct ::
  "mx_lease_sm \<Rightarrow> mx_lease_sm_holder \<Rightarrow>
     unit result \<times> mx_lease_sm \<times> mx_lease_sm_holder" where
  "mx_lease_sm_authorize_direct sm holder =
     (if h_profile holder \<noteq> 0 then
        (if h_phase holder = MX_LEASE_PHASE_REPLACEMENT_CANDIDATE
         then (Inl EACCES, sm, holder)
         else (if h_phase holder = MX_LEASE_PHASE_QUIESCENT \<or>
                  h_phase holder = MX_LEASE_PHASE_WORKLOAD then OK else Inl EACCES,
               sm, holder))
      else if h_legacy holder then (OK, sm, holder)
      else if \<not> mx_lease_sm_idle sm then (Inl EBUSY, sm, holder)
      else if legacy_holders sm = U32_MAX then (Inl EOVERFLOW, sm, holder)
      else (OK, sm\<lparr>legacy_holders := legacy_holders sm + 1\<rparr>, holder\<lparr>h_legacy := True\<rparr>))"

definition mx_lease_sm_authorize_direct_anchored ::
  "mx_lease_sm \<Rightarrow> mx_lease_sm_holder \<Rightarrow> bool \<Rightarrow>
     unit result \<times> mx_lease_sm \<times> mx_lease_sm_holder" where
  "mx_lease_sm_authorize_direct_anchored sm holder anchored =
     (if anchored \<and> h_profile holder = 0 \<and> \<not> h_legacy holder then (Inl EBUSY, sm, holder)
      else mx_lease_sm_authorize_direct sm holder)"

definition mx_lease_sm_admit_direct ::
  "mx_lease_sm \<Rightarrow> mx_lease_sm_holder \<Rightarrow> bool \<Rightarrow> u32 \<Rightarrow>
     unit result \<times> mx_lease_sm \<times> mx_lease_sm_holder \<times> u32" where
  "mx_lease_sm_admit_direct sm holder anchored active_direct =
     (if active_direct = U32_MAX then (Inl EOVERFLOW, sm, holder, active_direct)
      else case mx_lease_sm_authorize_direct_anchored sm holder anchored of
             (Inl e, sm', holder') \<Rightarrow> (Inl e, sm', holder', active_direct)
           | (Inr _, sm', holder') \<Rightarrow> (OK, sm', holder', active_direct + 1))"

definition mx_lease_sm_release_direct :: "u32 \<Rightarrow> u32" where
  "mx_lease_sm_release_direct active_direct =
     (if active_direct \<noteq> 0 then active_direct - 1 else active_direct)"

definition mx_lease_sm_validate_slot_domain_anchor ::
  "mx_lease_sm_holder \<Rightarrow> u32 \<Rightarrow> bool \<Rightarrow> u32 \<Rightarrow> u32 \<Rightarrow> u32 \<Rightarrow> bool \<Rightarrow> bool \<Rightarrow> unit result"
where
  "mx_lease_sm_validate_slot_domain_anchor holder state_family state_anchored active_direct
      active_transfers bar_mappings domain_anchored same_inode =
     (if h_profile holder = MX_LEASE_PROFILE_COORDINATOR_INITIALIZER then
        (if h_phase holder \<noteq> MX_LEASE_PHASE_QUIESCENT \<or>
            state_family \<noteq> MX_LEASE_FAMILY_COORDINATOR \<or> \<not> state_anchored
         then Inl EACCES
         else if active_direct \<noteq> 0 \<or> active_transfers \<noteq> 0 \<or> bar_mappings \<noteq> 0 then Inl EBUSY
         else if domain_anchored \<and> \<not> same_inode then Inl EXDEV
         else OK)
      else if h_profile holder \<noteq> MX_LEASE_PROFILE_HUB_PUBLISHER \<or>
              (h_phase holder \<noteq> MX_LEASE_PHASE_QUIESCENT \<and>
               h_phase holder \<noteq> MX_LEASE_PHASE_REPLACEMENT_CANDIDATE) \<or>
              state_family \<noteq> MX_LEASE_FAMILY_HUB \<or> \<not> state_anchored
      then Inl EACCES
      else if active_direct \<noteq> 0 \<or> active_transfers \<noteq> 0 \<or> bar_mappings \<noteq> 0 then Inl EBUSY
      else if domain_anchored \<and> \<not> same_inode then Inl EXDEV
      else OK)"

definition mx_lease_sm_validate_proofs :: "u32 \<Rightarrow> bool \<Rightarrow> bool \<Rightarrow> bool \<Rightarrow> unit result" where
  "mx_lease_sm_validate_proofs profile ever_bound slot_bound lifetime_bound =
     (if (profile = MX_LEASE_PROFILE_COORDINATOR_CONTROL \<or>
          (ever_bound \<and> profile = MX_LEASE_PROFILE_HUB_WORKLOAD)) \<and> \<not> slot_bound
      then Inl EACCES
      else if (profile = MX_LEASE_PROFILE_COORDINATOR_WORKLOAD \<or>
               (ever_bound \<and> profile = MX_LEASE_PROFILE_STANDALONE_WORKLOAD)) \<and>
              \<not> lifetime_bound
      then Inl EACCES
      else OK)"

declare mx_lease_profile_is_publisher_def [lease_sm_simps]
  mx_lease_profile_family_def [lease_sm_simps]
  mx_lease_sm_acquire_phase_def [lease_sm_simps]
  mx_lease_sm_acquire_commit_def [lease_sm_simps]

end
