(* ===== verification/Lease_Inv.thy ===== *)
theory Lease_Inv
  imports Lease_SM
begin

text \<open>
  The correctness of the lease state machine over all open files of one device. \<open>lease_inv\<close>
  relates the device-wide counters to the list of the holders of all files; the locale
  \<open>lease_op\<close> is the contract of an operation on one holder, interpreted on acquire,
  transition, release and direct-access authorisation. \<open>lease_step\<close> interleaves these operations
  over any number of files, and the theorems are about every reachable state.
\<close>

section \<open>The invariant\<close>

text \<open>Which phases a holder of each profile can be in.\<close>

definition phase_ok :: "u32 \<Rightarrow> u32 \<Rightarrow> bool" where
  "phase_ok profile phase =
     (if profile = MX_LEASE_PROFILE_NONE then phase = MX_LEASE_PHASE_NONE
      else if profile = MX_LEASE_PROFILE_HUB_PUBLISHER
      then phase = MX_LEASE_PHASE_QUIESCENT \<or> phase = MX_LEASE_PHASE_REPLACEMENT_CANDIDATE \<or>
           phase = MX_LEASE_PHASE_WORKLOAD
      else if profile = MX_LEASE_PROFILE_STANDALONE_PUBLISHER
      then phase = MX_LEASE_PHASE_QUIESCENT \<or> phase = MX_LEASE_PHASE_WORKLOAD
      else if profile = MX_LEASE_PROFILE_COORDINATOR_INITIALIZER
      then phase = MX_LEASE_PHASE_QUIESCENT \<or> phase = MX_LEASE_PHASE_COORDINATOR_PREPARED
      else mx_lease_profile_family profile \<noteq> 0 \<and> phase = MX_LEASE_PHASE_WORKLOAD)"

definition holder_ok :: "mx_lease_sm \<Rightarrow> mx_lease_sm_holder \<Rightarrow> bool" where
  "holder_ok sm h =
     (phase_ok (h_profile h) (h_phase h) \<and>
      (h_legacy h \<longrightarrow> h_profile h = 0) \<and>
      (h_profile h \<noteq> 0 \<longrightarrow> mx_lease_profile_family (h_profile h) = sm_family sm) \<and>
      (h_phase h = MX_LEASE_PHASE_COORDINATOR_PREPARED \<longrightarrow> coordinator_ready sm))"

definition is_holder :: "mx_lease_sm_holder \<Rightarrow> bool" where
  "is_holder h = (h_profile h \<noteq> 0)"

definition is_publisher :: "mx_lease_sm_holder \<Rightarrow> bool" where
  "is_publisher h = mx_lease_profile_is_publisher (h_profile h)"

definition in_workload :: "mx_lease_sm_holder \<Rightarrow> bool" where
  "in_workload h = (h_phase h = MX_LEASE_PHASE_WORKLOAD)"

definition in_quiescent :: "mx_lease_sm_holder \<Rightarrow> bool" where
  "in_quiescent h = (h_phase h = MX_LEASE_PHASE_QUIESCENT)"

lemmas role_defs = is_holder_def is_publisher_def in_workload_def in_quiescent_def

definition lease_inv :: "mx_lease_sm \<Rightarrow> mx_lease_sm_holder list \<Rightarrow> bool" where
  "lease_inv sm hs =
     (unat (family_holders sm) = cnt is_holder hs \<and>
      unat (publishers sm) = cnt is_publisher hs \<and>
      unat (workloads sm) = cnt in_workload hs \<and>
      unat (legacy_holders sm) = cnt h_legacy hs \<and>
      of_bool (quiescent sm) = cnt in_quiescent hs \<and>
      cnt is_publisher hs \<le> 1 \<and>
      (quiescent sm \<longrightarrow> cnt in_workload hs = 0) \<and>
      (cnt h_legacy hs \<noteq> 0 \<longrightarrow> cnt is_holder hs = 0) \<and>
      (sm_family sm = 0 \<longleftrightarrow> cnt is_holder hs = 0) \<and>
      (\<forall>h \<in> set hs. holder_ok sm h))"

lemma lease_inv_perm: "mset hs = mset hs' \<Longrightarrow> lease_inv sm hs = lease_inv sm hs'"
  unfolding lease_inv_def by (simp add: cnt_perm [of hs hs'] mset_eq_setD [of hs hs'])

text \<open>Views of the invariant on one holder and the rest.\<close>

lemma lease_inv_nth: "i < length hs \<Longrightarrow> lease_inv sm hs = lease_inv sm (hs ! i # others i hs)"
  by (rule lease_inv_perm) (simp only: mset_others)

lemma lease_inv_update:
  "i < length hs \<Longrightarrow> lease_inv sm (hs[i := h]) = lease_inv sm (h # others i hs)"
  by (rule lease_inv_perm) (rule mset_list_update)

lemma lease_inv_zero: "lease_inv sm_zero []"
  by (simp add: lease_inv_def sm_zero_def)

lemma holder_ok_zero: "holder_ok sm holder_zero"
  by (simp add: holder_ok_def holder_zero_def phase_ok_def)

lemma lease_inv_open: "lease_inv sm hs \<Longrightarrow> lease_inv sm (hs @ [holder_zero])"
  by (simp add: lease_inv_def role_defs holder_ok_zero)
     (simp add: holder_zero_def mx_lease_profile_is_publisher_def)

section \<open>The contract of an operation on one holder\<close>

locale lease_op =
  fixes f :: "mx_lease_sm \<Rightarrow> mx_lease_sm_holder \<Rightarrow> 'r \<times> mx_lease_sm \<times> mx_lease_sm_holder"
  assumes keeps: "lease_inv sm (h # os) \<Longrightarrow> f sm h = (r, sm', h') \<Longrightarrow> lease_inv sm' (h' # os)"
begin

lemma keeps_at:
  assumes "lease_inv sm hs" "i < length hs" "f sm (hs ! i) = (r, sm', h')"
  shows "lease_inv sm' (hs[i := h'])"
proof -
  have "lease_inv sm (hs ! i # others i hs)"
    using assms(1,2) by (simp add: lease_inv_nth)
  from keeps [OF this assms(3)] show ?thesis
    by (simp add: lease_inv_update [OF assms(2)])
qed

end

section \<open>Every operation keeps the invariant\<close>

lemma acquire_cases:
  "mx_lease_sm_acquire sm h p = (r, sm', h') \<Longrightarrow>
   (sm' = sm \<and> h' = h) \<or>
   (\<exists>phase. r = OK \<and> mx_lease_profile_family p \<noteq> 0 \<and> \<not> h_legacy h \<and> legacy_holders sm = 0 \<and>
      h_profile h = 0 \<and> (sm_family sm = 0 \<or> sm_family sm = mx_lease_profile_family p) \<and>
      family_holders sm \<noteq> U32_MAX \<and> mx_lease_sm_acquire_phase sm p = Inr phase \<and>
      sm' = mx_lease_sm_acquire_commit sm p phase \<and>
      h' = h\<lparr>h_profile := p, h_phase := phase\<rparr>)"
  unfolding mx_lease_sm_acquire_def Let_def
  by (simp split: if_split_asm sum.split_asm)

lemma acquire_phase_cases:
  "mx_lease_sm_acquire_phase sm p = Inr phase \<Longrightarrow>
   \<not> quiescent sm \<and> phase_ok p phase \<and>
   (phase = MX_LEASE_PHASE_QUIESCENT \<and> mx_lease_profile_is_publisher p \<and>
      publishers sm = 0 \<and> workloads sm = 0 \<or>
    phase = MX_LEASE_PHASE_REPLACEMENT_CANDIDATE \<and> p = MX_LEASE_PROFILE_HUB_PUBLISHER \<and>
      publishers sm = 0 \<or>
    phase = MX_LEASE_PHASE_WORKLOAD \<and> \<not> mx_lease_profile_is_publisher p \<and>
      workloads sm \<noteq> U32_MAX)"
  unfolding mx_lease_sm_acquire_phase_def
  by (simp add: phase_ok_def mx_lease_profile_is_publisher_def mx_lease_profile_family_def
      split: if_split_asm) auto

text \<open>What the others need: their family and, for a prepared initializer, the ready flag.\<close>

lemma holder_ok_cong:
  "holder_ok sm h \<Longrightarrow> sm_family sm' = sm_family sm \<Longrightarrow>
   coordinator_ready sm' = coordinator_ready sm \<Longrightarrow> holder_ok sm' h"
  by (simp add: holder_ok_def)

lemma holder_ok_nonpublisher:
  "holder_ok sm h \<Longrightarrow> \<not> is_publisher h \<Longrightarrow> sm_family sm' = sm_family sm \<Longrightarrow> holder_ok sm' h"
  by (simp add: holder_ok_def phase_ok_def role_defs mx_lease_profile_is_publisher_def
      split: if_split_asm) auto

lemma holder_ok_nonholder: "holder_ok sm h \<Longrightarrow> \<not> is_holder h \<Longrightarrow> holder_ok sm' h"
  by (simp add: holder_ok_def phase_ok_def role_defs)

text \<open>The effect of a successful acquire on the counters and on the other holders.\<close>

lemma acquire_commit_counts:
  "family_holders (mx_lease_sm_acquire_commit sm p phase) = family_holders sm + 1"
  "publishers (mx_lease_sm_acquire_commit sm p phase) =
     (if mx_lease_profile_is_publisher p then publishers sm + 1 else publishers sm)"
  "workloads (mx_lease_sm_acquire_commit sm p phase) =
     (if phase = MX_LEASE_PHASE_WORKLOAD then workloads sm + 1 else workloads sm)"
  "legacy_holders (mx_lease_sm_acquire_commit sm p phase) = legacy_holders sm"
  "quiescent (mx_lease_sm_acquire_commit sm p phase) =
     (quiescent sm \<or> phase = MX_LEASE_PHASE_QUIESCENT)"
  "coordinator_ready (mx_lease_sm_acquire_commit sm p phase) =
     (coordinator_ready sm \<and> p \<noteq> MX_LEASE_PROFILE_COORDINATOR_INITIALIZER)"
  "sm_family (mx_lease_sm_acquire_commit sm p phase) =
     (if family_holders sm = 0 then mx_lease_profile_family p else sm_family sm)"
  unfolding mx_lease_sm_acquire_commit_def Let_def by simp_all

lemma acquire_others_ok:
  assumes inv: "lease_inv sm (h # os)" and x: "x \<in> set os"
    and ph: "mx_lease_sm_acquire_phase sm p = Inr phase"
  shows "holder_ok (mx_lease_sm_acquire_commit sm p phase) x"
proof (cases "is_holder x")
  case False
  with inv x show ?thesis by (auto simp: lease_inv_def intro: holder_ok_nonholder)
next
  case True
  with x have "cnt is_holder os \<noteq> 0" by (simp add: cnt_pos)
  then have "family_holders sm \<noteq> 0" using inv by (auto simp: lease_inv_def)
  then have fam_eq: "sm_family (mx_lease_sm_acquire_commit sm p phase) = sm_family sm"
    by (simp add: acquire_commit_counts)
  have ok: "holder_ok sm x" using inv x by (simp add: lease_inv_def)
  show ?thesis
  proof (cases "p = MX_LEASE_PROFILE_COORDINATOR_INITIALIZER")
    case True
    with ph have "publishers sm = 0"
      by (simp add: mx_lease_sm_acquire_phase_def split: if_split_asm)
    then have "cnt is_publisher os = 0" using inv by (simp add: lease_inv_def)
    then have "\<not> is_publisher x" using x by (rule cnt_zeroD)
    with ok fam_eq show ?thesis by (blast intro: holder_ok_nonpublisher)
  next
    case False
    with ok fam_eq show ?thesis
      by (auto intro: holder_ok_cong simp: acquire_commit_counts)
  qed
qed

lemma zero_profile_roles:
  "holder_ok sm h \<Longrightarrow> h_profile h = 0 \<Longrightarrow>
   \<not> is_holder h \<and> \<not> is_publisher h \<and> \<not> in_workload h \<and> \<not> in_quiescent h"
  by (simp add: holder_ok_def phase_ok_def role_defs mx_lease_profile_is_publisher_def)

lemma acquire_commit_keeps:
  assumes inv: "lease_inv sm (h # os)"
    and fam: "mx_lease_profile_family p \<noteq> 0"
    and leg: "\<not> h_legacy h" "legacy_holders sm = 0" and fresh: "h_profile h = 0"
    and same: "sm_family sm = 0 \<or> sm_family sm = mx_lease_profile_family p"
    and room: "family_holders sm \<noteq> U32_MAX"
    and ph: "mx_lease_sm_acquire_phase sm p = Inr phase"
  shows "lease_inv (mx_lease_sm_acquire_commit sm p phase)
           (h\<lparr>h_profile := p, h_phase := phase\<rparr> # os)" (is "lease_inv ?sm (?h # os)")
proof -
  note pc = acquire_phase_cases [OF ph] and counts = acquire_commit_counts
  have p0: "p \<noteq> 0" using fam by (auto simp: mx_lease_profile_family_def)
  have h0: "\<not> is_holder h" "\<not> is_publisher h" "\<not> in_workload h" "\<not> in_quiescent h"
    using inv fresh zero_profile_roles by (auto simp: lease_inv_def)
  have I: "unat (family_holders sm) = cnt is_holder os" "unat (publishers sm) = cnt is_publisher os"
      "unat (workloads sm) = cnt in_workload os" "cnt h_legacy os = 0"
      "of_bool (quiescent sm) = cnt in_quiescent os" "cnt is_publisher os \<le> 1"
      "sm_family sm = 0 \<longleftrightarrow> cnt is_holder os = 0"
    using inv h0 leg by (simp_all add: lease_inv_def)
  have roles: "is_holder ?h" "is_publisher ?h = mx_lease_profile_is_publisher p"
      "in_workload ?h = (phase = MX_LEASE_PHASE_WORKLOAD)"
      "in_quiescent ?h = (phase = MX_LEASE_PHASE_QUIESCENT)" "\<not> h_legacy ?h"
    using p0 leg by (simp_all add: role_defs)
  have pubs: "mx_lease_profile_is_publisher p \<Longrightarrow> publishers sm = 0"
    using pc by (auto simp: mx_lease_profile_is_publisher_def)
  have fam': "sm_family ?sm = mx_lease_profile_family p"
    using I same by (auto simp: counts unat_zero_iff)
  have "holder_ok ?sm ?h" using pc leg fam' by (auto simp: holder_ok_def phase_ok_def)
  moreover have "unat (family_holders ?sm) = cnt is_holder (?h # os)"
    using I roles room by (simp add: counts unat_inc_u32)
  moreover have "unat (publishers ?sm) = cnt is_publisher (?h # os)"
      "cnt is_publisher (?h # os) \<le> 1"
    using I roles pubs by (auto simp: counts)
  moreover have "unat (workloads ?sm) = cnt in_workload (?h # os)"
    using I roles pc by (auto simp: counts unat_inc_u32)
  moreover have "of_bool (quiescent ?sm) = cnt in_quiescent (?h # os)"
      "quiescent ?sm \<longrightarrow> cnt in_workload (?h # os) = 0"
    using I roles pc by (auto simp: counts)
  moreover have "cnt h_legacy (?h # os) = 0" "unat (legacy_holders ?sm) = 0"
    using I roles leg by (simp_all add: counts)
  moreover have "sm_family ?sm \<noteq> 0" "cnt is_holder (?h # os) \<noteq> 0"
    using fam fam' roles by simp_all
  ultimately show ?thesis using acquire_others_ok [OF inv _ ph] unfolding lease_inv_def by simp
qed

lemma acquire_keeps:
  assumes "lease_inv sm (h # os)" "mx_lease_sm_acquire sm h p = (r, sm', h')"
  shows "lease_inv sm' (h' # os)"
  using acquire_cases [OF assms(2)] assms(1) acquire_commit_keeps by metis

text \<open>The four transitions that change state.\<close>

lemma transition_cases:
  assumes "mx_lease_sm_transition sm h operation d t b a = (r, sm', h')"
  shows "(sm' = sm \<and> h' = h) \<or>
   (r = OK \<and> mx_lease_profile_is_publisher (h_profile h) \<and> \<not> h_legacy h \<and>
    (h_profile h = MX_LEASE_PROFILE_COORDINATOR_INITIALIZER \<and> in_quiescent h \<and>
      quiescent sm \<and> a \<and> d = 0 \<and> t = 0 \<and> b = 0 \<and>
      sm' = sm\<lparr>quiescent := False, coordinator_ready := True\<rparr> \<and>
      h' = h\<lparr>h_phase := MX_LEASE_PHASE_COORDINATOR_PREPARED\<rparr>
   \<or> h_profile h \<noteq> MX_LEASE_PROFILE_COORDINATOR_INITIALIZER \<and>
      h_phase h = MX_LEASE_PHASE_REPLACEMENT_CANDIDATE \<and> workloads sm = 0 \<and> \<not> quiescent sm \<and>
      sm' = sm\<lparr>quiescent := True\<rparr> \<and> h' = h\<lparr>h_phase := MX_LEASE_PHASE_QUIESCENT\<rparr>
   \<or> h_profile h \<noteq> MX_LEASE_PROFILE_COORDINATOR_INITIALIZER \<and>
      in_quiescent h \<and> workloads sm \<noteq> U32_MAX \<and> quiescent sm \<and> d = 0 \<and> t = 0 \<and> b = 0 \<and>
      sm' = sm\<lparr>quiescent := False, workloads := workloads sm + 1\<rparr> \<and>
      h' = h\<lparr>h_phase := MX_LEASE_PHASE_WORKLOAD\<rparr>
   \<or> h_profile h = MX_LEASE_PROFILE_HUB_PUBLISHER \<and>
      h_phase h = MX_LEASE_PHASE_REPLACEMENT_CANDIDATE \<and> workloads sm \<noteq> U32_MAX \<and> a \<and>
      sm' = sm\<lparr>workloads := workloads sm + 1\<rparr> \<and>
      h' = h\<lparr>h_phase := MX_LEASE_PHASE_WORKLOAD\<rparr>))"
  using assms unfolding mx_lease_sm_transition_def mx_lease_sm_transition_coordinator_def
    mx_lease_sm_transition_switch_def in_quiescent_def
  by (simp split: if_split_asm)

text \<open>A sole publisher's neighbours.\<close>

lemma quiescent_publisher: "holder_ok sm h \<Longrightarrow> in_quiescent h \<Longrightarrow> is_publisher h"
  by (simp add: holder_ok_def phase_ok_def role_defs mx_lease_profile_is_publisher_def
      split: if_split_asm)

lemma sole_publisher:
  assumes "lease_inv sm (h # os)" "is_publisher h"
  shows "cnt is_publisher os = 0" "cnt in_quiescent os = 0" "is_holder h" "\<not> h_legacy h"
    "cnt h_legacy os = 0" "sm_family sm \<noteq> 0"
proof -
  show p: "cnt is_publisher os = 0" using assms by (simp add: lease_inv_def)
  have "cnt in_quiescent os \<le> cnt is_publisher os"
    using assms quiescent_publisher by (intro cnt_mono) (auto simp: lease_inv_def)
  with p show "cnt in_quiescent os = 0" by simp
  show h: "is_holder h"
    using assms(2) by (auto simp: role_defs mx_lease_profile_is_publisher_def)
  with assms show "\<not> h_legacy h" "cnt h_legacy os = 0" "sm_family sm \<noteq> 0"
    by (auto simp: lease_inv_def)
qed

text \<open>Changing only the phase of a publisher.\<close>

lemma publisher_phase_keeps:
  assumes inv: "lease_inv sm (h # os)" and pub: "is_publisher h"
    and fields: "family_holders sm' = family_holders sm" "publishers sm' = publishers sm"
      "legacy_holders sm' = legacy_holders sm" "sm_family sm' = sm_family sm"
    and w: "unat (workloads sm') = of_bool (ph = MX_LEASE_PHASE_WORKLOAD) + cnt in_workload os"
    and q: "quiescent sm' = (ph = MX_LEASE_PHASE_QUIESCENT)"
    and qw: "quiescent sm' \<Longrightarrow> cnt in_workload os = 0"
    and ok: "phase_ok (h_profile h) ph"
    and rdy: "ph = MX_LEASE_PHASE_COORDINATOR_PREPARED \<Longrightarrow> coordinator_ready sm'"
  shows "lease_inv sm' (h\<lparr>h_phase := ph\<rparr> # os)"
proof -
  note sp = sole_publisher [OF inv pub]
  have "holder_ok sm' x" if "x \<in> set os" for x
    using inv that fields(4) cnt_zeroD [OF sp(1) that]
    by (auto simp: lease_inv_def intro: holder_ok_nonpublisher)
  moreover have "holder_ok sm' (h\<lparr>h_phase := ph\<rparr>)"
    using inv ok rdy fields(4) sp by (auto simp: holder_ok_def lease_inv_def)
  moreover have "is_publisher (h\<lparr>h_phase := ph\<rparr>)" "is_holder (h\<lparr>h_phase := ph\<rparr>)"
      "in_workload (h\<lparr>h_phase := ph\<rparr>) = (ph = MX_LEASE_PHASE_WORKLOAD)"
      "in_quiescent (h\<lparr>h_phase := ph\<rparr>) = (ph = MX_LEASE_PHASE_QUIESCENT)"
    using pub sp by (simp_all add: role_defs)
  ultimately show ?thesis
    using inv fields w q qw sp pub unfolding lease_inv_def by auto
qed

lemma phase_ok_candidate:
  "phase_ok p MX_LEASE_PHASE_REPLACEMENT_CANDIDATE \<Longrightarrow> p = MX_LEASE_PROFILE_HUB_PUBLISHER"
  by (simp add: phase_ok_def split: if_split_asm)

lemma transition_keeps:
  assumes inv: "lease_inv sm (h # os)"
    and tr: "mx_lease_sm_transition sm h operation d t b a = (r, sm', h')"
  shows "lease_inv sm' (h' # os)"
proof (cases "sm' = sm \<and> h' = h")
  case True
  with inv show ?thesis by simp
next
  case False
  note tc = transition_cases [OF tr]
  with False have pub: "is_publisher h" by (auto simp: is_publisher_def)
  have ok: "phase_ok (h_profile h) (h_phase h)" using inv by (simp add: lease_inv_def holder_ok_def)
  note sp = sole_publisher [OF inv pub]
  have W: "h_phase h \<noteq> MX_LEASE_PHASE_WORKLOAD \<Longrightarrow> cnt in_workload os = unat (workloads sm)"
    using inv by (simp add: lease_inv_def in_workload_def)
  have Q: "quiescent sm = in_quiescent h" "quiescent sm \<Longrightarrow> workloads sm = 0"
    using inv sp(2) by (auto simp: lease_inv_def unat_zero_iff of_bool_def split: if_split_asm)
  from tc False consider
      (prepared) "h_profile h = MX_LEASE_PROFILE_COORDINATOR_INITIALIZER" "in_quiescent h"
        "sm' = sm\<lparr>quiescent := False, coordinator_ready := True\<rparr>"
        "h' = h\<lparr>h_phase := MX_LEASE_PHASE_COORDINATOR_PREPARED\<rparr>"
    | (quiet) "h_profile h \<noteq> MX_LEASE_PROFILE_COORDINATOR_INITIALIZER"
        "h_phase h = MX_LEASE_PHASE_REPLACEMENT_CANDIDATE" "workloads sm = 0"
        "sm' = sm\<lparr>quiescent := True\<rparr>" "h' = h\<lparr>h_phase := MX_LEASE_PHASE_QUIESCENT\<rparr>"
    | (active) "h_profile h \<noteq> MX_LEASE_PROFILE_COORDINATOR_INITIALIZER" "in_quiescent h"
        "workloads sm \<noteq> U32_MAX" "sm' = sm\<lparr>quiescent := False, workloads := workloads sm + 1\<rparr>"
        "h' = h\<lparr>h_phase := MX_LEASE_PHASE_WORKLOAD\<rparr>"
    | (replaced) "h_profile h = MX_LEASE_PROFILE_HUB_PUBLISHER"
        "h_phase h = MX_LEASE_PHASE_REPLACEMENT_CANDIDATE" "workloads sm \<noteq> U32_MAX"
        "sm' = sm\<lparr>workloads := workloads sm + 1\<rparr>"
        "h' = h\<lparr>h_phase := MX_LEASE_PHASE_WORKLOAD\<rparr>"
    by blast
  then show ?thesis
  proof cases
    case prepared
    then have A: "phase_ok (h_profile h) MX_LEASE_PHASE_COORDINATOR_PREPARED"
        "unat (workloads sm) = cnt in_workload os"
      using W by (simp_all add: phase_ok_def in_quiescent_def)
    show ?thesis unfolding prepared(3,4)
      by (rule publisher_phase_keeps [OF inv pub]) (use A in simp_all)
  next
    case quiet
    have "h_profile h = MX_LEASE_PROFILE_HUB_PUBLISHER"
      using ok unfolding quiet(2) by (rule phase_ok_candidate)
    then have A1: "phase_ok (h_profile h) MX_LEASE_PHASE_QUIESCENT" by (simp add: phase_ok_def)
    have "cnt in_workload os = unat (workloads sm)" by (rule W) (simp add: quiet(2))
    then have A2: "cnt in_workload os = 0" unfolding quiet(3) by simp
    show ?thesis unfolding quiet(4,5)
      by (rule publisher_phase_keeps [OF inv pub]) (simp_all add: A1 A2 quiet(3))
  next
    case active
    then have A: "phase_ok (h_profile h) MX_LEASE_PHASE_WORKLOAD"
        "unat (workloads sm + 1) = Suc (cnt in_workload os)"
      using W pub by (auto simp: phase_ok_def is_publisher_def mx_lease_profile_is_publisher_def
          in_quiescent_def unat_inc_u32)
    show ?thesis unfolding active(4,5)
      by (rule publisher_phase_keeps [OF inv pub]) (use A in simp_all)
  next
    case replaced
    then have A: "phase_ok (h_profile h) MX_LEASE_PHASE_WORKLOAD" "\<not> quiescent sm"
        "unat (workloads sm + 1) = Suc (cnt in_workload os)"
      using W Q by (simp_all add: phase_ok_def in_quiescent_def unat_inc_u32)
    show ?thesis unfolding replaced(4,5)
      by (rule publisher_phase_keeps [OF inv pub]) (use A in simp_all)
  qed
qed

text \<open>Release takes exactly the holder's share out of every counter.\<close>

lemma release_held_fields:
  assumes "mx_lease_sm_release sm h = (sm', h')" "\<not> h_legacy h" "h_profile h \<noteq> 0"
  shows "family_holders sm' = (if family_holders sm \<noteq> 0 then family_holders sm - 1 else 0)"
    "publishers sm' = (if is_publisher h \<and> publishers sm \<noteq> 0 then publishers sm - 1 else publishers sm)"
    "workloads sm' = (if in_workload h \<and> workloads sm \<noteq> 0 then workloads sm - 1 else workloads sm)"
    "legacy_holders sm' = legacy_holders sm" "quiescent sm' = (quiescent sm \<and> \<not> in_quiescent h)"
    "coordinator_ready sm' = coordinator_ready sm"
    "sm_family sm' = (if family_holders sm' = 0 then 0 else sm_family sm)"
    "h' = h\<lparr>h_profile := 0, h_phase := 0\<rparr>"
proof -
  note d = assms(1) [symmetric, unfolded mx_lease_sm_release_def Let_def]
  show "family_holders sm' = (if family_holders sm \<noteq> 0 then family_holders sm - 1 else 0)"
    "publishers sm' = (if is_publisher h \<and> publishers sm \<noteq> 0 then publishers sm - 1 else publishers sm)"
    "workloads sm' = (if in_workload h \<and> workloads sm \<noteq> 0 then workloads sm - 1 else workloads sm)"
    "legacy_holders sm' = legacy_holders sm" "quiescent sm' = (quiescent sm \<and> \<not> in_quiescent h)"
    "coordinator_ready sm' = coordinator_ready sm"
    "sm_family sm' = (if family_holders sm' = 0 then 0 else sm_family sm)"
    "h' = h\<lparr>h_profile := 0, h_phase := 0\<rparr>"
    using d assms(2,3) by (simp_all add: role_defs)
qed

lemma unat_dec_count:
  "unat (w :: u32) = of_bool b + n \<Longrightarrow> unat (if b \<and> w \<noteq> 0 then w - 1 else w) = n"
  by (cases b; cases "w = 0") (simp_all add: unat_dec)

lemma release_held_keeps:
  assumes inv: "lease_inv sm (h # os)" and rel: "mx_lease_sm_release sm h = (sm', h')"
    and held: "\<not> h_legacy h" "h_profile h \<noteq> 0"
  shows "lease_inv sm' (h' # os)"
proof -
  note f = release_held_fields [OF rel held]
  have hold: "is_holder h" using held by (simp add: is_holder_def)
  have leg: "cnt h_legacy os = 0" using inv hold by (auto simp: lease_inv_def)
  have "unat (family_holders sm) = Suc (cnt is_holder os)" using inv hold by (simp add: lease_inv_def)
  then have F: "unat (family_holders sm') = cnt is_holder os" unfolding f(1)
    using unat_dec_count [of "family_holders sm" True "cnt is_holder os"] by auto
  have P: "unat (publishers sm') = cnt is_publisher os" unfolding f(2)
    using inv by (intro unat_dec_count) (simp add: lease_inv_def)
  have W: "unat (workloads sm') = cnt in_workload os" unfolding f(3)
    using inv by (intro unat_dec_count) (simp add: lease_inv_def)
  have Q: "of_bool (quiescent sm') = cnt in_quiescent os" unfolding f(5)
    using inv by (cases "quiescent sm"; cases "in_quiescent h") (simp_all add: lease_inv_def)
  have h': "\<not> is_holder h'" "\<not> is_publisher h'" "\<not> in_workload h'" "\<not> in_quiescent h'"
      "\<not> h_legacy h'" "holder_ok sm' h'"
    using held unfolding f(8) by (simp_all add: role_defs holder_ok_def phase_ok_def
        mx_lease_profile_is_publisher_def)
  have fam: "sm_family sm' = 0 \<longleftrightarrow> cnt is_holder os = 0"
  proof -
    have "sm_family sm \<noteq> 0" using inv hold by (simp add: lease_inv_def)
    then show ?thesis unfolding f(7) using F unat_zero_iff [of "family_holders sm'"] by presburger
  qed
  have "holder_ok sm' x" if x: "x \<in> set os" for x
  proof (cases "is_holder x")
    case True
    with x F have "family_holders sm' \<noteq> 0" using cnt_pos by fastforce
    with x inv show ?thesis by (auto simp: lease_inv_def f(6,7) intro: holder_ok_cong)
  qed (use x inv in \<open>auto simp: lease_inv_def intro: holder_ok_nonholder\<close>)
  moreover have "cnt is_publisher os \<le> 1" "quiescent sm' \<longrightarrow> cnt in_workload os = 0"
      "unat (legacy_holders sm') = 0"
    using inv leg held f(4,5) by (auto simp: lease_inv_def)
  ultimately show ?thesis unfolding lease_inv_def using F P W Q h' fam leg by simp
qed

lemma release_legacy_keeps:
  assumes inv: "lease_inv sm (h # os)" and leg: "h_legacy h"
  shows "lease_inv (sm\<lparr>legacy_holders := legacy_holders sm - 1\<rparr>) (h\<lparr>h_legacy := False\<rparr> # os)"
proof -
  have p0: "h_profile h = 0" "holder_ok sm h" using inv leg by (auto simp: lease_inv_def holder_ok_def)
  then have nr: "\<not> is_holder h" "\<not> is_publisher h" "\<not> in_workload h" "\<not> in_quiescent h"
    using zero_profile_roles by auto
  then have nr': "\<not> is_holder (h\<lparr>h_legacy := False\<rparr>)" "\<not> is_publisher (h\<lparr>h_legacy := False\<rparr>)"
      "\<not> in_workload (h\<lparr>h_legacy := False\<rparr>)" "\<not> in_quiescent (h\<lparr>h_legacy := False\<rparr>)"
    by (simp_all add: role_defs)
  have "unat (legacy_holders sm) = Suc (cnt h_legacy os)" using inv leg by (simp add: lease_inv_def)
  then have "unat (legacy_holders sm - 1) = cnt h_legacy os"
    using unat_dec [of "legacy_holders sm"] by fastforce
  moreover have "holder_ok (sm\<lparr>legacy_holders := l\<rparr>) x = holder_ok sm x" for l x
    by (simp add: holder_ok_def)
  moreover have "holder_ok sm (h\<lparr>h_legacy := False\<rparr>)" using p0 by (simp add: holder_ok_def)
  ultimately show ?thesis using inv leg nr nr' by (simp add: lease_inv_def)
qed

lemma release_keeps:
  assumes inv: "lease_inv sm (h # os)" and rel: "mx_lease_sm_release sm h = (sm', h')"
  shows "lease_inv sm' (h' # os)"
proof -
  consider (legacy) "h_legacy h" | (none) "\<not> h_legacy h" "h_profile h = 0"
    | (held) "\<not> h_legacy h" "h_profile h \<noteq> 0" by blast
  then show ?thesis
  proof cases
    case none
    with rel inv show ?thesis by (simp add: mx_lease_sm_release_def)
  next
    case legacy
    then have "legacy_holders sm \<noteq> 0" using inv by (auto simp: lease_inv_def)
    then have "sm' = sm\<lparr>legacy_holders := legacy_holders sm - 1\<rparr>" "h' = h\<lparr>h_legacy := False\<rparr>"
      using legacy rel by (simp_all add: mx_lease_sm_release_def)
    with release_legacy_keeps [OF inv legacy] show ?thesis by simp
  next
    case held
    then show ?thesis by (rule release_held_keeps [OF inv rel])
  qed
qed

text \<open>Direct access changes state only when it makes an idle file a legacy holder.\<close>

lemma authorize_direct_cases:
  "mx_lease_sm_authorize_direct_anchored sm h a = (r, sm', h') \<Longrightarrow>
   (sm' = sm \<and> h' = h) \<or>
   (r = OK \<and> \<not> a \<and> h_profile h = 0 \<and> \<not> h_legacy h \<and> mx_lease_sm_idle sm \<and>
    legacy_holders sm \<noteq> U32_MAX \<and> sm' = sm\<lparr>legacy_holders := legacy_holders sm + 1\<rparr> \<and>
    h' = h\<lparr>h_legacy := True\<rparr>)"
  unfolding mx_lease_sm_authorize_direct_anchored_def mx_lease_sm_authorize_direct_def
  by (simp split: if_split_asm)

lemma legacy_keeps:
  assumes inv: "lease_inv sm (h # os)" and fresh: "h_profile h = 0" "\<not> h_legacy h"
    and idle: "mx_lease_sm_idle sm" and room: "legacy_holders sm \<noteq> U32_MAX"
  shows "lease_inv (sm\<lparr>legacy_holders := legacy_holders sm + 1\<rparr>) (h\<lparr>h_legacy := True\<rparr> # os)"
proof -
  have ok: "holder_ok sm h" using inv by (simp add: lease_inv_def)
  then have nr: "\<not> is_holder h" "\<not> is_publisher h" "\<not> in_workload h" "\<not> in_quiescent h"
    using zero_profile_roles fresh by auto
  then have nr': "\<not> is_holder (h\<lparr>h_legacy := True\<rparr>)" "\<not> is_publisher (h\<lparr>h_legacy := True\<rparr>)"
      "\<not> in_workload (h\<lparr>h_legacy := True\<rparr>)" "\<not> in_quiescent (h\<lparr>h_legacy := True\<rparr>)"
    by (simp_all add: role_defs)
  have "unat (legacy_holders sm + 1) = Suc (cnt h_legacy os)"
    using inv fresh room by (simp add: lease_inv_def unat_inc_u32)
  moreover have "holder_ok (sm\<lparr>legacy_holders := l\<rparr>) x = holder_ok sm x" for l x
    by (simp add: holder_ok_def)
  moreover have "holder_ok sm (h\<lparr>h_legacy := True\<rparr>)" using ok fresh by (simp add: holder_ok_def)
  moreover have "cnt is_holder os = 0" using inv idle nr by (simp add: lease_inv_def mx_lease_sm_idle_def)
  ultimately show ?thesis using inv nr nr' by (simp add: lease_inv_def)
qed

lemma authorize_direct_keeps:
  assumes "lease_inv sm (h # os)" "mx_lease_sm_authorize_direct_anchored sm h a = (r, sm', h')"
  shows "lease_inv sm' (h' # os)"
  using authorize_direct_cases [OF assms(2)] assms(1) legacy_keeps by metis

section \<open>Interpretations\<close>

interpretation acq: lease_op "\<lambda>sm h. mx_lease_sm_acquire sm h p" for p
  by unfold_locales (rule acquire_keeps)

interpretation trans: lease_op "\<lambda>sm h. mx_lease_sm_transition sm h operation d t b a"
  for operation d t b a
  by unfold_locales (rule transition_keeps)

interpretation rel: lease_op "\<lambda>sm h. ((), mx_lease_sm_release sm h)"
  by unfold_locales (simp add: release_keeps)

interpretation direct: lease_op "\<lambda>sm h. mx_lease_sm_authorize_direct_anchored sm h a" for a
  by unfold_locales (rule authorize_direct_keeps)

section \<open>All interleavings over any number of open files\<close>

type_synonym lease_state = "mx_lease_sm \<times> mx_lease_sm_holder list"

inductive lease_step :: "lease_state \<Rightarrow> lease_state \<Rightarrow> bool" where
  open_file: "lease_step (sm, hs) (sm, hs @ [holder_zero])"
| acquire: "\<lbrakk> i < length hs; mx_lease_sm_acquire sm (hs ! i) p = (r, sm', h') \<rbrakk>
    \<Longrightarrow> lease_step (sm, hs) (sm', hs[i := h'])"
| transition: "\<lbrakk> i < length hs;
      mx_lease_sm_transition sm (hs ! i) operation d t b a = (r, sm', h') \<rbrakk>
    \<Longrightarrow> lease_step (sm, hs) (sm', hs[i := h'])"
| release: "\<lbrakk> i < length hs; mx_lease_sm_release sm (hs ! i) = (sm', h') \<rbrakk>
    \<Longrightarrow> lease_step (sm, hs) (sm', hs[i := h'])"
| direct: "\<lbrakk> i < length hs;
      mx_lease_sm_authorize_direct_anchored sm (hs ! i) a = (r, sm', h') \<rbrakk>
    \<Longrightarrow> lease_step (sm, hs) (sm', hs[i := h'])"

inductive_cases lease_stepE: "lease_step s s'"

inductive lease_reachable :: "lease_state \<Rightarrow> bool" where
  init: "lease_reachable (sm_zero, [])"
| step: "lease_reachable s \<Longrightarrow> lease_step s s' \<Longrightarrow> lease_reachable s'"

lemma lease_step_keeps: "lease_step s s' \<Longrightarrow> case_prod lease_inv s \<Longrightarrow> case_prod lease_inv s'"
proof (induction rule: lease_step.induct)
  case (release i hs sm sm' h')
  then show ?case using rel.keeps_at [of sm hs i "()" sm' h'] by simp
qed (auto intro: lease_inv_open acq.keeps_at trans.keeps_at direct.keeps_at)

lemma lease_reachable_inv: "lease_reachable s \<Longrightarrow> case_prod lease_inv s"
  by (induction rule: lease_reachable.induct) (auto simp: lease_inv_zero dest: lease_step_keeps)

lemma reachable_inv: "lease_reachable (sm, hs) \<Longrightarrow> lease_inv sm hs"
  using lease_reachable_inv by force

text \<open>Event sequences, executable, for concrete runs.\<close>

datatype lease_event =
    Open
  | Acquire nat u32
  | Transition nat u32 u32 u32 u32 bool
  | Release nat
  | Direct nat bool

fun lease_do :: "lease_event \<Rightarrow> lease_state \<Rightarrow> lease_state" where
  "lease_do Open (sm, hs) = (sm, hs @ [holder_zero])"
| "lease_do (Acquire i p) (sm, hs) =
     (if i < length hs then case mx_lease_sm_acquire sm (hs ! i) p of
        (r, sm', h') \<Rightarrow> (sm', hs[i := h']) else (sm, hs))"
| "lease_do (Transition i operation d t b a) (sm, hs) =
     (if i < length hs then case mx_lease_sm_transition sm (hs ! i) operation d t b a of
        (r, sm', h') \<Rightarrow> (sm', hs[i := h']) else (sm, hs))"
| "lease_do (Release i) (sm, hs) =
     (if i < length hs then case mx_lease_sm_release sm (hs ! i) of
        (sm', h') \<Rightarrow> (sm', hs[i := h']) else (sm, hs))"
| "lease_do (Direct i a) (sm, hs) =
     (if i < length hs then case mx_lease_sm_authorize_direct_anchored sm (hs ! i) a of
        (r, sm', h') \<Rightarrow> (sm', hs[i := h']) else (sm, hs))"

definition lease_run :: "lease_event list \<Rightarrow> lease_state" where
  "lease_run es = fold lease_do es (sm_zero, [])"

lemma lease_do_reachable: "lease_reachable s \<Longrightarrow> lease_reachable (lease_do e s)"
  by (cases s; cases e) (auto split: prod.split intro: lease_step.intros lease_reachable.step)

lemma lease_run_reachable: "lease_reachable (lease_run es)"
proof -
  have "lease_reachable s \<Longrightarrow> lease_reachable (fold lease_do es s)" for s
    by (induction es arbitrary: s) (simp_all add: lease_do_reachable)
  then show ?thesis by (simp add: lease_run_def init)
qed

section \<open>The counters are a scan of the holders\<close>

text \<open>
  The abstract view: what the device state would be if every operation walked all open files
  instead of keeping counters. Only the \<open>coordinator_ready\<close> latch is history.
\<close>

definition lease_scan :: "bool \<Rightarrow> mx_lease_sm_holder list \<Rightarrow> mx_lease_sm" where
  "lease_scan ready hs =
     \<lparr>sm_family = (case filter is_holder hs of [] \<Rightarrow> MX_LEASE_FAMILY_NONE
                   | h # _ \<Rightarrow> mx_lease_profile_family (h_profile h)),
      family_holders = of_nat (cnt is_holder hs),
      publishers = of_nat (cnt is_publisher hs),
      workloads = of_nat (cnt in_workload hs),
      legacy_holders = of_nat (cnt h_legacy hs),
      quiescent = (\<exists>h \<in> set hs. in_quiescent h),
      coordinator_ready = ready\<rparr>"

lemma lease_inv_scan:
  assumes "lease_inv sm hs"
  shows "sm = lease_scan (coordinator_ready sm) hs"
proof (rule mx_lease_sm.equality)
  show "sm_family sm = sm_family (lease_scan (coordinator_ready sm) hs)"
  proof (cases "filter is_holder hs")
    case Nil
    then show ?thesis using assms by (simp add: lease_scan_def lease_inv_def cnt_def)
  next
    case (Cons h t)
    then have "h \<in> set (filter is_holder hs)" by simp
    then have "h \<in> set hs" "is_holder h" by simp_all
    then show ?thesis using assms Cons by (auto simp: lease_scan_def lease_inv_def holder_ok_def role_defs)
  qed
  show "quiescent sm = quiescent (lease_scan (coordinator_ready sm) hs)"
  proof -
    have "quiescent sm \<longleftrightarrow> cnt in_quiescent hs \<noteq> 0"
      using assms unfolding lease_inv_def by (metis of_bool_eq_0_iff)
    then show ?thesis by (simp add: lease_scan_def cnt_zero_iff)
  qed
qed (use assms in \<open>simp_all add: lease_scan_def lease_inv_def of_nat_unat_eq\<close>)

lemma quiescent_neighbour:
  assumes inv: "lease_inv sm hs" and i: "i < length hs" "j < length hs" "i \<noteq> j"
    and q: "h_phase (hs ! i) = MX_LEASE_PHASE_QUIESCENT"
  shows "h_profile (hs ! j) = 0 \<and> \<not> h_legacy (hs ! j) \<and> quiescent sm \<and> publishers sm \<noteq> 0"
proof -
  have I: "lease_inv sm (hs ! i # others i hs)" using inv i by (simp add: lease_inv_nth)
  have oj: "hs ! j \<in> set (others i hs)" using i nth_in_others by metis
  have ok: "holder_ok sm (hs ! i)" "holder_ok sm (hs ! j)" using inv i by (simp_all add: lease_inv_def)
  have pub: "is_publisher (hs ! i)" using quiescent_publisher ok(1) q by (simp add: in_quiescent_def)
  note sp = sole_publisher [OF I pub]
  have qs: "quiescent sm" using I q sp(2) unfolding lease_inv_def
    by (metis cnt_Cons in_quiescent_def of_bool_eq_0_iff add_is_0)
  then have "cnt in_workload (others i hs) = 0" using I by (simp add: lease_inv_def)
  then have nw: "\<not> in_workload (hs ! j)" "\<not> is_publisher (hs ! j)" "\<not> h_legacy (hs ! j)"
    using oj sp(1,5) cnt_zeroD by metis+
  then have "h_profile (hs ! j) = 0"
    using ok(2) by (simp add: holder_ok_def phase_ok_def role_defs mx_lease_profile_is_publisher_def
        split: if_split_asm)
  moreover have "publishers sm \<noteq> 0" using I pub by (auto simp: lease_inv_def)
  ultimately show ?thesis using qs nw by simp
qed

section \<open>Properties\<close>

text \<open>Two concrete runs: a hub publisher that activated beside a workload, and one still quiescent.\<close>

definition hub_run :: "lease_event list" where
  "hub_run = [Open, Open, Acquire 0 MX_LEASE_PROFILE_HUB_PUBLISHER,
     Transition 0 MX_LEASE_TRANSITION_ACTIVATE_WORKLOAD 0 0 0 True,
     Acquire 1 MX_LEASE_PROFILE_HUB_WORKLOAD]"

definition quiescent_run :: "lease_event list" where
  "quiescent_run = [Open, Open, Acquire 0 MX_LEASE_PROFILE_HUB_PUBLISHER]"

text \<open>C1. In every state reachable by any interleaving of opens, acquires, transitions, releases and
  direct-access admissions over any number of files, each device-wide counter equals what a walk over
  all open files would compute: no sequence of successes and failures makes a counter drift, wrap or
  leak. Only the \<open>coordinator_ready\<close> latch is history.\<close>

theorem reachable_scan:
  assumes "lease_reachable (sm, hs)"
  shows "sm = lease_scan (coordinator_ready sm) hs"
  by (rule lease_inv_scan [OF reachable_inv [OF assms]])

theorem reachable_scan_witness:
  "lease_reachable (lease_run hub_run) \<and> publishers (fst (lease_run hub_run)) = 1 \<and>
   workloads (fst (lease_run hub_run)) = 2 \<and>
   fst (lease_run hub_run) =
     lease_scan (coordinator_ready (fst (lease_run hub_run))) (snd (lease_run hub_run))"
proof (intro conjI)
  show "publishers (fst (lease_run hub_run)) = 1" "workloads (fst (lease_run hub_run)) = 2"
    by code_simp+
  show "fst (lease_run hub_run) =
     lease_scan (coordinator_ready (fst (lease_run hub_run))) (snd (lease_run hub_run))"
    by (rule reachable_scan) (simp add: lease_run_reachable)
qed (rule lease_run_reachable)

text \<open>C2. The safety invariants the test program asserts after every step (\<open>assert_invariants\<close>), in
  every reachable state: at most one publisher, no more workloads than family holders, a quiescent
  device has exactly one publisher and no workload, legacy use excludes every lease, and the device
  has no family exactly when nobody holds a lease (which is also exactly when it is idle).\<close>

theorem reachable_safety:
  assumes "lease_reachable (sm, hs)"
  shows "publishers sm \<le> 1 \<and> workloads sm \<le> family_holders sm \<and>
    (quiescent sm \<longrightarrow> publishers sm = 1 \<and> workloads sm = 0) \<and>
    (legacy_holders sm \<noteq> 0 \<longrightarrow> mx_lease_sm_idle sm) \<and>
    (sm_family sm = MX_LEASE_FAMILY_NONE \<longleftrightarrow> family_holders sm = 0) \<and>
    (mx_lease_sm_idle sm \<longleftrightarrow> family_holders sm = 0)"
proof -
  note inv = reachable_inv [OF assms]
  have w: "cnt in_workload hs \<le> cnt is_holder hs"
    using inv by (intro cnt_mono) (auto simp: lease_inv_def holder_ok_def phase_ok_def role_defs)
  have p: "cnt is_publisher hs \<le> cnt is_holder hs"
    by (intro cnt_mono) (auto simp: role_defs mx_lease_profile_is_publisher_def)
  have q: "cnt in_quiescent hs \<le> cnt is_publisher hs"
    using inv quiescent_publisher by (intro cnt_mono) (auto simp: lease_inv_def)
  have idle: "mx_lease_sm_idle sm \<longleftrightarrow> family_holders sm = 0"
    using inv w p q by (auto simp: mx_lease_sm_idle_def lease_inv_def unat_zero_iff [symmetric])
  have q1: "publishers sm = 1" if "quiescent sm"
  proof -
    have "unat (publishers sm) = 1" using inv q that unfolding lease_inv_def by auto
    then show ?thesis by (metis unat_1 word_unat_eq_iff)
  qed
  show ?thesis using inv w q1 unfolding idle
    by (auto simp: lease_inv_def word_le_nat_alt unat_zero_iff [symmetric])
qed

theorem reachable_safety_witness:
  "lease_reachable (lease_run quiescent_run) \<and> quiescent (fst (lease_run quiescent_run)) \<and>
   publishers (fst (lease_run quiescent_run)) = 1"
proof -
  have q: "quiescent (fst (lease_run quiescent_run))" by code_simp
  have r: "lease_reachable (fst (lease_run quiescent_run), snd (lease_run quiescent_run))"
    by (simp add: lease_run_reachable)
  from reachable_safety [OF r] q show ?thesis by (simp add: lease_run_reachable)
qed

text \<open>C3. While one file holds the device quiescent, every other file is locked out: direct access
  is refused with \<open>EBUSY\<close>, every acquire fails, every transition is refused, and none of them
  changes any state.\<close>

theorem quiescent_exclusive:
  assumes "lease_reachable (sm, hs)" "i < length hs" "j < length hs" "i \<noteq> j"
    and "h_phase (hs ! i) = MX_LEASE_PHASE_QUIESCENT"
  shows "mx_lease_sm_authorize_direct_anchored sm (hs ! j) a = (Inl EBUSY, sm, hs ! j) \<and>
    (\<exists>e. mx_lease_sm_acquire sm (hs ! j) p = (Inl e, sm, hs ! j)) \<and>
    mx_lease_sm_transition sm (hs ! j) operation d t b a = (Inl EPERM, sm, hs ! j)"
proof -
  note n = quiescent_neighbour [OF reachable_inv [OF assms(1)] assms(2-5)]
  have "\<exists>e. mx_lease_sm_acquire_phase sm p = Inl e"
    using n by (simp add: mx_lease_sm_acquire_phase_def)
  with n show ?thesis
    by (auto simp: mx_lease_sm_authorize_direct_anchored_def mx_lease_sm_authorize_direct_def
        mx_lease_sm_idle_def mx_lease_sm_acquire_def mx_lease_sm_transition_def
        mx_lease_profile_is_publisher_def Let_def)
qed

theorem quiescent_exclusive_witness:
  "h_phase (snd (lease_run quiescent_run) ! 0) = MX_LEASE_PHASE_QUIESCENT \<and>
   mx_lease_sm_authorize_direct_anchored (fst (lease_run quiescent_run))
     (snd (lease_run quiescent_run) ! 1) False =
     (Inl EBUSY, fst (lease_run quiescent_run), snd (lease_run quiescent_run) ! 1)"
proof -
  have q: "h_phase (snd (lease_run quiescent_run) ! 0) = MX_LEASE_PHASE_QUIESCENT"
      "length (snd (lease_run quiescent_run)) = 2" by code_simp+
  have r: "lease_reachable (fst (lease_run quiescent_run), snd (lease_run quiescent_run))"
    by (simp add: lease_run_reachable)
  from quiescent_exclusive [OF r _ _ _ q(1), of 1 False] q show ?thesis by simp
qed

text \<open>What one event does to the holder \<open>i\<close> it finds quiescent.\<close>

lemma event_keeps_other:
  "i < length hs \<Longrightarrow> lease_do e (sm, hs) = (sm', hs') \<Longrightarrow> hs' ! i = hs ! i \<or>
   (\<exists>p. e = Acquire i p) \<or> (\<exists>operation d t b a. e = Transition i operation d t b a) \<or>
   e = Release i \<or> (\<exists>a. e = Direct i a)"
  by (cases e) (auto simp: nth_append nth_list_update split: if_split_asm prod.split_asm)

lemma quiescent_direct_acquire:
  assumes "holder_ok sm h" "h_phase h = MX_LEASE_PHASE_QUIESCENT"
  shows "mx_lease_sm_acquire sm h p = (r, sm', h') \<Longrightarrow> h' = h"
    "mx_lease_sm_authorize_direct_anchored sm h a = (r, sm', h') \<Longrightarrow> h' = h"
proof -
  have "h_profile h \<noteq> 0" using assms by (auto simp: holder_ok_def phase_ok_def)
  then show "mx_lease_sm_acquire sm h p = (r, sm', h') \<Longrightarrow> h' = h"
    "mx_lease_sm_authorize_direct_anchored sm h a = (r, sm', h') \<Longrightarrow> h' = h"
    using acquire_cases [of sm h p r sm' h']
    by (auto simp: mx_lease_sm_authorize_direct_anchored_def mx_lease_sm_authorize_direct_def
        split: if_split_asm)
qed

lemma quiescent_stays:
  assumes "lease_inv sm hs" "i < length hs" "h_phase (hs ! i) = MX_LEASE_PHASE_QUIESCENT"
  shows "quiescent sm"
proof -
  have "in_quiescent (hs ! i)" using assms(3) by (simp add: in_quiescent_def)
  then have "0 < cnt in_quiescent hs" using cnt_pos [OF nth_mem [OF assms(2)]] by simp
  then show ?thesis using assms(1) by (cases "quiescent sm") (auto simp: lease_inv_def)
qed

lemma quiescent_release:
  assumes "lease_inv sm hs" "i < length hs" "h_phase (hs ! i) = MX_LEASE_PHASE_QUIESCENT"
    and "mx_lease_sm_release sm (hs ! i) = (sm', h')"
  shows "h' = holder_zero \<and> \<not> quiescent sm' \<and> publishers sm' = 0 \<and> workloads sm' = 0"
proof -
  let ?h = "hs ! i" and ?os = "others i hs"
  have I: "lease_inv sm (?h # ?os)" using assms(1,2) lease_inv_nth by blast
  then have ok: "holder_ok sm ?h" by (simp add: lease_inv_def)
  have q: "in_quiescent ?h" using assms(3) by (simp add: in_quiescent_def)
  note p = quiescent_publisher [OF ok q]
  note s = sole_publisher [OF I p]
  have w: "\<not> in_workload ?h" using q by (simp add: role_defs)
  have "cnt in_workload (?h # ?os) = 0"
    using I quiescent_stays [OF assms(1-3)] by (simp add: lease_inv_def)
  then have c: "unat (publishers sm) = unat (1 :: u32)" "unat (workloads sm) = unat (0 :: u32)"
    using I p s(1) unfolding lease_inv_def by simp_all
  note c = c [unfolded word_unat_eq_iff [symmetric]]
  have "h' = ?h\<lparr>h_profile := MX_LEASE_PROFILE_NONE, h_phase := MX_LEASE_PHASE_NONE\<rparr>"
    "\<not> quiescent sm'" "publishers sm' = 0" "workloads sm' = 0"
    using assms(3,4) s(3,4) p c unfolding mx_lease_sm_release_def Let_def
    by (auto simp: role_defs split: if_split_asm)
  then show ?thesis using s(4) by (simp add: holder_zero_def mx_lease_sm_holder.equality)
qed

text \<open>C4. In every reachable state, whatever happens next to any open file, a publisher in the
  quiescent phase stays in it, and the device stays quiescent, but for two events. Its own
  transition makes it an active workload or a prepared coordinator, and only with no direct call,
  no transfer and no BAR mapping outstanding. Its own release gives the whole lease up: it is no
  longer a holder at all and the device is left with no publisher and no workload. So nothing is
  ever active on a device that was not drained.\<close>

theorem activation_drained:
  assumes "lease_reachable (sm, hs)" "i < length hs"
    and "h_phase (hs ! i) = MX_LEASE_PHASE_QUIESCENT"
    and "lease_do e (sm, hs) = (sm', hs')"
  shows "hs' ! i = hs ! i \<and> quiescent sm' \<or>
    (\<exists>operation a. e = Transition i operation 0 0 0 a \<and> \<not> quiescent sm' \<and>
       h_profile (hs' ! i) = h_profile (hs ! i) \<and>
       (if h_profile (hs ! i) = MX_LEASE_PROFILE_COORDINATOR_INITIALIZER
        then a \<and> h_phase (hs' ! i) = MX_LEASE_PHASE_COORDINATOR_PREPARED \<and>
             coordinator_ready sm' \<and> workloads sm' = 0
        else h_phase (hs' ! i) = MX_LEASE_PHASE_WORKLOAD \<and> workloads sm' = 1)) \<or>
    e = Release i \<and> hs' ! i = holder_zero \<and> \<not> quiescent sm' \<and>
      publishers sm' = 0 \<and> workloads sm' = 0"
proof -
  note I = reachable_inv [OF assms(1)]
  have r': "lease_reachable (sm', hs')"
    using lease_do_reachable [OF assms(1), of e] assms(4) by simp
  have len: "i < length hs'"
    using assms(2,4) by (cases e) (auto split: if_split_asm prod.split_asm)
  have ok: "holder_ok sm (hs ! i)" using I assms(2) by (auto simp: lease_inv_def)
  have keep: ?thesis if "hs' ! i = hs ! i"
    using that quiescent_stays [OF reachable_inv [OF r'] len] assms(3) by simp
  have w0: "workloads sm = 0"
    using I quiescent_stays [OF I assms(2,3)] by (simp add: lease_inv_def word_unat_eq_iff)
  consider (same) "hs' ! i = hs ! i" | (acquire) p where "e = Acquire i p"
    | (transition) operation d t b a where "e = Transition i operation d t b a"
    | (release) "e = Release i" | (direct) a where "e = Direct i a"
    using event_keeps_other [OF assms(2,4)] by blast
  then show ?thesis
  proof cases
    case same then show ?thesis by (rule keep)
  next
    case acquire
    with assms(2,4) have "hs' ! i = hs ! i"
      by (auto split: prod.split_asm dest!: quiescent_direct_acquire(1) [OF ok assms(3)])
    then show ?thesis by (rule keep)
  next
    case direct
    with assms(2,4) have "hs' ! i = hs ! i"
      by (auto split: prod.split_asm dest!: quiescent_direct_acquire(2) [OF ok assms(3)])
    then show ?thesis by (rule keep)
  next
    case release
    with assms(2,4) quiescent_release [OF I assms(2,3)] show ?thesis
      by (auto split: prod.split_asm)
  next
    case (transition operation d t b a)
    with assms(2,4) obtain r h' where
      T: "mx_lease_sm_transition sm (hs ! i) operation d t b a = (r, sm', h')" "hs' ! i = h'"
      by (auto split: prod.split_asm)
    from transition_cases [OF T(1)] T(2) assms(3) transition w0 keep show ?thesis by auto
  qed
qed

theorem activation_drained_witness:
  "\<exists>sm hs sm' hs'. lease_reachable (sm, hs) \<and> quiescent sm \<and>
     lease_do (Transition 0 MX_LEASE_TRANSITION_ACTIVATE_WORKLOAD 0 0 0 True) (sm, hs) = (sm', hs') \<and>
     \<not> quiescent sm' \<and> workloads sm' = 1 \<and> h_phase (hs' ! 0) = MX_LEASE_PHASE_WORKLOAD"
proof -
  let ?s = "lease_run quiescent_run"
  let ?e = "Transition 0 MX_LEASE_TRANSITION_ACTIVATE_WORKLOAD 0 0 0 True"
  have c: "0 < length (snd ?s)" "h_phase (snd ?s ! 0) = MX_LEASE_PHASE_QUIESCENT" "quiescent (fst ?s)"
      "h_profile (snd ?s ! 0) \<noteq> MX_LEASE_PROFILE_COORDINATOR_INITIALIZER"
      "\<not> quiescent (fst (lease_do ?e ?s))"
    by code_simp+
  have r: "lease_reachable (fst ?s, snd ?s)" by (simp add: lease_run_reachable)
  from activation_drained [OF r c(1,2), of ?e "fst (lease_do ?e ?s)" "snd (lease_do ?e ?s)"] c(4,5)
  have "workloads (fst (lease_do ?e ?s)) = 1 \<and>
      h_phase (snd (lease_do ?e ?s) ! 0) = MX_LEASE_PHASE_WORKLOAD" by simp
  with r c(3,5) show ?thesis by (metis prod.collapse)
qed

text \<open>A refused acquire, transition or direct admission leaves the device state, the holder and
  the direct-call count untouched.\<close>

theorem lease_errors_change_nothing:
  "(mx_lease_sm_acquire sm h p = (Inl e, sm1, h1) \<longrightarrow> sm1 = sm \<and> h1 = h) \<and>
   (mx_lease_sm_transition sm h operation d t b a = (Inl e, sm1, h1) \<longrightarrow> sm1 = sm \<and> h1 = h) \<and>
   (mx_lease_sm_admit_direct sm h a n = (Inl e, sm1, h1, n1) \<longrightarrow> sm1 = sm \<and> h1 = h \<and> n1 = n)"
proof (intro conjI impI)
  assume "mx_lease_sm_acquire sm h p = (Inl e, sm1, h1)"
  from acquire_cases [OF this] show "sm1 = sm" "h1 = h" by auto
next
  assume "mx_lease_sm_transition sm h operation d t b a = (Inl e, sm1, h1)"
  from transition_cases [OF this] show "sm1 = sm" "h1 = h" by auto
next
  assume A: "mx_lease_sm_admit_direct sm h a n = (Inl e, sm1, h1, n1)"
  then show "sm1 = sm" "h1 = h" "n1 = n"
    by (auto simp: mx_lease_sm_admit_direct_def mx_lease_sm_authorize_direct_anchored_def
        mx_lease_sm_authorize_direct_def split: if_split_asm prod.split_asm sum.split_asm)
qed

theorem lease_errors_change_nothing_witness:
  "mx_lease_sm_acquire sm_zero holder_zero 9 = (Inl EINVAL, sm_zero, holder_zero) \<and>
   fst (mx_lease_sm_admit_direct sm_zero holder_zero True 3) = Inl EBUSY \<and>
   snd (mx_lease_sm_admit_direct sm_zero holder_zero True 3) = (sm_zero, holder_zero, 3)"
proof -
  obtain r sm1 h1 n1 where d: "mx_lease_sm_admit_direct sm_zero holder_zero True 3 = (r, sm1, h1, n1)"
    by (cases "mx_lease_sm_admit_direct sm_zero holder_zero True 3") auto
  have "fst (mx_lease_sm_admit_direct sm_zero holder_zero True 3) = Inl EBUSY"
      "mx_lease_sm_acquire sm_zero holder_zero 9 = (Inl EINVAL, sm_zero, holder_zero)"
    by code_simp+
  with d lease_errors_change_nothing [of sm_zero holder_zero 9 EBUSY sm1 h1 0 0 0 0 True 3 n1]
  show ?thesis by simp
qed

lemma acquire_release_undo:
  assumes "lease_inv sm (h # os)" "h_profile h = 0" 
    "mx_lease_sm_acquire sm h p = (OK, sm', h')"
  shows "mx_lease_sm_release sm' h' = (sm\<lparr>coordinator_ready := coordinator_ready sm'\<rparr>, h)"
proof -
  from acquire_cases [OF assms(3)] obtain ph where
    ph: "mx_lease_sm_acquire_phase sm p = Inr ph" "sm' = mx_lease_sm_acquire_commit sm p ph"
      "h' = h\<lparr>h_profile := p, h_phase := ph\<rparr>" "\<not> h_legacy h" "mx_lease_profile_family p \<noteq> 0"
      "family_holders sm \<noteq> U32_MAX"
    using assms(2,3) by (auto simp: mx_lease_sm_acquire_def Let_def split: if_split_asm sum.split_asm)
  have inc: "x \<noteq> U32_MAX \<Longrightarrow> x + 1 \<noteq> 0" for x :: u32
    using unat_inc_u32 [of x] by (metis nat.distinct(1) unat_0)
  have h': "\<not> h_legacy h'" "h_profile h' \<noteq> 0" using ph(3-5)
    by (auto simp: mx_lease_profile_family_def)
  have roles: "is_publisher h' = mx_lease_profile_is_publisher p" "in_workload h' = (ph = MX_LEASE_PHASE_WORKLOAD)"
      "in_quiescent h' = (ph = MX_LEASE_PHASE_QUIESCENT)"
    using ph(3) by (simp_all add: role_defs)
  obtain sm2 h2 where rel: "mx_lease_sm_release sm' h' = (sm2, h2)" by force
  note f = release_held_fields [OF rel h', unfolded roles] and c = acquire_commit_counts [of sm p ph, folded ph(2)]
    and pc = acquire_phase_cases [OF ph(1)]
  have fh: "family_holders sm2 = family_holders sm" unfolding f(1) c(1) using inc [OF ph(6)] by simp
  have fam: "family_holders sm = 0 \<Longrightarrow> sm_family sm = 0" using assms(1) by (auto simp: lease_inv_def)
  have pub: "publishers sm2 = publishers sm" unfolding f(2) c(2) using pc by auto
  have w: "workloads sm2 = workloads sm" unfolding f(3) c(3) using pc inc by auto
  have ph0: "h_phase h = 0" using assms(1,2) by (simp add: lease_inv_def holder_ok_def phase_ok_def)
  have "sm2 = sm\<lparr>coordinator_ready := coordinator_ready sm'\<rparr>"
    by (rule mx_lease_sm.equality)
       (use fh pub w fam pc in \<open>auto simp: f(4-7) c(4,5,7)\<close>)
  moreover have "h2 = h" unfolding f(8) ph(3) using assms(2) ph0 by simp
  ultimately show ?thesis using rel by simp
qed

text \<open>Releasing right after a successful acquire restores the device state and the holder
  exactly, except for the \<open>coordinator_ready\<close> latch that an initializer clears.\<close>

theorem acquire_release_roundtrip:
  assumes "lease_inv sm (h # os)" "h_profile h = 0" 
    "mx_lease_sm_acquire sm h p = (OK, sm', h')"
  shows "mx_lease_sm_release sm' h' = (sm\<lparr>coordinator_ready := coordinator_ready sm'\<rparr>, h)"
  by (rule acquire_release_undo [OF assms])

theorem acquire_release_roundtrip_witness:
  "\<exists>sm' h'. mx_lease_sm_acquire sm_zero holder_zero MX_LEASE_PROFILE_HUB_PUBLISHER = (OK, sm', h') \<and>
     mx_lease_sm_release sm' h' = (sm_zero, holder_zero)"
proof -
  let ?sm' = "sm_zero\<lparr>publishers := 1, quiescent := True, sm_family := 1, family_holders := 1\<rparr>"
  let ?h' = "holder_zero\<lparr>h_profile := 1, h_phase := 1\<rparr>"
  have a: "mx_lease_sm_acquire sm_zero holder_zero MX_LEASE_PROFILE_HUB_PUBLISHER = (OK, ?sm', ?h')"
    by code_simp
  have i: "lease_inv sm_zero [holder_zero]" using lease_inv_open [OF lease_inv_zero] by simp
  from acquire_release_roundtrip [OF i _ a] a show ?thesis
    by (simp add: holder_zero_def sm_zero_def)
qed

text \<open>The memory sub-commands 3 and 6 are denied to exactly the coordinator profiles; every other
  command is allowed to every defined profile and to none above the maximum.\<close>

theorem memory_cmd_scope:
  "mx_lease_sm_authorize_memory_cmd p sub = OK \<longleftrightarrow>
     p \<le> MX_LEASE_PROFILE_MAX \<and>
     (sub \<noteq> 3 \<and> sub \<noteq> 6 \<or> p < MX_LEASE_PROFILE_COORDINATOR_INITIALIZER)"
proof -
  have "p \<le> 7 \<Longrightarrow> p \<noteq> 5 \<Longrightarrow> p \<noteq> 6 \<Longrightarrow> p \<noteq> 7 \<Longrightarrow> p < 5" by unat_arith
  then show ?thesis
    by (auto simp: mx_lease_sm_authorize_memory_cmd_def mx_lease_profile_family_def not_le)
qed

lemma bit_ofd_flag: "bit MX_LEASE_LIFETIME_OFD_FLAG n \<longleftrightarrow> n = 32"
proof -
  have "MX_LEASE_LIFETIME_OFD_FLAG = push_bit 32 1" by (simp add: push_bit_eq_mult)
  then show ?thesis by (auto simp only: bit_push_bit_iff bit_1_iff) auto
qed

lemma bit_lt_width: "bit (w :: u64) n \<Longrightarrow> n < 64" "bit (v :: u32) n \<Longrightarrow> n < 32"
  using bit_imp_le_length [of w n] bit_imp_le_length [of v n] by simp_all

lemma max_slot_mask: "(4095 :: 'a::len word) = mask 12"
  by (simp add: mask_eq_exp_minus_1)

lemma slot_bits: "slot \<le> MX_LEASE_MAX_WORKLOAD_SLOT \<longleftrightarrow> (\<forall>n. bit slot n \<longrightarrow> n < 12)"
proof -
  have "slot \<le> mask 12 \<longleftrightarrow> take_bit 12 slot = slot"
    using take_bit_nat_eq_self_iff [of 12 "unat slot"]
    by (auto simp: word_le_nat_alt mask_eq_exp_minus_1 word_unat_eq_iff unsigned_take_bit_eq)
  also have "\<dots> \<longleftrightarrow> (\<forall>n. bit slot n \<longrightarrow> n < 12)"
    by (auto simp: bit_eq_iff [where 'a = u32] bit_take_bit_iff dest: bit_lt_width)
  finally show ?thesis unfolding max_slot_mask .
qed

text \<open>A lifetime tag is accepted exactly when it is zero, or the holder is a coordinator workload
  and the tag is the OFD tag of a slot number up to \<open>MX_LEASE_MAX_WORKLOAD_SLOT\<close>.\<close>

theorem lifetime_tag_iff:
  "mx_lease_sm_valid_lifetime_tag p tag \<longleftrightarrow>
     tag = 0 \<or> p = MX_LEASE_PROFILE_COORDINATOR_WORKLOAD \<and>
       (\<exists>slot \<le> MX_LEASE_MAX_WORKLOAD_SLOT. tag = MX_LEASE_LIFETIME_OFD_TAG slot)"
proof -
  have "tag AND MX_LEASE_LIFETIME_OFD_FLAG \<noteq> 0 \<longleftrightarrow> bit tag 32"
    unfolding bit_eq_iff [where 'a = u64] bit_and_iff bit_ofd_flag by auto
  moreover have "tag AND NOT (MX_LEASE_LIFETIME_OFD_FLAG OR ucast MX_LEASE_MAX_WORKLOAD_SLOT) = 0
      \<longleftrightarrow> (\<forall>n. bit tag n \<longrightarrow> n = 32 \<or> n < 12)"
    unfolding max_slot_mask bit_eq_iff [where 'a = u64] bit_and_iff bit_not_iff bit_or_iff
      bit_ofd_flag bit_unsigned_iff bit_mask_iff
    by (auto dest: bit_lt_width)
  moreover have "tag = MX_LEASE_LIFETIME_OFD_TAG (ucast (take_bit 12 tag))"
    if "bit tag 32" "\<forall>n. bit tag n \<longrightarrow> n = 32 \<or> n < 12"
    using that unfolding MX_LEASE_LIFETIME_OFD_TAG_def bit_eq_iff [where 'a = u64] bit_or_iff
      bit_ofd_flag bit_unsigned_iff bit_take_bit_iff by auto
  moreover have "ucast (take_bit 12 tag) \<le> MX_LEASE_MAX_WORKLOAD_SLOT"
    unfolding slot_bits by (auto simp: bit_unsigned_iff bit_take_bit_iff)
  moreover have "bit tag 32 \<and> (\<forall>n. bit tag n \<longrightarrow> n = 32 \<or> n < 12)"
    if "slot \<le> MX_LEASE_MAX_WORKLOAD_SLOT" "tag = MX_LEASE_LIFETIME_OFD_TAG slot" for slot
    using that(1) unfolding that(2) slot_bits MX_LEASE_LIFETIME_OFD_TAG_def bit_or_iff
      bit_ofd_flag bit_unsigned_iff by auto
  ultimately show ?thesis unfolding mx_lease_sm_valid_lifetime_tag_def by auto
qed


end
