(* ===== verification/Lease_Ctl.thy ===== *)
theory Lease_Ctl
  imports Lease_Inv
begin

text \<open>
  The lease ioctls of \<open>lease.c\<close>: state anchor, generation, acquire, transition, query, capabilities,
  slot-domain anchor, and the admission of direct calls and transfers. The structure the device lock
  guards is the record \<open>mx_device_lease\<close>, an open file is \<open>mx_file_ctx\<close>.

  A handler that publishes its answer with the lock released has two lock sections: the first is the
  definition ending in \<open>_locked\<close>, the second, run when the copy to user space faults, the one ending
  in \<open>_undo\<close>. Between them other threads may run, so the composed handler takes what they do to the
  state as the argument \<open>mid\<close>. What the kernel decides (user copies, \<open>fget\<close>, \<open>capable\<close>, the file
  clone and lock calls) are arguments too, the last as the record \<open>vfs\<close> of functions. A file pointer is the identity of an open file
  description; the reference a stored pointer holds is accounted in the theory of the proofs.
\<close>

section \<open>Files\<close>

datatype i_mode = S_IFREG | S_IFIFO | S_IFOTHER
datatype s_magic = TMPFS_MAGIC | PIPEFS_MAGIC | OTHER_MAGIC

text \<open>An inode is identified by its address; \<open>i_dev\<close> is \<open>new_encode_dev\<close> of its super block.\<close>

record inode =
  i_addr :: nat
  i_ino :: u64
  i_dev :: u64
  i_fmt :: i_mode
  i_magic :: s_magic

record kfile =
  f_addr :: nat
  f_read :: bool
  f_write :: bool
  f_pos :: int
  f_inode :: inode

section \<open>State\<close>

record mx_device_lease =
  lease_state :: mx_lease_sm
  state_path_valid :: bool
  state_inode :: "inode option"
  slot_domain_path_valid :: bool
  slot_domain_inode :: "inode option"
  state_identity :: "u64 \<times> u64"
  state_family :: u32
  device_incarnation :: u64
  generation_counter :: u64
  lease_generation :: u64
  lease_removed :: bool

record mx_file_ctx =
  ctx_lease :: mx_lease_sm_holder
  ctx_ioctl_cdev :: bool  \<comment> \<open>the context belongs to the ioctl node\<close>
  slot_source_file :: "nat option"
  slot_proof_file :: "nat option"
  lifetime_source_file :: "nat option"
  lifetime_proof_file :: "nat option"
  proof_lifetime_tag :: u64
  proof_slot :: u32
  transfer_count :: u32
  direct_count :: u32
  bar_mapping_count :: u32
  proofs_ever_bound :: bool

definition mx_lease_init :: "u64 \<Rightarrow> mx_device_lease" where
  "mx_lease_init incarnation =
     \<lparr>lease_state = sm_zero, state_path_valid = False, state_inode = None,
      slot_domain_path_valid = False, slot_domain_inode = None, state_identity = (0, 0),
      state_family = 0, device_incarnation = incarnation, generation_counter = 0,
      lease_generation = 0, lease_removed = False\<rparr>"

text \<open>The first non-zero random word is the incarnation; \<open>None\<close> while only zeros were drawn.\<close>

primrec draw_incarnation :: "u64 list \<Rightarrow> u64 option" where
  "draw_incarnation [] = None"
| "draw_incarnation (w # ws) = (if w \<noteq> 0 then Some w else draw_incarnation ws)"

definition ctx_zero :: "bool \<Rightarrow> mx_file_ctx" where
  "ctx_zero ioctl_cdev =
     \<lparr>ctx_lease = holder_zero, ctx_ioctl_cdev = ioctl_cdev, slot_source_file = None,
      slot_proof_file = None, lifetime_source_file = None, lifetime_proof_file = None,
      proof_lifetime_tag = 0, proof_slot = 0, transfer_count = 0, direct_count = 0,
      bar_mapping_count = 0, proofs_ever_bound = False\<rparr>"

definition mx_lease_mark_removed :: "mx_device_lease \<Rightarrow> mx_device_lease" where
  "mx_lease_mark_removed lease = lease\<lparr>lease_removed := True\<rparr>"

section \<open>Validation helpers\<close>

definition mx_lease_valid_header :: "u64 \<Rightarrow> u32 \<Rightarrow> u32 \<Rightarrow> u32 \<Rightarrow> bool" where
  "mx_lease_valid_header magic version sz expected_size =
     (magic = MX_LEASE_ABI_MAGIC \<and> version = MX_LEASE_ABI_VERSION \<and> sz = expected_size)"

definition mx_lease_valid_state_file :: "kfile option \<Rightarrow> bool" where
  "mx_lease_valid_state_file file =
     (case file of
        None \<Rightarrow> False
      | Some f \<Rightarrow> f_read f \<and> f_write f \<and>
          i_fmt (f_inode f) = S_IFREG \<and> i_magic (f_inode f) = TMPFS_MAGIC)"

definition mx_lease_next_generation :: "mx_device_lease \<Rightarrow> u64 \<times> mx_device_lease" where
  "mx_lease_next_generation lease =
     (let g = generation_counter lease + 1;
          g = (if g = 0 then g + 1 else g)
      in (g, lease\<lparr>generation_counter := g\<rparr>))"

text \<open>The reported grant bits; \<open>anchored\<close> is \<open>state_path_valid\<close>.\<close>

definition mx_lease_holder_grants :: "mx_device_lease \<Rightarrow> mx_file_ctx \<Rightarrow> bool \<Rightarrow> u64" where
  "mx_lease_holder_grants lease ctx anchored =
     (let h = ctx_lease ctx in
      if h_legacy h then MX_LEASE_GRANT_LEGACY
      else if h_profile h = 0 then 0
      else
        let grants = (if mx_lease_profile_is_publisher (h_profile h) then MX_LEASE_GRANT_PUBLISHER else 0);
            family = mx_lease_profile_family (h_profile h);
            grants = grants OR
              (if family = MX_LEASE_FAMILY_HUB then MX_LEASE_GRANT_FAMILY_HUB
               else if family = MX_LEASE_FAMILY_STANDALONE then MX_LEASE_GRANT_FAMILY_STANDALONE
               else if family = MX_LEASE_FAMILY_COORDINATOR then MX_LEASE_GRANT_FAMILY_COORDINATOR
               else 0);
            grants = grants OR
              (if h_profile h = MX_LEASE_PROFILE_COORDINATOR_CONTROL
               then MX_LEASE_GRANT_COORDINATOR_CONTROL else 0);
            grants = grants OR
              (if h_phase h = MX_LEASE_PHASE_QUIESCENT then MX_LEASE_GRANT_QUIESCENT
               else if h_phase h = MX_LEASE_PHASE_WORKLOAD then MX_LEASE_GRANT_WORKLOAD
               else if h_phase h = MX_LEASE_PHASE_REPLACEMENT_CANDIDATE
               then MX_LEASE_GRANT_REPLACEMENT_CANDIDATE
               else if h_phase h = MX_LEASE_PHASE_COORDINATOR_PREPARED
               then MX_LEASE_GRANT_COORDINATOR_PREPARED
               else 0);
            grants = grants OR (if anchored then MX_LEASE_GRANT_STATE_ANCHORED else 0);
            grants = grants OR (if slot_proof_file ctx \<noteq> None then MX_LEASE_GRANT_SLOT_PROOF_BOUND else 0);
            grants = grants OR (if lifetime_proof_file ctx \<noteq> None then MX_LEASE_GRANT_LIFETIME_PROOF_BOUND else 0)
        in grants OR (if slot_domain_path_valid lease then MX_LEASE_GRANT_SLOT_DOMAIN_ANCHORED else 0))"

section \<open>Capabilities and query\<close>

abbreviation (input) MX_LEASE_CAPABILITIES :: u64 where
  "MX_LEASE_CAPABILITIES \<equiv>
     MX_LEASE_CAP_OFD_LIFETIME OR MX_LEASE_CAP_STATE_INODE_ANCHOR OR MX_LEASE_CAP_FAMILY_EXCLUSION OR
     MX_LEASE_CAP_ATOMIC_TRANSITION OR MX_LEASE_CAP_HUB_REPLACEMENT OR MX_LEASE_CAP_LEGACY_EXCLUSION OR
     MX_LEASE_CAP_PRIVILEGED_REPLACEMENT OR MX_LEASE_CAP_RESERVED_HIO_QID OR
     MX_LEASE_CAP_PERSISTENT_STATE_ANCHOR OR MX_LEASE_CAP_PRIVILEGED_FRESH_ANCHOR OR
     MX_LEASE_CAP_PRIVILEGED_PUBLISHER OR MX_LEASE_CAP_WORKLOAD_PROOF_BINDING OR
     MX_LEASE_CAP_CANONICAL_SLOT_OFD_PROOF OR MX_LEASE_CAP_COORDINATED_PARTICIPANTS OR
     MX_LEASE_CAP_WORKLOAD_OFD_LIFETIME OR MX_LEASE_CAP_SCOPED_MEMORY_COMMANDS"

definition mx_lease_get_caps :: "mx_device_lease \<Rightarrow> int \<Rightarrow> bool \<Rightarrow> mx_lease_caps result" where
  "mx_lease_get_caps lease hio_qid copy_out_ok =
     (if lease_removed lease then Inl ENODEV
      else if \<not> copy_out_ok then Inl EFAULT
      else Inr \<lparr>cap_abi_magic = MX_LEASE_ABI_MAGIC, capabilities = MX_LEASE_CAPABILITIES,
             cap_device_incarnation = device_incarnation lease, cap_abi_version = MX_LEASE_ABI_VERSION,
             cap_struct_size = 64, max_profile = MX_LEASE_PROFILE_MAX,
             max_transition = MX_LEASE_TRANSITION_MAX, cap_reserved_hio_qid = hio_qid\<rparr>)"

definition inode_dev :: "inode option \<Rightarrow> u64" where
  "inode_dev i = (case i of None \<Rightarrow> 0 | Some n \<Rightarrow> i_dev n)"

definition inode_ino :: "inode option \<Rightarrow> u64" where
  "inode_ino i = (case i of None \<Rightarrow> 0 | Some n \<Rightarrow> i_ino n)"

definition mx_lease_query ::
  "mx_device_lease \<Rightarrow> mx_file_ctx \<Rightarrow> mx_lease_query_req option \<Rightarrow> bool \<Rightarrow> mx_lease_query_req result" where
  "mx_lease_query lease ctx user_req copy_out_ok =
     (case user_req of
        None \<Rightarrow> Inl EFAULT
      | Some req \<Rightarrow>
          if \<not> mx_lease_valid_header (qry_abi_magic req) (qry_abi_version req) (qry_struct_size req) 128 \<or>
             qry_slot_domain_dev req \<noteq> 0 \<or> qry_slot_domain_ino req \<noteq> 0
          then Inl EINVAL
          else if lease_removed lease then Inl ENODEV
          else if qry_expected_incarnation req = 0 \<or>
                  qry_expected_incarnation req \<noteq> device_incarnation lease
          then Inl ESTALE
          else if \<not> copy_out_ok then Inl EFAULT
          else Inr (req\<lparr>qry_device_incarnation := device_incarnation lease,
                 qry_lease_generation := lease_generation lease,
                 qry_identity := state_identity lease,
                 qry_grants := mx_lease_holder_grants lease ctx (state_path_valid lease),
                 qry_state_dev := inode_dev (state_inode lease),
                 qry_state_ino := inode_ino (state_inode lease),
                 qry_profile := h_profile (ctx_lease ctx),
                 qry_phase := h_phase (ctx_lease ctx),
                 qry_family := sm_family (lease_state lease),
                 qry_publisher_count := publishers (lease_state lease),
                 qry_workload_count := workloads (lease_state lease),
                 qry_family_holder_count := family_holders (lease_state lease),
                 qry_legacy_count := legacy_holders (lease_state lease),
                 qry_device_state := MX_LEASE_DEVICE_LIVE,
                 qry_slot_domain_dev := inode_dev (slot_domain_inode lease),
                 qry_slot_domain_ino := inode_ino (slot_domain_inode lease)\<rparr>))"

section \<open>Acquire\<close>

definition mx_lease_fill_acquire_locked ::
  "mx_device_lease \<Rightarrow> mx_file_ctx \<Rightarrow> mx_lease_acquire_req \<Rightarrow> mx_lease_acquire_req" where
  "mx_lease_fill_acquire_locked lease ctx out =
     (let sm = lease_state lease in
      out\<lparr>acq_device_incarnation := device_incarnation lease,
          acq_lease_generation := lease_generation lease,
          acq_grants := mx_lease_holder_grants lease ctx (state_path_valid lease),
          acq_state_dev := inode_dev (state_inode lease),
          acq_state_ino := inode_ino (state_inode lease),
          acq_phase := h_phase (ctx_lease ctx),
          acq_family := sm_family sm,
          acq_publisher_count := publishers sm,
          acq_workload_count := workloads sm,
          acq_family_holder_count := family_holders sm,
          acq_legacy_count := legacy_holders sm\<rparr>)"

text \<open>The checks before the lock is taken; \<open>capable\<close> is \<open>capable(CAP_SYS_RAWIO)\<close>.\<close>

definition acquire_precheck :: "mx_file_ctx \<Rightarrow> mx_lease_acquire_req \<Rightarrow> bool \<Rightarrow> kfile option \<Rightarrow> unit result" where
  "acquire_precheck ctx req capable state_file =
     (if \<not> mx_lease_valid_header (acq_abi_magic req) (acq_abi_version req) (acq_struct_size req) 128 \<or>
         acq_reserved req \<noteq> 0 \<or> acq_profile req = MX_LEASE_PROFILE_NONE \<or>
         acq_profile req > MX_LEASE_PROFILE_MAX \<or> acq_state_fd req < 0 \<or> acq_identity req = (0, 0)
      then Inl EINVAL
      else if (mx_lease_profile_is_publisher (acq_profile req) \<or>
               acq_profile req = MX_LEASE_PROFILE_COORDINATOR_CONTROL) \<and> \<not> ctx_ioctl_cdev ctx
      then Inl EPERM
      else if mx_lease_profile_is_publisher (acq_profile req) \<and> \<not> capable then Inl EPERM
      else if \<not> mx_lease_valid_state_file state_file then Inl EINVAL
      else OK)"

text \<open>The decision of the first lock section: whether this acquire installs a fresh anchor.\<close>

definition acquire_anchor_check :: "mx_device_lease \<Rightarrow> mx_lease_acquire_req \<Rightarrow> kfile \<Rightarrow> bool result" where
  "acquire_anchor_check lease req state_file =
     (if lease_removed lease then Inl ENODEV
      else if acq_expected_incarnation req = 0 \<or>
              acq_expected_incarnation req \<noteq> device_incarnation lease
      then Inl ESTALE
      else if \<not> state_path_valid lease then
        (if acq_expected_generation req \<noteq> 0 then Inl ESTALE
         else if \<not> mx_lease_profile_is_publisher (acq_profile req) then Inl ENXIO
         else Inr True)
      else if acq_expected_generation req = 0 \<or> acq_expected_generation req \<noteq> lease_generation lease
      then Inl ESTALE
      else if map_option i_addr (state_inode lease) \<noteq> Some (i_addr (f_inode state_file)) then Inl EXDEV
      else if state_identity lease \<noteq> acq_identity req then Inl ESTALE
      else case mx_lease_sm_validate_anchored_acquire (lease_state lease) (state_family lease) (acq_profile req) of
             Inl e \<Rightarrow> Inl e
           | Inr _ \<Rightarrow> Inr False)"

definition install_anchor :: "mx_device_lease \<Rightarrow> mx_lease_acquire_req \<Rightarrow> kfile \<Rightarrow> mx_device_lease" where
  "install_anchor lease req state_file =
     (let lease = lease\<lparr>state_path_valid := True, state_inode := Some (f_inode state_file),
            state_identity := acq_identity req,
            state_family := mx_lease_profile_family (acq_profile req)\<rparr>
      in case mx_lease_next_generation lease of
           (g, lease) \<Rightarrow> lease\<lparr>lease_generation := g\<rparr>)"

text \<open>The first lock section: the answer and whether the anchor is fresh, or an error.\<close>

definition acquire_locked ::
  "mx_device_lease \<Rightarrow> mx_file_ctx \<Rightarrow> mx_lease_acquire_req \<Rightarrow> kfile \<Rightarrow>
     (mx_lease_acquire_req \<times> bool) result \<times> mx_device_lease \<times> mx_file_ctx" where
  "acquire_locked lease ctx req state_file =
     (case acquire_anchor_check lease req state_file of
        Inl e \<Rightarrow> (Inl e, lease, ctx)
      | Inr fresh_anchor \<Rightarrow>
          (case mx_lease_sm_acquire (lease_state lease) (ctx_lease ctx) (acq_profile req) of
             (Inl e, sm, h) \<Rightarrow> (Inl e, lease\<lparr>lease_state := sm\<rparr>, ctx\<lparr>ctx_lease := h\<rparr>)
           | (Inr _, sm, h) \<Rightarrow>
               let lease = lease\<lparr>lease_state := sm\<rparr>;
                   ctx = ctx\<lparr>ctx_lease := h\<rparr>;
                   lease = (if fresh_anchor then install_anchor lease req state_file else lease)
               in (Inr (mx_lease_fill_acquire_locked lease ctx req, fresh_anchor), lease, ctx)))"

text \<open>The second lock section, after the copy to user space faulted.\<close>

definition acquire_undo ::
  "mx_device_lease \<Rightarrow> mx_file_ctx \<Rightarrow> mx_lease_sm_holder \<Rightarrow> bool \<Rightarrow> u64 \<Rightarrow> kfile \<Rightarrow>
     mx_device_lease \<times> mx_file_ctx" where
  "acquire_undo lease ctx new_holder fresh_anchor new_generation state_file =
     (let (lease, ctx) =
            (if ctx_lease ctx = new_holder
             then case mx_lease_sm_release (lease_state lease) (ctx_lease ctx) of
                    (sm, h) \<Rightarrow> (lease\<lparr>lease_state := sm\<rparr>, ctx\<lparr>ctx_lease := h\<rparr>)
             else (lease, ctx))
      in (if fresh_anchor \<and> state_path_valid lease \<and> lease_generation lease = new_generation \<and>
             map_option i_addr (state_inode lease) = Some (i_addr (f_inode state_file)) \<and>
             mx_lease_sm_idle (lease_state lease)
          then lease\<lparr>state_path_valid := False, state_inode := None, state_identity := (0, 0),
                     state_family := MX_LEASE_FAMILY_NONE, lease_generation := 0\<rparr>
          else lease, ctx))"

definition mx_lease_acquire ::
  "mx_device_lease \<Rightarrow> mx_file_ctx \<Rightarrow> mx_lease_acquire_req option \<Rightarrow> bool \<Rightarrow> kfile option \<Rightarrow> bool \<Rightarrow>
     (mx_device_lease \<times> mx_file_ctx \<Rightarrow> mx_device_lease \<times> mx_file_ctx) \<Rightarrow>
     mx_lease_acquire_req result \<times> mx_device_lease \<times> mx_file_ctx" where
  "mx_lease_acquire lease ctx user_req capable state_file copy_out_ok mid =
     (case user_req of
        None \<Rightarrow> (Inl EFAULT, lease, ctx)
      | Some req \<Rightarrow>
          (case (acquire_precheck ctx req capable state_file, state_file) of
             (Inr _, Some file) \<Rightarrow>
               (case acquire_locked lease ctx req file of
                  (Inl e, lease, ctx) \<Rightarrow> (Inl e, lease, ctx)
                | (Inr (out, fresh_anchor), lease, ctx) \<Rightarrow>
                    if copy_out_ok then (Inr out, lease, ctx)
                    else case mid (lease, ctx) of
                           (lease', ctx') \<Rightarrow>
                             (case acquire_undo lease' ctx' (ctx_lease ctx) fresh_anchor (lease_generation lease) file of
                                (lease'', ctx'') \<Rightarrow> (Inl EFAULT, lease'', ctx'')))
           | (Inl e, _) \<Rightarrow> (Inl e, lease, ctx)
           | (Inr _, None) \<Rightarrow> (Inl EINVAL, lease, ctx)))"

section \<open>Transition\<close>

definition transition_precheck :: "mx_lease_transition_req \<Rightarrow> bool \<Rightarrow> unit result" where
  "transition_precheck req capable =
     (if \<not> mx_lease_valid_header (trn_abi_magic req) (trn_abi_version req) (trn_struct_size req) 96 \<or>
         trn_reserved0 req \<noteq> 0 \<or> trn_reserved1 req \<noteq> 0 \<or> trn_operation req = MX_LEASE_TRANSITION_NONE \<or>
         trn_operation req > MX_LEASE_TRANSITION_MAX
      then Inl EINVAL
      else if trn_operation req = MX_LEASE_TRANSITION_ACTIVATE_REPLACEMENT \<and> \<not> capable then Inl EPERM
      else OK)"

definition transition_locked ::
  "mx_device_lease \<Rightarrow> mx_file_ctx \<Rightarrow> mx_lease_transition_req \<Rightarrow>
     mx_lease_transition_req result \<times> mx_device_lease \<times> mx_file_ctx" where
  "transition_locked lease ctx req =
     (if lease_removed lease then (Inl ENODEV, lease, ctx)
      else if trn_expected_incarnation req = 0 \<or> trn_expected_incarnation req \<noteq> device_incarnation lease \<or>
              trn_expected_generation req = 0 \<or> trn_expected_generation req \<noteq> lease_generation lease
      then (Inl ESTALE, lease, ctx)
      else case mx_lease_sm_transition (lease_state lease) (ctx_lease ctx) (trn_operation req)
                  (direct_count ctx) (transfer_count ctx) (bar_mapping_count ctx)
                  (slot_domain_path_valid lease \<and> slot_domain_inode lease \<noteq> None) of
             (Inl e, sm, h) \<Rightarrow> (Inl e, lease\<lparr>lease_state := sm\<rparr>, ctx\<lparr>ctx_lease := h\<rparr>)
           | (Inr _, sm, h) \<Rightarrow>
               let lease = lease\<lparr>lease_state := sm\<rparr>;
                   ctx = ctx\<lparr>ctx_lease := h\<rparr>
               in (Inr (req\<lparr>trn_device_incarnation := device_incarnation lease,
                     trn_lease_generation := lease_generation lease,
                     trn_grants := mx_lease_holder_grants lease ctx (state_path_valid lease),
                     trn_phase := h_phase h,
                     trn_family := sm_family sm,
                     trn_publisher_count := publishers sm,
                     trn_workload_count := workloads sm,
                     trn_family_holder_count := family_holders sm,
                     trn_legacy_count := legacy_holders sm\<rparr>), lease, ctx))"

definition transition_undo ::
  "mx_device_lease \<Rightarrow> mx_file_ctx \<Rightarrow> mx_lease_sm \<Rightarrow> mx_lease_sm_holder \<Rightarrow> mx_lease_sm \<Rightarrow> mx_lease_sm_holder \<Rightarrow>
     mx_device_lease \<times> mx_file_ctx" where
  "transition_undo lease ctx old_state old_holder new_state new_holder =
     (if lease_state lease = new_state \<and> ctx_lease ctx = new_holder
      then (lease\<lparr>lease_state := old_state\<rparr>, ctx\<lparr>ctx_lease := old_holder\<rparr>)
      else (lease, ctx))"

definition mx_lease_transition ::
  "mx_device_lease \<Rightarrow> mx_file_ctx \<Rightarrow> mx_lease_transition_req option \<Rightarrow> bool \<Rightarrow> bool \<Rightarrow>
     (mx_device_lease \<times> mx_file_ctx \<Rightarrow> mx_device_lease \<times> mx_file_ctx) \<Rightarrow>
     mx_lease_transition_req result \<times> mx_device_lease \<times> mx_file_ctx" where
  "mx_lease_transition lease ctx user_req capable copy_out_ok mid =
     (case user_req of
        None \<Rightarrow> (Inl EFAULT, lease, ctx)
      | Some req \<Rightarrow>
          (case transition_precheck req capable of
             Inl e \<Rightarrow> (Inl e, lease, ctx)
           | Inr _ \<Rightarrow>
               (case transition_locked lease ctx req of
                  (Inl e, lease1, ctx1) \<Rightarrow> (Inl e, lease1, ctx1)
                | (Inr out, lease1, ctx1) \<Rightarrow>
                    if copy_out_ok then (Inr out, lease1, ctx1)
                    else case mid (lease1, ctx1) of
                           (lease2, ctx2) \<Rightarrow>
                             (case transition_undo lease2 ctx2 (lease_state lease) (ctx_lease ctx)
                                     (lease_state lease1) (ctx_lease ctx1) of
                                (lease3, ctx3) \<Rightarrow> (Inl EFAULT, lease3, ctx3)))))"

section \<open>File locks\<close>

datatype lock_type = F_RDLCK | F_WRLCK | F_UNLCK
datatype setlk_result = Lock_granted | Lock_deferred | Lock_error errno

text \<open>
  \<open>vfs_test_lock f t s e\<close> is what a test probe of type \<open>t\<close> on bytes \<open>s..e\<close> reports on behalf of the
  description \<open>f\<close>; \<open>vfs_lock_file\<close> is a non-blocking request; \<open>file_clone_open\<close> opens a fresh
  description of the same file.
\<close>

record vfs =
  vfs_test_lock :: "kfile \<Rightarrow> lock_type \<Rightarrow> int \<Rightarrow> int \<Rightarrow> lock_type result"
  vfs_lock_file :: "kfile \<Rightarrow> lock_type \<Rightarrow> int \<Rightarrow> int \<Rightarrow> setlk_result"
  file_clone_open :: "kfile \<Rightarrow> kfile result"

definition mx_lease_clone_with_ofd_lock :: "vfs \<Rightarrow> kfile \<Rightarrow> lock_type \<Rightarrow> int \<Rightarrow> int \<Rightarrow> kfile result" where
  "mx_lease_clone_with_ofd_lock v source type start stop =
     (case file_clone_open v source of
        Inl e \<Rightarrow> Inl e
      | Inr pinned \<Rightarrow>
          if i_addr (f_inode pinned) \<noteq> i_addr (f_inode source) then Inl ESTALE
          else (case vfs_lock_file v pinned type start stop of
                  Lock_granted \<Rightarrow> Inr pinned
                | Lock_deferred \<Rightarrow> Inl EAGAIN
                | Lock_error e \<Rightarrow> Inl e))"

section \<open>Slot-domain anchor\<close>

abbreviation (input) OFFSET_MAX :: int where "OFFSET_MAX \<equiv> 9223372036854775807"

definition anchor_precheck :: "mx_file_ctx \<Rightarrow> mx_lease_slot_domain_req \<Rightarrow> bool \<Rightarrow> kfile option \<Rightarrow> unit result" where
  "anchor_precheck ctx req capable domain_file =
     (if \<not> mx_lease_valid_header (dom_abi_magic req) (dom_abi_version req) (dom_struct_size req) 64 \<or>
         dom_fd req < 0 \<or> dom_reserved0 req \<noteq> 0 \<or> dom_dev req \<noteq> 0 \<or> dom_ino req \<noteq> 0 \<or> dom_grants req \<noteq> 0
      then Inl EINVAL
      else if \<not> capable \<or> \<not> ctx_ioctl_cdev ctx then Inl EPERM
      else if \<not> mx_lease_valid_state_file domain_file then Inl EINVAL
      else OK)"

definition anchor_locked ::
  "vfs \<Rightarrow> mx_device_lease \<Rightarrow> mx_file_ctx \<Rightarrow> mx_lease_slot_domain_req \<Rightarrow> kfile \<Rightarrow>
     (mx_lease_slot_domain_req \<times> bool) result \<times> mx_device_lease" where
  "anchor_locked v lease ctx req domain_file =
     (if lease_removed lease then (Inl ENODEV, lease)
      else if dom_expected_incarnation req = 0 \<or> dom_expected_incarnation req \<noteq> device_incarnation lease \<or>
              dom_expected_generation req = 0 \<or> dom_expected_generation req \<noteq> lease_generation lease
      then (Inl ESTALE, lease)
      else if slot_domain_path_valid lease \<noteq> (slot_domain_inode lease \<noteq> None) then (Inl EUCLEAN, lease)
      else
        let domain_anchored = slot_domain_path_valid lease;
            same_inode = (domain_anchored \<and>
              map_option i_addr (slot_domain_inode lease) = Some (i_addr (f_inode domain_file)))
        in case mx_lease_sm_validate_slot_domain_anchor (ctx_lease ctx) (state_family lease)
                  (state_path_valid lease \<and> state_inode lease \<noteq> None)
                  (direct_count ctx) (transfer_count ctx) (bar_mapping_count ctx) domain_anchored same_inode of
             Inl e \<Rightarrow> (Inl e, lease)
           | Inr _ \<Rightarrow>
               if Some (i_addr (f_inode domain_file)) = map_option i_addr (state_inode lease)
               then (Inl EINVAL, lease)
               else case (if domain_anchored then Inr domain_file
                          else mx_lease_clone_with_ofd_lock v domain_file F_WRLCK 0 OFFSET_MAX) of
                      Inl e \<Rightarrow> (Inl e, lease)
                    | Inr _ \<Rightarrow>
                        let lease = (if domain_anchored then lease
                              else lease\<lparr>slot_domain_path_valid := True,
                                         slot_domain_inode := Some (f_inode domain_file)\<rparr>)
                        in (Inr (req\<lparr>dom_dev := inode_dev (slot_domain_inode lease),
                                     dom_ino := inode_ino (slot_domain_inode lease),
                                     dom_grants := mx_lease_holder_grants lease ctx (state_path_valid lease)\<rparr>,
                                 \<not> domain_anchored), lease))"

definition anchor_undo :: "mx_device_lease \<Rightarrow> bool \<Rightarrow> kfile \<Rightarrow> mx_device_lease" where
  "anchor_undo lease fresh_anchor domain_file =
     (if fresh_anchor \<and> slot_domain_path_valid lease \<and>
         map_option i_addr (slot_domain_inode lease) = Some (i_addr (f_inode domain_file))
      then lease\<lparr>slot_domain_path_valid := False, slot_domain_inode := None\<rparr>
      else lease)"

definition mx_lease_anchor_slot_domain ::
  "vfs \<Rightarrow> mx_device_lease \<Rightarrow> mx_file_ctx \<Rightarrow> mx_lease_slot_domain_req option \<Rightarrow> bool \<Rightarrow> kfile option \<Rightarrow>
     bool \<Rightarrow> (mx_device_lease \<Rightarrow> mx_device_lease) \<Rightarrow>
     mx_lease_slot_domain_req result \<times> mx_device_lease" where
  "mx_lease_anchor_slot_domain v lease ctx user_req capable domain_file copy_out_ok mid =
     (case user_req of
        None \<Rightarrow> (Inl EFAULT, lease)
      | Some req \<Rightarrow>
          (case (anchor_precheck ctx req capable domain_file, domain_file) of
             (Inr _, Some file) \<Rightarrow>
               (case anchor_locked v lease ctx req file of
                  (Inl e, lease) \<Rightarrow> (Inl e, lease)
                | (Inr (out, fresh_anchor), lease) \<Rightarrow>
                    if copy_out_ok then (Inr out, lease)
                    else (Inl EFAULT, anchor_undo (mid lease) fresh_anchor file))
           | (Inl e, _) \<Rightarrow> (Inl e, lease)
           | (Inr _, None) \<Rightarrow> (Inl EINVAL, lease)))"

section \<open>Direct calls and transfers\<close>

definition ctx_proofs_valid :: "mx_file_ctx \<Rightarrow> unit result" where
  "ctx_proofs_valid ctx = mx_lease_sm_validate_proofs (h_profile (ctx_lease ctx)) (proofs_ever_bound ctx)
     (slot_proof_file ctx \<noteq> None) (lifetime_proof_file ctx \<noteq> None)"

definition mx_lease_direct_begin ::
  "mx_device_lease \<Rightarrow> mx_file_ctx \<Rightarrow> unit result \<times> mx_device_lease \<times> mx_file_ctx" where
  "mx_lease_direct_begin lease ctx =
     (if lease_removed lease then (Inl ENODEV, lease, ctx)
      else case mx_lease_sm_admit_direct (lease_state lease) (ctx_lease ctx) (state_path_valid lease)
                  (direct_count ctx) of
             (r, sm, h, d) \<Rightarrow>
               let lease = lease\<lparr>lease_state := sm\<rparr>;
                   ctx = ctx\<lparr>ctx_lease := h, direct_count := d\<rparr>
               in case r of
                    Inl e \<Rightarrow> (Inl e, lease, ctx)
                  | Inr _ \<Rightarrow>
                      (case ctx_proofs_valid ctx of
                         Inl e \<Rightarrow> (Inl e, lease, ctx\<lparr>direct_count := mx_lease_sm_release_direct (direct_count ctx)\<rparr>)
                       | Inr _ \<Rightarrow> (OK, lease, ctx)))"

definition mx_lease_direct_end :: "mx_file_ctx \<Rightarrow> mx_file_ctx" where
  "mx_lease_direct_end ctx =
     (if direct_count ctx = 0 then ctx
      else ctx\<lparr>direct_count := mx_lease_sm_release_direct (direct_count ctx)\<rparr>)"

text \<open>The proof references a transfer takes along (\<open>owner_ctx\<close> is the context itself).\<close>

record transfer_proofs =
  tp_slot_proof :: "nat option"
  tp_lifetime_proof :: "nat option"

definition mx_lease_transfer_get ::
  "mx_device_lease \<Rightarrow> mx_file_ctx \<Rightarrow> transfer_proofs result \<times> mx_file_ctx" where
  "mx_lease_transfer_get lease ctx =
     (if lease_removed lease then (Inl ENODEV, ctx)
      else if direct_count ctx = 0 then (Inl EACCES, ctx)
      else case ctx_proofs_valid ctx of
             Inl e \<Rightarrow> (Inl e, ctx)
           | Inr _ \<Rightarrow>
               if transfer_count ctx = U32_MAX then (Inl EOVERFLOW, ctx)
               else (Inr \<lparr>tp_slot_proof = slot_proof_file ctx, tp_lifetime_proof = lifetime_proof_file ctx\<rparr>,
                     ctx\<lparr>transfer_count := transfer_count ctx + 1\<rparr>))"

definition mx_lease_transfer_put :: "mx_file_ctx \<Rightarrow> mx_file_ctx" where
  "mx_lease_transfer_put ctx =
     ctx\<lparr>transfer_count := (if transfer_count ctx = 0 then 0 else transfer_count ctx - 1)\<rparr>"

definition mx_lease_authorize_no_completion :: "mx_file_ctx option \<Rightarrow> unit result" where
  "mx_lease_authorize_no_completion ctx = Inl (if ctx \<noteq> None then EOPNOTSUPP else EINVAL)"

definition mx_lease_authorize_memory_cmd :: "mx_file_ctx option \<Rightarrow> u16 \<Rightarrow> unit result" where
  "mx_lease_authorize_memory_cmd ctx subopcode =
     (case ctx of
        None \<Rightarrow> Inl EINVAL
      | Some c \<Rightarrow> mx_lease_sm_authorize_memory_cmd (h_profile (ctx_lease c)) (ucast subopcode))"

section \<open>The end of an open file\<close>

text \<open>The context after the last reference went, and the file references it dropped.\<close>

definition mx_file_ctx_free :: "mx_device_lease \<Rightarrow> mx_file_ctx \<Rightarrow> mx_device_lease \<times> mx_file_ctx \<times> nat list" where
  "mx_file_ctx_free lease ctx =
     (case mx_lease_sm_release (lease_state lease) (ctx_lease ctx) of
        (sm, h) \<Rightarrow>
          (lease\<lparr>lease_state := sm\<rparr>,
           ctx\<lparr>ctx_lease := h, slot_source_file := None, slot_proof_file := None,
               lifetime_source_file := None, lifetime_proof_file := None,
               proof_lifetime_tag := 0, proof_slot := 0\<rparr>,
           List.map_filter id [slot_source_file ctx, slot_proof_file ctx,
             lifetime_source_file ctx, lifetime_proof_file ctx]))"

end
