(* ===== verification/Mbox.thy ===== *)
theory Mbox
  imports Mx_Prelude
begin

text \<open>
  The hardware mailbox ring of \<open>mbox.c\<close> and the two batch counters of \<open>ioctl.c\<close>. The
  64-bit context word is a bit-field structure; head and tail are 8-bit values made of a 7-bit slot
  index and one lap (phase) bit. The theory relates them to unbounded positions: \<open>enc d n\<close>
  is what the hardware stores for position \<open>n\<close> of a ring of depth \<open>d\<close>, and every operation
  of the code is proved to compute the intended quantity of the positions.
\<close>

section \<open>The code\<close>

text \<open>\<open>mbox_index_t\<close>: the bit-fields of an 8-bit index, promoted to 32 bits where they are used.\<close>

definition mbox_index :: "u8 \<Rightarrow> u32" where
  "mbox_index full = ucast (full AND 0x7f)"

definition mbox_phase :: "u8 \<Rightarrow> u32" where
  "mbox_phase full = ucast (drop_bit 7 full)"

definition mbox_index_full :: "u32 \<Rightarrow> u32 \<Rightarrow> u8" where
  "mbox_index_full index phase = (ucast index AND 0x7f) OR push_bit 7 (ucast phase)"

record mbox_context_t =
  mid :: u8
  ctx_base :: u16
  data_base :: u16
  q_size :: "4 word"
  data_size :: "4 word"
  ctx_tail :: u8
  ctx_head :: u8

text \<open>The union view: reading and writing the structure as one 64-bit word, lowest field first.\<close>

definition mbox_context_of_u64 :: "u64 \<Rightarrow> mbox_context_t" where
  "mbox_context_of_u64 u =
     \<lparr>mid = ucast u, ctx_base = ucast (drop_bit 8 u), data_base = ucast (drop_bit 24 u),
      q_size = ucast (drop_bit 40 u), data_size = ucast (drop_bit 44 u),
      ctx_tail = ucast (drop_bit 48 u), ctx_head = ucast (drop_bit 56 u)\<rparr>"

definition mbox_context_u64 :: "mbox_context_t \<Rightarrow> u64" where
  "mbox_context_u64 c =
     ucast (mid c) OR push_bit 8 (ucast (ctx_base c)) OR push_bit 24 (ucast (data_base c)) OR
     push_bit 40 (ucast (q_size c)) OR push_bit 44 (ucast (data_size c)) OR
     push_bit 48 (ucast (ctx_tail c)) OR push_bit 56 (ucast (ctx_head c))"

record mx_mbox =
  r_ctx_addr :: u64
  w_ctx_addr :: u64
  data_addr :: u64
  mbox_ctx :: mbox_context_t
  depth :: u32

abbreviation (input) HMBOX_UPDATE_BITMASK :: u64 where "HMBOX_UPDATE_BITMASK \<equiv> push_bit 18 1"

definition is_empty :: "mx_mbox \<Rightarrow> bool" where
  "is_empty mbox = (ctx_head (mbox_ctx mbox) = ctx_tail (mbox_ctx mbox))"

definition is_full :: "mx_mbox \<Rightarrow> bool" where
  "is_full mbox =
     (let head = ctx_head (mbox_ctx mbox); tail = ctx_tail (mbox_ctx mbox)
      in mbox_index head = mbox_index tail \<and> mbox_phase head \<noteq> mbox_phase tail)"

definition get_free_space :: "mx_mbox \<Rightarrow> u32" where
  "get_free_space mbox =
     (let head = ctx_head (mbox_ctx mbox); tail = ctx_tail (mbox_ctx mbox)
      in mbox_index head - mbox_index tail +
         depth mbox * (1 - (mbox_phase head XOR mbox_phase tail)))"

definition get_pending_count :: "mx_mbox \<Rightarrow> u32" where
  "get_pending_count mbox =
     (let head = ctx_head (mbox_ctx mbox); tail = ctx_tail (mbox_ctx mbox)
      in mbox_index tail - mbox_index head +
         depth mbox * (mbox_phase head XOR mbox_phase tail))"

definition get_next_index :: "u8 \<Rightarrow> u32 \<Rightarrow> u32 \<Rightarrow> u8" where
  "get_next_index idx nr dp =
     (let next_index = ((mbox_index idx + nr) AND (dp - 1)) AND 0x7f;
          next_phase = (if nr \<noteq> 0 \<and> next_index \<le> mbox_index idx
                        then mbox_phase idx XOR 1 else mbox_phase idx)
      in mbox_index_full next_index next_phase)"

definition get_data_offset :: "u8 \<Rightarrow> u32" where
  "get_data_offset db = 8 * mbox_index db"

definition mx_mbox_init :: "u64 \<Rightarrow> u64 \<Rightarrow> u64 \<Rightarrow> mx_mbox" where
  "mx_mbox_init ctx_addr data_address ctx =
     (let c = mbox_context_of_u64 ctx in
      \<lparr>r_ctx_addr = ctx_addr, w_ctx_addr = ctx_addr OR HMBOX_UPDATE_BITMASK,
       data_addr = data_address + 8 * ucast (data_base c), mbox_ctx = c,
       depth = push_bit (unat (q_size c)) 1\<rparr>)"

definition get_pushable_count :: "mx_mbox \<Rightarrow> u32" where
  "get_pushable_count mbox =
     (let head = ctx_head (mbox_ctx mbox); tail = ctx_tail (mbox_ctx mbox)
      in if mbox_phase head = mbox_phase tail then depth mbox - mbox_index tail
         else mbox_index head - mbox_index tail)"

definition get_popable_count :: "mx_mbox \<Rightarrow> u32" where
  "get_popable_count mbox =
     (let head = ctx_head (mbox_ctx mbox); tail = ctx_tail (mbox_ctx mbox)
      in if mbox_phase head = mbox_phase tail then mbox_index tail - mbox_index head
         else depth mbox - mbox_index head)"

section \<open>Positions\<close>

definition enc :: "nat \<Rightarrow> nat \<Rightarrow> u8" where
  "enc d n = of_nat (n mod d + 128 * ((n div d) mod 2))"

text \<open>
  A mailbox at positions \<open>H\<close> (consumed) and \<open>T\<close> (produced): the depth is a power of two that
  the 7-bit index can express, and no more than \<open>d\<close> entries are outstanding.
\<close>

definition mbox_at :: "mx_mbox \<Rightarrow> nat \<Rightarrow> nat \<Rightarrow> nat \<Rightarrow> bool" where
  "mbox_at mbox k H T =
     (k \<le> 7 \<and> depth mbox = of_nat (2 ^ k) \<and> ctx_head (mbox_ctx mbox) = enc (2 ^ k) H \<and>
      ctx_tail (mbox_ctx mbox) = enc (2 ^ k) T \<and> H \<le> T \<and> T \<le> H + 2 ^ k)"

lemma pow_le_128: "k \<le> 7 \<Longrightarrow> (2::nat) ^ k \<le> 128"
  using power_increasing [of k 7 "2::nat"] by simp

lemma mod_pow_lt: "k \<le> 7 \<Longrightarrow> n mod 2 ^ k < (128::nat)"
  using pow_le_128 [of k] mod_less_divisor [of "2 ^ k" n] by (metis less_le_trans zero_less_numeral zero_less_power)

lemma unat_mbox_index: "unat (mbox_index w) = unat w mod 128"
proof -
  have "w AND 0x7f = take_bit 7 w" by (simp add: take_bit_eq_mask mask_eq_exp_minus_1)
  then show ?thesis
    by (simp add: mbox_index_def unsigned_ucast_eq unsigned_take_bit_eq take_bit_take_bit)
       (simp add: take_bit_eq_mod)
qed

lemma unat_mbox_phase: "unat (mbox_phase w) = unat w div 128"
proof -
  have "unat w < 256" using unsigned_less [of w] by simp
  moreover have "unat (drop_bit 7 w) = unat w div 128"
    using \<open>unat w < 256\<close> unfolding unsigned_drop_bit_eq
    by (simp add: drop_bit_eq_div take_bit_nat_eq_self)
  ultimately show ?thesis
    by (simp add: mbox_phase_def unsigned_ucast_eq take_bit_eq_mod)
qed

lemma unat_enc: "k \<le> 7 \<Longrightarrow> unat (enc (2 ^ k) n) = n mod 2 ^ k + 128 * ((n div 2 ^ k) mod 2)"
proof -
  assume k: "k \<le> 7"
  have "n mod 2 ^ k < 128" by (rule mod_pow_lt [OF k])
  moreover have "128 * ((n div 2 ^ k) mod 2) \<le> 128" by simp
  ultimately have "n mod 2 ^ k + 128 * ((n div 2 ^ k) mod 2) < 256" by linarith
  then show ?thesis unfolding enc_def unat_of_nat by simp
qed

lemma enc_index: "k \<le> 7 \<Longrightarrow> unat (mbox_index (enc (2 ^ k) n)) = n mod 2 ^ k"
proof -
  assume k: "k \<le> 7"
  have "n mod 2 ^ k < 128" by (rule mod_pow_lt [OF k])
  then show ?thesis by (simp add: unat_mbox_index unat_enc [OF k])
qed

lemma enc_phase: "k \<le> 7 \<Longrightarrow> unat (mbox_phase (enc (2 ^ k) n)) = (n div 2 ^ k) mod 2"
proof -
  assume k: "k \<le> 7"
  have "n mod 2 ^ k < 128" by (rule mod_pow_lt [OF k])
  then show ?thesis by (simp add: unat_mbox_phase unat_enc [OF k])
qed

lemma enc_index_word: "k \<le> 7 \<Longrightarrow> mbox_index (enc (2 ^ k) n) = of_nat (n mod 2 ^ k)"
  by (rule of_nat_unat_eq) (rule enc_index)

lemma enc_phase_word: "k \<le> 7 \<Longrightarrow> mbox_phase (enc (2 ^ k) n) = of_nat ((n div 2 ^ k) mod 2)"
  by (rule of_nat_unat_eq) (rule enc_phase)

lemma enc_inj: "k \<le> 7 \<Longrightarrow> enc (2 ^ k) m = enc (2 ^ k) n \<longleftrightarrow>
    m mod 2 ^ k = n mod 2 ^ k \<and> (m div 2 ^ k) mod 2 = (n div 2 ^ k) mod 2"
  by (metis enc_index enc_phase enc_def)

text \<open>Producer and consumer are on the same lap, or the producer is one lap ahead.\<close>

lemma lap_cases:
  fixes H T d :: nat
  assumes "H \<le> T" "T \<le> H + d" "0 < d"
  shows "(T div d = H div d \<and> H mod d \<le> T mod d \<and> T - H = T mod d - H mod d) \<or>
    (T div d = Suc (H div d) \<and> T mod d \<le> H mod d \<and> T - H = d + T mod d - H mod d)"
proof -
  have "H div d \<le> T div d" "T div d \<le> Suc (H div d)"
    using assms div_le_mono [of H T d] div_le_mono [of T "H + d" d] by (simp_all add: div_add_self2)
  then consider "T div d = H div d" | "T div d = Suc (H div d)" by linarith
  moreover have "H = d * (H div d) + H mod d" "T = d * (T div d) + T mod d" by simp_all
  ultimately show ?thesis
  proof cases
    case 1
    with \<open>H = _\<close> \<open>T = _\<close> assms show ?thesis by (metis add_diff_cancel_left add_le_cancel_left)
  next
    case 2
    then have "T = d * (H div d) + d + T mod d" using \<open>T = _\<close> by simp
    with \<open>H = _\<close> assms have "T mod d \<le> H mod d" "T - H = d + T mod d - H mod d" by linarith+
    with 2 show ?thesis by simp
  qed
qed

lemma phase_bits:
  "(of_nat (m mod 2) :: u32) = of_nat (n mod 2) \<longleftrightarrow> m mod 2 = n mod 2"
  "(of_nat (m mod 2) :: u32) XOR of_nat (n mod 2) = (if m mod 2 = n mod 2 then 0 else 1)"
proof -
  have "m mod 2 = 0 \<or> m mod 2 = 1" "n mod 2 = 0 \<or> n mod 2 = 1" by auto
  then show "(of_nat (m mod 2) :: u32) = of_nat (n mod 2) \<longleftrightarrow> m mod 2 = n mod 2"
    "(of_nat (m mod 2) :: u32) XOR of_nat (n mod 2) = (if m mod 2 = n mod 2 then 0 else 1)"
    by (auto)
qed

lemma wrap_diff: "b \<le> d + a \<Longrightarrow> (of_nat a - of_nat b + of_nat d :: u32) = of_nat (d + a - b)"
  by (simp add: of_nat_diff)

lemma unat_wordI: "w = of_nat n \<Longrightarrow> n < 4294967296 \<Longrightarrow> unat (w :: u32) = n"
  by (simp only: unat_of_nat_u32)

text \<open>What the code reads off a mailbox at given positions.\<close>

lemma mbox_at_pow: "mbox_at mbox k H T \<Longrightarrow> k \<le> 7 \<and> (0::nat) < 2 ^ k \<and> (2::nat) ^ k \<le> 128"
  by (simp add: mbox_at_def pow_le_128)

lemma mbox_at_cases:
  assumes "mbox_at mbox k H T"
  obtains (same) "H mod 2 ^ k \<le> T mod 2 ^ k" "T - H = T mod 2 ^ k - H mod 2 ^ k"
      "mbox_phase (ctx_head (mbox_ctx mbox)) = mbox_phase (ctx_tail (mbox_ctx mbox))"
      "mbox_phase (ctx_head (mbox_ctx mbox)) XOR mbox_phase (ctx_tail (mbox_ctx mbox)) = 0"
    | (ahead) "T mod 2 ^ k \<le> H mod 2 ^ k" "T - H = 2 ^ k + T mod 2 ^ k - H mod 2 ^ k"
      "mbox_phase (ctx_head (mbox_ctx mbox)) \<noteq> mbox_phase (ctx_tail (mbox_ctx mbox))"
      "mbox_phase (ctx_head (mbox_ctx mbox)) XOR mbox_phase (ctx_tail (mbox_ctx mbox)) = 1"
proof -
  have k: "k \<le> 7" using assms by (simp add: mbox_at_def)
  have "H \<le> T" "T \<le> H + 2 ^ k" "(0::nat) < 2 ^ k" using assms by (simp_all add: mbox_at_def)
  from lap_cases [OF this] show thesis
  proof
    assume "T div 2 ^ k = H div 2 ^ k \<and> H mod 2 ^ k \<le> T mod 2 ^ k \<and> T - H = T mod 2 ^ k - H mod 2 ^ k"
    then show thesis using assms by (intro same) (simp_all add: mbox_at_def enc_phase_word)
  next
    assume A: "T div 2 ^ k = Suc (H div 2 ^ k) \<and> T mod 2 ^ k \<le> H mod 2 ^ k \<and>
      T - H = 2 ^ k + T mod 2 ^ k - H mod 2 ^ k"
    have "Suc (H div 2 ^ k) mod 2 \<noteq> H div 2 ^ k mod 2" by (simp add: mod_Suc)
    with A show thesis using assms
      by (intro ahead) (simp_all add: mbox_at_def enc_phase_word phase_bits)
  qed
qed

lemma mbox_at_index:
  "mbox_at mbox k H T \<Longrightarrow> mbox_index (ctx_head (mbox_ctx mbox)) = of_nat (H mod 2 ^ k)"
  "mbox_at mbox k H T \<Longrightarrow> mbox_index (ctx_tail (mbox_ctx mbox)) = of_nat (T mod 2 ^ k)"
  "mbox_at mbox k H T \<Longrightarrow> depth mbox = of_nat (2 ^ k)"
  by (simp_all add: mbox_at_def enc_index_word)

lemma pending_count_at:
  assumes "mbox_at mbox k H T"
  shows "unat (get_pending_count mbox) = T - H"
proof -
  have lt: "H mod 2 ^ k < 2 ^ k" "T mod 2 ^ k < 2 ^ k" "(2::nat) ^ k \<le> 128"
    using mbox_at_pow [OF assms] by simp_all
  from assms have "get_pending_count mbox = of_nat (T - H)"
  proof (cases rule: mbox_at_cases)
    case same
    then show ?thesis unfolding get_pending_count_def Let_def mbox_at_index [OF assms] same(2,4)
      by (simp add: of_nat_diff)
  next
    case ahead
    have "H mod 2 ^ k \<le> 2 ^ k + T mod 2 ^ k" using lt(1) by linarith
    then show ?thesis
      unfolding get_pending_count_def Let_def mbox_at_index [OF assms] ahead(2,4) mult_1_right
      by (rule wrap_diff)
  qed
  moreover have "T - H < 4294967296" using assms lt unfolding mbox_at_def by linarith
  ultimately show ?thesis by (rule unat_wordI)
qed

lemma free_space_at:
  assumes "mbox_at mbox k H T"
  shows "unat (get_free_space mbox) = 2 ^ k - (T - H)"
proof -
  have lt: "H mod 2 ^ k < 2 ^ k" "T mod 2 ^ k < 2 ^ k" "(2::nat) ^ k \<le> 128"
    using mbox_at_pow [OF assms] by simp_all
  from assms have "get_free_space mbox = of_nat (2 ^ k - (T - H))"
  proof (cases rule: mbox_at_cases)
    case same
    then have e: "2 ^ k - (T - H) = 2 ^ k + H mod 2 ^ k - T mod 2 ^ k" using lt by linarith
    have "T mod 2 ^ k \<le> 2 ^ k + H mod 2 ^ k" using lt(2) by linarith
    then show ?thesis
      unfolding get_free_space_def Let_def mbox_at_index [OF assms] same(4) e diff_0_right mult_1_right
      by (rule wrap_diff)
  next
    case ahead
    then have e: "2 ^ k - (T - H) = H mod 2 ^ k - T mod 2 ^ k" using lt by linarith
    show ?thesis unfolding get_free_space_def Let_def mbox_at_index [OF assms] ahead(4) e
      using ahead(1) by (simp add: of_nat_diff)
  qed
  moreover have "2 ^ k - (T - H) < 4294967296" using lt by linarith
  ultimately show ?thesis by (rule unat_wordI)
qed

lemma is_empty_at:
  assumes "mbox_at mbox k H T"
  shows "is_empty mbox \<longleftrightarrow> T = H"
proof
  assume "T = H"
  then show "is_empty mbox" using assms by (simp add: is_empty_def mbox_at_def)
next
  assume e: "is_empty mbox"
  have "H \<le> T" using assms by (simp add: mbox_at_def)
  from e have c: "enc (2 ^ k) H = enc (2 ^ k) T" using assms unfolding is_empty_def mbox_at_def by metis
  then have "H mod 2 ^ k = T mod 2 ^ k" using assms enc_inj by (simp add: mbox_at_def)
  from assms show "T = H"
  proof (cases rule: mbox_at_cases)
    case same
    with \<open>H mod 2 ^ k = T mod 2 ^ k\<close> \<open>H \<le> T\<close> show ?thesis by linarith
  next
    case ahead
    with e show ?thesis by (simp add: is_empty_def)
  qed
qed

lemma is_full_at:
  assumes "mbox_at mbox k H T"
  shows "is_full mbox \<longleftrightarrow> T = H + 2 ^ k"
proof -
  have lt: "H mod 2 ^ k < 4294967296" "T mod 2 ^ k < 4294967296" "H mod 2 ^ k < 2 ^ k"
    using mbox_at_pow [OF assms] mod_pow_lt [of k H] mod_pow_lt [of k T] by simp_all
  have "H \<le> T" using assms by (simp add: mbox_at_def)
  from assms show ?thesis
  proof (cases rule: mbox_at_cases)
    case same
    then have "T < H + 2 ^ k" using lt(3) \<open>H \<le> T\<close> mod_less_divisor [of "2 ^ k" T] by linarith
    with same show ?thesis by (simp add: is_full_def Let_def)
  next
    case ahead
    have "H mod 2 ^ k = T mod 2 ^ k \<longleftrightarrow> T = H + 2 ^ k"
      by (rule iffI) (use ahead(1,2) lt(3) \<open>H \<le> T\<close> in linarith)+
    with ahead(3) show ?thesis unfolding is_full_def Let_def mbox_at_index [OF assms]
      using lt by (simp add: of_nat_u32_eq_iff)
  qed
qed

lemma pushable_at:
  assumes "mbox_at mbox k H T"
  shows "unat (get_pushable_count mbox) = min (2 ^ k - (T - H)) (2 ^ k - T mod 2 ^ k)"
proof -
  have lt: "H mod 2 ^ k < 2 ^ k" "T mod 2 ^ k < 2 ^ k" "(2::nat) ^ k \<le> 128"
    using mbox_at_pow [OF assms] by simp_all
  from assms show ?thesis
  proof (cases rule: mbox_at_cases)
    case same
    then have "get_pushable_count mbox = of_nat (2 ^ k - T mod 2 ^ k)"
      using lt(2) unfolding get_pushable_count_def Let_def mbox_at_index [OF assms]
      by (simp add: of_nat_diff less_imp_le)
    then have "unat (get_pushable_count mbox) = 2 ^ k - T mod 2 ^ k"
      by (rule unat_wordI) (use lt in linarith)
    moreover have "2 ^ k - T mod 2 ^ k \<le> 2 ^ k - (T - H)" using same(1,2) lt by linarith
    ultimately show ?thesis by (simp add: min_def)
  next
    case ahead
    then have "get_pushable_count mbox = of_nat (H mod 2 ^ k - T mod 2 ^ k)"
      unfolding get_pushable_count_def Let_def mbox_at_index [OF assms]
      by (simp add: of_nat_diff)
    moreover have "2 ^ k - (T - H) = H mod 2 ^ k - T mod 2 ^ k" using ahead(1,2) lt by linarith
    moreover have "H mod 2 ^ k - T mod 2 ^ k \<le> 2 ^ k - T mod 2 ^ k"
      "H mod 2 ^ k - T mod 2 ^ k < 4294967296" using lt by linarith+
    ultimately show ?thesis by (simp add: unat_of_nat_u32 min_def)
  qed
qed

lemma popable_at:
  assumes "mbox_at mbox k H T"
  shows "unat (get_popable_count mbox) = min (T - H) (2 ^ k - H mod 2 ^ k)"
proof -
  have lt: "H mod 2 ^ k < 2 ^ k" "T mod 2 ^ k < 2 ^ k" "(2::nat) ^ k \<le> 128"
    using mbox_at_pow [OF assms] by simp_all
  from assms show ?thesis
  proof (cases rule: mbox_at_cases)
    case same
    then have "get_popable_count mbox = of_nat (T mod 2 ^ k - H mod 2 ^ k)"
      unfolding get_popable_count_def Let_def mbox_at_index [OF assms]
      by (simp add: of_nat_diff)
    moreover have "T mod 2 ^ k - H mod 2 ^ k \<le> 2 ^ k - H mod 2 ^ k"
      "T mod 2 ^ k - H mod 2 ^ k < 4294967296" using lt by linarith+
    ultimately show ?thesis using same(2) by (simp add: unat_of_nat_u32 min_def)
  next
    case ahead
    then have "get_popable_count mbox = of_nat (2 ^ k - H mod 2 ^ k)"
      using lt(1) unfolding get_popable_count_def Let_def mbox_at_index [OF assms]
      by (simp add: of_nat_diff less_imp_le)
    then have "unat (get_popable_count mbox) = 2 ^ k - H mod 2 ^ k"
      by (rule unat_wordI) (use lt in linarith)
    moreover have "2 ^ k - H mod 2 ^ k \<le> T - H" using ahead(1,2) lt by linarith
    ultimately show ?thesis by (simp add: min_def)
  qed
qed

section \<open>Advancing an index\<close>

lemma mbox_index_full_of_nat:
  assumes "i < 128" "p < 2"
  shows "mbox_index_full (of_nat i) (of_nat p) = of_nat (i + 128 * p)"
proof -
  have "(of_nat i :: u8) AND 0x7f = of_nat i"
  proof -
    have "(of_nat i :: u8) AND 0x7f = take_bit 7 (of_nat i)"
      by (simp add: take_bit_eq_mask mask_eq_exp_minus_1)
    also have "\<dots> = of_nat (take_bit 7 i)" by (simp add: take_bit_of_nat)
    also have "take_bit 7 i = i" using assms by (simp add: take_bit_nat_eq_self)
    finally show ?thesis .
  qed
  moreover have "(of_nat i :: u8) AND push_bit 7 (of_nat p) = 0"
  proof -
    have "take_bit 7 (of_nat i :: u8) = of_nat i"
      using assms by (simp add: take_bit_of_nat take_bit_nat_eq_self)
    then show ?thesis
      by (metis (no_types, lifting) and.assoc and.commute take_bit_eq_mask take_bit_push_bit
          and_zero_eq cancel_comm_monoid_add_class.diff_cancel push_bit_of_0 take_bit_0)
  qed
  moreover have "(push_bit 7 (of_nat p) :: u8) = of_nat (128 * p)"
    by (simp add: push_bit_eq_mult)
  moreover have "ucast (of_nat i :: u32) = (of_nat i :: u8)" "ucast (of_nat p :: u32) = (of_nat p :: u8)"
    using assms by (simp_all add: unsigned_of_nat take_bit_nat_eq_self)
  ultimately show ?thesis
    by (simp add: mbox_index_full_def disjunctive_add_eq_or [symmetric])
qed

lemma next_index_bits:
  assumes "k \<le> 7"
  shows "unat (((of_nat a :: u32) AND (of_nat (2 ^ k) - 1)) AND 0x7f) = a mod 2 ^ k"
proof -
  have m: "(of_nat (2 ^ k) - 1 :: u32) = mask k" "(0x7f :: u32) = mask 7"
    by (simp_all add: mask_eq_exp_minus_1)
  have "unat (take_bit k (of_nat a :: u32)) = take_bit k a"
    using assms by (simp add: unsigned_take_bit_eq unsigned_of_nat take_bit_take_bit min_def)
  then have "unat (take_bit k (of_nat a :: u32)) = a mod 2 ^ k" by (simp add: take_bit_eq_mod)
  moreover have "take_bit 7 (take_bit k (of_nat a)) = (take_bit k (of_nat a) :: u32)"
    using assms by (simp add: min_def)
  ultimately show ?thesis unfolding m take_bit_eq_mask [symmetric] by simp
qed

lemma next_index_at:
  assumes k: "k \<le> 7" and c: "c \<le> 2 ^ k"
  shows "get_next_index (enc (2 ^ k) n) (of_nat c) (of_nat (2 ^ k)) = enc (2 ^ k) (n + c)"
proof -
  let ?i = "n mod 2 ^ k" and ?p = "n div 2 ^ k" and ?j = "(n + c) mod 2 ^ k"
  have lt: "?i < 2 ^ k" "?j < 128" "(2::nat) ^ k \<le> 128"
    using mod_pow_lt [OF k] pow_le_128 [OF k] by simp_all
  have idx: "mbox_index (enc (2 ^ k) n) = of_nat ?i" "mbox_phase (enc (2 ^ k) n) = of_nat (?p mod 2)"
    using k by (simp_all add: enc_index_word enc_phase_word)
  have "unat (((mbox_index (enc (2 ^ k) n) + of_nat c) AND (of_nat (2 ^ k) - 1)) AND 0x7f) = ?j"
    unfolding idx using next_index_bits [OF k, of "?i + c"] by (simp add: mod_add_left_eq)
  then have ni: "((mbox_index (enc (2 ^ k) n) + of_nat c) AND (of_nat (2 ^ k) - 1)) AND 0x7f = of_nat ?j"
    by (rule of_nat_unat_eq)
  have le: "(of_nat ?j \<le> (of_nat ?i :: u32)) \<longleftrightarrow> ?j \<le> ?i"
    using lt mod_pow_lt [OF k, of n] by (simp add: word_le_nat_alt unat_of_nat_u32)
  have c0: "(of_nat c :: u32) \<noteq> 0 \<longleftrightarrow> c \<noteq> 0"
    using of_nat_u32_eq_iff [of c 0] c lt by simp
  have flip: "(if c \<noteq> 0 \<and> ?j \<le> ?i then (of_nat (?p mod 2) :: u32) XOR 1 else of_nat (?p mod 2)) =
      of_nat (((n + c) div 2 ^ k) mod 2)"
  proof -
    have n: "n \<le> n + c" "n + c \<le> n + 2 ^ k" "(0::nat) < 2 ^ k" using c by simp_all
    have x: "(of_nat (?p mod 2) :: u32) XOR 1 = of_nat (Suc ?p mod 2)"
      by (cases "even ?p") (simp_all add: mod_Suc even_iff_mod_2_eq_zero odd_iff_mod_2_eq_one)
    from lap_cases [OF n] show ?thesis
    proof
      assume A: "(n + c) div 2 ^ k = ?p \<and> ?i \<le> ?j \<and> n + c - n = ?j - ?i"
      then have "\<not> (c \<noteq> 0 \<and> ?j \<le> ?i)" by linarith
      then show ?thesis using A by (simp only: if_False)
    next
      assume A: "(n + c) div 2 ^ k = Suc ?p \<and> ?j \<le> ?i \<and> n + c - n = 2 ^ k + ?j - ?i"
      then have "c \<noteq> 0 \<and> ?j \<le> ?i" using lt(1) by linarith
      then show ?thesis using A x by (simp only: if_True simp_thms)
    qed
  qed
  have "get_next_index (enc (2 ^ k) n) (of_nat c) (of_nat (2 ^ k)) =
      mbox_index_full (of_nat ?j) (of_nat (((n + c) div 2 ^ k) mod 2))"
    unfolding get_next_index_def Let_def ni unfolding idx le c0 flip ..
  then show ?thesis using lt(2) by (simp only: mbox_index_full_of_nat enc_def mod_less_divisor zero_less_numeral)
qed

section \<open>The context word\<close>

lemma bit_beyond:
  "8 \<le> n \<Longrightarrow> bit (w8 :: u8) n = False" "16 \<le> n \<Longrightarrow> bit (w16 :: u16) n = False"
  "4 \<le> n \<Longrightarrow> bit (w4 :: 4 word) n = False"
  using bit_imp_le_length [of w8 n] bit_imp_le_length [of w16 n] bit_imp_le_length [of w4 n] by auto

lemma field_bit:
  "bit (push_bit i (ucast (ucast (drop_bit i u) :: 'a::len word) :: u64)) n \<longleftrightarrow>
     i \<le> n \<and> n < i + LENGTH('a) \<and> n < 64 \<and> bit (u :: u64) n"
  by (auto simp: bit_push_bit_iff bit_unsigned_iff bit_drop_bit_eq)

lemma context_word_roundtrip: "mbox_context_u64 (mbox_context_of_u64 u) = u"
proof (rule bit_word_eqI)
  fix n
  assume n: "n < LENGTH(64)"
  then have "n < 8 \<or> 8 \<le> n \<and> n < 24 \<or> 24 \<le> n \<and> n < 40 \<or> 40 \<le> n \<and> n < 44 \<or>
      44 \<le> n \<and> n < 48 \<or> 48 \<le> n \<and> n < 56 \<or> 56 \<le> n \<and> n < 64" by simp linarith
  then have r: "(n < 8 \<and> b) \<or> (8 \<le> n \<and> n < 24 \<and> b) \<or> (24 \<le> n \<and> n < 40 \<and> b) \<or>
      (40 \<le> n \<and> n < 44 \<and> b) \<or> (44 \<le> n \<and> n < 48 \<and> b) \<or> (48 \<le> n \<and> n < 56 \<and> b) \<or>
      (56 \<le> n \<and> n < 64 \<and> b) \<longleftrightarrow> b" for b by blast
  have low: "bit (ucast (ucast u :: u8) :: u64) n \<longleftrightarrow> n < 8 \<and> bit u n"
    by (auto simp: bit_unsigned_iff)
  show "bit (mbox_context_u64 (mbox_context_of_u64 u)) n = bit u n"
    using r [of "bit u n"] n
    unfolding mbox_context_u64_def mbox_context_of_u64_def mbox_context_t.simps bit_or_iff field_bit low
    by simp
qed

lemma context_struct_roundtrip: "mbox_context_of_u64 (mbox_context_u64 c) = c"
  unfolding mbox_context_u64_def mbox_context_of_u64_def
  by (rule mbox_context_t.equality)
     (auto intro!: bit_word_eqI
        simp: bit_or_iff bit_push_bit_iff bit_unsigned_iff bit_drop_bit_eq bit_beyond)

end
