(* ===== verification/Mbox_Ioctl.thy ===== *)
theory Mbox_Ioctl
  imports Mbox
begin

text \<open>
  The mailbox ioctls of \<open>ioctl.c\<close>: registration, re-initialisation, sending and receiving commands.
  Reads and writes of device memory go through the transfer layer; a handler takes their outcomes
  as arguments (an \<open>ssize_t\<close> is \<open>nat result\<close>: a negative errno or a byte count) and returns the
  accesses it made, in order. A null user pointer is \<open>0\<close>.
\<close>

section \<open>State and requests\<close>

abbreviation (input) MAX_NUM_OF_MBOX :: u32 where "MAX_NUM_OF_MBOX \<equiv> 80"
abbreviation (input) ULLONG_MAX :: u64 where "ULLONG_MAX \<equiv> - 1"

text \<open>
  The part of \<open>struct mx_pci_dev\<close> and \<open>struct mx_bar_map\<close> guarded by \<open>bar_map->lock\<close>; a missing
  list entry is a null pointer.
\<close>

record mbox_regs =
  sq_mbox_list :: "nat \<Rightarrow> mx_mbox option"
  cq_mbox_list :: "nat \<Rightarrow> mx_mbox option"
  bar_map_count :: u32
  reserved_hio_qid :: int

record mx_ioctl_mbox_info =
  info_qid :: u32
  sq_ctx_addr :: u64
  sq_data_addr :: u64
  cq_ctx_addr :: u64
  cq_data_addr :: u64

record mx_ioctl_cmds =
  cmds_qid :: u32
  nr_cmds :: u32
  cmds_ptr :: u64

record mx_ioctl_cmd_with_data =
  cwd_qid :: u32
  cwd_cmd :: u64
  cwd_user_addr :: u64
  cwd_device_addr :: u64
  cwd_size :: nat

datatype dev_access =
    Read_ctrl u64        \<comment> \<open>context word at an address\<close>
  | Write_ctrl u64 u64   \<comment> \<open>context word and its address\<close>
  | Write_data u64 nat   \<comment> \<open>address and bytes\<close>
  | Read_data u64 nat

text \<open>The outcome of a control read: the return value and the word delivered.\<close>

type_synonym ctrl_reply = "nat result \<times> u64"

definition read_failed :: "ctrl_reply \<Rightarrow> bool" where
  "read_failed r = (case fst r of Inl e \<Rightarrow> True | Inr n \<Rightarrow> n = 0)"

section \<open>Registration\<close>

definition create_mx_mbox :: "ctrl_reply \<Rightarrow> bool \<Rightarrow> u64 \<Rightarrow> u64 \<Rightarrow> mx_mbox result" where
  "create_mx_mbox reply alloc_ok ctx_addr data_address =
     (case fst reply of
        Inl e \<Rightarrow> Inl e
      | Inr n \<Rightarrow>
          if n = 0 then Inl EIO
          else if snd reply = ULLONG_MAX then Inl EINVAL
          else if \<not> alloc_ok then Inl ENOMEM
          else Inr (mx_mbox_init ctx_addr data_address (snd reply)))"

definition reset_mx_mbox :: "ctrl_reply \<Rightarrow> mx_mbox \<Rightarrow> unit result \<times> mx_mbox" where
  "reset_mx_mbox reply mbox =
     (case fst reply of
        Inl e \<Rightarrow> (Inl e, mbox)
      | Inr n \<Rightarrow> if n = 0 then (Inl EIO, mbox)
                else (OK, mbox\<lparr>mbox_ctx := mbox_context_of_u64 (snd reply)\<rparr>))"

definition get_sq_mbox :: "mbox_regs \<Rightarrow> u32 \<Rightarrow> mx_mbox option" where
  "get_sq_mbox dev qid = (if qid < MAX_NUM_OF_MBOX then sq_mbox_list dev (unat qid) else None)"

definition get_cq_mbox :: "mbox_regs \<Rightarrow> u32 \<Rightarrow> mx_mbox option" where
  "get_cq_mbox dev qid = (if qid < MAX_NUM_OF_MBOX then cq_mbox_list dev (unat qid) else None)"

definition registered_mbox_matches :: "mbox_regs \<Rightarrow> u32 \<Rightarrow> mx_ioctl_mbox_info \<Rightarrow> bool" where
  "registered_mbox_matches dev qid info =
     (case (sq_mbox_list dev (unat qid), cq_mbox_list dev (unat qid)) of
        (Some sq, Some cq) \<Rightarrow> r_ctx_addr sq = sq_ctx_addr info \<and> r_ctx_addr cq = cq_ctx_addr info
      | _ \<Rightarrow> False)"

text \<open>
  The check both lock sections of \<open>ioctl_register_mbox\<close> make: an answer ends the ioctl, \<open>None\<close> goes
  on. Between the two sections other threads run, so the second section gets its own state.
\<close>

definition register_recheck :: "mbox_regs \<Rightarrow> mx_ioctl_mbox_info \<Rightarrow> unit result option" where
  "register_recheck dev info =
     (if bar_map_count dev \<noteq> 0 then Some (Inl EBUSY)
      else if sq_mbox_list dev (unat (info_qid info)) \<noteq> None
      then Some (if registered_mbox_matches dev (info_qid info) info then OK else Inl EINVAL)
      else None)"

definition ioctl_register_mbox_begin ::
  "mbox_regs \<Rightarrow> mx_ioctl_mbox_info option \<Rightarrow> (unit result, mx_ioctl_mbox_info) sum" where
  "ioctl_register_mbox_begin dev user_info =
     (case user_info of
        None \<Rightarrow> Inl (Inl EFAULT)
      | Some info \<Rightarrow>
          if MAX_NUM_OF_MBOX \<le> info_qid info then Inl (Inl EINVAL)
          else if 0 \<le> reserved_hio_qid dev \<and> info_qid info = of_int (reserved_hio_qid dev)
          then Inl (Inl EBUSY)
          else case register_recheck dev info of
                 Some r \<Rightarrow> Inl r
               | None \<Rightarrow> Inr info)"

definition ioctl_register_mbox_publish ::
  "mbox_regs \<Rightarrow> mx_ioctl_mbox_info \<Rightarrow> mx_mbox result \<Rightarrow> mx_mbox result \<Rightarrow> unit result \<times> mbox_regs" where
  "ioctl_register_mbox_publish dev info sq cq =
     (case sq of
        Inl e \<Rightarrow> (Inl e, dev)
      | Inr sq_mbox \<Rightarrow>
          (case cq of
             Inl e \<Rightarrow> (Inl e, dev)
           | Inr cq_mbox \<Rightarrow>
               (case register_recheck dev info of
                  Some r \<Rightarrow> (r, dev)
                | None \<Rightarrow>
                    (OK, dev\<lparr>sq_mbox_list := (sq_mbox_list dev)(unat (info_qid info) := Some sq_mbox),
                             cq_mbox_list := (cq_mbox_list dev)(unat (info_qid info) := Some cq_mbox)\<rparr>))))"

text \<open>
  The whole ioctl: \<open>dev\<close> at the first lock section, \<open>dev'\<close> at the second. The mailbox contexts are
  read only when the first section goes on.
\<close>

definition ioctl_register_mbox ::
  "mbox_regs \<Rightarrow> mbox_regs \<Rightarrow> mx_ioctl_mbox_info option \<Rightarrow> ctrl_reply \<Rightarrow> ctrl_reply \<Rightarrow> bool \<Rightarrow> bool \<Rightarrow>
     unit result \<times> mbox_regs" where
  "ioctl_register_mbox dev dev' user_info sq_reply cq_reply sq_alloc cq_alloc =
     (case ioctl_register_mbox_begin dev user_info of
        Inl r \<Rightarrow> (r, dev)
      | Inr info \<Rightarrow>
          ioctl_register_mbox_publish dev' info
            (create_mx_mbox sq_reply sq_alloc (sq_ctx_addr info) (sq_data_addr info))
            (create_mx_mbox cq_reply cq_alloc (cq_ctx_addr info) (cq_data_addr info)))"

definition mx_free_registered_mboxes :: "mbox_regs \<Rightarrow> mbox_regs" where
  "mx_free_registered_mboxes dev =
     dev\<lparr>sq_mbox_list := (\<lambda>qid. if qid < 80 then None else sq_mbox_list dev qid),
         cq_mbox_list := (\<lambda>qid. if qid < 80 then None else cq_mbox_list dev qid)\<rparr>"

definition ioctl_init_mbox ::
  "mbox_regs \<Rightarrow> u32 option \<Rightarrow> ctrl_reply \<Rightarrow> ctrl_reply \<Rightarrow> unit result \<times> mbox_regs" where
  "ioctl_init_mbox dev user_qid sq_reply cq_reply =
     (case user_qid of
        None \<Rightarrow> (Inl EFAULT, dev)
      | Some qid \<Rightarrow>
          (case (get_sq_mbox dev qid, get_cq_mbox dev qid) of
             (Some sq, Some cq) \<Rightarrow>
               (case reset_mx_mbox sq_reply sq of
                  (Inl e, _) \<Rightarrow> (Inl e, dev)
                | (Inr _, sq') \<Rightarrow>
                    let dev1 = dev\<lparr>sq_mbox_list := (sq_mbox_list dev)(unat qid := Some sq')\<rparr> in
                    case reset_mx_mbox cq_reply cq of
                      (Inl e, _) \<Rightarrow> (Inl e, dev1)
                    | (Inr _, cq') \<Rightarrow>
                        (OK, dev1\<lparr>cq_mbox_list := (cq_mbox_list dev1)(unat qid := Some cq')\<rparr>))
           | _ \<Rightarrow> (Inl EINVAL, dev)))"

section \<open>Sending\<close>

definition set_head :: "mx_mbox \<Rightarrow> u64 \<Rightarrow> mx_mbox" where
  "set_head mbox word = mbox\<lparr>mbox_ctx := (mbox_ctx mbox)\<lparr>ctx_head := ctx_head (mbox_context_of_u64 word)\<rparr>\<rparr>"

definition set_tail :: "mx_mbox \<Rightarrow> u64 \<Rightarrow> mx_mbox" where
  "set_tail mbox word = mbox\<lparr>mbox_ctx := (mbox_ctx mbox)\<lparr>ctx_tail := ctx_tail (mbox_context_of_u64 word)\<rparr>\<rparr>"

definition advance_tail :: "mx_mbox \<Rightarrow> u32 \<Rightarrow> mx_mbox" where
  "advance_tail mbox nr = mbox\<lparr>mbox_ctx := (mbox_ctx mbox)\<lparr>ctx_tail :=
     get_next_index (ctx_tail (mbox_ctx mbox)) nr (depth mbox)\<rparr>\<rparr>"

definition advance_head :: "mx_mbox \<Rightarrow> u32 \<Rightarrow> mx_mbox" where
  "advance_head mbox nr = mbox\<lparr>mbox_ctx := (mbox_ctx mbox)\<lparr>ctx_head :=
     get_next_index (ctx_head (mbox_ctx mbox)) nr (depth mbox)\<rparr>\<rparr>"

text \<open>
  The body of \<open>ioctl_send_cmds\<close> under the mailbox lock. \<open>reply\<close> is the context read (made only if the
  cached head does not leave enough room), \<open>wret\<close> the result of writing the commands. The value is
  the number of commands sent.
\<close>

definition send_cmds_locked ::
  "mx_mbox \<Rightarrow> u32 \<Rightarrow> ctrl_reply \<Rightarrow> nat result \<Rightarrow> u32 result \<times> mx_mbox \<times> dev_access list" where
  "send_cmds_locked mbox nr reply wret =
     (let cached = get_pushable_count mbox;
          refresh = cached < nr;
          mbox1 = (if refresh then set_head mbox (snd reply) else mbox);
          ops = (if refresh then [Read_ctrl (r_ctx_addr mbox)] else [])
      in if refresh \<and> read_failed reply then (Inl EINTR, mbox, ops)
         else
           let pushable = get_pushable_count mbox1 in
           if pushable = 0 then (Inr 0, mbox1, ops)
           else
             let n = (if nr < pushable then nr else pushable);
                 addr = data_addr mbox1 + ucast (get_data_offset (ctx_tail (mbox_ctx mbox1)));
                 ops = ops @ [Write_data addr (8 * unat n)]
             in case wret of
                  Inl e \<Rightarrow> (Inl e, mbox1, ops)
                | Inr w \<Rightarrow>
                    if w < 8 * unat n then (Inl EIO, mbox1, ops)
                    else let mbox2 = advance_tail mbox1 n in
                         (Inr n, mbox2,
                          ops @ [Write_ctrl (w_ctx_addr mbox2) (mbox_context_u64 (mbox_ctx mbox2))]))"

text \<open>The handler: the reply to user space is the number of commands, or a fault of its own.\<close>

definition ioctl_send_cmds ::
  "mbox_regs \<Rightarrow> mx_ioctl_cmds option \<Rightarrow> ctrl_reply \<Rightarrow> nat result \<Rightarrow> bool \<Rightarrow>
     unit result \<times> u32 option \<times> mbox_regs \<times> dev_access list" where
  "ioctl_send_cmds dev user_cmd reply wret copy_out_ok =
     (case user_cmd of
        None \<Rightarrow> (Inl EFAULT, None, dev, [])
      | Some req \<Rightarrow>
          (case get_sq_mbox dev (cmds_qid req) of
             None \<Rightarrow> (Inl EINVAL, None, dev, [])
           | Some mbox \<Rightarrow>
               if cmds_ptr req = 0 then (Inl EINVAL, None, dev, [])
               else case send_cmds_locked mbox (nr_cmds req) reply wret of
                      (r, mbox', ops) \<Rightarrow>
                        let dev' = dev\<lparr>sq_mbox_list := (sq_mbox_list dev)(unat (cmds_qid req) := Some mbox')\<rparr> in
                        case r of
                          Inl e \<Rightarrow> (Inl e, None, dev', ops)
                        | Inr n \<Rightarrow> if copy_out_ok then (OK, Some n, dev', ops)
                                  else (Inl EFAULT, None, dev', ops)))"

text \<open>
  The wait for room of \<open>ioctl_send_cmd_with_data\<close>: one context read per round. \<open>None\<close> means the
  replies ran out and the loop is still going.
\<close>

fun wait_not_full :: "mx_mbox \<Rightarrow> ctrl_reply list \<Rightarrow> (unit result \<times> mx_mbox \<times> dev_access list) option" where
  "wait_not_full mbox replies =
     (if \<not> is_full mbox then Some (OK, mbox, [])
      else case replies of
             [] \<Rightarrow> None
           | reply # rest \<Rightarrow>
               if read_failed reply then Some (Inl EINTR, mbox, [Read_ctrl (r_ctx_addr mbox)])
               else map_option (\<lambda>(r, m, ops). (r, m, Read_ctrl (r_ctx_addr mbox) # ops))
                      (wait_not_full (set_head mbox (snd reply)) rest))"

definition send_one_locked ::
  "mx_mbox \<Rightarrow> ctrl_reply list \<Rightarrow> nat result \<Rightarrow> (unit result \<times> mx_mbox \<times> dev_access list) option" where
  "send_one_locked mbox replies cret =
     (case wait_not_full mbox replies of
        None \<Rightarrow> None
      | Some (Inl e, mbox1, ops) \<Rightarrow> Some (Inl e, mbox1, ops)
      | Some (Inr _, mbox1, ops) \<Rightarrow>
          let addr = data_addr mbox1 + ucast (get_data_offset (ctx_tail (mbox_ctx mbox1)));
              ops = ops @ [Write_data addr 8]
          in case cret of
               Inl e \<Rightarrow> Some (Inl e, mbox1, ops)
             | Inr w \<Rightarrow>
                 if w < 8 then Some (Inl EIO, mbox1, ops)
                 else let mbox2 = advance_tail mbox1 1 in
                      Some (OK, mbox2,
                            ops @ [Write_ctrl (w_ctx_addr mbox2) (mbox_context_u64 (mbox_ctx mbox2))]))"

definition ioctl_send_cmd_with_data ::
  "mbox_regs \<Rightarrow> mx_ioctl_cmd_with_data option \<Rightarrow> nat result \<Rightarrow> ctrl_reply list \<Rightarrow> nat result \<Rightarrow>
     (unit result \<times> mbox_regs \<times> dev_access list) option" where
  "ioctl_send_cmd_with_data dev user_cmd payload_ret replies cret =
     (case user_cmd of
        None \<Rightarrow> Some (Inl EFAULT, dev, [])
      | Some req \<Rightarrow>
          (case get_sq_mbox dev (cwd_qid req) of
             None \<Rightarrow> Some (Inl EINVAL, dev, [])
           | Some mbox \<Rightarrow>
               if cwd_cmd req = 0 then Some (Inl EINVAL, dev, [])
               else
                 let payload = (cwd_user_addr req \<noteq> 0 \<and> 0 < cwd_size req);
                     ops0 = (if payload then [Write_data (cwd_device_addr req) (cwd_size req)] else [])
                 in case (if payload then payload_ret else Inr 0) of
                      Inl e \<Rightarrow> Some (Inl e, dev, ops0)
                    | Inr _ \<Rightarrow>
                        map_option (\<lambda>(r, mbox', ops).
                            (r, dev\<lparr>sq_mbox_list := (sq_mbox_list dev)(unat (cwd_qid req) := Some mbox')\<rparr>,
                             ops0 @ ops))
                          (send_one_locked mbox replies cret)))"

section \<open>Receiving\<close>

definition recv_cmds_locked ::
  "mx_mbox \<Rightarrow> u32 \<Rightarrow> ctrl_reply \<Rightarrow> u32 result \<times> mx_mbox \<times> dev_access list" where
  "recv_cmds_locked mbox nr reply =
     (let ops = [Read_ctrl (r_ctx_addr mbox)] in
      if read_failed reply then (Inl EINTR, mbox, ops)
      else
        let mbox1 = set_tail mbox (snd reply) in
        if is_empty mbox1 then (Inr 0, mbox1, ops)
        else
          let popable = get_popable_count mbox1;
              n = (if nr < popable then nr else popable);
              addr = data_addr mbox1 + ucast (get_data_offset (ctx_head (mbox_ctx mbox1)));
              mbox2 = advance_head mbox1 n
          in (Inr n, mbox2,
              ops @ [Read_data addr (8 * unat n),
                     Write_ctrl (w_ctx_addr mbox2) (mbox_context_u64 (mbox_ctx mbox2))]))"

definition ioctl_recv_cmds ::
  "mbox_regs \<Rightarrow> mx_ioctl_cmds option \<Rightarrow> ctrl_reply \<Rightarrow> nat result \<Rightarrow> bool \<Rightarrow>
     unit result \<times> u32 option \<times> mbox_regs \<times> dev_access list" where
  "ioctl_recv_cmds dev user_cmd reply data_ret copy_out_ok =
     (case user_cmd of
        None \<Rightarrow> (Inl EFAULT, None, dev, [])
      | Some req \<Rightarrow>
          (case get_cq_mbox dev (cmds_qid req) of
             None \<Rightarrow> (Inl EINVAL, None, dev, [])
           | Some mbox \<Rightarrow>
               if nr_cmds req = 0 \<or> cmds_ptr req = 0 then (Inl EINVAL, None, dev, [])
               else case recv_cmds_locked mbox (nr_cmds req) reply of
                      (r, mbox', ops) \<Rightarrow>
                        let dev' = dev\<lparr>cq_mbox_list := (cq_mbox_list dev)(unat (cmds_qid req) := Some mbox')\<rparr> in
                        case r of
                          Inl e \<Rightarrow> (Inl e, None, dev', ops)
                        | Inr n \<Rightarrow> if copy_out_ok then (OK, Some n, dev', ops)
                                  else (Inl EFAULT, None, dev', ops)))"

end
