(* ===== verification/Lifetime.thy ===== *)
theory Lifetime
  imports Lease_Ctl Mbox_Ioctl
begin

text \<open>
  Reference counting of the objects that outlive a system call: the device (\<open>mx_pdev->ref\<close>), the
  open-file contexts (\<open>ctx->refs\<close>), the shared BAR bookkeeping (\<open>bar_map->kref\<close>), the object behind
  each \<open>mmap()\<close> of the BAR (\<open>bar_vma->refs\<close>), and the running file operations and the queued wait work of
  no-wait requests (\<open>io_ref\<close>).  Sources: \<open>core_common.c\<close> (BAR mapping), \<open>fops.c\<close>, the wait work of
  \<open>transfer.c\<close>, and the reference functions of \<open>lease.c\<close>.

  Objects are numbered; a freed object is \<open>None\<close> (a count of \<open>0\<close> for the device and for the BAR
  bookkeeping).  An operation returns \<open>None\<close> where the code would touch a freed object or drop a
  reference nobody holds, so that memory safety is the statement that the operations return
  \<open>Some\<close>.  Reference counts are unbounded: the kernel's \<open>refcount_t\<close> saturates instead of wrapping.
  The two counters the code keeps itself (\<open>bar_map->count\<close>, \<open>ctx->bar_mapping_count\<close>) are words.
\<close>

section \<open>State\<close>

record mx_bar_vma =
  bv_refs :: nat
  bv_owner :: nat         \<comment> \<open>\<open>owner_ctx\<close>; \<open>mx_pdev\<close> and \<open>bar_map\<close> are those of the device\<close>

text \<open>The fields of \<open>struct mx_pci_dev\<close>, \<open>struct mx_bar_map\<close> (its \<open>count\<close> is in \<open>mbox_regs\<close>) and the heap.\<close>

record mx_life =
  lf_regs :: mbox_regs
  lf_mapping :: "nat option"
  lf_bar_kref :: nat
  lf_ref :: nat
  lf_magic :: bool        \<comment> \<open>\<open>magic == MAGIC_DEVICE\<close>\<close>
  lf_enabled :: bool
  lf_io_ref :: nat
  lf_io_dying :: bool
  lf_bar_size :: u64
  lf_lease :: mx_device_lease
  lf_ctx :: "nat \<Rightarrow> mx_file_ctx option"
  lf_ctx_refs :: "nat \<Rightarrow> nat"
  lf_vma :: "nat \<Rightarrow> mx_bar_vma option"

text \<open>The arguments of an \<open>mmap()\<close>: \<open>struct vm_area_struct\<close> as far as the driver reads it.\<close>

record vm_area =
  vm_start :: u64
  vm_end :: u64
  vm_pgoff :: u64
  vm_shared :: bool
  vm_f_mapping :: nat

section \<open>References\<close>

definition mx_bar_map_put :: "mx_life \<Rightarrow> mx_life option" where
  "mx_bar_map_put s =
     (if lf_bar_kref s = 0 then None else Some (s\<lparr>lf_bar_kref := lf_bar_kref s - 1\<rparr>))"

text \<open>\<open>mx_pdev_free\<close>: drops the anchors and the device's own reference to the BAR bookkeeping.\<close>

definition mx_pdev_free :: "mx_life \<Rightarrow> mx_life option" where
  "mx_pdev_free s =
     (let l = lf_lease s; sm = lease_state l;
          sm = (if family_holders sm \<noteq> 0 \<or> publishers sm \<noteq> 0 \<or> workloads sm \<noteq> 0 \<or> legacy_holders sm \<noteq> 0
                then sm_zero else sm);
          l = l\<lparr>lease_state := sm, state_path_valid := False, state_inode := None,
                slot_domain_path_valid := False, slot_domain_inode := None\<rparr>
      in case mx_bar_map_put (s\<lparr>lf_lease := l\<rparr>) of
           None \<Rightarrow> None
         | Some s \<Rightarrow> Some (s\<lparr>lf_magic := False\<rparr>))"

definition mx_pdev_put :: "mx_life \<Rightarrow> mx_life option" where
  "mx_pdev_put s =
     (if lf_ref s = 0 then None
      else let s = s\<lparr>lf_ref := lf_ref s - 1\<rparr> in
           if lf_ref s = 0 then mx_pdev_free s else Some s)"

text \<open>\<open>Some (False, s)\<close> when the device is gone; \<open>kref_get_unless_zero\<close> never touches a dead device.\<close>

definition mx_pdev_get_live :: "mx_life \<Rightarrow> (bool \<times> mx_life) option" where
  "mx_pdev_get_live s =
     (if lf_ref s = 0 then Some (False, s)
      else let s = s\<lparr>lf_ref := lf_ref s + 1\<rparr> in
           if lease_removed (lf_lease s)
           then (case mx_pdev_put s of None \<Rightarrow> None | Some s \<Rightarrow> Some (False, s))
           else Some (True, s))"

definition mx_file_ctx_get :: "mx_life \<Rightarrow> nat \<Rightarrow> mx_life option" where
  "mx_file_ctx_get s c =
     (case lf_ctx s c of
        None \<Rightarrow> None
      | Some _ \<Rightarrow> Some (s\<lparr>lf_ctx_refs := (lf_ctx_refs s)(c := lf_ctx_refs s c + 1)\<rparr>))"

text \<open>Dropping the last reference runs \<open>mx_file_ctx_free\<close> under the lease lock of the device.\<close>

definition mx_file_ctx_put :: "mx_life \<Rightarrow> nat \<Rightarrow> mx_life option" where
  "mx_file_ctx_put s c =
     (case lf_ctx s c of
        None \<Rightarrow> None
      | Some ctx \<Rightarrow>
          if lf_ctx_refs s c = 0 then None
          else
            let s = s\<lparr>lf_ctx_refs := (lf_ctx_refs s)(c := lf_ctx_refs s c - 1)\<rparr> in
            if lf_ctx_refs s c \<noteq> 0 then Some s
            else if lf_ref s = 0 then None
            else case mx_file_ctx_free (lf_lease s) ctx of
                   (lease, _, _) \<Rightarrow>
                     mx_pdev_put (s\<lparr>lf_lease := lease, lf_ctx := (lf_ctx s)(c := None)\<rparr>))"

section \<open>File operations\<close>

text \<open>
  \<open>mxdma_device_open\<close>; \<open>new\<close> is the context \<open>kzalloc\<close> returned (\<open>None\<close> when it failed), \<open>ioctl_cdev\<close>
  whether the node is the ioctl node, \<open>cdev_magic\<close> whether the magic of the character device matches.
\<close>

definition mxdma_device_open :: "mx_life \<Rightarrow> bool \<Rightarrow> bool \<Rightarrow> nat option \<Rightarrow> (unit result \<times> mx_life) option" where
  "mxdma_device_open s cdev_magic ioctl_cdev new =
     (if \<not> cdev_magic then Some (Inl EINVAL, s)
      else if lf_io_dying s then Some (Inl ENODEV, s)
      else case mx_pdev_get_live s of
             None \<Rightarrow> None
           | Some (False, s) \<Rightarrow> Some (Inl ENODEV, s)
           | Some (True, s) \<Rightarrow>
               (case new of
                  None \<Rightarrow> (case mx_pdev_put s of None \<Rightarrow> None | Some s \<Rightarrow> Some (Inl ENOMEM, s))
                | Some c \<Rightarrow> Some (OK, s\<lparr>lf_ctx := (lf_ctx s)(c := Some (ctx_zero ioctl_cdev)),
                                       lf_ctx_refs := (lf_ctx_refs s)(c := 1)\<rparr>)))"

text \<open>\<open>private_data\<close> is the context of the file, if it has one.\<close>

definition mxdma_device_release :: "mx_life \<Rightarrow> nat option \<Rightarrow> (unit result \<times> mx_life) option" where
  "mxdma_device_release s private_data =
     (case private_data of
        None \<Rightarrow> Some (Inl EINVAL, s)
      | Some c \<Rightarrow> (case mx_file_ctx_put s c of None \<Rightarrow> None | Some s \<Rightarrow> Some (OK, s)))"

definition mxdma_device_prepare :: "mx_life \<Rightarrow> nat option \<Rightarrow> bool \<Rightarrow> (unit result \<times> mx_life) option" where
  "mxdma_device_prepare s private_data cdev_magic =
     (case private_data of
        None \<Rightarrow> Some (Inl EINVAL, s)
      | Some c \<Rightarrow>
          (case lf_ctx s c of
             None \<Rightarrow> None
           | Some _ \<Rightarrow>
               if \<not> cdev_magic then Some (Inl EINVAL, s)
               else if lf_ref s = 0 then None
               else if \<not> lf_magic s then Some (Inl EINVAL, s)
               else if lf_io_dying s then Some (Inl ENODEV, s)
               else if lease_removed (lf_lease s) \<or> \<not> lf_enabled s then Some (Inl ENODEV, s)
               else Some (OK, s\<lparr>lf_io_ref := lf_io_ref s + 1\<rparr>)))"

definition mxdma_device_finish :: "mx_life \<Rightarrow> mx_life option" where
  "mxdma_device_finish s =
     (if lf_io_ref s = 0 then None else Some (s\<lparr>lf_io_ref := lf_io_ref s - 1\<rparr>))"

section \<open>BAR mappings\<close>

text \<open>
  \<open>mx_bar_mmap\<close>: \<open>new\<close> is the \<open>bar_vma\<close> that was allocated, \<open>remap\<close> the result of
  \<open>io_remap_pfn_range\<close>.  Page protection and \<open>vm_flags\<close> are left out.
\<close>

definition bar_mmap_check :: "mx_life \<Rightarrow> vm_area \<Rightarrow> unit result" where
  "bar_mmap_check s vma =
     (if \<not> lf_enabled s then Inl ENODEV
      else if list_ex (\<lambda>qid. sq_mbox_list (lf_regs s) qid \<noteq> None) [0..<80] then Inl EBUSY
      else if vm_pgoff vma \<noteq> 0 then Inl EINVAL
      else if \<not> vm_shared vma then Inl EINVAL
      else if vm_end vma - vm_start vma \<noteq> lf_bar_size s then Inl EINVAL
      else OK)"

definition bar_mmap_commit :: "mx_life \<Rightarrow> nat \<Rightarrow> mx_file_ctx \<Rightarrow> nat \<Rightarrow> nat \<Rightarrow> mx_life" where
  "bar_mmap_commit s c ctx b mapping =
     s\<lparr>lf_mapping := Some mapping,
       lf_ctx_refs := (lf_ctx_refs s)(c := lf_ctx_refs s c + 1),
       lf_ctx := (lf_ctx s)(c := Some (ctx\<lparr>bar_mapping_count := bar_mapping_count ctx + 1\<rparr>)),
       lf_ref := lf_ref s + 1,
       lf_vma := (lf_vma s)(b := Some \<lparr>bv_refs = 1, bv_owner = c\<rparr>),
       lf_bar_kref := lf_bar_kref s + 1,
       lf_regs := (lf_regs s)\<lparr>bar_map_count := bar_map_count (lf_regs s) + 1\<rparr>\<rparr>"

definition mx_bar_mmap ::
  "mx_life \<Rightarrow> nat \<Rightarrow> vm_area \<Rightarrow> nat option \<Rightarrow> unit result \<Rightarrow> (unit result \<times> mx_life) option" where
  "mx_bar_mmap s c vma new remap =
     (case new of
        None \<Rightarrow> Some (Inl ENOMEM, s)
      | Some b \<Rightarrow>
          if lf_ref s = 0 \<or> lf_bar_kref s = 0 then None
          else case bar_mmap_check s vma of
            Inl e \<Rightarrow> Some (Inl e, s)
          | Inr _ \<Rightarrow>
              (case lf_ctx s c of
                 None \<Rightarrow> None
               | Some ctx \<Rightarrow>
                   if bar_mapping_count ctx = U32_MAX then Some (Inl EOVERFLOW, s)
                   else case remap of
                          Inl e \<Rightarrow> Some (Inl e, s)
                        | Inr _ \<Rightarrow> Some (OK, bar_mmap_commit s c ctx b (vm_f_mapping vma))))"

definition mx_bar_vma_open :: "mx_life \<Rightarrow> nat \<Rightarrow> mx_life option" where
  "mx_bar_vma_open s b =
     (case lf_vma s b of
        None \<Rightarrow> None
      | Some v \<Rightarrow>
          if lf_bar_kref s = 0 then None
          else Some (s\<lparr>lf_bar_kref := lf_bar_kref s + 1,
                       lf_regs := (lf_regs s)\<lparr>bar_map_count := bar_map_count (lf_regs s) + 1\<rparr>,
                       lf_vma := (lf_vma s)(b := Some (v\<lparr>bv_refs := bv_refs v + 1\<rparr>))\<rparr>))"

text \<open>
  The three parts of \<open>mx_bar_vma_close\<close>: under \<open>bar_map->lock\<close> (with the flag \<open>last\<close>), the release of
  the mapper, and the final put.
\<close>

definition bar_vma_close_locked :: "mx_life \<Rightarrow> nat \<Rightarrow> (bool \<times> mx_life) option" where
  "bar_vma_close_locked s b =
     (case lf_vma s b of
        None \<Rightarrow> None
      | Some v \<Rightarrow>
          if lf_bar_kref s = 0 \<or> bv_refs v = 0 then None
          else
            let n = bar_map_count (lf_regs s);
                s = (if n \<noteq> 0
                     then s\<lparr>lf_regs := (lf_regs s)\<lparr>bar_map_count := n - 1\<rparr>,
                            lf_mapping := (if n - 1 = 0 then None else lf_mapping s)\<rparr>
                     else s);
                v = v\<lparr>bv_refs := bv_refs v - 1\<rparr>
            in Some (bv_refs v = 0, s\<lparr>lf_vma := (lf_vma s)(b := Some v)\<rparr>))"

definition bar_vma_close_last :: "mx_life \<Rightarrow> nat \<Rightarrow> mx_life option" where
  "bar_vma_close_last s b =
     (case lf_vma s b of
        None \<Rightarrow> None
      | Some v \<Rightarrow>
          (case lf_ctx s (bv_owner v) of
             None \<Rightarrow> None
           | Some ctx \<Rightarrow>
               if lf_ref s = 0 then None
               else
                 let n = bar_mapping_count ctx;
                     s = (if n \<noteq> 0
                          then s\<lparr>lf_ctx := (lf_ctx s)(bv_owner v := Some (ctx\<lparr>bar_mapping_count := n - 1\<rparr>))\<rparr>
                          else s);
                     s = s\<lparr>lf_vma := (lf_vma s)(b := None)\<rparr>
                 in case mx_file_ctx_put s (bv_owner v) of
                      None \<Rightarrow> None
                    | Some s \<Rightarrow> mx_pdev_put s))"

definition mx_bar_vma_close :: "mx_life \<Rightarrow> nat \<Rightarrow> mx_life option" where
  "mx_bar_vma_close s b =
     (case bar_vma_close_locked s b of
        None \<Rightarrow> None
      | Some (final, s) \<Rightarrow>
          (case (if final then bar_vma_close_last s b else Some s) of
             None \<Rightarrow> None
           | Some s \<Rightarrow> mx_bar_map_put s))"

section \<open>Transfers, going online and offline\<close>

text \<open>The references a transfer takes and returns beside its entry in \<open>transfer_count\<close>.\<close>

definition life_transfer_get :: "mx_life \<Rightarrow> nat \<Rightarrow> (transfer_proofs result \<times> mx_life) option" where
  "life_transfer_get s c =
     (case lf_ctx s c of
        None \<Rightarrow> None
      | Some ctx \<Rightarrow>
          if lf_ref s = 0 then None
          else case mx_lease_transfer_get (lf_lease s) ctx of
                 (Inl e, _) \<Rightarrow> Some (Inl e, s)
               | (Inr p, ctx) \<Rightarrow>
                   (case mx_file_ctx_get s c of
                      None \<Rightarrow> None
                    | Some s \<Rightarrow> Some (Inr p, s\<lparr>lf_ctx := (lf_ctx s)(c := Some ctx)\<rparr>)))"

definition life_transfer_put :: "mx_life \<Rightarrow> nat \<Rightarrow> mx_life option" where
  "life_transfer_put s c =
     (case lf_ctx s c of
        None \<Rightarrow> None
      | Some ctx \<Rightarrow>
          if lf_ref s = 0 then None
          else mx_file_ctx_put (s\<lparr>lf_ctx := (lf_ctx s)(c := Some (mx_lease_transfer_put ctx))\<rparr>) c)"

text \<open>
  The \<open>percpu_ref_get\<close> of a no-wait submission on behalf of its wait work, while the file operation that
  submits still holds its own, and the put at the end of \<open>mx_transfer_wait_work\<close>, after the wait has
  disposed of the transfer: the work then touches the device with no reference but this one.
\<close>

definition life_wait_get :: "mx_life \<Rightarrow> mx_life option" where
  "life_wait_get s =
     (if lf_ref s = 0 \<or> lf_io_ref s = 0 then None else Some (s\<lparr>lf_io_ref := lf_io_ref s + 1\<rparr>))"

definition life_wait_put :: "mx_life \<Rightarrow> mx_life option" where
  "life_wait_put s =
     (if lf_ref s = 0 \<or> lf_io_ref s = 0 then None else Some (s\<lparr>lf_io_ref := lf_io_ref s - 1\<rparr>))"

definition mxdma_device_online :: "mx_life \<Rightarrow> mx_life" where
  "mxdma_device_online s = s\<lparr>lf_enabled := True\<rparr>"

text \<open>\<open>percpu_ref_kill\<close> drops the initial reference of \<open>io_ref\<close>.\<close>

definition mxdma_device_offline :: "mx_life \<Rightarrow> mx_life" where
  "mxdma_device_offline s =
     (let s = s\<lparr>lf_enabled := False\<rparr> in
      if lf_io_dying s then s else s\<lparr>lf_io_dying := True, lf_io_ref := lf_io_ref s - 1\<rparr>)"

text \<open>The device after \<open>unmap_mapping_range\<close>; the flag says whether the call was made.\<close>

definition mxdma_unmap_all_bar_vmas :: "mx_life \<Rightarrow> bool \<times> mx_life" where
  "mxdma_unmap_all_bar_vmas s =
     (if lf_mapping s \<noteq> None then (True, s\<lparr>lf_mapping := None\<rparr>) else (False, s))"

end
