(* ===== verification/Lifetime_Inv.thy ===== *)
theory Lifetime_Inv
  imports Lifetime
begin

text \<open>
  The device together with everything that can hold a reference: open files, file operations in
  progress, VMAs, VMAs being closed, issued transfers, wait work of no-wait requests, and the references
  of probe and of the character devices.  \<open>life_reachable\<close> interleaves all operations of \<open>Lifetime\<close> (the three parts of
  \<open>mx_bar_vma_close\<close> are separate steps); \<open>life_inv\<close> says that every reference count is exactly the
  number of its users.
\<close>

section \<open>The system\<close>

record life_sys =
  dev :: mx_life
  files :: "nat set"            \<comment> \<open>contexts of open files\<close>
  bodies :: "nat multiset"      \<comment> \<open>contexts of file operations between prepare and finish\<close>
  vmas :: "nat multiset"        \<comment> \<open>\<open>vm_private_data\<close> of the live VMAs\<close>
  closing :: "nat set"          \<comment> \<open>objects whose last VMA went, mapper not yet released\<close>
  putting :: nat                \<comment> \<open>VMA closes that only have the final put to do\<close>
  xfers :: "nat multiset"       \<comment> \<open>owners of the issued transfers\<close>
  wait_works :: "nat multiset"  \<comment> \<open>owners of the transfers left to wait work that has not ended\<close>
  base :: nat                   \<comment> \<open>references of probe and of the character devices\<close>
  ptes :: bool                  \<comment> \<open>some VMA may still translate to the BAR\<close>

definition owned :: "mx_life \<Rightarrow> nat \<Rightarrow> nat set" where
  "owned s c = {b. \<exists>v. lf_vma s b = Some v \<and> bv_owner v = c}"

definition no_mbox :: "mx_life \<Rightarrow> bool" where
  "no_mbox s = (\<forall>qid < 80. sq_mbox_list (lf_regs s) qid = None)"

definition vma_inv :: "life_sys \<Rightarrow> bool" where
  "vma_inv S \<longleftrightarrow>
     finite (dom (lf_vma (dev S))) \<and>
     (\<forall>b v. lf_vma (dev S) b = Some v \<longrightarrow> bv_refs v = count (vmas S) b \<and> (count (vmas S) b = 0 \<longleftrightarrow> b \<in> closing S)) \<and>
     set_mset (vmas S) \<subseteq> dom (lf_vma (dev S)) \<and> closing S \<subseteq> dom (lf_vma (dev S)) \<and>
     unat (bar_map_count (lf_regs (dev S))) = size (vmas S) \<and>
     (lf_mapping (dev S) \<noteq> None \<longrightarrow> vmas S \<noteq> {#}) \<and>
     (ptes S \<longrightarrow> lf_mapping (dev S) \<noteq> None) \<and>
     (vmas S \<noteq> {#} \<longrightarrow> no_mbox (dev S))"

definition ctx_users :: "life_sys \<Rightarrow> nat \<Rightarrow> nat" where
  "ctx_users S c = of_bool (c \<in> files S) + count (xfers S) c + card (owned (dev S) c)"

definition ctx_inv :: "life_sys \<Rightarrow> bool" where
  "ctx_inv S \<longleftrightarrow>
     finite (dom (lf_ctx (dev S))) \<and>
     (\<forall>c. lf_ctx (dev S) c \<noteq> None \<longleftrightarrow> 0 < ctx_users S c) \<and>
     (\<forall>c ctx. lf_ctx (dev S) c = Some ctx \<longrightarrow>
        lf_ctx_refs (dev S) c = ctx_users S c \<and>
        unat (bar_mapping_count ctx) = card (owned (dev S) c) \<and>
        unat (transfer_count ctx) = count (xfers S) c)"

definition dev_users :: "life_sys \<Rightarrow> nat" where
  "dev_users S = base S + card (dom (lf_ctx (dev S))) + card (dom (lf_vma (dev S)))"

definition ref_inv :: "life_sys \<Rightarrow> bool" where
  "ref_inv S \<longleftrightarrow>
     lf_ref (dev S) = dev_users S \<and>
     lf_magic (dev S) = (0 < lf_ref (dev S)) \<and>
     lf_bar_kref (dev S) = of_bool (0 < lf_ref (dev S)) + size (vmas S) + card (closing S) + putting S"

definition io_inv :: "life_sys \<Rightarrow> bool" where
  "io_inv S \<longleftrightarrow>
     lf_io_ref (dev S) = size (bodies S) + size (wait_works S) + of_bool (\<not> lf_io_dying (dev S)) \<and>
     set_mset (bodies S) \<subseteq> files S \<and>
     (lf_io_dying (dev S) \<longrightarrow> \<not> lf_enabled (dev S))"

definition life_inv :: "life_sys \<Rightarrow> bool" where
  "life_inv S \<longleftrightarrow> vma_inv S \<and> ctx_inv S \<and> ref_inv S \<and> io_inv S"

text \<open>
  The start: after \<open>kref_init\<close>, \<open>percpu_ref_init\<close> and \<open>mx_bar_map_alloc\<close>, with one reference of
  probe and \<open>n\<close> of the character devices.
\<close>

definition life_init :: "u64 \<Rightarrow> u64 \<Rightarrow> int \<Rightarrow> nat \<Rightarrow> life_sys" where
  "life_init incarnation bar_size hio n =
     \<lparr>dev = \<lparr>lf_regs = \<lparr>sq_mbox_list = (\<lambda>_. None), cq_mbox_list = (\<lambda>_. None), bar_map_count = 0,
                       reserved_hio_qid = hio\<rparr>,
        lf_mapping = None, lf_bar_kref = 1, lf_ref = 1 + n, lf_magic = True, lf_enabled = False,
        lf_io_ref = 1, lf_io_dying = False, lf_bar_size = bar_size, lf_lease = mx_lease_init incarnation,
        lf_ctx = (\<lambda>_. None), lf_ctx_refs = (\<lambda>_. 0), lf_vma = (\<lambda>_. None)\<rparr>,
      files = {}, bodies = {#}, vmas = {#}, closing = {}, putting = 0, xfers = {#}, wait_works = {#}, base = 1 + n,
      ptes = False\<rparr>"

text \<open>A lease handler run by one file keeps what the transfer and BAR code counts.\<close>

definition keeps_counts :: "mx_file_ctx \<Rightarrow> mx_file_ctx \<Rightarrow> bool" where
  "keeps_counts ctx ctx' \<longleftrightarrow>
     bar_mapping_count ctx' = bar_mapping_count ctx \<and> transfer_count ctx' = transfer_count ctx"

text \<open>
  The steps.  A context that is in \<open>wait_works\<close> may have had its transfer retired already.  The last
  reference of probe or of a character device goes only after \<open>mxdma_wait_io_quiesced\<close>: teardown waits
  for \<open>io_ref\<close> to reach zero before it drops any of them.
\<close>

inductive life_reachable :: "life_sys \<Rightarrow> bool" where
  init: "life_reachable (life_init w sz hio n)"
| opened: "\<lbrakk> life_reachable S; 0 < base S; c \<notin> files S; lf_ctx (dev S) c = None;
      mxdma_device_open (dev S) m i (Some c) = Some (OK, s) \<rbrakk>
    \<Longrightarrow> life_reachable (S\<lparr>dev := s, files := insert c (files S)\<rparr>)"
| open_refused: "\<lbrakk> life_reachable S; 0 < base S; new = None \<or> (\<exists>c. new = Some c \<and> lf_ctx (dev S) c = None);
      mxdma_device_open (dev S) m i new = Some (Inl e, s) \<rbrakk>
    \<Longrightarrow> life_reachable (S\<lparr>dev := s\<rparr>)"
| released: "\<lbrakk> life_reachable S; c \<in> files S; c \<notin># bodies S;
      mxdma_device_release (dev S) (Some c) = Some (OK, s) \<rbrakk>
    \<Longrightarrow> life_reachable (S\<lparr>dev := s, files := files S - {c}\<rparr>)"
| entered: "\<lbrakk> life_reachable S; c \<in> files S; mxdma_device_prepare (dev S) (Some c) m = Some (OK, s) \<rbrakk>
    \<Longrightarrow> life_reachable (S\<lparr>dev := s, bodies := add_mset c (bodies S)\<rparr>)"
| left: "\<lbrakk> life_reachable S; c \<in># bodies S; mxdma_device_finish (dev S) = Some s \<rbrakk>
    \<Longrightarrow> life_reachable (S\<lparr>dev := s, bodies := bodies S - {#c#}\<rparr>)"
| lease_call: "\<lbrakk> life_reachable S; c \<in># bodies S; lf_ctx (dev S) c = Some ctx; keeps_counts ctx ctx' \<rbrakk>
    \<Longrightarrow> life_reachable (S\<lparr>dev := (dev S)\<lparr>lf_lease := l, lf_ctx := (lf_ctx (dev S))(c := Some ctx')\<rparr>\<rparr>)"
| mapped: "\<lbrakk> life_reachable S; c \<in># bodies S; lf_vma (dev S) b = None; Suc (size (vmas S)) < 4294967296;
      mx_bar_mmap (dev S) c vma (Some b) remap = Some (OK, s) \<rbrakk>
    \<Longrightarrow> life_reachable (S\<lparr>dev := s, vmas := add_mset b (vmas S), ptes := True\<rparr>)"
| forked: "\<lbrakk> life_reachable S; b \<in># vmas S; Suc (size (vmas S)) < 4294967296;
      mx_bar_vma_open (dev S) b = Some s \<rbrakk>
    \<Longrightarrow> life_reachable (S\<lparr>dev := s, vmas := add_mset b (vmas S)\<rparr>)"
| closed: "\<lbrakk> life_reachable S; b \<in># vmas S; bar_vma_close_locked (dev S) b = Some (final, s) \<rbrakk>
    \<Longrightarrow> life_reachable (S\<lparr>dev := s, vmas := vmas S - {#b#},
          closing := (if final then insert b (closing S) else closing S),
          putting := (if final then putting S else Suc (putting S)),
          ptes := (ptes S \<and> vmas S \<noteq> {#b#})\<rparr>)"
| mapper_released: "\<lbrakk> life_reachable S; b \<in> closing S; bar_vma_close_last (dev S) b = Some s \<rbrakk>
    \<Longrightarrow> life_reachable (S\<lparr>dev := s, closing := closing S - {b}, putting := Suc (putting S)\<rparr>)"
| bar_map_dropped: "\<lbrakk> life_reachable S; 0 < putting S; mx_bar_map_put (dev S) = Some s \<rbrakk>
    \<Longrightarrow> life_reachable (S\<lparr>dev := s, putting := putting S - 1\<rparr>)"
| issued: "\<lbrakk> life_reachable S; c \<in># bodies S; life_transfer_get (dev S) c = Some (Inr p, s) \<rbrakk>
    \<Longrightarrow> life_reachable (S\<lparr>dev := s, xfers := add_mset c (xfers S)\<rparr>)"
| retired: "\<lbrakk> life_reachable S; c \<in># xfers S; life_transfer_put (dev S) c = Some s \<rbrakk>
    \<Longrightarrow> life_reachable (S\<lparr>dev := s, xfers := xfers S - {#c#}\<rparr>)"
| left_to_work: "\<lbrakk> life_reachable S; c \<in># bodies S; c \<in># xfers S; life_wait_get (dev S) = Some s \<rbrakk>
    \<Longrightarrow> life_reachable (S\<lparr>dev := s, wait_works := add_mset c (wait_works S)\<rparr>)"
| work_ended: "\<lbrakk> life_reachable S; c \<in># wait_works S; life_wait_put (dev S) = Some s \<rbrakk>
    \<Longrightarrow> life_reachable (S\<lparr>dev := s, wait_works := wait_works S - {#c#}\<rparr>)"
| registered: "\<lbrakk> life_reachable S; c \<in># bodies S;
      ioctl_register_mbox_publish (lf_regs (dev S)) info sq cq = (r, regs) \<rbrakk>
    \<Longrightarrow> life_reachable (S\<lparr>dev := (dev S)\<lparr>lf_regs := regs\<rparr>\<rparr>)"
| mboxes_freed: "life_reachable S \<Longrightarrow>
    life_reachable (S\<lparr>dev := (dev S)\<lparr>lf_regs := mx_free_registered_mboxes (lf_regs (dev S))\<rparr>\<rparr>)"
| online: "\<lbrakk> life_reachable S; 0 < base S; \<not> lf_io_dying (dev S) \<rbrakk>
    \<Longrightarrow> life_reachable (S\<lparr>dev := mxdma_device_online (dev S)\<rparr>)"
| removal: "life_reachable S \<Longrightarrow>
    life_reachable (S\<lparr>dev := (dev S)\<lparr>lf_lease := mx_lease_mark_removed (lf_lease (dev S))\<rparr>\<rparr>)"
| offline: "\<lbrakk> life_reachable S; 0 < base S \<rbrakk>
    \<Longrightarrow> life_reachable (S\<lparr>dev := mxdma_device_offline (dev S)\<rparr>)"
| revoked: "\<lbrakk> life_reachable S; 0 < base S; mxdma_unmap_all_bar_vmas (dev S) = (called, s) \<rbrakk>
    \<Longrightarrow> life_reachable (S\<lparr>dev := s, ptes := (ptes S \<and> \<not> called)\<rparr>)"
| base_dropped: "\<lbrakk> life_reachable S; 0 < base S; 1 < base S \<or> lf_io_ref (dev S) = 0; mx_pdev_put (dev S) = Some s \<rbrakk>
    \<Longrightarrow> life_reachable (S\<lparr>dev := s, base := base S - 1\<rparr>)"

section \<open>Counting the users\<close>

lemma owned_finite: "finite (dom (lf_vma s)) \<Longrightarrow> finite (owned s c)"
  by (rule finite_subset [of _ "dom (lf_vma s)"]) (auto simp: owned_def)

lemma owned_cong: "lf_vma s' = lf_vma s \<Longrightarrow> owned s' c = owned s c"
  by (simp add: owned_def)

text \<open>The device is updated first.\<close>

lemma dev_update_first [simp]:
  "S\<lparr>files := x0, dev := s\<rparr> = S\<lparr>dev := s, files := x0\<rparr>"
  "S\<lparr>bodies := x1, dev := s\<rparr> = S\<lparr>dev := s, bodies := x1\<rparr>"
  "S\<lparr>vmas := x2, dev := s\<rparr> = S\<lparr>dev := s, vmas := x2\<rparr>"
  "S\<lparr>closing := x3, dev := s\<rparr> = S\<lparr>dev := s, closing := x3\<rparr>"
  "S\<lparr>putting := x4, dev := s\<rparr> = S\<lparr>dev := s, putting := x4\<rparr>"
  "S\<lparr>xfers := x5, dev := s\<rparr> = S\<lparr>dev := s, xfers := x5\<rparr>"
  "S\<lparr>wait_works := x8, dev := s\<rparr> = S\<lparr>dev := s, wait_works := x8\<rparr>"
  "S\<lparr>base := x6, dev := s\<rparr> = S\<lparr>dev := s, base := x6\<rparr>"
  "S\<lparr>ptes := x7, dev := s\<rparr> = S\<lparr>dev := s, ptes := x7\<rparr>"
  by (cases S; simp)+

lemma owned_update [simp]:
  "owned (s\<lparr>lf_regs := x0\<rparr>) c = owned s c"
  "owned (s\<lparr>lf_mapping := x1\<rparr>) c = owned s c"
  "owned (s\<lparr>lf_bar_kref := x2\<rparr>) c = owned s c"
  "owned (s\<lparr>lf_ref := x3\<rparr>) c = owned s c"
  "owned (s\<lparr>lf_magic := x4\<rparr>) c = owned s c"
  "owned (s\<lparr>lf_enabled := x5\<rparr>) c = owned s c"
  "owned (s\<lparr>lf_io_ref := x6\<rparr>) c = owned s c"
  "owned (s\<lparr>lf_io_dying := x7\<rparr>) c = owned s c"
  "owned (s\<lparr>lf_lease := x8\<rparr>) c = owned s c"
  "owned (s\<lparr>lf_ctx := x9\<rparr>) c = owned s c"
  "owned (s\<lparr>lf_ctx_refs := x10\<rparr>) c = owned s c"
  by (simp_all add: owned_def)

lemma owned_new:
  assumes "lf_vma s b = None" "lf_vma s' = (lf_vma s)(b := Some v)"
  shows "owned s' c = (if bv_owner v = c then insert b (owned s c) else owned s c)"
  using assms by (auto simp: owned_def)

lemma owned_refs:
  assumes "lf_vma s b = Some v" "bv_owner v' = bv_owner v" "lf_vma s' = (lf_vma s)(b := Some v')"
  shows "owned s' c = owned s c"
  using assms by (auto simp: owned_def)

lemma owned_removed:
  assumes "lf_vma s b = Some v" "lf_vma s' = (lf_vma s)(b := None)"
  shows "owned s' c = (if bv_owner v = c then owned s c - {b} else owned s c)"
  using assms by (auto simp: owned_def)

lemma owned_member: "lf_vma s b = Some v \<Longrightarrow> b \<in> owned s (bv_owner v)"
  by (auto simp: owned_def)

lemma card_dom_insert: "finite (dom m) \<Longrightarrow> m k = None \<Longrightarrow> card (insert k (dom m)) = Suc (card (dom m))"
  by (simp add: domIff)

lemma dom_update_same: "m k \<noteq> None \<Longrightarrow> dom (m(k := Some v)) = dom m"
  by auto

lemma card_dom_remove: "m k \<noteq> None \<Longrightarrow> card (dom (m(k := None))) = card (dom m) - 1"
  by (auto simp: card_Diff_singleton domI)

section \<open>Dropping references\<close>

lemma mx_pdev_put_eq:
  assumes "0 < lf_ref s" "lf_ref s = 1 \<Longrightarrow> 0 < lf_bar_kref s"
  obtains l where "mx_pdev_put s = Some (s\<lparr>lf_ref := lf_ref s - 1, lf_lease := l,
      lf_bar_kref := lf_bar_kref s - of_bool (lf_ref s = 1), lf_magic := (lf_magic s \<and> lf_ref s \<noteq> 1)\<rparr>)"
proof (cases "lf_ref s = 1")
  case True
  with assms(2) show ?thesis
    by (intro that) (simp add: mx_pdev_put_def mx_pdev_free_def mx_bar_map_put_def Let_def)
next
  case False
  with assms(1) that [of "lf_lease s"] show ?thesis
    by (simp add: mx_pdev_put_def Let_def)
qed

lemma ref_invI:
  assumes "lf_ref (dev S) = dev_users S" "lf_magic (dev S) = (0 < lf_ref (dev S))"
    "lf_bar_kref (dev S) = of_bool (0 < lf_ref (dev S)) + size (vmas S) + card (closing S) + putting S"
  shows "ref_inv S"
  using assms by (simp only: ref_inv_def)

text \<open>Fields the parts of the invariant do not read.\<close>

lemma vma_inv_cong:
  assumes "vma_inv S" "lf_vma (dev S') = lf_vma (dev S)" "lf_regs (dev S') = lf_regs (dev S)"
    "lf_mapping (dev S') = lf_mapping (dev S)" "vmas S' = vmas S" "closing S' = closing S" "ptes S' = ptes S"
  shows "vma_inv S'"
  using assms(1) unfolding vma_inv_def no_mbox_def assms(2-7) .

lemma ctx_users_cong:
  assumes "lf_vma (dev S') = lf_vma (dev S)" "files S' = files S" "xfers S' = xfers S"
  shows "ctx_users S' c = ctx_users S c"
  using assms by (simp add: ctx_users_def owned_cong [OF assms(1)])

lemma ctx_inv_cong:
  assumes "ctx_inv S" "lf_vma (dev S') = lf_vma (dev S)" "files S' = files S" "xfers S' = xfers S"
    "lf_ctx (dev S') = lf_ctx (dev S)" "lf_ctx_refs (dev S') = lf_ctx_refs (dev S)"
  shows "ctx_inv S'"
  using assms by (simp add: ctx_inv_def ctx_users_cong [OF assms(2-4)] owned_cong [OF assms(2)])

lemma ref_inv_cong:
  assumes "ref_inv S" "lf_ref (dev S') = lf_ref (dev S)" "lf_magic (dev S') = lf_magic (dev S)"
    "lf_bar_kref (dev S') = lf_bar_kref (dev S)" "lf_ctx (dev S') = lf_ctx (dev S)"
    "lf_vma (dev S') = lf_vma (dev S)" "vmas S' = vmas S" "closing S' = closing S" "putting S' = putting S"
    "base S' = base S"
  shows "ref_inv S'"
  using assms by (simp add: ref_inv_def dev_users_def)

lemma io_inv_cong:
  assumes "io_inv S" "lf_io_ref (dev S') = lf_io_ref (dev S)" "lf_io_dying (dev S') = lf_io_dying (dev S)"
    "lf_enabled (dev S') = lf_enabled (dev S)" "bodies S' = bodies S" "files S' = files S"
    "wait_works S' = wait_works S"
  shows "io_inv S'"
  using assms by (simp add: io_inv_def)

lemmas life_cong = vma_inv_cong ctx_inv_cong ref_inv_cong io_inv_cong

text \<open>A live VMA, a VMA being closed or a context keeps the device and the BAR bookkeeping alive.\<close>

lemma closing_finite: "vma_inv S \<Longrightarrow> finite (closing S)"
  unfolding vma_inv_def using finite_subset by blast

lemma dom_vma_pos:
  assumes "vma_inv S" "ref_inv S" "lf_vma (dev S) b \<noteq> None"
  shows "0 < lf_ref (dev S)"
proof -
  have "0 < card (dom (lf_vma (dev S)))"
    using assms(1,3) by (auto simp: vma_inv_def card_gt_0_iff)
  then show ?thesis using assms(2) by (simp add: ref_inv_def dev_users_def)
qed

lemma dom_ctx_pos:
  assumes "ctx_inv S" "ref_inv S" "lf_ctx (dev S) c \<noteq> None"
  shows "0 < lf_ref (dev S)"
proof -
  have "0 < card (dom (lf_ctx (dev S)))"
    using assms(1,3) by (auto simp: ctx_inv_def card_gt_0_iff)
  then show ?thesis using assms(2) by (simp add: ref_inv_def dev_users_def)
qed

text \<open>The device reference of probe or of a character device goes.\<close>

lemma pdev_put_inv:
  assumes inv: "life_inv S" and b: "0 < base S"
  obtains s where "mx_pdev_put (dev S) = Some s" "life_inv (S\<lparr>dev := s, base := base S - 1\<rparr>)"
    "lf_ctx s = lf_ctx (dev S)" "lf_vma s = lf_vma (dev S)"
proof -
  have v: "vma_inv S" and c: "ctx_inv S" and r: "ref_inv S" and i: "io_inv S"
    using inv by (auto simp: life_inv_def)
  have pos: "0 < lf_ref (dev S)" using r b by (simp add: ref_inv_def dev_users_def)
  have k: "lf_bar_kref (dev S) = 1 + size (vmas S) + card (closing S) + putting S"
    using r pos by (simp add: ref_inv_def)
  then have "0 < lf_bar_kref (dev S)" by simp
  with pos obtain l where eq: "mx_pdev_put (dev S) = Some ((dev S)\<lparr>lf_ref := lf_ref (dev S) - 1,
      lf_lease := l, lf_bar_kref := lf_bar_kref (dev S) - of_bool (lf_ref (dev S) = 1),
      lf_magic := (lf_magic (dev S) \<and> lf_ref (dev S) \<noteq> 1)\<rparr>)" (is "_ = Some ?s")
    using mx_pdev_put_eq [of "dev S"] by blast
  have "vma_inv (S\<lparr>dev := ?s, base := base S - 1\<rparr>)" by (rule vma_inv_cong [OF v]) simp_all
  moreover have "ctx_inv (S\<lparr>dev := ?s, base := base S - 1\<rparr>)" by (rule ctx_inv_cong [OF c]) simp_all
  moreover have "io_inv (S\<lparr>dev := ?s, base := base S - 1\<rparr>)" by (rule io_inv_cong [OF i]) simp_all
  moreover have "ref_inv (S\<lparr>dev := ?s, base := base S - 1\<rparr>)"
  proof (rule ref_invI)
    show "lf_ref (dev (S\<lparr>dev := ?s, base := base S - 1\<rparr>)) = dev_users (S\<lparr>dev := ?s, base := base S - 1\<rparr>)"
      using r b by (simp add: ref_inv_def dev_users_def)
  next
    show "lf_magic (dev (S\<lparr>dev := ?s, base := base S - 1\<rparr>)) = (0 < lf_ref (dev (S\<lparr>dev := ?s, base := base S - 1\<rparr>)))"
      using r pos by (simp add: ref_inv_def) linarith
  next
    show "lf_bar_kref (dev (S\<lparr>dev := ?s, base := base S - 1\<rparr>)) =
        of_bool (0 < lf_ref (dev (S\<lparr>dev := ?s, base := base S - 1\<rparr>))) + size (vmas (S\<lparr>dev := ?s, base := base S - 1\<rparr>)) +
        card (closing (S\<lparr>dev := ?s, base := base S - 1\<rparr>)) + putting (S\<lparr>dev := ?s, base := base S - 1\<rparr>)"
      using k pos by (cases "lf_ref (dev S) = 1") simp_all
  qed
  ultimately have "life_inv (S\<lparr>dev := ?s, base := base S - 1\<rparr>)" by (simp add: life_inv_def)
  with eq show ?thesis by (intro that [of ?s]) simp_all
qed

text \<open>
  One user of context \<open>c\<close> has gone (\<open>S\<close> no longer lists it) and drops its reference.
\<close>

lemma ctx_put_inv:
  assumes v: "vma_inv S" and r: "ref_inv S" and i: "io_inv S"
    and fin: "finite (dom (lf_ctx (dev S)))"
    and other: "\<And>c'. c' \<noteq> c \<Longrightarrow> lf_ctx (dev S) c' \<noteq> None \<longleftrightarrow> 0 < ctx_users S c'"
    and refs: "\<And>c' ctx. c' \<noteq> c \<Longrightarrow> lf_ctx (dev S) c' = Some ctx \<Longrightarrow>
        lf_ctx_refs (dev S) c' = ctx_users S c' \<and> unat (bar_mapping_count ctx) = card (owned (dev S) c') \<and>
        unat (transfer_count ctx) = count (xfers S) c'"
    and c: "lf_ctx (dev S) c = Some ctx" "lf_ctx_refs (dev S) c = Suc (ctx_users S c)"
        "unat (bar_mapping_count ctx) = card (owned (dev S) c)" "unat (transfer_count ctx) = count (xfers S) c"
  obtains s where "mx_file_ctx_put (dev S) c = Some s" "life_inv (S\<lparr>dev := s\<rparr>)" "lf_vma s = lf_vma (dev S)"
proof (cases "ctx_users S c = 0")
  case False
  let ?s = "(dev S)\<lparr>lf_ctx_refs := (lf_ctx_refs (dev S))(c := ctx_users S c)\<rparr>"
  have u: "ctx_users (S\<lparr>dev := ?s\<rparr>) c' = ctx_users S c'" for c' by (rule ctx_users_cong) simp_all
  have iff: "lf_ctx (dev S) c' \<noteq> None \<longleftrightarrow> 0 < ctx_users S c'" for c'
    using other c(1) False by (cases "c' = c") auto
  have "ctx_inv (S\<lparr>dev := ?s\<rparr>)"
    unfolding ctx_inv_def using fin refs c by (auto simp: u iff simp del: not_None_eq)
  moreover have "vma_inv (S\<lparr>dev := ?s\<rparr>)" by (rule vma_inv_cong [OF v]) simp_all
  moreover have "io_inv (S\<lparr>dev := ?s\<rparr>)" by (rule io_inv_cong [OF i]) simp_all
  moreover have "ref_inv (S\<lparr>dev := ?s\<rparr>)" by (rule ref_inv_cong [OF r]) simp_all
  moreover have "mx_file_ctx_put (dev S) c = Some ?s"
    using c False by (simp add: mx_file_ctx_put_def Let_def)
  ultimately show ?thesis by (intro that [of ?s]) (simp_all add: life_inv_def)
next
  case True
  have card: "card (dom ((lf_ctx (dev S))(c := None))) = card (dom (lf_ctx (dev S))) - 1"
    using c(1) by (intro card_dom_remove) simp
  have pos: "0 < card (dom (lf_ctx (dev S)))" using fin c(1) by (auto simp: card_gt_0_iff)
  then have dev_pos: "0 < lf_ref (dev S)" using r by (simp add: ref_inv_def dev_users_def)
  obtain l where l: "fst (mx_file_ctx_free (lf_lease (dev S)) ctx) = l" by simp
  let ?s = "(dev S)\<lparr>lf_ctx_refs := (lf_ctx_refs (dev S))(c := 0), lf_lease := l,
              lf_ctx := (lf_ctx (dev S))(c := None)\<rparr>"
  let ?S = "S\<lparr>dev := ?s, base := Suc (base S)\<rparr>"
  have u: "ctx_users ?S c' = ctx_users S c'" for c' by (rule ctx_users_cong) simp_all
  have iff: "((lf_ctx (dev S))(c := None)) c' \<noteq> None \<longleftrightarrow> 0 < ctx_users S c'" for c'
    using other True by (cases "c' = c") auto
  have "ctx_inv ?S"
    unfolding ctx_inv_def using fin refs by (simp add: u iff del: not_None_eq fun_upd_apply) simp
  moreover have "vma_inv ?S" by (rule vma_inv_cong [OF v]) simp_all
  moreover have "io_inv ?S" by (rule io_inv_cong [OF i]) simp_all
  moreover have "ref_inv ?S" using r card pos by (simp add: ref_inv_def dev_users_def)
  ultimately have "life_inv ?S" by (simp add: life_inv_def)
  then obtain s where s: "mx_pdev_put ?s = Some s" "life_inv (?S\<lparr>dev := s, base := base ?S - 1\<rparr>)"
    "lf_vma s = lf_vma ?s"
    using pdev_put_inv [of ?S] by auto
  have put: "mx_file_ctx_put (dev S) c = mx_pdev_put ?s"
    using c True dev_pos l by (auto simp: mx_file_ctx_put_def Let_def split: prod.split)
  show ?thesis by (rule that [of s]) (use s put in simp_all)
qed

section \<open>Every operation keeps the invariant and touches no freed object\<close>

lemma life_invE:
  assumes "life_inv S"
  obtains "vma_inv S" "ctx_inv S" "ref_inv S" "io_inv S"
  using assms by (simp add: life_inv_def)

lemma life_init_inv: "life_inv (life_init w sz hio n)"
  by (simp add: life_inv_def life_init_def vma_inv_def ctx_inv_def ref_inv_def io_inv_def
      dev_users_def ctx_users_def owned_def)

lemma file_ctx_allocated:
  assumes "ctx_inv S" "c \<in> files S"
  obtains ctx where "lf_ctx (dev S) c = Some ctx"
proof -
  have "0 < ctx_users S c" using assms(2) by (simp add: ctx_users_def)
  then have "lf_ctx (dev S) c \<noteq> None" using assms(1) unfolding ctx_inv_def by blast
  then show ?thesis using that by blast
qed

lemma vma_owner_allocated:
  assumes "vma_inv S" "ctx_inv S" "lf_vma (dev S) b = Some v"
  obtains ctx where "lf_ctx (dev S) (bv_owner v) = Some ctx"
proof -
  have "finite (owned (dev S) (bv_owner v))" using assms(1) by (simp add: vma_inv_def owned_finite)
  then have "0 < card (owned (dev S) (bv_owner v))"
    using owned_member [OF assms(3)] by (auto simp: card_gt_0_iff)
  then have "0 < ctx_users S (bv_owner v)" by (simp add: ctx_users_def)
  then have "lf_ctx (dev S) (bv_owner v) \<noteq> None" using assms(2) unfolding ctx_inv_def by blast
  then show ?thesis using that by blast
qed

lemma ctx_zero_counts [simp]: "bar_mapping_count (ctx_zero i) = 0" "transfer_count (ctx_zero i) = 0"
  by (simp_all add: ctx_zero_def)

lemma ctx_invD:
  assumes "ctx_inv S"
  shows "finite (dom (lf_ctx (dev S)))" "lf_ctx (dev S) c \<noteq> None \<longleftrightarrow> 0 < ctx_users S c"
    "lf_ctx (dev S) c = Some ctx \<Longrightarrow> lf_ctx_refs (dev S) c = ctx_users S c"
    "lf_ctx (dev S) c = Some ctx \<Longrightarrow> unat (bar_mapping_count ctx) = card (owned (dev S) c)"
    "lf_ctx (dev S) c = Some ctx \<Longrightarrow> unat (transfer_count ctx) = count (xfers S) c"
  using assms unfolding ctx_inv_def by blast+

text \<open>The context part of the invariant, from what holds of context \<open>k\<close> and of the others.\<close>

lemma ctx_inv_update:
  assumes inv: "ctx_inv S" and fin: "finite (dom (lf_ctx (dev S')))"
    and same: "\<And>c. c \<noteq> k \<Longrightarrow> lf_ctx (dev S') c = lf_ctx (dev S) c \<and> lf_ctx_refs (dev S') c = lf_ctx_refs (dev S) c \<and>
        owned (dev S') c = owned (dev S) c \<and> count (xfers S') c = count (xfers S) c \<and> (c \<in> files S' \<longleftrightarrow> c \<in> files S)"
    and k: "lf_ctx (dev S') k = Some ctx" "lf_ctx_refs (dev S') k = ctx_users S' k" "0 < ctx_users S' k"
      "unat (bar_mapping_count ctx) = card (owned (dev S') k)" "unat (transfer_count ctx) = count (xfers S') k"
  shows "ctx_inv S'"
proof -
  have u: "ctx_users S' c = ctx_users S c" if "c \<noteq> k" for c
    using same [OF that] by (simp add: ctx_users_def)
  have "lf_ctx (dev S') c \<noteq> None \<longleftrightarrow> 0 < ctx_users S' c" for c
    using k ctx_invD(2) [OF inv, of c] same [of c] u [of c] by (cases "c = k") simp_all
  moreover have "lf_ctx_refs (dev S') c = ctx_users S' c \<and> unat (bar_mapping_count x) = card (owned (dev S') c) \<and>
      unat (transfer_count x) = count (xfers S') c" if "lf_ctx (dev S') c = Some x" for c x
    using that k ctx_invD(3-5) [OF inv, of c x] same [of c] u [of c] by (cases "c = k") simp_all
  ultimately show ?thesis using fin unfolding ctx_inv_def by blast
qed

text \<open>\<open>open\<close>: taking the device reference, and giving it back when the context cannot be had.\<close>

lemma pdev_get_inv:
  assumes "life_inv S" "0 < lf_ref (dev S)"
  shows "life_inv (S\<lparr>dev := (dev S)\<lparr>lf_ref := lf_ref (dev S) + 1\<rparr>, base := Suc (base S)\<rparr>)" (is "life_inv ?S")
proof -
  note i = assms(1) [unfolded life_inv_def]
  have "vma_inv ?S" by (rule vma_inv_cong [of S]) (use i in simp_all)
  moreover have "ctx_inv ?S" by (rule ctx_inv_cong [of S]) (use i in simp_all)
  moreover have "io_inv ?S" by (rule io_inv_cong [of S]) (use i in simp_all)
  moreover have "ref_inv ?S" using i assms(2) by (simp add: ref_inv_def dev_users_def)
  ultimately show ?thesis by (simp add: life_inv_def)
qed

lemma pdev_get_put_inv:
  assumes "life_inv S" "0 < lf_ref (dev S)"
  obtains s where "mx_pdev_put ((dev S)\<lparr>lf_ref := lf_ref (dev S) + 1\<rparr>) = Some s" "life_inv (S\<lparr>dev := s\<rparr>)"
proof -
  let ?S = "S\<lparr>dev := (dev S)\<lparr>lf_ref := lf_ref (dev S) + 1\<rparr>, base := Suc (base S)\<rparr>"
  obtain s where "mx_pdev_put (dev ?S) = Some s" "life_inv (?S\<lparr>dev := s, base := base ?S - 1\<rparr>)"
    using pdev_put_inv [OF pdev_get_inv [OF assms]] by auto
  then show ?thesis by (intro that [of s]) simp_all
qed

lemma new_ctx_inv:
  assumes inv: "life_inv S" and pos: "0 < lf_ref (dev S)" and c: "c \<notin> files S" "lf_ctx (dev S) c = None"
  shows "life_inv (S\<lparr>dev := (dev S)\<lparr>lf_ref := lf_ref (dev S) + 1,
             lf_ctx := (lf_ctx (dev S))(c := Some (ctx_zero i)), lf_ctx_refs := (lf_ctx_refs (dev S))(c := 1)\<rparr>,
           files := insert c (files S)\<rparr>)" (is "life_inv ?S")
proof -
  note i = inv [unfolded life_inv_def]
  have none: "ctx_users S c = 0" using i c unfolding ctx_inv_def by blast
  then have own: "count (xfers S) c = 0" "card (owned (dev S) c) = 0" by (simp_all add: ctx_users_def)
  have "vma_inv ?S" by (rule vma_inv_cong [of S]) (use i in simp_all)
  moreover have "ctx_inv ?S"
    by (rule ctx_inv_update [of S _ c "ctx_zero i"])
      (use i own in \<open>simp_all add: ctx_users_def ctx_invD(1)\<close>)
  moreover have "io_inv ?S" using i by (auto simp: io_inv_def)
  moreover have "ref_inv ?S" using i pos c(2)
    by (simp add: ref_inv_def dev_users_def card_dom_insert ctx_inv_def)
  ultimately show ?thesis by (simp add: life_inv_def)
qed

lemma open_safe:
  assumes inv: "life_inv S" and b: "0 < base S"
    and new: "\<And>c. new = Some c \<Longrightarrow> c \<notin> files S \<and> lf_ctx (dev S) c = None"
  obtains r s where "mxdma_device_open (dev S) m i new = Some (r, s)"
    "life_inv (S\<lparr>dev := s, files := (case (r, new) of (Inr _, Some c) \<Rightarrow> insert c (files S) | _ \<Rightarrow> files S)\<rparr>)"
proof -
  have pos: "0 < lf_ref (dev S)" using inv b by (simp add: life_inv_def ref_inv_def dev_users_def)
  obtain s where s: "mx_pdev_put ((dev S)\<lparr>lf_ref := lf_ref (dev S) + 1\<rparr>) = Some s" "life_inv (S\<lparr>dev := s\<rparr>)"
    using pdev_get_put_inv [OF inv pos] .
  have same: "S\<lparr>dev := dev S, files := files S\<rparr> = S" "\<And>s. S\<lparr>dev := s, files := files S\<rparr> = S\<lparr>dev := s\<rparr>" by simp_all
  show ?thesis
  proof (cases new)
    case None
    then show ?thesis using s inv pos
      by (intro that [of "fst (the (mxdma_device_open (dev S) m i new))" "snd (the (mxdma_device_open (dev S) m i new))"])
        (auto simp: mxdma_device_open_def mx_pdev_get_live_def Let_def)
  next
    case (Some c)
    then show ?thesis using s inv pos new new_ctx_inv [OF inv pos, of c i]
      by (intro that [of "fst (the (mxdma_device_open (dev S) m i new))" "snd (the (mxdma_device_open (dev S) m i new))"])
        (auto simp: mxdma_device_open_def mx_pdev_get_live_def Let_def)
  qed
qed

text \<open>The user \<open>c\<close> loses is a file or a transfer.\<close>

lemma release_safe:
  assumes inv: "life_inv S" and c: "c \<in> files S" "c \<notin># bodies S"
  obtains s where "mxdma_device_release (dev S) (Some c) = Some (OK, s)"
    "life_inv (S\<lparr>dev := s, files := files S - {c}\<rparr>)"
proof -
  let ?S = "S\<lparr>files := files S - {c}\<rparr>"
  note i = inv [unfolded life_inv_def]
  have ci: "ctx_inv S" using i by simp
  obtain ctx where ctx: "lf_ctx (dev S) c = Some ctx" using file_ctx_allocated [OF ci c(1)] .
  have u: "ctx_users S c = Suc (ctx_users ?S c)" "\<And>c'. c' \<noteq> c \<Longrightarrow> ctx_users ?S c' = ctx_users S c'"
    using c(1) by (simp_all add: ctx_users_def)
  obtain s where "mx_file_ctx_put (dev ?S) c = Some s" "life_inv (?S\<lparr>dev := s\<rparr>)"
  proof (rule ctx_put_inv [of ?S c ctx])
    show "vma_inv ?S" by (rule vma_inv_cong [of S]) (use i in simp_all)
    show "ref_inv ?S" by (rule ref_inv_cong [of S]) (use i in simp_all)
    show "io_inv ?S" using i c by (auto simp: io_inv_def)
  qed (use u ctx ctx_invD [OF ci] in \<open>simp_all\<close>)
  then show ?thesis by (intro that [of s]) (simp_all add: mxdma_device_release_def)
qed

lemma transfer_put_safe:
  assumes inv: "life_inv S" and c: "c \<in># xfers S"
  obtains s where "life_transfer_put (dev S) c = Some s" "life_inv (S\<lparr>dev := s, xfers := xfers S - {#c#}\<rparr>)"
proof -
  note i = inv [unfolded life_inv_def]
  have ci: "ctx_inv S" and ri: "ref_inv S" using i by simp_all
  have "0 < ctx_users S c" using c by (simp add: ctx_users_def)
  then obtain ctx where ctx: "lf_ctx (dev S) c = Some ctx" using ctx_invD(2) [OF ci, of c] by auto
  let ?s = "(dev S)\<lparr>lf_ctx := (lf_ctx (dev S))(c := Some (mx_lease_transfer_put ctx))\<rparr>"
  let ?S = "S\<lparr>dev := ?s, xfers := xfers S - {#c#}\<rparr>"
  have tc: "unat (transfer_count ctx) = count (xfers S) c" using ctx_invD(5) [OF ci ctx] .
  have n: "count (xfers S) c \<noteq> 0" using c by simp
  have "transfer_count ctx \<noteq> 0" using tc c by (auto simp: count_eq_zero_iff)
  then have put: "unat (transfer_count (mx_lease_transfer_put ctx)) = count (xfers S) c - 1"
      "bar_mapping_count (mx_lease_transfer_put ctx) = bar_mapping_count ctx"
    using tc by (simp_all add: mx_lease_transfer_put_def unat_dec)
  have u: "ctx_users S c = Suc (ctx_users ?S c)" "\<And>c'. c' \<noteq> c \<Longrightarrow> ctx_users ?S c' = ctx_users S c'"
    using n by (simp_all add: ctx_users_def)
  obtain s where "mx_file_ctx_put (dev ?S) c = Some s" "life_inv (?S\<lparr>dev := s\<rparr>)"
  proof (rule ctx_put_inv [of ?S c "mx_lease_transfer_put ctx"])
    show "vma_inv ?S" by (rule vma_inv_cong [of S]) (use i in simp_all)
    show "ref_inv ?S" using ri ctx by (simp add: ref_inv_def dev_users_def insert_absorb domI)
    show "io_inv ?S" by (rule io_inv_cong [of S]) (use i in simp_all)
  qed (use u ctx put ctx_invD [OF ci] in \<open>simp_all\<close>)
  moreover have "0 < lf_ref (dev S)" using dom_ctx_pos [OF ci ri, of c] ctx by simp
  ultimately show ?thesis using ctx by (intro that [of s]) (simp_all add: life_transfer_put_def)
qed

lemma transfer_get_safe:
  assumes inv: "life_inv S" and c: "c \<in># bodies S"
  obtains r s where "life_transfer_get (dev S) c = Some (r, s)"
    "life_inv (S\<lparr>dev := s, xfers := (case r of Inl _ \<Rightarrow> xfers S | Inr _ \<Rightarrow> add_mset c (xfers S))\<rparr>)"
proof -
  note i = inv [unfolded life_inv_def]
  have ci: "ctx_inv S" and ri: "ref_inv S" using i by simp_all
  have f: "c \<in> files S" using i c by (auto simp: io_inv_def)
  obtain ctx where ctx: "lf_ctx (dev S) c = Some ctx" using file_ctx_allocated [OF ci f] .
  have pos: "0 < lf_ref (dev S)" using dom_ctx_pos [OF ci ri, of c] ctx by simp
  obtain r ctx' where g: "mx_lease_transfer_get (lf_lease (dev S)) ctx = (r, ctx')" by fastforce
  show ?thesis
  proof (cases r)
    case (Inl e)
    then show ?thesis using g ctx pos inv
      by (intro that [of r "dev S"]) (simp_all add: life_transfer_get_def)
  next
    case (Inr p)
    have cnt: "transfer_count ctx \<noteq> U32_MAX" "ctx' = ctx\<lparr>transfer_count := transfer_count ctx + 1\<rparr>"
      using g Inr by (auto simp: mx_lease_transfer_get_def split: if_split_asm sum.split_asm)
    let ?s = "(dev S)\<lparr>lf_ctx_refs := (lf_ctx_refs (dev S))(c := lf_ctx_refs (dev S) c + 1),
                lf_ctx := (lf_ctx (dev S))(c := Some ctx')\<rparr>"
    let ?S = "S\<lparr>dev := ?s, xfers := add_mset c (xfers S)\<rparr>"
    have "vma_inv ?S" by (rule vma_inv_cong [of S]) (use i in simp_all)
    moreover have "ref_inv ?S" using ri ctx by (simp add: ref_inv_def dev_users_def insert_absorb domI)
    moreover have "io_inv ?S" by (rule io_inv_cong [of S]) (use i in simp_all)
    moreover have "ctx_inv ?S"
      by (rule ctx_inv_update [OF ci, of _ c ctx'])
        (use ctx_invD [OF ci] ctx cnt in \<open>simp_all add: ctx_users_def unat_inc_u32\<close>)
    ultimately show ?thesis using g ctx pos Inr
      by (intro that [of r ?s]) (simp_all add: life_inv_def life_transfer_get_def mx_file_ctx_get_def)
  qed
qed

text \<open>BAR mappings.\<close>

lemma vma_invD:
  assumes "vma_inv S"
  shows "finite (dom (lf_vma (dev S)))"
    "lf_vma (dev S) b = Some v \<Longrightarrow> bv_refs v = count (vmas S) b"
    "lf_vma (dev S) b = Some v \<Longrightarrow> count (vmas S) b = 0 \<longleftrightarrow> b \<in> closing S"
    "b \<in># vmas S \<Longrightarrow> \<exists>v. lf_vma (dev S) b = Some v" "b \<in> closing S \<Longrightarrow> \<exists>v. lf_vma (dev S) b = Some v"
    "unat (bar_map_count (lf_regs (dev S))) = size (vmas S)"
    "lf_mapping (dev S) \<noteq> None \<Longrightarrow> vmas S \<noteq> {#}" "ptes S \<Longrightarrow> lf_mapping (dev S) \<noteq> None"
    "vmas S \<noteq> {#} \<Longrightarrow> no_mbox (dev S)"
  using assms unfolding vma_inv_def by blast+

lemma vma_invI:
  assumes "finite (dom (lf_vma (dev S)))"
    "\<And>b v. lf_vma (dev S) b = Some v \<Longrightarrow> bv_refs v = count (vmas S) b"
    "\<And>b v. lf_vma (dev S) b = Some v \<Longrightarrow> count (vmas S) b = 0 \<longleftrightarrow> b \<in> closing S"
    "\<And>b. b \<in># vmas S \<Longrightarrow> \<exists>v. lf_vma (dev S) b = Some v" "\<And>b. b \<in> closing S \<Longrightarrow> \<exists>v. lf_vma (dev S) b = Some v"
    "unat (bar_map_count (lf_regs (dev S))) = size (vmas S)"
    "lf_mapping (dev S) \<noteq> None \<Longrightarrow> vmas S \<noteq> {#}" "ptes S \<Longrightarrow> lf_mapping (dev S) \<noteq> None"
    "vmas S \<noteq> {#} \<Longrightarrow> no_mbox (dev S)"
  shows "vma_inv S"
  unfolding vma_inv_def
proof (intro conjI allI impI)
  show "set_mset (vmas S) \<subseteq> dom (lf_vma (dev S))" "closing S \<subseteq> dom (lf_vma (dev S))"
    using assms(4,5) by blast+
qed (use assms in blast)+

lemma no_mbox_update [simp]: "no_mbox (s\<lparr>lf_regs := (lf_regs s)\<lparr>bar_map_count := n\<rparr>\<rparr>) = no_mbox s"
  by (simp add: no_mbox_def)

lemma no_mbox_ex: "\<not> list_ex (\<lambda>qid. sq_mbox_list (lf_regs s) qid \<noteq> None) [0..<80] \<longleftrightarrow> no_mbox s"
  by (auto simp: list_ex_iff no_mbox_def)

lemma unat_count_inc: "unat (w :: u32) = n \<Longrightarrow> Suc n < 4294967296 \<Longrightarrow> unat (w + 1) = Suc n"
  by (rule trans [OF unat_inc_u32]) auto

lemma mmap_commit_inv:
  assumes inv: "life_inv S" and ctx: "lf_ctx (dev S) c = Some ctx" and b: "lf_vma (dev S) b = None"
    and room: "Suc (size (vmas S)) < 4294967296" "bar_mapping_count ctx \<noteq> U32_MAX" and nm: "no_mbox (dev S)"
  shows "life_inv (S\<lparr>dev := bar_mmap_commit (dev S) c ctx b m, vmas := add_mset b (vmas S), ptes := True\<rparr>)"
    (is "life_inv ?S")
proof -
  note i = inv [unfolded life_inv_def]
  have vi: "vma_inv S" and ci: "ctx_inv S" and ri: "ref_inv S" using i by simp_all
  have nb: "b \<notin># vmas S" "b \<notin> closing S" using vma_invD(4,5) [OF vi, of b] b by auto
  then have cb: "count (vmas S) b = 0" by (simp add: count_eq_zero_iff)
  have o: "owned (bar_mmap_commit (dev S) c ctx b m) c' = (if c = c' then insert b (owned (dev S) c') else owned (dev S) c')" for c'
    using b by (subst owned_new [of "dev S" b _ "\<lparr>bv_refs = 1, bv_owner = c\<rparr>"]) (simp_all add: bar_mmap_commit_def)
  have fo: "finite (owned (dev S) c)" using vma_invD(1) [OF vi] by (rule owned_finite)
  have no: "b \<notin> owned (dev S) c" using b by (simp add: owned_def)
  have pos: "0 < lf_ref (dev S)" using dom_ctx_pos [OF ci ri, of c] ctx by simp
  have "vma_inv ?S"
    by (rule vma_invI)
      (use vma_invD [OF vi] cb nb b room nm in \<open>auto simp: bar_mmap_commit_def unat_count_inc no_mbox_def split: if_split_asm\<close>)
  moreover have "ctx_inv ?S"
    by (rule ctx_inv_update [OF ci, of _ c "ctx\<lparr>bar_mapping_count := bar_mapping_count ctx + 1\<rparr>"])
      (use ctx_invD [OF ci] ctx room fo no in \<open>simp_all add: o ctx_users_def unat_inc_u32, simp_all add: bar_mmap_commit_def\<close>)
  moreover have "ref_inv ?S" using ri pos ctx b vma_invD(1) [OF vi]
    by (simp add: ref_inv_def dev_users_def bar_mmap_commit_def insert_absorb domI card_dom_insert)
  moreover have "io_inv ?S" by (rule io_inv_cong [of S]) (use i in \<open>simp_all add: bar_mmap_commit_def\<close>)
  ultimately show ?thesis by (simp add: life_inv_def)
qed

lemma bar_kref_pos:
  assumes "life_inv S" "0 < lf_ref (dev S) \<or> vmas S \<noteq> {#} \<or> 0 < putting S"
  shows "0 < lf_bar_kref (dev S)"
  using assms by (auto simp: life_inv_def ref_inv_def size_eq_0_iff_empty)

lemma mmap_safe:
  assumes inv: "life_inv S" and c: "c \<in># bodies S" and room: "Suc (size (vmas S)) < 4294967296"
    and new: "\<And>b. new = Some b \<Longrightarrow> lf_vma (dev S) b = None"
  obtains e where "mx_bar_mmap (dev S) c vma new remap = Some (Inl e, dev S)"
  | b ctx where "mx_bar_mmap (dev S) c vma new remap = Some (OK, bar_mmap_commit (dev S) c ctx b (vm_f_mapping vma))"
      "new = Some b" "lf_ctx (dev S) c = Some ctx" "bar_mmap_check (dev S) vma = OK" "remap = OK"
      "life_inv (S\<lparr>dev := bar_mmap_commit (dev S) c ctx b (vm_f_mapping vma), vmas := add_mset b (vmas S), ptes := True\<rparr>)"
proof -
  note i = inv [unfolded life_inv_def]
  have f: "c \<in> files S" using i c by (auto simp: io_inv_def)
  obtain ctx where ctx: "lf_ctx (dev S) c = Some ctx" using file_ctx_allocated [OF _ f] i by blast
  have pos: "0 < lf_ref (dev S)" using dom_ctx_pos [of S c] ctx i by simp
  then have k: "0 < lf_bar_kref (dev S)" using bar_kref_pos [OF inv] by simp
  show ?thesis
  proof (cases "new = None \<or> bar_mmap_check (dev S) vma \<noteq> OK \<or> bar_mapping_count ctx = U32_MAX \<or> remap \<noteq> OK")
    case True
    then have "\<exists>e. mx_bar_mmap (dev S) c vma new remap = Some (Inl e, dev S)"
      using pos k ctx by (auto simp: mx_bar_mmap_def split: option.split sum.split)
    then show ?thesis using that(1) by blast
  next
    case False
    then obtain b where b: "new = Some b" by auto
    have nm: "no_mbox (dev S)" using False
      by (simp add: bar_mmap_check_def no_mbox_ex [symmetric] split: if_split_asm)
    from False b pos k ctx mmap_commit_inv [OF inv ctx new [OF b] room _ nm] show ?thesis
      by (intro that(2) [of ctx b]) (simp_all add: mx_bar_mmap_def)
  qed
qed

lemma vma_open_safe:
  assumes inv: "life_inv S" and b: "b \<in># vmas S" and room: "Suc (size (vmas S)) < 4294967296"
  obtains s where "mx_bar_vma_open (dev S) b = Some s" "life_inv (S\<lparr>dev := s, vmas := add_mset b (vmas S)\<rparr>)"
proof -
  note i = inv [unfolded life_inv_def]
  have vi: "vma_inv S" and ci: "ctx_inv S" and ri: "ref_inv S" using i by simp_all
  obtain v where v: "lf_vma (dev S) b = Some v" using vma_invD(4) [OF vi b] by blast
  have k: "0 < lf_bar_kref (dev S)" by (rule bar_kref_pos [OF inv]) (use b in auto)
  let ?s = "(dev S)\<lparr>lf_bar_kref := lf_bar_kref (dev S) + 1,
      lf_regs := (lf_regs (dev S))\<lparr>bar_map_count := bar_map_count (lf_regs (dev S)) + 1\<rparr>,
      lf_vma := (lf_vma (dev S))(b := Some (v\<lparr>bv_refs := bv_refs v + 1\<rparr>))\<rparr>"
  let ?S = "S\<lparr>dev := ?s, vmas := add_mset b (vmas S)\<rparr>"
  have nc: "b \<notin> closing S" using vma_invD(3) [OF vi v] b by (auto simp: count_eq_zero_iff)
  have nm: "no_mbox (dev S)" by (rule vma_invD(9) [OF vi]) (use b in auto)
  have o: "owned ?s c = owned (dev S) c" for c by (rule owned_refs [OF v]) simp_all
  have "vma_inv ?S"
    by (rule vma_invI)
      (use vma_invD [OF vi] v nc room nm in \<open>auto simp: unat_count_inc no_mbox_def split: if_split_asm\<close>)
  moreover have "ctx_inv ?S"
    using ci unfolding ctx_inv_def ctx_users_def o life_sys.simps mx_life.simps by (simp add: o del: One_nat_def)
  moreover have "ref_inv ?S" using ri v by (simp add: ref_inv_def dev_users_def insert_absorb domI)
  moreover have "io_inv ?S" by (rule io_inv_cong [of S]) (use i in simp_all)
  moreover have "mx_bar_vma_open (dev S) b = Some ?s" using v k by (simp add: mx_bar_vma_open_def)
  ultimately show ?thesis by (intro that [of ?s]) (simp_all add: life_inv_def)
qed

lemma close_locked_safe:
  assumes inv: "life_inv S" and b: "b \<in># vmas S"
  obtains final s where "bar_vma_close_locked (dev S) b = Some (final, s)" "final \<longleftrightarrow> count (vmas S) b = 1"
    "life_inv (S\<lparr>dev := s, vmas := vmas S - {#b#}, closing := (if final then insert b (closing S) else closing S),
       putting := (if final then putting S else Suc (putting S)), ptes := (ptes S \<and> vmas S \<noteq> {#b#})\<rparr>)"
proof -
  note i = inv [unfolded life_inv_def]
  have vi: "vma_inv S" and ci: "ctx_inv S" and ri: "ref_inv S" using i by simp_all
  obtain v where v: "lf_vma (dev S) b = Some v" using vma_invD(4) [OF vi b] by blast
  have k: "0 < lf_bar_kref (dev S)" by (rule bar_kref_pos [OF inv]) (use b in auto)
  obtain M where M: "vmas S = add_mset b M" using multi_member_split [OF b] by blast
  have refs: "bv_refs v = Suc (count M b)" using vma_invD(2) [OF vi v] M by simp
  have n: "unat (bar_map_count (lf_regs (dev S))) = Suc (size M)" using vma_invD(6) [OF vi] M by simp
  then have n0: "bar_map_count (lf_regs (dev S)) \<noteq> 0" by auto
  have n1: "unat (bar_map_count (lf_regs (dev S)) - 1) = size M" using n n0 by (simp add: unat_dec)
  then have e: "bar_map_count (lf_regs (dev S)) - 1 = 0 \<longleftrightarrow> M = {#}"
    by (metis size_eq_0_iff_empty unat_zero_iff)
  have nc: "b \<notin> closing S" using vma_invD(3) [OF vi v] M by auto
  have nm: "no_mbox (dev S)" by (rule vma_invD(9) [OF vi]) (use b in auto)
  let ?f = "count M b = 0"
  let ?s = "(dev S)\<lparr>lf_regs := (lf_regs (dev S))\<lparr>bar_map_count := bar_map_count (lf_regs (dev S)) - 1\<rparr>,
      lf_mapping := (if M = {#} then None else lf_mapping (dev S)),
      lf_vma := (lf_vma (dev S))(b := Some (v\<lparr>bv_refs := count M b\<rparr>))\<rparr>"
  let ?S = "S\<lparr>dev := ?s, vmas := M, closing := (if ?f then insert b (closing S) else closing S),
      putting := (if ?f then putting S else Suc (putting S)), ptes := (ptes S \<and> M \<noteq> {#})\<rparr>"
  have o: "owned ?s c = owned (dev S) c" for c by (rule owned_refs [OF v]) simp_all
  have step: "bar_vma_close_locked (dev S) b = Some (?f, ?s)"
    using v k refs n0 e by (simp add: bar_vma_close_locked_def Let_def)
  have other: "\<And>x. x \<noteq> b \<Longrightarrow> count M x = count (vmas S) x" using M by simp
  have "vma_inv ?S"
  proof (rule vma_invI)
    show "count (vmas ?S) x = 0 \<longleftrightarrow> x \<in> closing ?S" if "lf_vma (dev ?S) x = Some w" for x w
      using that vma_invD(3) [OF vi, of x] other [of x] nc by (auto split: if_split_asm)
    show "bv_refs w = count (vmas ?S) x" if "lf_vma (dev ?S) x = Some w" for x w
      using that vma_invD(2) [OF vi, of x] other [of x] by (auto split: if_split_asm)
    show "\<exists>w. lf_vma (dev ?S) x = Some w" if "x \<in># vmas ?S" for x
      using that vma_invD(4) [OF vi, of x] M by auto
    show "\<exists>w. lf_vma (dev ?S) x = Some w" if "x \<in> closing ?S" for x
      using that vma_invD(5) [OF vi, of x] by (auto split: if_split_asm)
  qed (use vma_invD(1,6-8) [OF vi] n1 nm in \<open>auto simp: no_mbox_def split: if_split_asm\<close>)
  moreover have "ctx_inv ?S"
    using ci unfolding ctx_inv_def ctx_users_def by (simp add: o)
  moreover have "ref_inv ?S" using ri v M nc closing_finite [OF vi]
    by (simp add: ref_inv_def dev_users_def insert_absorb domI count_eq_zero_iff)
  moreover have "io_inv ?S" by (rule io_inv_cong [of S]) (use i in simp_all)
  ultimately have "life_inv ?S" by (simp add: life_inv_def)
  with step M show ?thesis by (intro that [of ?f ?s]) simp_all
qed

lemma close_last_safe:
  assumes inv: "life_inv S" and b: "b \<in> closing S"
  obtains s where "bar_vma_close_last (dev S) b = Some s"
    "life_inv (S\<lparr>dev := s, closing := closing S - {b}, putting := Suc (putting S)\<rparr>)"
proof -
  note i = inv [unfolded life_inv_def]
  have vi: "vma_inv S" and ci: "ctx_inv S" and ri: "ref_inv S" using i by simp_all
  obtain v where v: "lf_vma (dev S) b = Some v" using vma_invD(5) [OF vi b] by blast
  obtain ctx where ctx: "lf_ctx (dev S) (bv_owner v) = Some ctx" using vma_owner_allocated [OF vi ci v] .
  have pos: "0 < lf_ref (dev S)" using dom_vma_pos [OF vi ri, of b] v by simp
  have fo: "finite (owned (dev S) (bv_owner v))" using vma_invD(1) [OF vi] by (rule owned_finite)
  have mem: "b \<in> owned (dev S) (bv_owner v)" by (rule owned_member [OF v])
  have cd: "card (owned (dev S) (bv_owner v) - {b}) = card (owned (dev S) (bv_owner v)) - 1"
    "0 < card (owned (dev S) (bv_owner v))"
    using mem fo by (auto simp: card_gt_0_iff)
  have bc: "unat (bar_mapping_count ctx) = card (owned (dev S) (bv_owner v))" by (rule ctx_invD(4) [OF ci ctx])
  then have n0: "bar_mapping_count ctx \<noteq> 0" using cd(2) by auto
  let ?ctx = "ctx\<lparr>bar_mapping_count := bar_mapping_count ctx - 1\<rparr>"
  let ?s = "(dev S)\<lparr>lf_ctx := (lf_ctx (dev S))(bv_owner v := Some ?ctx), lf_vma := (lf_vma (dev S))(b := None)\<rparr>"
  let ?S = "S\<lparr>dev := ?s, closing := closing S - {b}, putting := Suc (putting S), base := Suc (base S)\<rparr>"
  have o: "owned ?s c = (if bv_owner v = c then owned (dev S) c - {b} else owned (dev S) c)" for c
    by (rule owned_removed [OF _, of _ b]) (use v in simp_all)
  have u: "ctx_users S (bv_owner v) = Suc (ctx_users ?S (bv_owner v))"
      "\<And>c. c \<noteq> bv_owner v \<Longrightarrow> ctx_users ?S c = ctx_users S c"
    using cd by (simp_all add: ctx_users_def o)
  have cb: "count (vmas S) b = 0" using vma_invD(3) [OF vi v] b by simp
  have dv: "card (dom (lf_vma (dev S)) - {b}) = card (dom (lf_vma (dev S))) - 1" "0 < card (dom (lf_vma (dev S)))"
    using v vma_invD(1) [OF vi] by (auto simp: card_gt_0_iff card_Diff_singleton domI)
  have dc: "card (closing S - {b}) = card (closing S) - 1" "0 < card (closing S)"
    using b closing_finite [OF vi] by (auto simp: card_gt_0_iff)
  have vi': "vma_inv ?S"
    by (rule vma_invI)
      (use vma_invD [OF vi] cb in \<open>auto simp: count_eq_zero_iff no_mbox_def split: if_split_asm\<close>)
  have ri': "ref_inv ?S" using ri ctx dv dc by (simp add: ref_inv_def dev_users_def insert_absorb domI)
  have ii': "io_inv ?S" by (rule io_inv_cong [of S]) (use i in simp_all)
  obtain s where s: "mx_file_ctx_put (dev ?S) (bv_owner v) = Some s" "life_inv (?S\<lparr>dev := s\<rparr>)"
    by (rule ctx_put_inv [OF vi' ri' ii', of "bv_owner v" ?ctx])
      (use u ctx ctx_invD [OF ci] cd bc n0 in \<open>simp_all add: o unat_dec\<close>)
  obtain s' where "mx_pdev_put s = Some s'" "life_inv (?S\<lparr>dev := s', base := base S\<rparr>)"
    using pdev_put_inv [OF s(2)] by auto
  then show ?thesis using v ctx pos n0 s(1)
    by (intro that [of s']) (simp_all add: bar_vma_close_last_def Let_def)
qed

text \<open>Entering and leaving, mailboxes, and the end of the device.\<close>

lemma prepare_safe:
  assumes inv: "life_inv S" and c: "c \<in> files S"
  obtains e where "mxdma_device_prepare (dev S) (Some c) m = Some (Inl e, dev S)"
  | "mxdma_device_prepare (dev S) (Some c) m = Some (OK, (dev S)\<lparr>lf_io_ref := lf_io_ref (dev S) + 1\<rparr>)"
    "\<not> lf_io_dying (dev S)" "lf_enabled (dev S)" "\<not> lease_removed (lf_lease (dev S))"
proof -
  note i = inv [unfolded life_inv_def]
  obtain ctx where ctx: "lf_ctx (dev S) c = Some ctx" using file_ctx_allocated [OF _ c] i by blast
  have pos: "0 < lf_ref (dev S)" using dom_ctx_pos [of S c] ctx i by simp
  then have "lf_magic (dev S)" using i by (simp add: ref_inv_def)
  with ctx pos have "(\<exists>e. mxdma_device_prepare (dev S) (Some c) m = Some (Inl e, dev S)) \<or>
      mxdma_device_prepare (dev S) (Some c) m = Some (OK, (dev S)\<lparr>lf_io_ref := lf_io_ref (dev S) + 1\<rparr>) \<and>
      \<not> lf_io_dying (dev S) \<and> lf_enabled (dev S) \<and> \<not> lease_removed (lf_lease (dev S))"
    by (simp add: mxdma_device_prepare_def)
  then show ?thesis using that by blast
qed

lemma io_step_inv:
  assumes inv: "life_inv S" and io: "io_inv (S\<lparr>dev := s, bodies := B, wait_works := W\<rparr>)"
    and same: "lf_vma s = lf_vma (dev S)" "lf_regs s = lf_regs (dev S)" "lf_mapping s = lf_mapping (dev S)"
      "lf_ctx s = lf_ctx (dev S)" "lf_ctx_refs s = lf_ctx_refs (dev S)" "lf_ref s = lf_ref (dev S)"
      "lf_magic s = lf_magic (dev S)" "lf_bar_kref s = lf_bar_kref (dev S)"
  shows "life_inv (S\<lparr>dev := s, bodies := B, wait_works := W\<rparr>)" (is "life_inv ?S")
proof -
  note i = inv [unfolded life_inv_def]
  have "vma_inv ?S" by (rule vma_inv_cong [of S]) (use i same in simp_all)
  moreover have "ctx_inv ?S" by (rule ctx_inv_cong [of S]) (use i same in simp_all)
  moreover have "ref_inv ?S" by (rule ref_inv_cong [of S]) (use i same in simp_all)
  ultimately show ?thesis using io by (simp add: life_inv_def)
qed

lemma works_same [simp]:
  "S\<lparr>dev := s, bodies := B, wait_works := wait_works S\<rparr> = S\<lparr>dev := s, bodies := B\<rparr>"
  "S\<lparr>dev := s, bodies := bodies S, wait_works := W\<rparr> = S\<lparr>dev := s, wait_works := W\<rparr>"
  "S\<lparr>dev := s, bodies := bodies S\<rparr> = S\<lparr>dev := s\<rparr>"
  by (cases S; simp)+

lemma enter_inv:
  assumes inv: "life_inv S" and c: "c \<in> files S" and live: "\<not> lf_io_dying (dev S)"
  shows "life_inv (S\<lparr>dev := (dev S)\<lparr>lf_io_ref := lf_io_ref (dev S) + 1\<rparr>, bodies := add_mset c (bodies S)\<rparr>)"
proof -
  have "life_inv (S\<lparr>dev := (dev S)\<lparr>lf_io_ref := lf_io_ref (dev S) + 1\<rparr>, bodies := add_mset c (bodies S), wait_works := wait_works S\<rparr>)"
    by (rule io_step_inv [OF inv]) (use inv c live in \<open>simp_all add: life_inv_def io_inv_def\<close>)
  then show ?thesis by simp
qed

lemma finish_safe:
  assumes inv: "life_inv S" and c: "c \<in># bodies S"
  obtains s where "mxdma_device_finish (dev S) = Some s" "life_inv (S\<lparr>dev := s, bodies := bodies S - {#c#}\<rparr>)"
proof -
  obtain M where M: "bodies S = add_mset c M" using multi_member_split [OF c] by blast
  have io: "lf_io_ref (dev S) = Suc (size M) + size (wait_works S) + of_bool (\<not> lf_io_dying (dev S))"
    using inv M by (simp add: life_inv_def io_inv_def)
  have "life_inv (S\<lparr>dev := (dev S)\<lparr>lf_io_ref := lf_io_ref (dev S) - 1\<rparr>, bodies := M, wait_works := wait_works S\<rparr>)"
    by (rule io_step_inv [OF inv]) (use inv M in \<open>simp_all add: life_inv_def io_inv_def\<close>)
  with M io show ?thesis by (intro that) (simp_all add: mxdma_device_finish_def)
qed

lemma wait_get_safe:
  assumes inv: "life_inv S" and c: "c \<in># bodies S"
  obtains s where "life_wait_get (dev S) = Some s" "life_inv (S\<lparr>dev := s, wait_works := add_mset c (wait_works S)\<rparr>)"
proof -
  let ?s = "(dev S)\<lparr>lf_io_ref := lf_io_ref (dev S) + 1\<rparr>"
  note i = inv [unfolded life_inv_def]
  have f: "c \<in> files S" using i c by (auto simp: io_inv_def)
  obtain ctx where "lf_ctx (dev S) c = Some ctx" using file_ctx_allocated [OF _ f] i by blast
  then have "0 < lf_ref (dev S)" using dom_ctx_pos [of S c] i by simp
  moreover have "0 < lf_io_ref (dev S)" using i c by (auto simp: io_inv_def size_eq_Suc_imp_elem dest: multi_member_split)
  moreover have "life_inv (S\<lparr>dev := ?s, bodies := bodies S, wait_works := add_mset c (wait_works S)\<rparr>)"
    by (rule io_step_inv [OF inv]) (use inv in \<open>simp_all add: life_inv_def io_inv_def\<close>)
  ultimately show ?thesis by (intro that [of ?s]) (simp_all add: life_wait_get_def)
qed

lemma wait_put_inv:
  assumes inv: "life_inv S" and c: "c \<in># wait_works S"
  shows "0 < lf_io_ref (dev S)"
    "life_inv (S\<lparr>dev := (dev S)\<lparr>lf_io_ref := lf_io_ref (dev S) - 1\<rparr>, wait_works := wait_works S - {#c#}\<rparr>)"
proof -
  obtain M where M: "wait_works S = add_mset c M" using multi_member_split [OF c] by blast
  show "0 < lf_io_ref (dev S)" using inv M by (simp add: life_inv_def io_inv_def)
  have "life_inv (S\<lparr>dev := (dev S)\<lparr>lf_io_ref := lf_io_ref (dev S) - 1\<rparr>, bodies := bodies S, wait_works := M\<rparr>)"
    by (rule io_step_inv [OF inv]) (use inv M in \<open>simp_all add: life_inv_def io_inv_def\<close>)
  then show "life_inv (S\<lparr>dev := (dev S)\<lparr>lf_io_ref := lf_io_ref (dev S) - 1\<rparr>, wait_works := wait_works S - {#c#}\<rparr>)"
    using M by simp
qed

lemma online_offline_inv:
  assumes inv: "life_inv S"
  shows "\<not> lf_io_dying (dev S) \<Longrightarrow> life_inv (S\<lparr>dev := mxdma_device_online (dev S)\<rparr>)"
    "life_inv (S\<lparr>dev := mxdma_device_offline (dev S)\<rparr>)"
proof -
  have "life_inv (S\<lparr>dev := mxdma_device_online (dev S), bodies := bodies S, wait_works := wait_works S\<rparr>)" if "\<not> lf_io_dying (dev S)"
    by (rule io_step_inv [OF inv])
      (use inv that in \<open>simp_all add: life_inv_def io_inv_def mxdma_device_online_def\<close>)
  moreover have "life_inv (S\<lparr>dev := mxdma_device_offline (dev S), bodies := bodies S, wait_works := wait_works S\<rparr>)"
    by (rule io_step_inv [OF inv])
      (use inv in \<open>simp_all add: life_inv_def io_inv_def mxdma_device_offline_def Let_def\<close>)
  ultimately show "\<not> lf_io_dying (dev S) \<Longrightarrow> life_inv (S\<lparr>dev := mxdma_device_online (dev S)\<rparr>)"
    "life_inv (S\<lparr>dev := mxdma_device_offline (dev S)\<rparr>)" by simp_all
qed

lemma bar_map_put_safe:
  assumes inv: "life_inv S" and p: "0 < putting S"
  obtains s where "mx_bar_map_put (dev S) = Some s" "life_inv (S\<lparr>dev := s, putting := putting S - 1\<rparr>)"
proof -
  note i = inv [unfolded life_inv_def]
  let ?s = "(dev S)\<lparr>lf_bar_kref := lf_bar_kref (dev S) - 1\<rparr>" let ?S = "S\<lparr>dev := ?s, putting := putting S - 1\<rparr>"
  have "vma_inv ?S" by (rule vma_inv_cong [of S]) (use i in simp_all)
  moreover have "ctx_inv ?S" by (rule ctx_inv_cong [of S]) (use i in simp_all)
  moreover have "ref_inv ?S" using i p by (simp add: ref_inv_def dev_users_def)
  moreover have "io_inv ?S" by (rule io_inv_cong [of S]) (use i in simp_all)
  moreover have "0 < lf_bar_kref (dev S)" using bar_kref_pos [OF inv] p by simp
  ultimately show ?thesis by (intro that [of ?s]) (simp_all add: life_inv_def mx_bar_map_put_def)
qed

lemma lease_call_inv:
  assumes inv: "life_inv S" and ctx: "lf_ctx (dev S) c = Some ctx" and k: "keeps_counts ctx ctx'"
  shows "life_inv (S\<lparr>dev := (dev S)\<lparr>lf_lease := l, lf_ctx := (lf_ctx (dev S))(c := Some ctx')\<rparr>\<rparr>)" (is "life_inv ?S")
proof -
  note i = inv [unfolded life_inv_def]
  have ci: "ctx_inv S" using i by simp
  have "0 < ctx_users S c" using ctx_invD(2) [OF ci, of c] ctx by simp
  then have "ctx_inv ?S"
    by (intro ctx_inv_update [OF ci, of _ c ctx'])
      (use ctx_invD [OF ci] ctx k in \<open>simp_all add: ctx_users_def keeps_counts_def\<close>)
  moreover have "vma_inv ?S" by (rule vma_inv_cong [of S]) (use i in simp_all)
  moreover have "ref_inv ?S" using i ctx by (simp add: ref_inv_def dev_users_def insert_absorb domI)
  moreover have "io_inv ?S" by (rule io_inv_cong [of S]) (use i in simp_all)
  ultimately show ?thesis by (simp add: life_inv_def)
qed

lemma lease_only_inv:
  assumes inv: "life_inv S"
  shows "life_inv (S\<lparr>dev := (dev S)\<lparr>lf_lease := l\<rparr>\<rparr>)" (is "life_inv ?S")
proof -
  note i = inv [unfolded life_inv_def]
  have "vma_inv ?S" by (rule vma_inv_cong [of S]) (use i in simp_all)
  moreover have "ctx_inv ?S" by (rule ctx_inv_cong [of S]) (use i in simp_all)
  moreover have "ref_inv ?S" by (rule ref_inv_cong [of S]) (use i in simp_all)
  moreover have "io_inv ?S" by (rule io_inv_cong [of S]) (use i in simp_all)
  ultimately show ?thesis by (simp add: life_inv_def)
qed

lemma bar_fields_inv:
  assumes inv: "life_inv S"
    and v: "vma_inv (S\<lparr>dev := (dev S)\<lparr>lf_regs := regs, lf_mapping := m\<rparr>, ptes := p\<rparr>)"
  shows "life_inv (S\<lparr>dev := (dev S)\<lparr>lf_regs := regs, lf_mapping := m\<rparr>, ptes := p\<rparr>)" (is "life_inv ?S")
proof -
  note i = inv [unfolded life_inv_def]
  have "ctx_inv ?S" by (rule ctx_inv_cong [of S]) (use i in simp_all)
  moreover have "ref_inv ?S" by (rule ref_inv_cong [of S]) (use i in simp_all)
  moreover have "io_inv ?S" by (rule io_inv_cong [of S]) (use i in simp_all)
  ultimately show ?thesis using v by (simp add: life_inv_def)
qed

lemma bar_fields_same [simp]:
  "s\<lparr>lf_regs := r, lf_mapping := lf_mapping s\<rparr> = s\<lparr>lf_regs := r\<rparr>"
  "s\<lparr>lf_regs := lf_regs s, lf_mapping := m\<rparr> = s\<lparr>lf_mapping := m\<rparr>"
  by (cases s; simp)+

lemma regs_inv:
  assumes inv: "life_inv S" and c: "bar_map_count regs = bar_map_count (lf_regs (dev S))"
    and nm: "vmas S \<noteq> {#} \<Longrightarrow> sq_mbox_list regs = sq_mbox_list (lf_regs (dev S)) \<or> (\<forall>q < 80. sq_mbox_list regs q = None)"
  shows "life_inv (S\<lparr>dev := (dev S)\<lparr>lf_regs := regs\<rparr>\<rparr>)"
proof -
  have vi: "vma_inv S" using inv by (simp add: life_inv_def)
  have "vma_inv (S\<lparr>dev := (dev S)\<lparr>lf_regs := regs, lf_mapping := lf_mapping (dev S)\<rparr>, ptes := ptes S\<rparr>)"
    by (rule vma_invI) (use vma_invD [OF vi] c nm in \<open>auto simp: no_mbox_def\<close>)
  from bar_fields_inv [OF inv this] show ?thesis by simp
qed

lemma publish_inv:
  assumes inv: "life_inv S" and p: "ioctl_register_mbox_publish (lf_regs (dev S)) info sq cq = (r, regs)"
  shows "life_inv (S\<lparr>dev := (dev S)\<lparr>lf_regs := regs\<rparr>\<rparr>)"
proof (rule regs_inv [OF inv])
  have vi: "vma_inv S" using inv by (simp add: life_inv_def)
  show "bar_map_count regs = bar_map_count (lf_regs (dev S))"
    using p by (auto simp: ioctl_register_mbox_publish_def split: sum.split_asm option.split_asm)
  assume "vmas S \<noteq> {#}"
  then have "bar_map_count (lf_regs (dev S)) \<noteq> 0"
    using vma_invD(6) [OF vi] by (metis size_eq_0_iff_empty unat_0)
  then show "sq_mbox_list regs = sq_mbox_list (lf_regs (dev S)) \<or> (\<forall>q < 80. sq_mbox_list regs q = None)"
    using p by (auto simp: ioctl_register_mbox_publish_def register_recheck_def split: sum.split_asm option.split_asm)
qed

lemma revoke_inv:
  assumes inv: "life_inv S" and u: "mxdma_unmap_all_bar_vmas (dev S) = (called, s)"
  shows "life_inv (S\<lparr>dev := s, ptes := (ptes S \<and> \<not> called)\<rparr>)" "lf_mapping s = None"
    "\<not> (ptes S \<and> \<not> called)"
proof -
  have vi: "vma_inv S" using inv by (simp add: life_inv_def)
  show "lf_mapping s = None" "\<not> (ptes S \<and> \<not> called)" using u vma_invD(8) [OF vi]
    by (auto simp: mxdma_unmap_all_bar_vmas_def split: if_split_asm)
  have "vma_inv (S\<lparr>dev := (dev S)\<lparr>lf_regs := lf_regs (dev S), lf_mapping := None\<rparr>, ptes := False\<rparr>)"
    by (rule vma_invI) (use vma_invD [OF vi] in \<open>auto simp: no_mbox_def\<close>)
  from bar_fields_inv [OF inv this] have "life_inv (S\<lparr>dev := (dev S)\<lparr>lf_mapping := None\<rparr>, ptes := False\<rparr>)" by simp
  moreover have "dev S = (dev S)\<lparr>lf_mapping := None\<rparr>" if "lf_mapping (dev S) = None" using that by (cases "dev S") simp
  ultimately show "life_inv (S\<lparr>dev := s, ptes := (ptes S \<and> \<not> called)\<rparr>)"
    using u inv vma_invD(8) [OF vi] by (auto simp: mxdma_unmap_all_bar_vmas_def split: if_split_asm)
qed

section \<open>Every reachable system\<close>

theorem life_reachable_inv: "life_reachable S \<Longrightarrow> life_inv S"
proof (induction rule: life_reachable.induct)
  case (init w sz hio n)
  show ?case by (rule life_init_inv)
next
  case (opened S c m i s)
  obtain r s' where "mxdma_device_open (dev S) m i (Some c) = Some (r, s')"
    "life_inv (S\<lparr>dev := s', files := (case (r, Some c) of (Inr _, Some c) \<Rightarrow> insert c (files S) | _ \<Rightarrow> files S)\<rparr>)"
    by (rule open_safe [OF opened.IH opened.hyps(2), of "Some c" m i]) (use opened.hyps in auto)
  with opened.hyps show ?case by simp
next
  case (open_refused S new m i e s)
  have nf: "c \<notin> files S" if "lf_ctx (dev S) c = None" for c
    using file_ctx_allocated [of S c] open_refused.IH that by (auto simp: life_inv_def)
  obtain r s' where "mxdma_device_open (dev S) m i new = Some (r, s')"
    "life_inv (S\<lparr>dev := s', files := (case (r, new) of (Inr _, Some c) \<Rightarrow> insert c (files S) | _ \<Rightarrow> files S)\<rparr>)"
    by (rule open_safe [OF open_refused.IH open_refused.hyps(2), of new m i]) (use open_refused.hyps nf in auto)
  with open_refused.hyps show ?case by simp
next
  case (released S c s)
  from release_safe [OF released.IH released.hyps(2,3)] released.hyps(4) show ?case by fastforce
next
  case (entered S c m s)
  from prepare_safe [OF entered.IH entered.hyps(2), of m] entered.hyps(3) enter_inv [OF entered.IH entered.hyps(2)]
  show ?case by fastforce
next
  case (left S c s)
  from finish_safe [OF left.IH left.hyps(2)] left.hyps(3) show ?case by fastforce
next
  case (lease_call S c ctx ctx' l)
  from lease_call_inv [OF lease_call.IH lease_call.hyps(3,4)] show ?case .
next
  case (mapped S c b vma remap s)
  from mmap_safe [OF mapped.IH mapped.hyps(2,4), of "Some b" vma remap] mapped.hyps(3,5) show ?case by fastforce
next
  case (forked S b s)
  from vma_open_safe [OF forked.IH forked.hyps(2,3)] forked.hyps(4) show ?case by fastforce
next
  case (closed S b final s)
  show ?case
    by (rule close_locked_safe [OF closed.IH closed.hyps(2)]) (use closed.hyps(3) in simp)
next
  case (mapper_released S b s)
  from close_last_safe [OF mapper_released.IH mapper_released.hyps(2)] mapper_released.hyps(3) show ?case by fastforce
next
  case (bar_map_dropped S s)
  from bar_map_put_safe [OF bar_map_dropped.IH bar_map_dropped.hyps(2)] bar_map_dropped.hyps(3) show ?case by fastforce
next
  case (issued S c p s)
  from transfer_get_safe [OF issued.IH issued.hyps(2)] issued.hyps(3) show ?case by fastforce
next
  case (retired S c s)
  from transfer_put_safe [OF retired.IH retired.hyps(2)] retired.hyps(3) show ?case by fastforce
next
  case (left_to_work S c s)
  from wait_get_safe [OF left_to_work.IH left_to_work.hyps(2)] left_to_work.hyps(4) show ?case by fastforce
next
  case (work_ended S c s)
  from wait_put_inv [OF work_ended.IH work_ended.hyps(2)] work_ended.hyps(3) show ?case
    by (auto simp: life_wait_put_def split: if_split_asm)
next
  case (registered S c info sq cq r regs)
  from publish_inv [OF registered.IH registered.hyps(3)] show ?case .
next
  case (mboxes_freed S)
  show ?case by (rule regs_inv [OF mboxes_freed.IH]) (simp_all add: mx_free_registered_mboxes_def)
next
  case (online S)
  from online_offline_inv(1) [OF online.IH online.hyps(3)] show ?case .
next
  case (removal S)
  from lease_only_inv [OF removal.IH] show ?case .
next
  case (offline S)
  from online_offline_inv(2) [OF offline.IH] show ?case .
next
  case (revoked S called s)
  from revoke_inv(1) [OF revoked.IH revoked.hyps(3)] show ?case .
next
  case (base_dropped S s)
  from pdev_put_inv [OF base_dropped.IH base_dropped.hyps(2)] base_dropped.hyps(4) show ?case by fastforce
qed

text \<open>Which operations leave \<open>io_ref\<close> alone.\<close>

lemma io_ref_put [simp]: "mx_pdev_put s = Some s' \<Longrightarrow> lf_io_ref s' = lf_io_ref s"
  by (auto simp: mx_pdev_put_def mx_pdev_free_def mx_bar_map_put_def Let_def split: if_split_asm option.split_asm)

lemma io_ref_ctx_put [simp]: "mx_file_ctx_put s c = Some s' \<Longrightarrow> lf_io_ref s' = lf_io_ref s"
  by (auto simp: mx_file_ctx_put_def Let_def split: if_split_asm option.split_asm prod.split_asm dest!: io_ref_put)

lemma io_ref_steps:
  "mxdma_device_open s m i new = Some (r, s') \<Longrightarrow> lf_io_ref s' = lf_io_ref s"
  "mxdma_device_release s p = Some (r, s') \<Longrightarrow> lf_io_ref s' = lf_io_ref s"
  "mx_bar_mmap s c vma n remap = Some (r, s') \<Longrightarrow> lf_io_ref s' = lf_io_ref s"
  "mx_bar_vma_open s b = Some s' \<Longrightarrow> lf_io_ref s' = lf_io_ref s"
  "bar_vma_close_locked s b = Some (final, s') \<Longrightarrow> lf_io_ref s' = lf_io_ref s"
  "bar_vma_close_last s b = Some s' \<Longrightarrow> lf_io_ref s' = lf_io_ref s"
  "mx_bar_map_put s = Some s' \<Longrightarrow> lf_io_ref s' = lf_io_ref s"
  "life_transfer_get s c = Some (rp, s') \<Longrightarrow> lf_io_ref s' = lf_io_ref s"
  "life_transfer_put s c = Some s' \<Longrightarrow> lf_io_ref s' = lf_io_ref s"
  "mxdma_unmap_all_bar_vmas s = (called, s') \<Longrightarrow> lf_io_ref s' = lf_io_ref s"
proof -
  show "mxdma_device_open s m i new = Some (r, s') \<Longrightarrow> lf_io_ref s' = lf_io_ref s"
    by (auto simp: mxdma_device_open_def mx_pdev_get_live_def Let_def split: if_split_asm option.split_asm prod.split_asm bool.split_asm
        dest!: io_ref_put)
  show "mxdma_device_release s p = Some (r, s') \<Longrightarrow> lf_io_ref s' = lf_io_ref s"
    by (auto simp: mxdma_device_release_def split: option.split_asm)
  show "mx_bar_mmap s c vma n remap = Some (r, s') \<Longrightarrow> lf_io_ref s' = lf_io_ref s"
    by (auto simp: mx_bar_mmap_def bar_mmap_commit_def split: option.split_asm sum.split_asm if_split_asm)
  show "bar_vma_close_last s b = Some s' \<Longrightarrow> lf_io_ref s' = lf_io_ref s"
    by (auto simp: bar_vma_close_last_def Let_def split: option.split_asm if_split_asm dest!: io_ref_ctx_put io_ref_put)
  show "life_transfer_put s c = Some s' \<Longrightarrow> lf_io_ref s' = lf_io_ref s"
    by (auto simp: life_transfer_put_def split: option.split_asm if_split_asm dest!: io_ref_ctx_put)
  show "life_transfer_get s c = Some (rp, s') \<Longrightarrow> lf_io_ref s' = lf_io_ref s"
    by (auto simp: life_transfer_get_def mx_file_ctx_get_def split: option.split_asm if_split_asm prod.split_asm sum.split_asm)
qed (auto simp: mx_bar_vma_open_def bar_vma_close_locked_def mx_bar_map_put_def mxdma_unmap_all_bar_vmas_def Let_def
    split: option.split_asm if_split_asm)

text \<open>While anything holds \<open>io_ref\<close>, probe or a character device still holds the device.\<close>

lemma io_ref_base: "life_reachable S \<Longrightarrow> 0 < lf_io_ref (dev S) \<Longrightarrow> 0 < base S"
proof (induction rule: life_reachable.induct)
  case (entered S c m s)
  then have "0 < lf_io_ref (dev S)"
    using life_reachable_inv [OF entered.hyps(1)]
    by (auto simp: mxdma_device_prepare_def life_inv_def io_inv_def split: option.split_asm if_split_asm)
  then show ?case using entered.IH by simp
next
  case (base_dropped S s)
  then show ?case by auto
qed (auto simp: life_init_def mxdma_device_finish_def life_wait_get_def life_wait_put_def mxdma_device_online_def
    mxdma_device_offline_def Let_def io_ref_steps split: if_split_asm)

lemma wait_put_safe:
  assumes "life_reachable S" "c \<in># wait_works S"
  shows "life_wait_put (dev S) \<noteq> None"
proof -
  note inv = life_reachable_inv [OF assms(1)]
  have io: "0 < lf_io_ref (dev S)" by (rule wait_put_inv(1) [OF inv assms(2)])
  then have "0 < base S" by (rule io_ref_base [OF assms(1)])
  then have "0 < lf_ref (dev S)" using inv by (simp add: life_inv_def ref_inv_def dev_users_def)
  with io show ?thesis by (simp add: life_wait_put_def)
qed

end
