(* ===== verification/Lease_Proofs.thy ===== *)
theory Lease_Proofs
  imports Lease_Ctl
begin

text \<open>
  Reclamation proofs (\<open>lease.c\<close>): a workload binds the open file descriptions whose release tells
  the fencer that its memory may be reassigned. Every handler returns the list of file
  references it drops, so that the accounting of \<open>fget\<close>, clone and \<open>fput\<close> is part of the model.
\<close>

section \<open>Slot locks\<close>

definition mx_lease_slot_identity_held :: "vfs \<Rightarrow> kfile \<Rightarrow> u32 \<Rightarrow> unit result" where
  "mx_lease_slot_identity_held v slot_file slot =
     (let offset = uint (MX_LEASE_SLOT_IDENTITY_OFFSET slot) in
      case vfs_test_lock v slot_file F_WRLCK offset offset of
        Inl e \<Rightarrow> Inl e
      | Inr t \<Rightarrow>
          if t \<noteq> F_UNLCK then Inl EPERM
          else (case file_clone_open v slot_file of
                  Inl e \<Rightarrow> Inl e
                | Inr clone \<Rightarrow>
                    if i_addr (f_inode clone) \<noteq> i_addr (f_inode slot_file) then Inl ESTALE
                    else (case vfs_test_lock v clone F_WRLCK offset offset of
                            Inl e \<Rightarrow> Inl e
                          | Inr t \<Rightarrow> if t = F_UNLCK then Inl EPERM else OK)))"

definition mx_lease_pin_slot_ofd_lock :: "vfs \<Rightarrow> kfile \<Rightarrow> u32 \<Rightarrow> kfile result" where
  "mx_lease_pin_slot_ofd_lock v source slot =
     (let offset = uint (MX_LEASE_SLOT_LIVENESS_OFFSET slot) in
      mx_lease_clone_with_ofd_lock v source F_RDLCK offset offset)"

section \<open>Validation\<close>

definition mx_lease_valid_slot_proof :: "kfile option \<Rightarrow> u32 \<Rightarrow> bool \<Rightarrow> bool" where
  "mx_lease_valid_slot_proof file slot allow_zero =
     (case file of
        None \<Rightarrow> False
      | Some f \<Rightarrow>
          \<not> (\<not> allow_zero \<and> slot = 0) \<and> slot \<le> MX_LEASE_MAX_SLOT \<and> f_read f \<and> f_write f \<and>
          f_pos f = MX_LEASE_SLOT_MARKER_BASE + uint slot \<and>
          i_fmt (f_inode f) = S_IFREG \<and> i_magic (f_inode f) = TMPFS_MAGIC)"

definition mx_lease_valid_lifetime_proof :: "kfile option \<Rightarrow> bool" where
  "mx_lease_valid_lifetime_proof file =
     (case file of
        None \<Rightarrow> False
      | Some f \<Rightarrow> f_write f \<and> i_fmt (f_inode f) = S_IFIFO \<and> i_magic (f_inode f) = PIPEFS_MAGIC)"

definition mx_lease_valid_workload_ofd :: "kfile option \<Rightarrow> u32 \<Rightarrow> bool" where
  "mx_lease_valid_workload_ofd file slot =
     (case file of
        None \<Rightarrow> False
      | Some f \<Rightarrow>
          slot \<le> MX_LEASE_MAX_WORKLOAD_SLOT \<and> f_read f \<and> f_write f \<and>
          f_pos f = MX_LEASE_WORKLOAD_MARKER_BASE + uint slot \<and>
          i_fmt (f_inode f) = S_IFREG \<and> i_magic (f_inode f) = TMPFS_MAGIC)"

definition mx_lease_proof_request_matches :: "mx_device_lease \<Rightarrow> mx_lease_proofs_req \<Rightarrow> bool" where
  "mx_lease_proof_request_matches lease req =
     (\<not> lease_removed lease \<and> prf_expected_incarnation req \<noteq> 0 \<and>
      prf_expected_incarnation req = device_incarnation lease \<and>
      prf_expected_generation req \<noteq> 0 \<and> prf_expected_generation req = lease_generation lease \<and>
      prf_identity req = state_identity lease \<and> prf_identity req \<noteq> (0, 0) \<and> state_path_valid lease)"

section \<open>Binding\<close>

definition lifetime_ofd :: "mx_lease_proofs_req \<Rightarrow> bool" where
  "lifetime_ofd req = (prf_reserved0 req \<noteq> 0)"

definition lifetime_slot :: "mx_lease_proofs_req \<Rightarrow> u32" where
  "lifetime_slot req = ucast (prf_reserved0 req AND ucast MX_LEASE_MAX_WORKLOAD_SLOT)"

text \<open>Before the lock: the descriptors named by the request are fetched and validated. The files
  fetched so far are returned on the error branches too, since they have to be dropped.\<close>

definition bind_open ::
  "mx_file_ctx \<Rightarrow> mx_lease_proofs_req \<Rightarrow> (int \<Rightarrow> kfile option) \<Rightarrow>
     unit result \<times> kfile option \<times> kfile option" where
  "bind_open ctx req fget =
     (let p = h_profile (ctx_lease ctx) in
      if p = MX_LEASE_PROFILE_HUB_WORKLOAD \<or> p = MX_LEASE_PROFILE_COORDINATOR_CONTROL then
        (let control = (p = MX_LEASE_PROFILE_COORDINATOR_CONTROL) in
         if control \<and> prf_lifetime_fd req \<noteq> - 1 then (Inl EINVAL, None, None)
         else
           let slot_file = fget (prf_slot_fd req) in
           if \<not> mx_lease_valid_slot_proof slot_file (prf_slot req) control
           then (Inl EINVAL, slot_file, None)
           else if 0 \<le> prf_lifetime_fd req then
             (let lifetime_file = fget (prf_lifetime_fd req) in
              if \<not> mx_lease_valid_lifetime_proof lifetime_file then (Inl EINVAL, slot_file, lifetime_file)
              else (OK, slot_file, lifetime_file))
           else (OK, slot_file, None))
      else if p = MX_LEASE_PROFILE_STANDALONE_WORKLOAD \<or> p = MX_LEASE_PROFILE_COORDINATOR_WORKLOAD then
        (if prf_slot_fd req \<noteq> - 1 \<or> prf_slot req \<noteq> 0 then (Inl EINVAL, None, None)
         else
           let lifetime_file = fget (prf_lifetime_fd req) in
           if (if lifetime_ofd req then \<not> mx_lease_valid_workload_ofd lifetime_file (lifetime_slot req)
               else \<not> mx_lease_valid_lifetime_proof lifetime_file)
           then (Inl EINVAL, None, lifetime_file)
           else (OK, None, lifetime_file))
      else (Inl EPERM, None, None))"

definition same_binding :: "mx_file_ctx \<Rightarrow> mx_lease_proofs_req \<Rightarrow> kfile option \<Rightarrow> kfile option \<Rightarrow> bool" where
  "same_binding ctx req slot_file lifetime_file =
     (slot_source_file ctx = map_option f_addr slot_file \<and>
      (if lifetime_ofd req then lifetime_source_file ctx else lifetime_proof_file ctx) =
        map_option f_addr lifetime_file \<and>
      proof_slot ctx = prf_slot req \<and> proof_lifetime_tag ctx = prf_reserved0 req)"

text \<open>The refusals of the first lock section before any lock is pinned.\<close>

definition bind_check ::
  "mx_device_lease \<Rightarrow> mx_file_ctx \<Rightarrow> mx_lease_proofs_req \<Rightarrow> kfile option \<Rightarrow> kfile option \<Rightarrow> unit result" where
  "bind_check lease ctx req slot_file lifetime_file =
     (if \<not> mx_lease_proof_request_matches lease req
      then Inl (if lease_removed lease then ENODEV else ESTALE)
      else if h_phase (ctx_lease ctx) \<noteq> MX_LEASE_PHASE_WORKLOAD then Inl EACCES
      else if direct_count ctx \<noteq> 0 \<or> transfer_count ctx \<noteq> 0 then Inl EBUSY
      else if (slot_source_file ctx \<noteq> None \<or> slot_proof_file ctx \<noteq> None \<or> lifetime_proof_file ctx \<noteq> None) \<and>
              \<not> same_binding ctx req slot_file lifetime_file
      then Inl EALREADY
      else if \<not> same_binding ctx req slot_file lifetime_file \<and> slot_file \<noteq> None then
        (if \<not> slot_domain_path_valid lease \<or> slot_domain_inode lease = None then Inl EUCLEAN
         else if map_option (i_addr \<circ> f_inode) slot_file \<noteq> map_option i_addr (slot_domain_inode lease)
         then Inl EXDEV
         else OK)
      else OK)"

text \<open>Pinning the kernel's own read locks; a lock already pinned is returned on a later failure.\<close>

definition pin_slot ::
  "vfs \<Rightarrow> mx_file_ctx \<Rightarrow> mx_lease_proofs_req \<Rightarrow> kfile option \<Rightarrow> kfile option \<Rightarrow> kfile option result" where
  "pin_slot v ctx req slot_file lifetime_file =
     (if \<not> same_binding ctx req slot_file lifetime_file then
        (case slot_file of
           None \<Rightarrow> Inr None
         | Some f \<Rightarrow>
             (case mx_lease_slot_identity_held v f (prf_slot req) of
                Inl e \<Rightarrow> Inl e
              | Inr _ \<Rightarrow> map_sum id Some (mx_lease_pin_slot_ofd_lock v f (prf_slot req))))
      else Inr None)"

definition pin_lifetime ::
  "vfs \<Rightarrow> mx_device_lease \<Rightarrow> mx_file_ctx \<Rightarrow> mx_lease_proofs_req \<Rightarrow> kfile option \<Rightarrow> kfile option \<Rightarrow>
     kfile option result" where
  "pin_lifetime v lease ctx req slot_file lifetime_file =
     (if lifetime_ofd req then
        (if map_option (i_addr \<circ> f_inode) lifetime_file \<noteq> map_option i_addr (state_inode lease) then Inl EXDEV
         else if \<not> same_binding ctx req slot_file lifetime_file then
           (case lifetime_file of
              None \<Rightarrow> Inr None
            | Some f \<Rightarrow>
                let offset = uint (MX_LEASE_WORKLOAD_LIVENESS_OFFSET (lifetime_slot req)) in
                map_sum id Some (mx_lease_clone_with_ofd_lock v f F_RDLCK offset offset))
         else Inr None)
      else Inr None)"

definition bind_reply ::
  "mx_device_lease \<Rightarrow> mx_file_ctx \<Rightarrow> mx_lease_proofs_req \<Rightarrow> kfile option \<Rightarrow> kfile option \<Rightarrow> mx_lease_proofs_req" where
  "bind_reply lease ctx req slot_file lifetime_file =
     req\<lparr>prf_grants := mx_lease_holder_grants lease ctx (state_path_valid lease) OR
           (if slot_file \<noteq> None then MX_LEASE_GRANT_SLOT_PROOF_BOUND else 0) OR
           (if lifetime_file \<noteq> None then MX_LEASE_GRANT_LIFETIME_PROOF_BOUND else 0),
         prf_slot_dev := inode_dev (map_option f_inode slot_file),
         prf_slot_ino := inode_ino (map_option f_inode slot_file),
         prf_lifetime_dev := inode_dev (map_option f_inode lifetime_file),
         prf_lifetime_ino := inode_ino (map_option f_inode lifetime_file)\<rparr>"

definition bind_commit ::
  "mx_file_ctx \<Rightarrow> mx_lease_proofs_req \<Rightarrow> kfile option \<Rightarrow> kfile option \<Rightarrow> kfile option \<Rightarrow> kfile option \<Rightarrow> mx_file_ctx" where
  "bind_commit ctx req slot_file slot_lock lifetime_file lifetime_lock =
     ctx\<lparr>slot_source_file := map_option f_addr slot_file,
         slot_proof_file := map_option f_addr slot_lock,
         lifetime_source_file := (if lifetime_ofd req then map_option f_addr lifetime_file else None),
         lifetime_proof_file := map_option f_addr (if lifetime_ofd req then lifetime_lock else lifetime_file),
         proof_lifetime_tag := prf_reserved0 req,
         proof_slot := prf_slot req,
         proofs_ever_bound := True\<rparr>"

text \<open>The first lock section: the answer and whether the files were committed, with the pinned locks.\<close>

definition bind_locked ::
  "vfs \<Rightarrow> mx_device_lease \<Rightarrow> mx_file_ctx \<Rightarrow> mx_lease_proofs_req \<Rightarrow> kfile option \<Rightarrow> kfile option \<Rightarrow>
     (mx_lease_proofs_req \<times> bool) result \<times> mx_file_ctx \<times> kfile option \<times> kfile option" where
  "bind_locked v lease ctx req slot_file lifetime_file =
     (case bind_check lease ctx req slot_file lifetime_file of
        Inl e \<Rightarrow> (Inl e, ctx, None, None)
      | Inr _ \<Rightarrow>
          (case pin_slot v ctx req slot_file lifetime_file of
             Inl e \<Rightarrow> (Inl e, ctx, None, None)
           | Inr slot_lock \<Rightarrow>
               (case pin_lifetime v lease ctx req slot_file lifetime_file of
                  Inl e \<Rightarrow> (Inl e, ctx, slot_lock, None)
                | Inr lifetime_lock \<Rightarrow>
                    let out = bind_reply lease ctx req slot_file lifetime_file in
                    if same_binding ctx req slot_file lifetime_file
                    then (Inr (out, False), ctx, slot_lock, lifetime_lock)
                    else (Inr (out, True),
                          bind_commit ctx req slot_file slot_lock lifetime_file lifetime_lock,
                          slot_lock, lifetime_lock))))"

text \<open>The second lock section, after a fault: whether the files are this call's to drop again.\<close>

definition bind_undo ::
  "mx_file_ctx \<Rightarrow> mx_lease_proofs_req \<Rightarrow> kfile option \<Rightarrow> kfile option \<Rightarrow> kfile option \<Rightarrow> kfile option \<Rightarrow>
     bool \<times> mx_file_ctx" where
  "bind_undo ctx req slot_file slot_lock lifetime_file lifetime_lock =
     (if slot_source_file ctx = map_option f_addr slot_file \<and>
         slot_proof_file ctx = map_option f_addr slot_lock \<and>
         lifetime_source_file ctx = (if lifetime_ofd req then map_option f_addr lifetime_file else None) \<and>
         lifetime_proof_file ctx = map_option f_addr (if lifetime_ofd req then lifetime_lock else lifetime_file)
      then (True, ctx\<lparr>slot_source_file := None, slot_proof_file := None, lifetime_source_file := None,
                      lifetime_proof_file := None, proof_lifetime_tag := 0, proof_slot := 0\<rparr>)
      else (False, ctx))"

text \<open>The references dropped at \<open>out_files\<close>.\<close>

definition put_files :: "kfile option list \<Rightarrow> nat list" where
  "put_files fs = map f_addr (List.map_filter id fs)"

definition mx_lease_bind_proofs ::
  "vfs \<Rightarrow> mx_device_lease \<Rightarrow> mx_file_ctx \<Rightarrow> mx_lease_proofs_req \<Rightarrow> (int \<Rightarrow> kfile option) \<Rightarrow> bool \<Rightarrow>
     (mx_file_ctx \<Rightarrow> mx_file_ctx) \<Rightarrow> mx_lease_proofs_req result \<times> mx_file_ctx \<times> nat list" where
  "mx_lease_bind_proofs v lease ctx req fget copy_out_ok mid =
     (case bind_open ctx req fget of
        (Inl e, slot_file, lifetime_file) \<Rightarrow> (Inl e, ctx, put_files [slot_file, lifetime_file])
      | (Inr _, slot_file, lifetime_file) \<Rightarrow>
          (case bind_locked v lease ctx req slot_file lifetime_file of
             (r, ctx1, slot_lock, lifetime_lock) \<Rightarrow>
               let puts = put_files [slot_file, slot_lock, lifetime_file, lifetime_lock] in
               (case r of
                  Inl e \<Rightarrow> (Inl e, ctx1, puts)
                | Inr (out, committed) \<Rightarrow>
                    if copy_out_ok then (Inr out, ctx1, if committed then [] else puts)
                    else if committed then
                      (case bind_undo (mid ctx1) req slot_file slot_lock lifetime_file lifetime_lock of
                         (ours, ctx2) \<Rightarrow> (Inl EFAULT, ctx2, if ours then puts else []))
                    else (Inl EFAULT, mid ctx1, puts))))"

section \<open>Unbinding\<close>

definition unbind_check :: "mx_device_lease \<Rightarrow> mx_file_ctx \<Rightarrow> mx_lease_proofs_req \<Rightarrow> unit result" where
  "unbind_check lease ctx req =
     (let p = h_profile (ctx_lease ctx) in
      if \<not> mx_lease_proof_request_matches lease req
      then Inl (if lease_removed lease then ENODEV else ESTALE)
      else if p \<noteq> MX_LEASE_PROFILE_HUB_WORKLOAD \<and> p \<noteq> MX_LEASE_PROFILE_STANDALONE_WORKLOAD \<and>
              p \<noteq> MX_LEASE_PROFILE_COORDINATOR_CONTROL \<and> p \<noteq> MX_LEASE_PROFILE_COORDINATOR_WORKLOAD
      then Inl EPERM
      else if slot_proof_file ctx \<noteq> None \<and> prf_slot req \<noteq> proof_slot ctx then Inl ESTALE
      else if slot_proof_file ctx = None \<and> prf_slot req \<noteq> 0 then Inl EINVAL
      else if prf_reserved0 req \<noteq> proof_lifetime_tag ctx then Inl ESTALE
      else if bar_mapping_count ctx \<noteq> 0 \<or> direct_count ctx \<noteq> 0 then Inl EBUSY
      else OK)"

definition unbound :: "mx_file_ctx \<Rightarrow> mx_file_ctx" where
  "unbound ctx = ctx\<lparr>slot_source_file := None, slot_proof_file := None, lifetime_proof_file := None,
     lifetime_source_file := None, proof_lifetime_tag := 0, proof_slot := 0\<rparr>"

text \<open>The second lock section puts the files of \<open>old\<close> back while the context is still unbound.\<close>

definition unbind_undo :: "mx_file_ctx \<Rightarrow> mx_file_ctx \<Rightarrow> bool \<times> mx_file_ctx" where
  "unbind_undo ctx old =
     (if slot_source_file ctx = None \<and> slot_proof_file ctx = None \<and> lifetime_proof_file ctx = None \<and>
         lifetime_source_file ctx = None
      then (True, ctx\<lparr>slot_source_file := slot_source_file old, slot_proof_file := slot_proof_file old,
              lifetime_proof_file := lifetime_proof_file old, lifetime_source_file := lifetime_source_file old,
              proof_lifetime_tag := proof_lifetime_tag old, proof_slot := proof_slot old\<rparr>)
      else (False, ctx))"

text \<open>The file references a context holds.\<close>

definition ctx_files :: "mx_file_ctx \<Rightarrow> nat list" where
  "ctx_files ctx = List.map_filter id
     [slot_source_file ctx, slot_proof_file ctx, lifetime_proof_file ctx, lifetime_source_file ctx]"

definition mx_lease_unbind_proofs ::
  "mx_device_lease \<Rightarrow> mx_file_ctx \<Rightarrow> mx_lease_proofs_req \<Rightarrow> bool \<Rightarrow> (mx_file_ctx \<Rightarrow> mx_file_ctx) \<Rightarrow>
     mx_lease_proofs_req result \<times> mx_file_ctx \<times> nat list" where
  "mx_lease_unbind_proofs lease ctx req copy_out_ok mid =
     (if prf_slot_fd req \<noteq> - 1 \<or> prf_lifetime_fd req \<noteq> - 1 then (Inl EINVAL, ctx, [])
      else case unbind_check lease ctx req of
             Inl e \<Rightarrow> (Inl e, ctx, [])
           | Inr _ \<Rightarrow>
               let out = req\<lparr>prf_grants := mx_lease_holder_grants lease ctx (state_path_valid lease) AND
                       NOT (MX_LEASE_GRANT_SLOT_PROOF_BOUND OR MX_LEASE_GRANT_LIFETIME_PROOF_BOUND),
                     prf_slot_dev := 0, prf_slot_ino := 0, prf_lifetime_dev := 0, prf_lifetime_ino := 0\<rparr>
               in if copy_out_ok then (Inr out, unbound ctx, ctx_files ctx)
                  else case unbind_undo (mid (unbound ctx)) ctx of
                         (restored, ctx2) \<Rightarrow> (Inl EFAULT, ctx2, if restored then [] else ctx_files ctx))"

definition mx_lease_workload_proofs ::
  "vfs \<Rightarrow> mx_device_lease \<Rightarrow> mx_file_ctx \<Rightarrow> mx_lease_proofs_req option \<Rightarrow> (int \<Rightarrow> kfile option) \<Rightarrow> bool \<Rightarrow>
     (mx_file_ctx \<Rightarrow> mx_file_ctx) \<Rightarrow> mx_lease_proofs_req result \<times> mx_file_ctx \<times> nat list" where
  "mx_lease_workload_proofs v lease ctx user_req fget copy_out_ok mid =
     (case user_req of
        None \<Rightarrow> (Inl EFAULT, ctx, [])
      | Some req \<Rightarrow>
          if \<not> mx_lease_valid_header (prf_abi_magic req) (prf_abi_version req) (prf_struct_size req) 128 \<or>
             prf_operation req = MX_LEASE_PROOF_NONE \<or> prf_operation req > MX_LEASE_PROOF_MAX \<or>
             prf_grants req \<noteq> 0 \<or> prf_slot_dev req \<noteq> 0 \<or> prf_slot_ino req \<noteq> 0 \<or>
             prf_lifetime_dev req \<noteq> 0 \<or> prf_lifetime_ino req \<noteq> 0 \<or>
             \<not> mx_lease_sm_valid_lifetime_tag (h_profile (ctx_lease ctx)) (prf_reserved0 req) \<or>
             prf_reserved1 req \<noteq> 0 \<or> prf_reserved2 req \<noteq> 0
          then (Inl EINVAL, ctx, [])
          else if prf_operation req = MX_LEASE_PROOF_BIND
          then mx_lease_bind_proofs v lease ctx req fget copy_out_ok mid
          else mx_lease_unbind_proofs lease ctx req copy_out_ok mid)"

end
