(* ===== verification/Lifetime_Correct.thy ===== *)
theory Lifetime_Correct
  imports Lifetime_Inv Lease_Proofs
begin

text \<open>
  What the reference counts of \<open>Lifetime_Inv\<close> give: exact accounting, no use of freed objects, no
  leak at the end, exclusion of BAR mappings and registered mailboxes, and revocation at teardown.
\<close>

section \<open>The lease handlers keep the counts\<close>

lemma life_acquire_undo_keeps:
  "acquire_undo lease ctx nh fresh g sf = (lease', ctx') \<Longrightarrow> keeps_counts ctx ctx'"
  by (auto simp: acquire_undo_def keeps_counts_def Let_def split: prod.split_asm if_split_asm)

lemma life_acquire_keeps:
  "acquire_locked lease ctx req sf = (r, lease', ctx') \<Longrightarrow> keeps_counts ctx ctx'"
  by (auto simp: acquire_locked_def keeps_counts_def Let_def split: sum.split_asm prod.split_asm if_split_asm)

lemma life_transition_keeps:
  "transition_locked lease ctx req = (rt, lease', ctx') \<Longrightarrow> keeps_counts ctx ctx'"
  "h0 = ctx_lease ctx0 \<Longrightarrow> transition_undo lease ctx os h0 ns nh = (lease', ctx') \<Longrightarrow> keeps_counts ctx ctx'"
  by (auto simp: transition_locked_def transition_undo_def keeps_counts_def Let_def
      split: sum.split_asm prod.split_asm if_split_asm)

lemma direct_keeps:
  "mx_lease_direct_begin lease ctx = (r, lease', ctx') \<Longrightarrow> keeps_counts ctx ctx'"
  "keeps_counts ctx (mx_lease_direct_end ctx)"
  by (auto simp: mx_lease_direct_begin_def mx_lease_direct_end_def keeps_counts_def Let_def
      split: sum.split_asm prod.split_asm if_split_asm)

lemma proofs_keep:
  "bind_locked v lease ctx req sf lf = (rb, ctx', sl, ll) \<Longrightarrow> keeps_counts ctx ctx'"
  "bind_undo ctx req bs sl bl ll = (ours, ctx') \<Longrightarrow> keeps_counts ctx ctx'"
  "keeps_counts ctx (unbound ctx)"
  "unbind_undo ctx old = (restored, ctx') \<Longrightarrow> keeps_counts ctx ctx'"
  by (auto simp: bind_locked_def bind_commit_def bind_undo_def unbound_def unbind_undo_def keeps_counts_def Let_def
      split: sum.split_asm prod.split_asm if_split_asm option.split_asm)

section \<open>The whole close of a VMA\<close>

lemma vma_close_safe:
  assumes inv: "life_inv S" and b: "b \<in># vmas S"
  obtains s where "mx_bar_vma_close (dev S) b = Some s"
proof -
  obtain final s where s: "bar_vma_close_locked (dev S) b = Some (final, s)"
    "life_inv (S\<lparr>dev := s, vmas := vmas S - {#b#}, closing := (if final then insert b (closing S) else closing S),
       putting := (if final then putting S else Suc (putting S)), ptes := (ptes S \<and> vmas S \<noteq> {#b#})\<rparr>)" (is "life_inv ?S")
    by (rule close_locked_safe [OF inv b])
  show ?thesis
  proof (cases final)
    case True
    then have "b \<in> closing ?S" by simp
    from close_last_safe [OF s(2) this] obtain s' where s': "bar_vma_close_last s b = Some s'"
      "life_inv (?S\<lparr>dev := s', closing := closing ?S - {b}, putting := Suc (putting ?S)\<rparr>)" by auto
    from bar_map_put_safe [OF s'(2)] obtain s'' where "mx_bar_map_put s' = Some s''" by auto
    with s(1) s'(1) True show ?thesis by (intro that) (simp add: mx_bar_vma_close_def)
  next
    case False
    from bar_map_put_safe [OF s(2)] False obtain s' where "mx_bar_map_put s = Some s'" by auto
    with s(1) False show ?thesis by (intro that) (simp add: mx_bar_vma_close_def)
  qed
qed

section \<open>The properties\<close>

text \<open>A system with one open file, a file operation in progress, and one mapping with a forked copy.\<close>

definition ex_vma :: vm_area where
  "ex_vma = \<lparr>vm_start = 65536, vm_end = 69632, vm_pgoff = 0, vm_shared = True, vm_f_mapping = 7\<rparr>"

lemma ex_reachable:
  obtains S where "life_reachable S" "vmas S = {#0, 0#}" "files S = {0}" "bodies S = {#0#}" "closing S = {}"
    "lf_ref (dev S) = 6" "lf_bar_kref (dev S) = 3" "base S = 4"
proof -
  let ?S0 = "life_init 1 4096 (- 1) 3"
  let ?S1 = "?S0\<lparr>dev := mxdma_device_online (dev ?S0)\<rparr>"
  have s1: "life_reachable ?S1" by (intro life_reachable.online life_reachable.init) (simp_all add: life_init_def)
  obtain d2 where d2: "mxdma_device_open (dev ?S1) True True (Some 0) = Some (OK, d2)"
    "d2 = (dev ?S1)\<lparr>lf_ref := 5, lf_ctx := [0 \<mapsto> ctx_zero True], lf_ctx_refs := (\<lambda>_. 0)(0 := 1)\<rparr>"
    by (simp add: life_init_def mxdma_device_online_def mxdma_device_open_def mx_pdev_get_live_def mx_lease_init_def)
  let ?S2 = "?S1\<lparr>dev := d2, files := insert 0 (files ?S1)\<rparr>"
  have s2: "life_reachable ?S2"
    by (rule life_reachable.opened [OF s1 _ _ _ d2(1)]) (simp_all add: life_init_def mxdma_device_online_def)
  obtain d3 where d3: "mxdma_device_prepare (dev ?S2) (Some 0) True = Some (OK, d3)" "d3 = d2\<lparr>lf_io_ref := 2\<rparr>"
    by (simp add: d2(2) life_init_def mxdma_device_online_def mxdma_device_prepare_def mx_lease_init_def)
  let ?S3 = "?S2\<lparr>dev := d3, bodies := add_mset 0 (bodies ?S2)\<rparr>"
  have s3: "life_reachable ?S3" by (rule life_reachable.entered [OF s2 _ d3(1)]) simp
  let ?d4 = "bar_mmap_commit (dev ?S3) 0 (ctx_zero True) 0 7"
  have m: "mx_bar_mmap (dev ?S3) 0 ex_vma (Some 0) OK = Some (OK, ?d4)"
    by (simp add: d2(2) d3(2) life_init_def mxdma_device_online_def mx_bar_mmap_def bar_mmap_check_def ex_vma_def
        list_ex_iff)
  let ?S4 = "?S3\<lparr>dev := ?d4, vmas := add_mset 0 (vmas ?S3), ptes := True\<rparr>"
  have s4: "life_reachable ?S4"
    by (rule life_reachable.mapped [OF s3 _ _ _ m]) (simp_all add: d2(2) d3(2) life_init_def mxdma_device_online_def)
  obtain d5 where d5: "mx_bar_vma_open (dev ?S4) 0 = Some d5"
    using vma_open_safe [OF life_reachable_inv [OF s4], of 0] by (auto simp: life_init_def)
  let ?S5 = "?S4\<lparr>dev := d5, vmas := add_mset 0 (vmas ?S4)\<rparr>"
  have s5: "life_reachable ?S5"
    by (rule life_reachable.forked [OF s4 _ _ d5]) (simp_all add: life_init_def)
  show ?thesis
    by (rule that [OF s5])
      (use d5 in \<open>auto simp: d2(2) d3(2) life_init_def mxdma_device_online_def bar_mmap_commit_def mx_bar_vma_open_def\<close>)
qed

text \<open>A no-wait request: its transfer has been left to wait work while the file operation still runs.\<close>

lemma ex_work_reachable:
  obtains S where "life_reachable S" "bodies S = {#0#}" "xfers S = {#0#}" "wait_works S = {#0#}" "\<not> lf_io_dying (dev S)"
proof -
  let ?S0 = "life_init 1 4096 (- 1) 3"
  let ?S1 = "?S0\<lparr>dev := mxdma_device_online (dev ?S0)\<rparr>"
  have s1: "life_reachable ?S1" by (intro life_reachable.online life_reachable.init) (simp_all add: life_init_def)
  obtain d2 where d2: "mxdma_device_open (dev ?S1) True True (Some 0) = Some (OK, d2)"
    "d2 = (dev ?S1)\<lparr>lf_ref := 5, lf_ctx := [0 \<mapsto> ctx_zero True], lf_ctx_refs := (\<lambda>_. 0)(0 := 1)\<rparr>"
    by (simp add: life_init_def mxdma_device_online_def mxdma_device_open_def mx_pdev_get_live_def mx_lease_init_def)
  let ?S2 = "?S1\<lparr>dev := d2, files := insert 0 (files ?S1)\<rparr>"
  have s2: "life_reachable ?S2"
    by (rule life_reachable.opened [OF s1 _ _ _ d2(1)]) (simp_all add: life_init_def mxdma_device_online_def)
  obtain d3 where d3: "mxdma_device_prepare (dev ?S2) (Some 0) True = Some (OK, d3)" "d3 = d2\<lparr>lf_io_ref := 2\<rparr>"
    by (simp add: d2(2) life_init_def mxdma_device_online_def mxdma_device_prepare_def mx_lease_init_def)
  let ?S3 = "?S2\<lparr>dev := d3, bodies := add_mset 0 (bodies ?S2)\<rparr>"
  have s3: "life_reachable ?S3" by (rule life_reachable.entered [OF s2 _ d3(1)]) simp
  let ?c = "(ctx_zero True)\<lparr>direct_count := 1\<rparr>"
  let ?S4 = "?S3\<lparr>dev := (dev ?S3)\<lparr>lf_lease := mx_lease_init 1, lf_ctx := (lf_ctx (dev ?S3))(0 := Some ?c)\<rparr>\<rparr>"
  have s4: "life_reachable ?S4"
    by (rule life_reachable.lease_call [OF s3, of 0 "ctx_zero True"])
      (simp_all add: d2(2) d3(2) life_init_def keeps_counts_def)
  obtain p d5 where d5: "life_transfer_get (dev ?S4) 0 = Some (Inr p, d5)" "lf_io_dying d5 = lf_io_dying (dev ?S4)"
    by (simp add: d2(2) d3(2) life_init_def mxdma_device_online_def life_transfer_get_def mx_lease_transfer_get_def mx_lease_init_def
        ctx_zero_def ctx_proofs_valid_def mx_lease_sm_validate_proofs_def holder_zero_def mx_file_ctx_get_def)
  let ?S5 = "?S4\<lparr>dev := d5, xfers := add_mset 0 (xfers ?S4)\<rparr>"
  have s5: "life_reachable ?S5" by (rule life_reachable.issued [OF s4 _ d5(1)]) simp
  have b: "0 \<in># bodies ?S5" "0 \<in># xfers ?S5" by simp_all
  obtain d6 where d6: "life_wait_get (dev ?S5) = Some d6" "lf_io_dying d6 = lf_io_dying (dev ?S5)"
    using wait_get_safe [OF life_reachable_inv [OF s5] b(1)] by (fastforce simp: life_wait_get_def split: if_split_asm)
  let ?S6 = "?S5\<lparr>dev := d6, wait_works := add_mset 0 (wait_works ?S5)\<rparr>"
  have s6: "life_reachable ?S6" by (rule life_reachable.left_to_work [OF s5 b d6(1)])
  show ?thesis by (rule that [OF s6]) (use d5(2) d6(2) in \<open>simp_all add: d2(2) d3(2) life_init_def mxdma_device_online_def\<close>)
qed

text \<open>C7. In every reachable system the counts are exact: the references of each mapping object are
  its live VMAs, the driver's mapping count is the number of VMAs, the references of each open-file
  context are its open file, its issued transfers and its mappings (which its own counters also
  report), the device reference count is the sum of all of these holders, the BAR bookkeeping is
  held by the device and once per VMA, open or half closed, and \<open>io_ref\<close>, whose fall to zero teardown
  waits for, is held once by every running file operation, once by every wait work of a no-wait request
  and, until it is killed, by the device.\<close>

theorem references_exact:
  assumes "life_reachable S"
  shows "(\<forall>b v. lf_vma (dev S) b = Some v \<longrightarrow> bv_refs v = count (vmas S) b) \<and>
    unat (bar_map_count (lf_regs (dev S))) = size (vmas S) \<and>
    (\<forall>c ctx. lf_ctx (dev S) c = Some ctx \<longrightarrow>
       lf_ctx_refs (dev S) c = of_bool (c \<in> files S) + count (xfers S) c + card (owned (dev S) c) \<and>
       unat (bar_mapping_count ctx) = card (owned (dev S) c) \<and> unat (transfer_count ctx) = count (xfers S) c) \<and>
    lf_ref (dev S) = base S + card (dom (lf_ctx (dev S))) + card (dom (lf_vma (dev S))) \<and>
    lf_bar_kref (dev S) = of_bool (0 < lf_ref (dev S)) + size (vmas S) + card (closing S) + putting S \<and>
    lf_io_ref (dev S) = size (bodies S) + size (wait_works S) + of_bool (\<not> lf_io_dying (dev S))"
proof (intro conjI allI impI)
  have i: "vma_inv S" "ctx_inv S" "ref_inv S" "io_inv S"
    using life_reachable_inv [OF assms] by (simp_all add: life_inv_def)
  show "\<And>b v. lf_vma (dev S) b = Some v \<Longrightarrow> bv_refs v = count (vmas S) b"
    "unat (bar_map_count (lf_regs (dev S))) = size (vmas S)" using vma_invD(2,6) [OF i(1)] by blast+
  fix c ctx assume "lf_ctx (dev S) c = Some ctx"
  note c = ctx_invD(3-5) [OF i(2) this]
  show "lf_ctx_refs (dev S) c = of_bool (c \<in> files S) + count (xfers S) c + card (owned (dev S) c)"
    "unat (bar_mapping_count ctx) = card (owned (dev S) c)" "unat (transfer_count ctx) = count (xfers S) c"
    using c by (simp_all add: ctx_users_def)
next
  have i: "ref_inv S" "io_inv S" using life_reachable_inv [OF assms] by (simp_all add: life_inv_def)
  show "lf_ref (dev S) = base S + card (dom (lf_ctx (dev S))) + card (dom (lf_vma (dev S)))"
    "lf_bar_kref (dev S) = of_bool (0 < lf_ref (dev S)) + size (vmas S) + card (closing S) + putting S"
    using i(1) by (simp_all only: ref_inv_def dev_users_def)
  show "lf_io_ref (dev S) = size (bodies S) + size (wait_works S) + of_bool (\<not> lf_io_dying (dev S))"
    using i(2) by (simp add: io_inv_def)
qed

theorem references_exact_witness:
  "\<exists>S. life_reachable S \<and> vmas S = {#0, 0#} \<and> unat (bar_map_count (lf_regs (dev S))) = 2 \<and>
     lf_bar_kref (dev S) = 3 \<and> lf_ref (dev S) = 4 + card (dom (lf_ctx (dev S))) + card (dom (lf_vma (dev S))) \<and>
     (\<exists>S'. life_reachable S' \<and> wait_works S' = {#0#} \<and> lf_io_ref (dev S') = 3)"
proof -
  obtain S' where W: "life_reachable S'" "bodies S' = {#0#}" "wait_works S' = {#0#}" "\<not> lf_io_dying (dev S')"
    using ex_work_reachable by metis
  have io: "lf_io_ref (dev S') = 3" using references_exact [OF W(1)] W(2-4) by simp
  obtain S where S: "life_reachable S" "vmas S = {#0, 0#}" "lf_bar_kref (dev S) = 3" "base S = 4"
    using ex_reachable by metis
  show ?thesis using S references_exact [OF S(1)] W(1,3) io by (intro exI [of _ S]) auto
qed

text \<open>C8. No operation touches a freed object or drops a reference it does not hold: in every
  reachable system, closing a file, entering and leaving a file operation, mapping the BAR, forking
  and closing a VMA (the whole handler), issuing and retiring a transfer, taking \<open>io_ref\<close> for the wait work
  of a no-wait request and dropping it at the end of that work, when its transfer is already gone, and dropping a reference
  of probe or of a character device all succeed in finding their objects alive.\<close>

theorem no_use_after_free:
  assumes "life_reachable S"
  shows "(\<forall>c \<in> files S. mxdma_device_prepare (dev S) (Some c) m \<noteq> None \<and>
       (c \<notin># bodies S \<longrightarrow> mxdma_device_release (dev S) (Some c) \<noteq> None)) \<and>
    (\<forall>c \<in># bodies S. mxdma_device_finish (dev S) \<noteq> None \<and> life_transfer_get (dev S) c \<noteq> None \<and>
       life_wait_get (dev S) \<noteq> None \<and>
       (lf_vma (dev S) b = None \<longrightarrow> Suc (size (vmas S)) < 4294967296 \<longrightarrow>
          mx_bar_mmap (dev S) c vma (Some b) remap \<noteq> None)) \<and>
    (\<forall>b \<in># vmas S. mx_bar_vma_close (dev S) b \<noteq> None \<and>
       (Suc (size (vmas S)) < 4294967296 \<longrightarrow> mx_bar_vma_open (dev S) b \<noteq> None)) \<and>
    (\<forall>c \<in># xfers S. life_transfer_put (dev S) c \<noteq> None) \<and>
    (\<forall>c \<in># wait_works S. life_wait_put (dev S) \<noteq> None) \<and>
    (0 < base S \<longrightarrow> mx_pdev_put (dev S) \<noteq> None)"
proof (intro conjI ballI impI)
  note inv = life_reachable_inv [OF assms]
  fix c assume c: "c \<in> files S"
  show "mxdma_device_prepare (dev S) (Some c) m \<noteq> None" by (rule prepare_safe [OF inv c, of m]) simp_all
  assume "c \<notin># bodies S"
  show "mxdma_device_release (dev S) (Some c) \<noteq> None"
    by (rule release_safe [OF inv c \<open>c \<notin># bodies S\<close>]) simp
next
  note inv = life_reachable_inv [OF assms]
  fix c assume c: "c \<in># bodies S"
  show "mxdma_device_finish (dev S) \<noteq> None" by (rule finish_safe [OF inv c]) simp
  show "life_transfer_get (dev S) c \<noteq> None" by (rule transfer_get_safe [OF inv c]) simp
  show "life_wait_get (dev S) \<noteq> None" by (rule wait_get_safe [OF inv c]) simp
  assume b: "lf_vma (dev S) b = None" and room: "Suc (size (vmas S)) < 4294967296"
  show "mx_bar_mmap (dev S) c vma (Some b) remap \<noteq> None"
    by (rule mmap_safe [OF inv c room, of "Some b" vma remap]) (use b in simp_all)
next
  note inv = life_reachable_inv [OF assms]
  fix b assume b: "b \<in># vmas S"
  show "mx_bar_vma_close (dev S) b \<noteq> None" by (rule vma_close_safe [OF inv b]) simp
  assume room: "Suc (size (vmas S)) < 4294967296"
  show "mx_bar_vma_open (dev S) b \<noteq> None" by (rule vma_open_safe [OF inv b room]) simp
next
  note inv = life_reachable_inv [OF assms]
  show "life_transfer_put (dev S) c \<noteq> None" if "c \<in># xfers S" for c by (rule transfer_put_safe [OF inv that]) simp
  show "life_wait_put (dev S) \<noteq> None" if "c \<in># wait_works S" for c by (rule wait_put_safe [OF assms that])
  show "mx_pdev_put (dev S) \<noteq> None" if "0 < base S" by (rule pdev_put_inv [OF inv that]) simp
qed

theorem no_use_after_free_witness:
  "\<exists>S. life_reachable S \<and> (0::nat) \<in># vmas S \<and> mx_bar_vma_close (dev S) 0 \<noteq> None \<and>
     mx_bar_vma_open (dev S) 0 \<noteq> None \<and> mxdma_device_finish (dev S) \<noteq> None"
proof -
  obtain S where S: "life_reachable S" "vmas S = {#0, 0#}" "bodies S = {#0#}"
    using ex_reachable by metis
  show ?thesis using S no_use_after_free [OF S(1)] by (intro exI [of _ S]) simp
qed

text \<open>C9. Nothing leaks: once probe and the character devices have dropped their references and no
  file, VMA, transfer or unfinished close is left, every context and every mapping object has been
  freed, and so have the device and the BAR bookkeeping, and nobody holds \<open>io_ref\<close> any more.\<close>

theorem nothing_leaks:
  assumes "life_reachable S"
    and "base S = 0" "files S = {}" "xfers S = {#}" "vmas S = {#}" "closing S = {}" "putting S = 0"
  shows "lf_ctx (dev S) c = None \<and> lf_vma (dev S) b = None \<and> lf_ref (dev S) = 0 \<and> lf_bar_kref (dev S) = 0 \<and>
    \<not> lf_magic (dev S) \<and> lf_io_ref (dev S) = 0"
proof -
  have io: "lf_io_ref (dev S) = 0" using io_ref_base [OF assms(1)] assms(2) by (cases "lf_io_ref (dev S)") auto
  have i: "vma_inv S" "ctx_inv S" "ref_inv S" "io_inv S"
    using life_reachable_inv [OF assms(1)] by (simp_all add: life_inv_def)
  have v: "lf_vma (dev S) b = None" for b
    using vma_invD(3) [OF i(1), of b] assms(5,6) by (cases "lf_vma (dev S) b") auto
  then have "owned (dev S) c = {}" for c by (simp add: owned_def)
  then have c: "lf_ctx (dev S) c = None" for c
    using ctx_invD(2) [OF i(2), of c] assms(3,4) by (cases "lf_ctx (dev S) c") (simp_all add: ctx_users_def)
  have "dom (lf_vma (dev S)) = {}" "dom (lf_ctx (dev S)) = {}" using v c by auto
  then show ?thesis using i(3) assms v c io by (simp add: ref_inv_def dev_users_def)
qed

theorem nothing_leaks_witness:
  "\<exists>S. life_reachable S \<and> lf_ref (dev S) = 0 \<and> lf_bar_kref (dev S) = 0 \<and> lf_ctx (dev S) 0 = None"
proof -
  let ?S0 = "life_init 1 4096 (- 1) 0"
  let ?S = "?S0\<lparr>dev := mxdma_device_offline (dev ?S0)\<rparr>"
  have r: "life_reachable ?S" by (rule life_reachable.offline [OF life_reachable.init]) (simp add: life_init_def)
  have b: "0 < base ?S" "1 < base ?S \<or> lf_io_ref (dev ?S) = 0" by (simp_all add: life_init_def mxdma_device_offline_def Let_def)
  obtain s where s: "mx_pdev_put (dev ?S) = Some s" using pdev_put_inv [OF life_reachable_inv [OF r] b(1)] .
  have "life_reachable (?S\<lparr>dev := s, base := base ?S - 1\<rparr>)" by (rule life_reachable.base_dropped [OF r b(1,2) s])
  from this nothing_leaks [OF this, of 0 0] show ?thesis by (auto simp: life_init_def)
qed

text \<open>C10. BAR mappings and registered mailboxes exclude each other, and teardown revokes: while any
  VMA maps the BAR no submission mailbox is registered; after the device went offline and the
  mappings were unmapped no VMA translates to the BAR any more, every later \<open>mmap()\<close> of an
  allocated object is refused with \<open>ENODEV\<close>, and no file operation can start.\<close>

theorem bar_exclusive_and_revoked:
  assumes "life_reachable S"
    and u: "mxdma_unmap_all_bar_vmas (mxdma_device_offline (dev S)) = (called, s)"
  shows "(vmas S \<noteq> {#} \<longrightarrow> (\<forall>qid < 80. sq_mbox_list (lf_regs (dev S)) qid = None)) \<and>
       lf_mapping s = None \<and> \<not> (ptes S \<and> \<not> called) \<and>
       (\<forall>c vma b remap. 0 < lf_ref s \<longrightarrow> 0 < lf_bar_kref s \<longrightarrow>
          mx_bar_mmap s c vma (Some b) remap = Some (Inl ENODEV, s)) \<and>
       (\<forall>c ctx. 0 < lf_ref s \<longrightarrow> lf_magic s \<longrightarrow> lf_ctx s c = Some ctx \<longrightarrow>
          mxdma_device_prepare s (Some c) True = Some (Inl ENODEV, s))"
proof -
  note inv = life_reachable_inv [OF assms(1)]
  have vi: "vma_inv S" using inv by (simp add: life_inv_def)
  have ex: "vmas S \<noteq> {#} \<longrightarrow> (\<forall>qid < 80. sq_mbox_list (lf_regs (dev S)) qid = None)"
    using vma_invD(9) [OF vi] by (simp add: no_mbox_def)
  have off: "\<not> lf_enabled s" "lf_io_dying s"
    using u by (auto simp: mxdma_unmap_all_bar_vmas_def mxdma_device_offline_def Let_def split: if_split_asm)
  have "lf_mapping s = None" "\<not> (ptes S \<and> \<not> called)"
    using revoke_inv(2,3) [of "S\<lparr>dev := mxdma_device_offline (dev S)\<rparr>" called s] u online_offline_inv(2) [OF inv]
    by simp_all
  with off ex show ?thesis
    by (simp add: mx_bar_mmap_def bar_mmap_check_def mxdma_device_prepare_def)
qed

theorem bar_exclusive_and_revoked_witness:
  "\<exists>S. life_reachable S \<and> vmas S = {#0, 0#} \<and> sq_mbox_list (lf_regs (dev S)) 5 = None \<and>
     lf_mapping (snd (mxdma_unmap_all_bar_vmas (mxdma_device_offline (dev S)))) = None"
proof -
  obtain S where S: "life_reachable S" "vmas S = {#0, 0#}" using ex_reachable by metis
  obtain called s where u: "mxdma_unmap_all_bar_vmas (mxdma_device_offline (dev S)) = (called, s)" by fastforce
  show ?thesis using S u bar_exclusive_and_revoked [OF S(1) u]
    by (intro exI [of _ S]) simp
qed

end
