(* ===== verification/Lease_Dev.thy ===== *)
theory Lease_Dev
  imports Lease_Proofs
begin

text \<open>
  The lease of one device and all its open files under the ioctl handlers. \<open>dev_inv\<close> extends the
  invariant of the state machine with the state anchor; the locale \<open>ctl_op\<close> is the contract of a lock
  section run by one file, interpreted on every section of \<open>lease.c\<close>. \<open>ctl_reachable\<close> interleaves the
  sections, the undo sections of faulted copies included.
\<close>

section \<open>The invariant\<close>

definition anchor_ok :: "mx_device_lease \<Rightarrow> bool" where
  "anchor_ok lease =
     ((state_path_valid lease \<longleftrightarrow> state_inode lease \<noteq> None) \<and>
      (state_path_valid lease \<longleftrightarrow> lease_generation lease \<noteq> 0) \<and>
      (state_path_valid lease \<longleftrightarrow> state_identity lease \<noteq> (0, 0)) \<and>
      (state_path_valid lease \<longleftrightarrow> state_family lease \<noteq> 0) \<and>
      (slot_domain_path_valid lease \<longleftrightarrow> slot_domain_inode lease \<noteq> None) \<and>
      (sm_family (lease_state lease) \<noteq> 0 \<longrightarrow> sm_family (lease_state lease) = state_family lease))"

definition dev_inv :: "mx_device_lease \<Rightarrow> mx_file_ctx list \<Rightarrow> bool" where
  "dev_inv lease ctxs = (lease_inv (lease_state lease) (map ctx_lease ctxs) \<and> anchor_ok lease)"

lemma anchor_ok_cong:
  assumes "anchor_ok lease" "state_path_valid lease' = state_path_valid lease" "state_inode lease' = state_inode lease"
    "lease_generation lease' = lease_generation lease" "state_identity lease' = state_identity lease"
    "state_family lease' = state_family lease" "slot_domain_path_valid lease' \<longleftrightarrow> slot_domain_inode lease' \<noteq> None"
    "sm_family (lease_state lease') = sm_family (lease_state lease) \<or> sm_family (lease_state lease') = 0"
  shows "anchor_ok lease'"
  using assms unfolding anchor_ok_def by metis

lemma dev_inv_nth:
  assumes "i < length cs"
  shows "dev_inv lease cs = dev_inv lease (cs ! i # others i cs)"
    "dev_inv lease (cs[i := c]) = dev_inv lease (c # others i cs)"
proof -
  have "mset (map ctx_lease (cs ! i # others i cs)) = mset (map ctx_lease cs)"
    using mset_others [OF assms] by (metis mset_map)
  then show "dev_inv lease cs = dev_inv lease (cs ! i # others i cs)"
    unfolding dev_inv_def using lease_inv_perm by metis
  have "mset (map ctx_lease (cs[i := c])) = mset (map ctx_lease (c # others i cs))"
    using mset_list_update [OF assms] by (metis mset_map)
  then show "dev_inv lease (cs[i := c]) = dev_inv lease (c # others i cs)"
    unfolding dev_inv_def using lease_inv_perm by metis
qed

locale ctl_op =
  fixes f :: "mx_device_lease \<Rightarrow> mx_file_ctx \<Rightarrow> 'r \<times> mx_device_lease \<times> mx_file_ctx"
  assumes keeps: "dev_inv lease (c # cs) \<Longrightarrow> f lease c = (r, lease', c') \<Longrightarrow> dev_inv lease' (c' # cs)"
begin

lemma keeps_at:
  assumes "dev_inv lease cs" "i < length cs" "f lease (cs ! i) = (r, lease', c')"
  shows "dev_inv lease' (cs[i := c'])"
  using keeps [OF _ assms(3)] assms(1) dev_inv_nth [OF assms(2)] by simp

end

section \<open>Acquire\<close>

lemma family_nonzero: "mx_lease_profile_is_publisher p \<Longrightarrow> mx_lease_profile_family p \<noteq> 0"
  by (auto simp: mx_lease_profile_is_publisher_def mx_lease_profile_family_def)

lemma next_generation_nonzero: "mx_lease_next_generation lease = (g, lease') \<Longrightarrow> g \<noteq> 0"
  by (auto simp: mx_lease_next_generation_def Let_def split: if_split_asm)

lemma install_anchor_fields:
  "state_path_valid (install_anchor lease req file)"
  "state_inode (install_anchor lease req file) = Some (f_inode file)"
  "state_identity (install_anchor lease req file) = acq_identity req"
  "state_family (install_anchor lease req file) = mx_lease_profile_family (acq_profile req)"
  "lease_state (install_anchor lease req file) = lease_state lease"
  "slot_domain_path_valid (install_anchor lease req file) = slot_domain_path_valid lease"
  "slot_domain_inode (install_anchor lease req file) = slot_domain_inode lease"
  "lease_generation (install_anchor lease req file) = fst (mx_lease_next_generation lease)"
  "generation_counter (install_anchor lease req file) = fst (mx_lease_next_generation lease)"
  "device_incarnation (install_anchor lease req file) = device_incarnation lease"
  "lease_removed (install_anchor lease req file) = lease_removed lease"
  by (simp_all add: install_anchor_def mx_lease_next_generation_def Let_def)

lemma sm_acquire_family:
  assumes "mx_lease_sm_acquire sm h p = (OK, sm', h')" "lease_inv sm (h # os)"
  shows "sm_family sm' = sm_family sm \<or> sm_family sm' = mx_lease_profile_family p"
    "h_profile h = 0 \<Longrightarrow> h_profile h' = p"
  using assms(1) by (auto simp: mx_lease_sm_acquire_def mx_lease_sm_acquire_commit_def Let_def
      split: if_split_asm sum.split_asm)

lemma anchor_check_cases:
  assumes "acquire_anchor_check lease req file = Inr fresh"
  shows "if fresh then \<not> state_path_valid lease \<and> mx_lease_profile_is_publisher (acq_profile req)
    else state_path_valid lease \<and> state_family lease = mx_lease_profile_family (acq_profile req)"
  using assms by (auto simp: acquire_anchor_check_def mx_lease_sm_validate_anchored_acquire_def Let_def
      split: if_split_asm sum.split_asm)

lemma acquire_locked_cases:
  assumes "acquire_locked lease ctx req file = (r, lease', ctx')"
  obtains (refused) e where "r = Inl e" "lease' = lease" "ctx' = ctx"
    | (granted) fresh sm h where "acquire_anchor_check lease req file = Inr fresh"
        "mx_lease_sm_acquire (lease_state lease) (ctx_lease ctx) (acq_profile req) = (OK, sm, h)"
        "ctx' = ctx\<lparr>ctx_lease := h\<rparr>"
        "lease' = (if fresh then install_anchor (lease\<lparr>lease_state := sm\<rparr>) req file else lease\<lparr>lease_state := sm\<rparr>)"
        "r = Inr (mx_lease_fill_acquire_locked lease' ctx' req, fresh)"
proof (cases "acquire_anchor_check lease req file")
  case (Inl e)
  then show ?thesis using assms refused [of e] by (simp add: acquire_locked_def)
next
  case (Inr fresh)
  obtain r1 sm h where a: "mx_lease_sm_acquire (lease_state lease) (ctx_lease ctx) (acq_profile req) = (r1, sm, h)"
    by (metis prod_cases3)
  show ?thesis
  proof (cases r1)
    case (Inl e)
    then have "sm = lease_state lease" "h = ctx_lease ctx"
      using acquire_cases [OF a] by auto
    then show ?thesis using assms refused [of e] Inl Inr a by (simp add: acquire_locked_def)
  next
    case (Inr u)
    define l where "l = (if fresh then install_anchor (lease\<lparr>lease_state := sm\<rparr>) req file else lease\<lparr>lease_state := sm\<rparr>)"
    have "r = Inr (mx_lease_fill_acquire_locked l (ctx\<lparr>ctx_lease := h\<rparr>) req, fresh) \<and> lease' = l \<and> ctx' = ctx\<lparr>ctx_lease := h\<rparr>"
      using assms Inr \<open>acquire_anchor_check lease req file = Inr fresh\<close> a
      by (auto simp: acquire_locked_def Let_def l_def)
    then show ?thesis using granted [of fresh sm h] \<open>acquire_anchor_check lease req file = Inr fresh\<close> a Inr l_def by simp
  qed
qed

lemma acquire_locked_keeps:
  assumes inv: "dev_inv lease (c # cs)" and id: "acq_identity req \<noteq> (0, 0)"
    and f: "acquire_locked lease c req file = (r, lease', c')"
  shows "dev_inv lease' (c' # cs)"
  using f
proof (cases rule: acquire_locked_cases)
  case refused
  then show ?thesis using inv by simp
next
  case (granted fresh sm h)
  have li: "lease_inv (lease_state lease) (ctx_lease c # map ctx_lease cs)" and an: "anchor_ok lease"
    using inv by (simp_all add: dev_inv_def)
  have "lease_inv sm (h # map ctx_lease cs)" by (rule acquire_keeps [OF li granted(2)])
  moreover have fam: "sm_family sm = sm_family (lease_state lease) \<or> sm_family sm = mx_lease_profile_family (acq_profile req)"
    by (rule sm_acquire_family [OF granted(2) li])
  have "anchor_ok lease'"
  proof (cases fresh)
    case True
    then have v: "\<not> state_path_valid lease" "mx_lease_profile_is_publisher (acq_profile req)"
      using anchor_check_cases [OF granted(1)] by simp_all
    moreover have "sm_family (lease_state lease) = 0" using an v(1) unfolding anchor_ok_def by auto
    moreover have "fst (mx_lease_next_generation (lease\<lparr>lease_state := sm\<rparr>)) \<noteq> 0"
      using next_generation_nonzero by (metis prod.collapse)
    ultimately show ?thesis using True granted(4) an id fam family_nonzero [OF v(2)]
      by (auto simp: anchor_ok_def install_anchor_fields)
  next
    case False
    then have "state_family lease = mx_lease_profile_family (acq_profile req)"
      using anchor_check_cases [OF granted(1)] by simp
    then show ?thesis using False granted(4) an fam by (auto simp: anchor_ok_def)
  qed
  ultimately show ?thesis
    using granted(3,4) by (simp add: dev_inv_def install_anchor_fields)
qed

lemma release_family: "mx_lease_sm_release sm h = (sm', h') \<Longrightarrow> sm_family sm' = sm_family sm \<or> sm_family sm' = 0"
  by (auto simp: mx_lease_sm_release_def Let_def split: if_split_asm)

lemma release_keeps_dev:
  assumes "dev_inv lease (c # cs)" "mx_lease_sm_release (lease_state lease) (ctx_lease c) = (sm, h)"
    "c' = c''\<lparr>ctx_lease := h\<rparr>"
  shows "dev_inv (lease\<lparr>lease_state := sm\<rparr>) (c' # cs)"
proof -
  have "lease_inv sm (h # map ctx_lease cs)"
    using release_keeps [OF _ assms(2)] assms(1) by (simp add: dev_inv_def)
  moreover have "anchor_ok (lease\<lparr>lease_state := sm\<rparr>)"
    using assms(1) release_family [OF assms(2)] by (auto simp: dev_inv_def anchor_ok_def)
  ultimately show ?thesis using assms(3) by (simp add: dev_inv_def)
qed

lemma idle_no_family: "lease_inv sm hs \<Longrightarrow> mx_lease_sm_idle sm \<Longrightarrow> sm_family sm = 0"
  by (simp add: lease_inv_def mx_lease_sm_idle_def)

lemma acquire_undo_keeps:
  assumes inv: "dev_inv lease (c # cs)" and f: "acquire_undo lease c nh fresh g file = (lease', c')"
  shows "dev_inv lease' (c' # cs)"
proof -
  obtain lease1 c1 where s: "(if ctx_lease c = nh then case mx_lease_sm_release (lease_state lease) (ctx_lease c) of
        (sm, h) \<Rightarrow> (lease\<lparr>lease_state := sm\<rparr>, c\<lparr>ctx_lease := h\<rparr>) else (lease, c)) = (lease1, c1)"
    by (metis prod.exhaust)
  have inv1: "dev_inv lease1 (c1 # cs)"
    using s inv release_keeps_dev [OF inv] by (auto split: if_split_asm prod.split_asm)
  have c': "c' = c1" and l': "lease' = lease1 \<or> lease' = lease1\<lparr>state_path_valid := False, state_inode := None,
      state_identity := (0, 0), state_family := 0, lease_generation := 0\<rparr> \<and> mx_lease_sm_idle (lease_state lease1)"
    using f unfolding acquire_undo_def s by (auto split: if_split_asm)
  from l' show ?thesis
  proof
    assume "lease' = lease1"
    then show ?thesis using inv1 c' by simp
  next
    assume l: "lease' = lease1\<lparr>state_path_valid := False, state_inode := None,
      state_identity := (0, 0), state_family := 0, lease_generation := 0\<rparr> \<and> mx_lease_sm_idle (lease_state lease1)"
    then have "sm_family (lease_state lease1) = 0" using inv1 idle_no_family by (auto simp: dev_inv_def)
    then show ?thesis using l inv1 c' by (auto simp: dev_inv_def anchor_ok_def)
  qed
qed

section \<open>Transition\<close>

lemma transition_locked_cases:
  assumes "transition_locked lease ctx req = (r, lease', ctx')"
  obtains (refused) e where "r = Inl e" "lease' = lease" "ctx' = ctx"
    | (moved) out sm h where "mx_lease_sm_transition (lease_state lease) (ctx_lease ctx) (trn_operation req)
          (direct_count ctx) (transfer_count ctx) (bar_mapping_count ctx)
          (slot_domain_path_valid lease \<and> slot_domain_inode lease \<noteq> None) = (OK, sm, h)"
        "r = Inr out" "lease' = lease\<lparr>lease_state := sm\<rparr>" "ctx' = ctx\<lparr>ctx_lease := h\<rparr>"
proof -
  obtain r1 sm h where t: "mx_lease_sm_transition (lease_state lease) (ctx_lease ctx) (trn_operation req)
          (direct_count ctx) (transfer_count ctx) (bar_mapping_count ctx)
          (slot_domain_path_valid lease \<and> slot_domain_inode lease \<noteq> None) = (r1, sm, h)"
    by (metis prod_cases3)
  show ?thesis
  proof (cases r1)
    case (Inl e)
    then have "sm = lease_state lease" "h = ctx_lease ctx" using transition_cases [OF t] by auto
    then show ?thesis using assms refused Inl unfolding transition_locked_def t by (auto split: if_split_asm)
  next
    case (Inr u)
    then show ?thesis using assms refused moved t unfolding transition_locked_def t Let_def
      by (auto split: if_split_asm)
  qed
qed

lemma sm_transition_family: "mx_lease_sm_transition sm h operation d t b a = (r, sm', h') \<Longrightarrow> sm_family sm' = sm_family sm"
  using transition_cases by fastforce

lemma transition_locked_keeps:
  assumes inv: "dev_inv lease (c # cs)" and f: "transition_locked lease c req = (r, lease', c')"
  shows "dev_inv lease' (c' # cs)"
  using f
proof (cases rule: transition_locked_cases)
  case refused
  then show ?thesis using inv by simp
next
  case (moved out sm h)
  have "lease_inv sm (h # map ctx_lease cs)"
    using transition_keeps [OF _ moved(1)] inv by (simp add: dev_inv_def)
  then show ?thesis using inv moved sm_transition_family [OF moved(1)] by (auto simp: dev_inv_def anchor_ok_def)
qed

text \<open>
  Undoing a transition under a state that other files may have changed: the counters and the
  holder are still those the transition left, so they still describe the files as they are now.
\<close>

lemma transition_undo_inv:
  assumes now: "lease_inv sm' (h' # os)" and before: "lease_inv sm (h # os0)"
    and t: "mx_lease_sm_transition sm h operation d tr b a = (r, sm', h')"
  shows "lease_inv sm (h # os)"
proof (cases "sm' = sm \<and> h' = h")
  case True
  then show ?thesis using now by simp
next
  case False
  then have pub: "is_publisher h" and prof: "h_profile h' = h_profile h" and h: "h = h'\<lparr>h_phase := h_phase h\<rparr>"
    and f: "family_holders sm = family_holders sm'" "publishers sm = publishers sm'"
      "legacy_holders sm = legacy_holders sm'" "sm_family sm = sm_family sm'"
    using transition_cases [OF t] by (elim disjE conjE; simp add: is_publisher_def)+
  have ok: "phase_ok (h_profile h) (h_phase h)" and q: "quiescent sm = in_quiescent h" and w0: "in_quiescent h \<Longrightarrow> workloads sm = 0"
    and rdy: "h_phase h = MX_LEASE_PHASE_COORDINATOR_PREPARED \<Longrightarrow> coordinator_ready sm"
  proof -
    have b: "holder_ok sm h" "of_bool (quiescent sm) = cnt in_quiescent (h # os0)" "quiescent sm \<Longrightarrow> cnt in_workload (h # os0) = 0"
        "unat (workloads sm) = cnt in_workload (h # os0)"
      using before by (simp_all add: lease_inv_def)
    show "phase_ok (h_profile h) (h_phase h)" using b(1) by (simp add: holder_ok_def)
    show q: "quiescent sm = in_quiescent h" using b(2) sole_publisher(2) [OF before pub] by (simp add: of_bool_def split: if_split_asm)
    show "workloads sm = 0" if "in_quiescent h" using b(3,4) q that by (simp add: unat_eq_0)
    show "coordinator_ready sm" if "h_phase h = MX_LEASE_PHASE_COORDINATOR_PREPARED"
      using b(1) that by (simp add: holder_ok_def)
  qed
  have w: "unat (workloads sm) = of_bool (h_phase h = MX_LEASE_PHASE_WORKLOAD) + cnt in_workload os"
    using transition_cases [OF t] False now
    by (elim disjE conjE; simp add: lease_inv_def in_workload_def in_quiescent_def unat_inc_u32)
  have "lease_inv sm (h'\<lparr>h_phase := h_phase h\<rparr> # os)"
  proof (rule publisher_phase_keeps [OF now _ f w])
    show "is_publisher h'" using pub prof by (simp add: is_publisher_def)
    show "quiescent sm = (h_phase h = MX_LEASE_PHASE_QUIESCENT)" using q by (simp add: in_quiescent_def)
    show "cnt in_workload os = 0" if "quiescent sm" using that q w0 w by simp
    show "phase_ok (h_profile h') (h_phase h)" using ok prof by simp
    show "coordinator_ready sm" if "h_phase h = MX_LEASE_PHASE_COORDINATOR_PREPARED" using that rdy by simp
  qed
  then show ?thesis using h by metis
qed

lemma transition_undo_keeps:
  assumes before: "dev_inv lease0 (c0 # cs0)" and t: "transition_locked lease0 c0 req = (Inr out, lease1, c1)"
    and now: "dev_inv lease (c # cs)"
    and u: "transition_undo lease c (lease_state lease0) (ctx_lease c0) (lease_state lease1) (ctx_lease c1) = (lease', c')"
  shows "dev_inv lease' (c' # cs)"
proof (cases "lease_state lease = lease_state lease1 \<and> ctx_lease c = ctx_lease c1")
  case False
  then show ?thesis using u now by (auto simp: transition_undo_def)
next
  case True
  from t obtain sm h where tr: "mx_lease_sm_transition (lease_state lease0) (ctx_lease c0) (trn_operation req)
          (direct_count c0) (transfer_count c0) (bar_mapping_count c0)
          (slot_domain_path_valid lease0 \<and> slot_domain_inode lease0 \<noteq> None) = (OK, sm, h)"
      "lease_state lease1 = sm" "ctx_lease c1 = h"
    by (cases rule: transition_locked_cases) auto
  have "lease_inv (lease_state lease0) (ctx_lease c0 # map ctx_lease cs)"
    using transition_undo_inv [OF _ _ tr(1)] now before True tr(2,3) by (auto simp: dev_inv_def)
  moreover have "sm_family (lease_state lease0) = sm_family (lease_state lease)"
    using sm_transition_family [OF tr(1)] True tr(2) by simp
  ultimately show ?thesis using u True now by (auto simp: transition_undo_def dev_inv_def anchor_ok_def)
qed

section \<open>The other lock sections\<close>

lemma anchor_locked_cases:
  assumes "anchor_locked v lease ctx req file = (r, lease')"
  shows "lease' = lease \<or>
    lease' = lease\<lparr>slot_domain_path_valid := True, slot_domain_inode := Some (f_inode file)\<rparr> \<and> \<not> slot_domain_path_valid lease"
  using assms unfolding anchor_locked_def Let_def by (auto split: if_split_asm sum.split_asm)

lemma anchor_locked_keeps:
  assumes "dev_inv lease (c # cs)" "anchor_locked v lease c req file = (r, lease')"
  shows "dev_inv lease' (c # cs)"
  using anchor_locked_cases [OF assms(2)] assms(1) by (auto simp: dev_inv_def anchor_ok_def)

lemma anchor_undo_keeps: "dev_inv lease (c # cs) \<Longrightarrow> dev_inv (anchor_undo lease fresh file) (c # cs)"
  by (auto simp: dev_inv_def anchor_ok_def anchor_undo_def)

text \<open>Sections that leave the device lease and the holder alone.\<close>

lemma same_lease_keeps: "dev_inv lease (c # cs) \<Longrightarrow> ctx_lease c' = ctx_lease c \<Longrightarrow> dev_inv lease (c' # cs)"
  by (simp add: dev_inv_def)

lemma direct_begin_cases:
  assumes "mx_lease_direct_begin lease ctx = (r, lease', ctx')"
  obtains (refused) e where "r = Inl e" "lease' = lease" "ctx' = ctx"
    | (authorized) sm h where "direct_count ctx \<noteq> U32_MAX" "\<not> lease_removed lease"
        "mx_lease_sm_authorize_direct_anchored (lease_state lease) (ctx_lease ctx) (state_path_valid lease) = (OK, sm, h)"
        "lease' = lease\<lparr>lease_state := sm\<rparr>" "r = ctx_proofs_valid (ctx\<lparr>ctx_lease := h\<rparr>)"
        "ctx' = ctx\<lparr>ctx_lease := h, direct_count := (if r = OK then direct_count ctx + 1 else direct_count ctx)\<rparr>"
proof -
  obtain r1 sm h where a: "mx_lease_sm_authorize_direct_anchored (lease_state lease) (ctx_lease ctx) (state_path_valid lease) = (r1, sm, h)"
    by (metis prod_cases3)
  show ?thesis
  proof (cases "lease_removed lease \<or> direct_count ctx = U32_MAX")
    case True
    show ?thesis
    proof (cases "lease_removed lease")
      case True
      then show ?thesis using assms refused by (auto simp: mx_lease_direct_begin_def)
    next
      case live: False
      have "mx_lease_sm_admit_direct (lease_state lease) (ctx_lease ctx) (state_path_valid lease) (direct_count ctx) =
          (Inl EOVERFLOW, lease_state lease, ctx_lease ctx, direct_count ctx)"
        using True live by (simp add: mx_lease_sm_admit_direct_def)
      then show ?thesis using assms refused live by (auto simp: mx_lease_direct_begin_def)
    qed
  next
    case False
    have nz: "direct_count ctx + 1 \<noteq> 0" using unat_inc_u32 [of "direct_count ctx"] False by auto
    show ?thesis
    proof (cases r1)
      case (Inl e)
      then have "sm = lease_state lease" "h = ctx_lease ctx" using authorize_direct_cases [OF a] by auto
      then show ?thesis using assms refused [of e] False Inl a
        by (simp add: mx_lease_direct_begin_def mx_lease_sm_admit_direct_def)
    next
      case (Inr u)
      have same: "ctx_proofs_valid (ctx\<lparr>ctx_lease := h, direct_count := d\<rparr>) = ctx_proofs_valid (ctx\<lparr>ctx_lease := h\<rparr>)" for d
        by (simp add: ctx_proofs_valid_def)
      show ?thesis
      proof (rule authorized [of sm h])
        show "lease' = lease\<lparr>lease_state := sm\<rparr>" "r = ctx_proofs_valid (ctx\<lparr>ctx_lease := h\<rparr>)"
          "ctx' = ctx\<lparr>ctx_lease := h, direct_count := (if r = OK then direct_count ctx + 1 else direct_count ctx)\<rparr>"
          using assms False Inr a nz unfolding mx_lease_direct_begin_def mx_lease_sm_admit_direct_def
          by (auto simp: same Let_def mx_lease_sm_release_direct_def split: sum.split_asm)
      qed (use a Inr False in simp_all)
    qed
  qed
qed


lemma direct_begin_keeps:
  assumes inv: "dev_inv lease (c # cs)" and f: "mx_lease_direct_begin lease c = (r, lease', c')"
  shows "dev_inv lease' (c' # cs)"
  using f
proof (cases rule: direct_begin_cases)
  case refused
  then show ?thesis using inv by simp
next
  case (authorized sm h)
  have "lease_inv sm (h # map ctx_lease cs)"
    using authorize_direct_keeps [OF _ authorized(3)] inv by (simp add: dev_inv_def)
  moreover have "sm_family sm = sm_family (lease_state lease)"
    using authorize_direct_cases [OF authorized(3)] by auto
  ultimately show ?thesis using inv authorized(4,6) by (auto simp: dev_inv_def anchor_ok_def)
qed

lemma transfer_get_lease: "mx_lease_transfer_get lease c = (r, c') \<Longrightarrow> ctx_lease c' = ctx_lease c"
  by (auto simp: mx_lease_transfer_get_def split: if_split_asm sum.split_asm)

lemma bind_locked_lease: "bind_locked v lease c req sf lf = (r, c', sl, ll) \<Longrightarrow> ctx_lease c' = ctx_lease c"
  by (auto simp: bind_locked_def bind_commit_def Let_def split: if_split_asm sum.split_asm)

lemma bind_undo_lease: "bind_undo c req sf sl lf ll = (b, c') \<Longrightarrow> ctx_lease c' = ctx_lease c"
  by (auto simp: bind_undo_def split: if_split_asm)

lemma unbind_undo_lease: "unbind_undo c old = (b, c') \<Longrightarrow> ctx_lease c' = ctx_lease c"
  by (auto simp: unbind_undo_def split: if_split_asm)

lemma acquire_handler_keeps:
  assumes inv: "dev_inv lease (c # cs)" and f: "mx_lease_acquire lease c ureq capable sf True mid = (r, lease', c')"
  shows "dev_inv lease' (c' # cs)"
proof -
  consider "lease' = lease" "c' = c"
    | req fl r1 where "acquire_precheck c req capable sf = OK" "acquire_locked lease c req fl = (r1, lease', c')"
    using f unfolding mx_lease_acquire_def
    by (auto split: option.split_asm sum.split_asm prod.split_asm)
  then show ?thesis
  proof cases
    case 1
    then show ?thesis using inv by simp
  next
    case 2
    have "acq_identity req \<noteq> (0, 0)" using 2(1) by (auto simp: acquire_precheck_def split: if_split_asm)
    from acquire_locked_keeps [OF inv this 2(2)] show ?thesis .
  qed
qed

lemma transition_handler_keeps:
  assumes inv: "dev_inv lease (c # cs)" and f: "mx_lease_transition lease c ureq capable True mid = (r, lease', c')"
  shows "dev_inv lease' (c' # cs)"
proof -
  consider "lease' = lease" "c' = c" | req r1 where "transition_locked lease c req = (r1, lease', c')"
    using f unfolding mx_lease_transition_def
    by (auto split: option.split_asm sum.split_asm prod.split_asm)
  then show ?thesis using inv transition_locked_keeps [OF inv] by cases auto
qed

lemma anchor_handler_keeps:
  assumes inv: "dev_inv lease (c # cs)" and f: "mx_lease_anchor_slot_domain v lease c ureq capable df True mid = (r, lease')"
  shows "dev_inv lease' (c # cs)"
proof -
  consider "lease' = lease" | req fl r1 where "anchor_locked v lease c req fl = (r1, lease')"
    using f unfolding mx_lease_anchor_slot_domain_def
    by (auto split: option.split_asm sum.split_asm prod.split_asm)
  then show ?thesis using inv anchor_locked_keeps [OF inv] by cases auto
qed

lemma file_ctx_free_keeps:
  assumes "dev_inv lease (c # cs)" "mx_file_ctx_free lease c = (lease', c', puts)"
  shows "dev_inv lease' (c' # cs)"
proof -
  obtain sm h where r: "mx_lease_sm_release (lease_state lease) (ctx_lease c) = (sm, h)" by fastforce
  have "ctx_lease c' = h" "lease' = lease\<lparr>lease_state := sm\<rparr>"
    using assms(2) r by (auto simp: mx_file_ctx_free_def)
  then show ?thesis using release_keeps_dev [OF assms(1) r, of c' c'] by simp
qed

section \<open>Interpretations\<close>

interpretation ctl_acquire: ctl_op "\<lambda>lease c. mx_lease_acquire lease c ureq capable sf True mid" for ureq capable sf mid
  by unfold_locales (rule acquire_handler_keeps)

interpretation ctl_acquire_undo: ctl_op "\<lambda>lease c. ((), acquire_undo lease c nh fresh g sf)" for nh fresh g sf
  by unfold_locales (simp add: acquire_undo_keeps)

interpretation ctl_transition: ctl_op "\<lambda>lease c. mx_lease_transition lease c ureq capable True mid" for ureq capable mid
  by unfold_locales (rule transition_handler_keeps)

interpretation ctl_anchor: ctl_op
    "\<lambda>lease c. case mx_lease_anchor_slot_domain v lease c ureq capable df True mid of (r, l) \<Rightarrow> (r, l, c)"
  for v ureq capable df mid
  by unfold_locales (auto intro: anchor_handler_keeps split: prod.split_asm)

interpretation ctl_anchor_undo: ctl_op "\<lambda>lease c. ((), anchor_undo lease fresh sf, c)" for fresh sf
  by unfold_locales (auto intro: anchor_undo_keeps)

interpretation ctl_direct_begin: ctl_op mx_lease_direct_begin
  by unfold_locales (rule direct_begin_keeps)

interpretation ctl_direct_end: ctl_op "\<lambda>lease c. ((), lease, mx_lease_direct_end c)"
  by unfold_locales (auto simp: mx_lease_direct_end_def intro: same_lease_keeps)

interpretation ctl_transfer_get: ctl_op "\<lambda>lease c. case mx_lease_transfer_get lease c of (r, c') \<Rightarrow> (r, lease, c')"
  by unfold_locales (auto dest: transfer_get_lease intro: same_lease_keeps split: prod.split_asm)

interpretation ctl_transfer_put: ctl_op "\<lambda>lease c. ((), lease, mx_lease_transfer_put c)"
  by unfold_locales (auto simp: mx_lease_transfer_put_def intro: same_lease_keeps)

interpretation ctl_bind: ctl_op "\<lambda>lease c. case bind_locked v lease c req sf lf of (r, c', sl, ll) \<Rightarrow> (r, lease, c')"
  for v req sf lf
  by unfold_locales (auto dest: bind_locked_lease intro: same_lease_keeps split: prod.split_asm)

interpretation ctl_bind_undo: ctl_op "\<lambda>lease c. case bind_undo c req sf sl lf ll of (b, c') \<Rightarrow> (b, lease, c')"
  for req sf sl lf ll
  by unfold_locales (auto dest: bind_undo_lease intro: same_lease_keeps split: prod.split_asm)

interpretation ctl_unbind: ctl_op "\<lambda>lease c. ((), lease, unbound c)"
  by unfold_locales (auto simp: unbound_def intro: same_lease_keeps)

interpretation ctl_unbind_undo: ctl_op "\<lambda>lease c. case unbind_undo c old of (b, c') \<Rightarrow> (b, lease, c')" for old
  by unfold_locales (auto dest: unbind_undo_lease intro: same_lease_keeps split: prod.split_asm)

interpretation ctl_free: ctl_op "\<lambda>lease c. case mx_file_ctx_free lease c of (l, c', puts) \<Rightarrow> (puts, l, c')"
  by unfold_locales (auto intro: file_ctx_free_keeps split: prod.split_asm)

section \<open>All interleavings of the lock sections\<close>

type_synonym dev_state = "mx_device_lease \<times> mx_file_ctx list"

text \<open>
  Each rule is one critical section of \<open>lease.c\<close> run by the \<open>i\<close>-th open file. An undo section may run
  at any later moment; that of a transition carries the snapshots of the state it was called in.
\<close>

inductive ctl_reachable :: "dev_state \<Rightarrow> bool" where
  init: "w \<noteq> 0 \<Longrightarrow> ctl_reachable (mx_lease_init w, [])"
| open_file: "ctl_reachable (l, cs) \<Longrightarrow> ctl_reachable (l, cs @ [ctx_zero ioctl])"
| removal: "ctl_reachable (l, cs) \<Longrightarrow> ctl_reachable (mx_lease_mark_removed l, cs)"
| acquire: "\<lbrakk> ctl_reachable (l, cs); i < length cs;
      mx_lease_acquire l (cs ! i) ureq capable sf True mid = (ra, l', c') \<rbrakk> \<Longrightarrow> ctl_reachable (l', cs[i := c'])"
| acquire_fault: "\<lbrakk> ctl_reachable (l, cs); i < length cs; acquire_undo l (cs ! i) nh fresh g fl = (l', c') \<rbrakk>
    \<Longrightarrow> ctl_reachable (l', cs[i := c'])"
| transition: "\<lbrakk> ctl_reachable (l, cs); i < length cs;
      mx_lease_transition l (cs ! i) treq capable True mid = (rt, l', c') \<rbrakk> \<Longrightarrow> ctl_reachable (l', cs[i := c'])"
| transition_fault: "\<lbrakk> ctl_reachable (l0, cs0); j < length cs0;
      transition_locked l0 (cs0 ! j) req = (Inr out, l1, c1);
      ctl_reachable (l, cs); i < length cs;
      transition_undo l (cs ! i) (lease_state l0) (ctx_lease (cs0 ! j)) (lease_state l1) (ctx_lease c1) = (l', c') \<rbrakk>
    \<Longrightarrow> ctl_reachable (l', cs[i := c'])"
| anchor: "\<lbrakk> ctl_reachable (l, cs); i < length cs;
      mx_lease_anchor_slot_domain v l (cs ! i) dreq capable df True amid = (rd, l') \<rbrakk> \<Longrightarrow> ctl_reachable (l', cs)"
| anchor_fault: "ctl_reachable (l, cs) \<Longrightarrow> i < length cs \<Longrightarrow> ctl_reachable (anchor_undo l fresh fl, cs)"
| direct_begin: "\<lbrakk> ctl_reachable (l, cs); i < length cs; mx_lease_direct_begin l (cs ! i) = (ru, l', c') \<rbrakk>
    \<Longrightarrow> ctl_reachable (l', cs[i := c'])"
| direct_end: "ctl_reachable (l, cs) \<Longrightarrow> i < length cs \<Longrightarrow> ctl_reachable (l, cs[i := mx_lease_direct_end (cs ! i)])"
| transfer_get: "\<lbrakk> ctl_reachable (l, cs); i < length cs; mx_lease_transfer_get l (cs ! i) = (rp, c') \<rbrakk>
    \<Longrightarrow> ctl_reachable (l, cs[i := c'])"
| transfer_put: "ctl_reachable (l, cs) \<Longrightarrow> i < length cs \<Longrightarrow> ctl_reachable (l, cs[i := mx_lease_transfer_put (cs ! i)])"
| bind: "\<lbrakk> ctl_reachable (l, cs); i < length cs; bind_locked v l (cs ! i) preq bs bl = (rb, c', sl, ll) \<rbrakk>
    \<Longrightarrow> ctl_reachable (l, cs[i := c'])"
| bind_fault: "\<lbrakk> ctl_reachable (l, cs); i < length cs; bind_undo (cs ! i) preq bs sl bl ll = (ours, c') \<rbrakk>
    \<Longrightarrow> ctl_reachable (l, cs[i := c'])"
| unbind: "\<lbrakk> ctl_reachable (l, cs); i < length cs; unbind_check l (cs ! i) preq = OK \<rbrakk>
    \<Longrightarrow> ctl_reachable (l, cs[i := unbound (cs ! i)])"
| unbind_fault: "\<lbrakk> ctl_reachable (l, cs); i < length cs; unbind_undo (cs ! i) old = (restored, c') \<rbrakk>
    \<Longrightarrow> ctl_reachable (l, cs[i := c'])"
| close_file: "\<lbrakk> ctl_reachable (l, cs); i < length cs; mx_file_ctx_free l (cs ! i) = (l', c', puts) \<rbrakk>
    \<Longrightarrow> ctl_reachable (l', cs[i := c'])"

lemma dev_inv_init: "dev_inv (mx_lease_init w) []"
  by (simp add: dev_inv_def anchor_ok_def mx_lease_init_def lease_inv_zero) (simp add: sm_zero_def)

lemma dev_inv_open: "dev_inv l cs \<Longrightarrow> dev_inv l (cs @ [ctx_zero ioctl])"
  by (simp add: dev_inv_def ctx_zero_def lease_inv_open)

lemma ctl_reachable_inv: "ctl_reachable s \<Longrightarrow> case_prod dev_inv s"
proof (induction rule: ctl_reachable.induct)
  case (init w)
  then show ?case by (simp add: dev_inv_init)
next
  case (open_file l cs ioctl)
  then show ?case by (simp add: dev_inv_open)
next
  case (removal l cs)
  then show ?case by (auto simp: dev_inv_def anchor_ok_def mx_lease_mark_removed_def)
next
  case (transition_fault l0 cs0 j req out l1 c1 l cs i l' c')
  then show ?case
    using transition_undo_keeps [of l0 "cs0 ! j" "others j cs0" req out l1 c1 l "cs ! i" "others i cs" l' c']
      dev_inv_nth(1) [of j cs0 l0] dev_inv_nth(1) [of i cs l] dev_inv_nth(2) [of i cs l' c']
    by simp
next
  case (anchor l cs i v dreq capable df amid rd l')
  then show ?case
    using ctl_anchor.keeps_at [of l cs i v dreq capable df amid rd l' "cs ! i"] by simp
next
  case (anchor_fault l cs i fresh fl)
  then show ?case using ctl_anchor_undo.keeps_at [of l cs i fresh fl] by simp
next
  case (acquire_fault l cs i nh fresh g fl l' c')
  then show ?case using ctl_acquire_undo.keeps_at [of l cs i nh fresh g fl "()" l' c'] by simp
next
  case (direct_end l cs i)
  then show ?case using ctl_direct_end.keeps_at [of l cs i "()"] by simp
next
  case (transfer_get l cs i rp c')
  then show ?case using ctl_transfer_get.keeps_at [of l cs i rp l c'] by simp
next
  case (transfer_put l cs i)
  then show ?case using ctl_transfer_put.keeps_at [of l cs i "()"] by simp
next
  case (bind l cs i v preq bs bl rb c' sl ll)
  then show ?case using ctl_bind.keeps_at [of l cs i v preq bs bl rb l c'] by simp
next
  case (bind_fault l cs i preq bs sl bl ll ours c')
  then show ?case using ctl_bind_undo.keeps_at [of l cs i preq bs sl bl ll ours l c'] by simp
next
  case (unbind l cs i preq)
  then show ?case using ctl_unbind.keeps_at [of l cs i "()"] by simp
next
  case (unbind_fault l cs i old restored c')
  then show ?case using ctl_unbind_undo.keeps_at [of l cs i old restored l c'] by simp
next
  case (close_file l cs i l' c' puts)
  then show ?case using ctl_free.keeps_at [of l cs i puts l' c'] by simp
qed (auto intro: ctl_acquire.keeps_at ctl_transition.keeps_at ctl_direct_begin.keeps_at)

end
