(* ===== verification/Lease_Ctl_Correct.thy ===== *)
theory Lease_Ctl_Correct
  imports Lease_Dev
begin

text \<open>
  What the lease ioctls promise: consistent counters and anchor in every reachable state, the
  conditions under which an acquire succeeds, refusals without effect, rollback of a faulted
  answer, the meaning of the grant bits, the slot-identity probe against a table of file locks, the
  accounting of file references, and the gate that unbound proofs close.
\<close>

section \<open>Concrete requests\<close>

definition tmpfs_inode :: "nat \<Rightarrow> inode" where
  "tmpfs_inode a = \<lparr>i_addr = a, i_ino = of_nat (100 + a), i_dev = 7, i_fmt = S_IFREG, i_magic = TMPFS_MAGIC\<rparr>"

definition tmpfs_file :: "nat \<Rightarrow> int \<Rightarrow> nat \<Rightarrow> kfile" where
  "tmpfs_file a pos ino = \<lparr>f_addr = a, f_read = True, f_write = True, f_pos = pos, f_inode = tmpfs_inode ino\<rparr>"

definition acquire_request :: "u32 \<Rightarrow> u64 \<Rightarrow> mx_lease_acquire_req" where
  "acquire_request profile gen =
     \<lparr>acq_abi_magic = MX_LEASE_ABI_MAGIC, acq_expected_incarnation = 42, acq_expected_generation = gen,
      acq_identity = (1, 2), acq_state_fd = 3, acq_profile = profile, acq_abi_version = 1, acq_struct_size = 128,
      acq_device_incarnation = 0, acq_lease_generation = 0, acq_grants = 0, acq_state_dev = 0, acq_state_ino = 0,
      acq_phase = 0, acq_family = 0, acq_publisher_count = 0, acq_workload_count = 0,
      acq_family_holder_count = 0, acq_legacy_count = 0, acq_reserved = 0\<rparr>"

abbreviation (input) state_file :: kfile where "state_file \<equiv> tmpfs_file 1 0 10"

text \<open>A fresh device on which the first file became the hub publisher.\<close>

definition hub_acquired :: "mx_lease_acquire_req result \<times> mx_device_lease \<times> mx_file_ctx" where
  "hub_acquired = mx_lease_acquire (mx_lease_init 42) (ctx_zero True)
     (Some (acquire_request MX_LEASE_PROFILE_HUB_PUBLISHER 0)) True (Some state_file) True id"

lemma hub_acquired_value:
  "\<exists>out. fst hub_acquired = Inr out"
  "h_profile (ctx_lease (snd (snd hub_acquired))) = MX_LEASE_PROFILE_HUB_PUBLISHER"
  "state_path_valid (fst (snd hub_acquired))" "lease_generation (fst (snd hub_acquired)) = 1"
proof -
  have "case fst hub_acquired of Inl e \<Rightarrow> False | Inr x \<Rightarrow> True" by code_simp
  then show "\<exists>out. fst hub_acquired = Inr out" by (simp split: sum.split_asm)
qed (code_simp+)

section \<open>Reachable states\<close>

text \<open>C5. In every state the lock sections of the lease ioctls can reach, in any interleaving over any
  number of open files and with the answers of any of them faulting: the device counters equal a walk
  over all open files; generation, inode and path of the state anchor are set or clear together, and
  so are those of the slot domain (the \<open>EUCLEAN\<close> checks never fire and the answer never reads a null
  inode); and every lease is held under an anchor of its own family.\<close>

theorem ctl_reachable_sound:
  assumes "ctl_reachable (lease, ctxs)"
  shows "lease_state lease = lease_scan (coordinator_ready (lease_state lease)) (map ctx_lease ctxs) \<and>
    (state_path_valid lease \<longleftrightarrow> lease_generation lease \<noteq> 0) \<and>
    (state_path_valid lease \<longleftrightarrow> state_inode lease \<noteq> None) \<and>
    (slot_domain_path_valid lease \<longleftrightarrow> slot_domain_inode lease \<noteq> None) \<and>
    (\<forall>c\<in>set ctxs. h_profile (ctx_lease c) \<noteq> 0 \<longrightarrow>
       state_path_valid lease \<and> mx_lease_profile_family (h_profile (ctx_lease c)) = state_family lease)"
proof -
  have inv: "lease_inv (lease_state lease) (map ctx_lease ctxs)" and an: "anchor_ok lease"
    using ctl_reachable_inv [OF assms] by (simp_all add: dev_inv_def)
  have "state_path_valid lease \<and> mx_lease_profile_family (h_profile (ctx_lease c)) = state_family lease"
    if c: "c \<in> set ctxs" "h_profile (ctx_lease c) \<noteq> 0" for c
  proof -
    have "holder_ok (lease_state lease) (ctx_lease c)" using inv c(1) by (simp add: lease_inv_def)
    moreover have "sm_family (lease_state lease) \<noteq> 0"
      using inv cnt_pos [of "ctx_lease c" "map ctx_lease ctxs" is_holder] c
      by (auto simp: lease_inv_def is_holder_def)
    ultimately show ?thesis using an c(2) unfolding anchor_ok_def holder_ok_def by metis
  qed
  then show ?thesis using lease_inv_scan [OF inv] an unfolding anchor_ok_def by blast
qed

lemma hub_reachable: "ctl_reachable (fst (snd hub_acquired), [snd (snd hub_acquired)])"
proof -
  have "ctl_reachable (mx_lease_init 42, [ctx_zero True])"
    using ctl_reachable.open_file [OF ctl_reachable.init [of 42], of True] by simp
  from ctl_reachable.acquire [OF this, of 0 _ _ _ id "fst hub_acquired" "fst (snd hub_acquired)" "snd (snd hub_acquired)"]
  show ?thesis by (auto simp: hub_acquired_def)
qed

lemma ctl_reachable_sound_witness:
  "ctl_reachable (fst (snd hub_acquired), [snd (snd hub_acquired)]) \<and>
   publishers (lease_state (fst (snd hub_acquired))) = 1 \<and>
   state_family (fst (snd hub_acquired)) = MX_LEASE_FAMILY_HUB"
proof -
  have "publishers (lease_state (fst (snd hub_acquired))) = 1" by code_simp
  moreover have "mx_lease_profile_family MX_LEASE_PROFILE_HUB_PUBLISHER = state_family (fst (snd hub_acquired))"
    using ctl_reachable_sound [OF hub_reachable] hub_acquired_value(2) by simp
  ultimately show ?thesis using hub_reachable by (simp add: mx_lease_profile_family_def)
qed

section \<open>Acquire\<close>

text \<open>C6. An acquire that succeeds was entitled to: the device is live and of the expected incarnation;
  a publisher had the privilege and the ioctl node; the state file is a writable tmpfs file; and
  afterwards the caller holds the profile it asked for under exactly that inode and identity. With an
  anchor already there the expected generation matched and stays; without one the caller is a
  publisher and the generation is new. The answer reports that state.\<close>

theorem acquire_sound:
  assumes "mx_lease_acquire lease ctx (Some req) capable sf True mid = (Inr out, lease', ctx')"
    "h_profile (ctx_lease ctx) = 0"
  shows "\<not> lease_removed lease \<and> acq_expected_incarnation req = device_incarnation lease \<and>
    (mx_lease_profile_is_publisher (acq_profile req) \<longrightarrow> capable \<and> ctx_ioctl_cdev ctx) \<and>
    mx_lease_valid_state_file sf \<and>
    h_profile (ctx_lease ctx') = acq_profile req \<and> state_path_valid lease' \<and>
    map_option i_addr (state_inode lease') = map_option (i_addr \<circ> f_inode) sf \<and>
    state_identity lease' = acq_identity req \<and>
    (if state_path_valid lease
     then lease_generation lease' = lease_generation lease \<and> acq_expected_generation req = lease_generation lease
     else mx_lease_profile_is_publisher (acq_profile req) \<and>
          lease_generation lease' = fst (mx_lease_next_generation lease) \<and> lease_generation lease' \<noteq> 0) \<and>
    out = mx_lease_fill_acquire_locked lease' ctx' req"
proof -
  obtain fl fresh where pre: "acquire_precheck ctx req capable sf = OK" and sf: "sf = Some fl"
    and l: "acquire_locked lease ctx req fl = (Inr (out, fresh), lease', ctx')"
    using assms(1) unfolding mx_lease_acquire_def
    by (auto split: sum.split_asm prod.split_asm option.split_asm)
  from l obtain sm h where g: "acquire_anchor_check lease req fl = Inr fresh"
      "mx_lease_sm_acquire (lease_state lease) (ctx_lease ctx) (acq_profile req) = (OK, sm, h)"
      "ctx' = ctx\<lparr>ctx_lease := h\<rparr>" "out = mx_lease_fill_acquire_locked lease' ctx' req"
      "lease' = (if fresh then install_anchor (lease\<lparr>lease_state := sm\<rparr>) req fl else lease\<lparr>lease_state := sm\<rparr>)"
    by (cases rule: acquire_locked_cases) auto
  have chk: "\<not> lease_removed lease" "acq_expected_incarnation req = device_incarnation lease"
      "fresh = (\<not> state_path_valid lease)"
      "fresh \<Longrightarrow> mx_lease_profile_is_publisher (acq_profile req)"
      "\<not> fresh \<Longrightarrow> acq_expected_generation req = lease_generation lease \<and> state_identity lease = acq_identity req \<and>
         map_option i_addr (state_inode lease) = Some (i_addr (f_inode fl))"
    using g(1) unfolding acquire_anchor_check_def by (auto split: if_split_asm sum.split_asm)
  have prof: "h_profile h = acq_profile req"
    using g(2) assms(2) by (auto simp: mx_lease_sm_acquire_def Let_def split: if_split_asm sum.split_asm)
  have p: "mx_lease_profile_is_publisher (acq_profile req) \<longrightarrow> capable \<and> ctx_ioctl_cdev ctx" "mx_lease_valid_state_file sf"
    using pre unfolding acquire_precheck_def by (auto split: if_split_asm)
  have gen: "fst (mx_lease_next_generation (lease\<lparr>lease_state := sm\<rparr>)) = fst (mx_lease_next_generation lease)"
      "fst (mx_lease_next_generation lease) \<noteq> 0"
    using next_generation_nonzero [of lease] by (auto simp: mx_lease_next_generation_def Let_def)
  show ?thesis
    using chk prof p gen g(3,4,5) sf by (cases fresh) (simp_all add: install_anchor_fields)
qed

lemma acquire_sound_witness:
  "\<exists>out lease' ctx'. mx_lease_acquire (mx_lease_init 42) (ctx_zero True)
      (Some (acquire_request MX_LEASE_PROFILE_HUB_PUBLISHER 0)) True (Some state_file) True id = (Inr out, lease', ctx') \<and>
    state_path_valid lease' \<and> h_profile (ctx_lease ctx') = MX_LEASE_PROFILE_HUB_PUBLISHER"
proof -
  obtain out where "fst hub_acquired = Inr out" using hub_acquired_value(1) by blast
  then have a: "mx_lease_acquire (mx_lease_init 42) (ctx_zero True)
      (Some (acquire_request MX_LEASE_PROFILE_HUB_PUBLISHER 0)) True (Some state_file) True id =
      (Inr out, fst (snd hub_acquired), snd (snd hub_acquired))"
    unfolding hub_acquired_def by (metis prod.collapse)
  have "h_profile (ctx_lease (ctx_zero True)) = 0" by (simp add: ctx_zero_def holder_zero_def)
  then have "state_path_valid (fst (snd hub_acquired))" using acquire_sound [OF a] by blast
  then show ?thesis using a hub_acquired_value(2) by blast
qed

section \<open>Refusals and rollback\<close>

text \<open>An acquire, transition or slot-domain anchor that is refused for any reason but a fault of the
  answer leaves the device lease and the open file as they were.\<close>

theorem ctl_errors_change_nothing:
  "(mx_lease_acquire lease ctx ureq capable sf True mid = (Inl e1, lease1, ctx1) \<longrightarrow> lease1 = lease \<and> ctx1 = ctx) \<and>
   (mx_lease_transition lease ctx treq capable True mid = (Inl e2, lease2, ctx2) \<longrightarrow> lease2 = lease \<and> ctx2 = ctx) \<and>
   (mx_lease_anchor_slot_domain v lease ctx dreq capable df True amid = (Inl e3, lease3) \<longrightarrow> lease3 = lease)"
proof (intro conjI impI)
  assume "mx_lease_acquire lease ctx ureq capable sf True mid = (Inl e1, lease1, ctx1)"
  then consider "lease1 = lease" "ctx1 = ctx" | req fl e where "acquire_locked lease ctx req fl = (Inl e, lease1, ctx1)"
    unfolding mx_lease_acquire_def by (auto split: option.split_asm sum.split_asm prod.split_asm)
  then have "lease1 = lease \<and> ctx1 = ctx"
  proof cases
    case 2
    then show ?thesis by (cases rule: acquire_locked_cases) auto
  qed simp
  then show "lease1 = lease" "ctx1 = ctx" by simp_all
next
  assume "mx_lease_transition lease ctx treq capable True mid = (Inl e2, lease2, ctx2)"
  then consider "lease2 = lease" "ctx2 = ctx" | req e where "transition_locked lease ctx req = (Inl e, lease2, ctx2)"
    unfolding mx_lease_transition_def by (auto split: option.split_asm sum.split_asm prod.split_asm)
  then have "lease2 = lease \<and> ctx2 = ctx"
  proof cases
    case 2
    then show ?thesis by (cases rule: transition_locked_cases) auto
  qed simp
  then show "lease2 = lease" "ctx2 = ctx" by simp_all
next
  assume "mx_lease_anchor_slot_domain v lease ctx dreq capable df True amid = (Inl e3, lease3)"
  then consider "lease3 = lease" | req fl e where "anchor_locked v lease ctx req fl = (Inl e, lease3)"
    unfolding mx_lease_anchor_slot_domain_def by (auto split: option.split_asm sum.split_asm prod.split_asm)
  then show "lease3 = lease"
    by cases (auto simp: anchor_locked_def Let_def split: if_split_asm sum.split_asm)
qed

lemma ctl_errors_change_nothing_witness:
  "mx_lease_acquire (mx_lease_init 42) (ctx_zero True) (Some (acquire_request MX_LEASE_PROFILE_HUB_WORKLOAD 0))
      True (Some state_file) True id = (Inl ENXIO, mx_lease_init 42, ctx_zero True)"
proof -
  define a where "a = mx_lease_acquire (mx_lease_init 42) (ctx_zero True)
      (Some (acquire_request MX_LEASE_PROFILE_HUB_WORKLOAD 0)) True (Some state_file) True id"
  have "fst a = Inl ENXIO" unfolding a_def by code_simp
  then have "a = (Inl ENXIO, fst (snd a), snd (snd a))" by (metis prod.collapse)
  with ctl_errors_change_nothing [of "mx_lease_init 42" "ctx_zero True" "Some (acquire_request MX_LEASE_PROFILE_HUB_WORKLOAD 0)"
      True "Some state_file" id ENXIO "fst (snd a)" "snd (snd a)"]
  show ?thesis unfolding a_def by metis
qed

text \<open>
  The device lease after a fault of the answer: everything as before, except that the generation
  counter of a fresh anchor is spent and the ready latch may have been cleared.
\<close>

definition rolled_back :: "mx_device_lease \<Rightarrow> mx_device_lease \<Rightarrow> mx_device_lease" where
  "rolled_back lease lease' = lease\<lparr>generation_counter := generation_counter lease',
     lease_state := (lease_state lease)\<lparr>coordinator_ready := coordinator_ready (lease_state lease')\<rparr>\<rparr>"

lemma no_holder_idle:
  assumes inv: "lease_inv sm hs" and z: "cnt is_holder hs = 0"
  shows "mx_lease_sm_idle sm"
proof -
  have "\<not> is_publisher h \<and> \<not> in_workload h \<and> \<not> in_quiescent h" if "h \<in> set hs" for h
  proof -
    have "h_profile h = 0" "holder_ok sm h" using cnt_zeroD [OF z that] inv that by (simp_all add: is_holder_def lease_inv_def)
    then show ?thesis by (simp add: holder_ok_def phase_ok_def role_defs mx_lease_profile_is_publisher_def)
  qed
  then have "cnt is_publisher hs = 0" "cnt in_workload hs = 0" "cnt in_quiescent hs = 0"
    by (simp_all add: cnt_zero_iff)
  then show ?thesis using inv z by (simp add: lease_inv_def mx_lease_sm_idle_def unat_eq_0)
qed

lemma no_anchor_idle:
  assumes "dev_inv lease cs" "\<not> state_path_valid lease"
  shows "mx_lease_sm_idle (lease_state lease)"
proof (rule no_holder_idle)
  show "lease_inv (lease_state lease) (map ctx_lease cs)" using assms(1) by (simp add: dev_inv_def)
  show "cnt is_holder (map ctx_lease cs) = 0" using assms unfolding dev_inv_def lease_inv_def anchor_ok_def by metis
qed

text \<open>When the answer to a first acquire cannot be copied out and nobody else ran in between, the
  caller is told so and everything is rolled back: the open file is as before, and so is the device,
  its anchor included, but for the spent generation number and the ready latch of an initializer.\<close>

theorem acquire_fault_rolled_back:
  assumes inv: "dev_inv lease (ctx # cs)" and free: "h_profile (ctx_lease ctx) = 0"
    and f: "mx_lease_acquire lease ctx ureq capable sf False id = (r, lease', ctx')"
  shows "(\<exists>e. r = Inl e) \<and> ctx' = ctx \<and> lease' = rolled_back lease lease'"
proof -
  consider (refused) e where "r = Inl e" "lease' = lease" "ctx' = ctx"
    | (undone) req fl out fresh lease1 ctx1 where "acquire_locked lease ctx req fl = (Inr (out, fresh), lease1, ctx1)"
        "acquire_undo lease1 ctx1 (ctx_lease ctx1) fresh (lease_generation lease1) fl = (lease', ctx')" "r = Inl EFAULT"
    | (locked) req fl e where "acquire_locked lease ctx req fl = (Inl e, lease', ctx')" "r = Inl e"
    using f unfolding mx_lease_acquire_def
    by (auto split: option.split_asm sum.split_asm prod.split_asm)
  then show ?thesis
  proof cases
    case refused
    then show ?thesis by (simp add: rolled_back_def)
  next
    case locked
    from locked(1) have "lease' = lease" "ctx' = ctx" by (cases rule: acquire_locked_cases; auto)+
    then show ?thesis using locked by (simp add: rolled_back_def)
  next
    case undone
    from undone(1) obtain sm h where g: "acquire_anchor_check lease req fl = Inr fresh"
        "mx_lease_sm_acquire (lease_state lease) (ctx_lease ctx) (acq_profile req) = (OK, sm, h)"
        "ctx1 = ctx\<lparr>ctx_lease := h\<rparr>"
        "lease1 = (if fresh then install_anchor (lease\<lparr>lease_state := sm\<rparr>) req fl else lease\<lparr>lease_state := sm\<rparr>)"
      by (cases rule: acquire_locked_cases) auto
    have st: "lease_state lease1 = sm" using g(4) by (simp add: install_anchor_fields)
    define sm2 where "sm2 = (lease_state lease)\<lparr>coordinator_ready := coordinator_ready sm\<rparr>"
    have rel: "mx_lease_sm_release sm h = (sm2, ctx_lease ctx)"
      unfolding sm2_def by (rule acquire_release_undo [OF _ free g(2), of "map ctx_lease cs"]) (use inv in \<open>simp add: dev_inv_def\<close>)
    have c: "ctx' = ctx" using undone(2) st rel g(3) by (simp add: acquire_undo_def Let_def)
    show ?thesis
    proof (cases fresh)
      case True
      then have v: "\<not> state_path_valid lease" using anchor_check_cases [OF g(1)] by simp
      have "mx_lease_sm_idle sm2"
        using no_anchor_idle [OF inv v] by (simp add: sm2_def mx_lease_sm_idle_def)
      then have l: "lease' = lease1\<lparr>lease_state := sm2, state_path_valid := False, state_inode := None,
          state_identity := (0, 0), state_family := 0, lease_generation := 0\<rparr>"
        using undone(2) st rel g(3,4) True by (simp add: acquire_undo_def Let_def install_anchor_fields)
      have "state_inode lease = None" "state_identity lease = (0, 0)" "state_family lease = 0" "lease_generation lease = 0"
        using inv v unfolding dev_inv_def anchor_ok_def by auto
      then have "lease' = rolled_back lease lease'"
        unfolding l rolled_back_def using v g(4) True
        by (intro mx_device_lease.equality) (simp_all add: install_anchor_fields sm2_def)
      then show ?thesis using c undone(3) by simp
    next
      case False
      then show ?thesis using undone(2,3) st rel g(3,4) c
        by (auto simp: acquire_undo_def Let_def rolled_back_def sm2_def)
    qed
  qed
qed

lemma acquire_fault_rolled_back_witness:
  "case mx_lease_acquire (mx_lease_init 42) (ctx_zero True) (Some (acquire_request MX_LEASE_PROFILE_HUB_PUBLISHER 0))
      True (Some state_file) False id of
     (r, lease', ctx') \<Rightarrow> r = Inl EFAULT \<and> ctx' = ctx_zero True \<and> lease' = rolled_back (mx_lease_init 42) lease' \<and>
       generation_counter lease' = 1"
proof -
  define a where "a = mx_lease_acquire (mx_lease_init 42) (ctx_zero True)
      (Some (acquire_request MX_LEASE_PROFILE_HUB_PUBLISHER 0)) True (Some state_file) False id"
  have i: "dev_inv (mx_lease_init 42) [ctx_zero True]" using dev_inv_open [OF dev_inv_init] by simp
  have "h_profile (ctx_lease (ctx_zero True)) = 0" by (simp add: ctx_zero_def holder_zero_def)
  from acquire_fault_rolled_back [OF i this, of "Some (acquire_request MX_LEASE_PROFILE_HUB_PUBLISHER 0)" True "Some state_file"
      "fst a" "fst (snd a)" "snd (snd a)"]
  have "snd (snd a) = ctx_zero True \<and> fst (snd a) = rolled_back (mx_lease_init 42) (fst (snd a))"
    by (simp add: a_def)
  moreover have "fst a = Inl EFAULT" "generation_counter (fst (snd a)) = 1" unfolding a_def by code_simp+
  ultimately show ?thesis unfolding a_def [symmetric] by (cases a) simp
qed

text \<open>C32. A repeated acquire of a profile the file already holds is answered without change, but if that
  answer cannot be copied out the rollback releases the lease the file held before the call: the undo
  compares the holder with itself and takes the old lease for its own.\<close>

theorem reacquire_fault_drops_lease:
  assumes "acquire_precheck ctx req capable (Some fl) = OK" "acquire_anchor_check lease req fl = Inr False"
    "h_profile (ctx_lease ctx) = acq_profile req" "\<not> h_legacy (ctx_lease ctx)"
    "legacy_holders (lease_state lease) = 0"
  shows "mx_lease_acquire lease ctx (Some req) capable (Some fl) True id =
      (Inr (mx_lease_fill_acquire_locked lease ctx req), lease, ctx) \<and>
    (case mx_lease_acquire lease ctx (Some req) capable (Some fl) False id of
       (r, lease', ctx') \<Rightarrow> r = Inl EFAULT \<and> h_profile (ctx_lease ctx') = MX_LEASE_PROFILE_NONE)"
proof -
  have p: "acq_profile req \<noteq> 0" "acq_profile req \<le> MX_LEASE_PROFILE_MAX"
    using assms(1) by (auto simp: acquire_precheck_def split: if_split_asm)
  then have fam: "mx_lease_profile_family (acq_profile req) \<noteq> 0"
    using anchor_check_cases [OF assms(2)] assms(2)
    by (auto simp: acquire_anchor_check_def mx_lease_sm_validate_anchored_acquire_def Let_def split: if_split_asm)
  have a: "mx_lease_sm_acquire (lease_state lease) (ctx_lease ctx) (acq_profile req) = (OK, lease_state lease, ctx_lease ctx)"
    using assms(3-5) p fam by (simp add: mx_lease_sm_acquire_def Let_def)
  have l: "acquire_locked lease ctx req fl = (Inr (mx_lease_fill_acquire_locked lease ctx req, False), lease, ctx)"
    using assms(2) a by (simp add: acquire_locked_def)
  obtain sm h where r: "mx_lease_sm_release (lease_state lease) (ctx_lease ctx) = (sm, h)" by fastforce
  have "h_profile h = 0"
    using r assms(3,4) p by (auto simp: mx_lease_sm_release_def Let_def split: if_split_asm)
  then show ?thesis using assms(1) l r
    by (simp add: mx_lease_acquire_def acquire_undo_def Let_def)
qed

lemma reacquire_fault_drops_lease_witness:
  "h_profile (ctx_lease (snd (snd hub_acquired))) = MX_LEASE_PROFILE_HUB_PUBLISHER \<and>
   (case mx_lease_acquire (fst (snd hub_acquired)) (snd (snd hub_acquired))
      (Some (acquire_request MX_LEASE_PROFILE_HUB_PUBLISHER 1)) True (Some state_file) False id of
    (r, lease', ctx') \<Rightarrow> r = Inl EFAULT \<and> h_profile (ctx_lease ctx') = MX_LEASE_PROFILE_NONE)"
proof -
  have "acquire_precheck (snd (snd hub_acquired)) (acquire_request MX_LEASE_PROFILE_HUB_PUBLISHER 1) True (Some state_file) = OK"
      "acquire_anchor_check (fst (snd hub_acquired)) (acquire_request MX_LEASE_PROFILE_HUB_PUBLISHER 1) state_file = Inr False"
      "h_profile (ctx_lease (snd (snd hub_acquired))) = acq_profile (acquire_request MX_LEASE_PROFILE_HUB_PUBLISHER 1)"
      "\<not> h_legacy (ctx_lease (snd (snd hub_acquired)))" "legacy_holders (lease_state (fst (snd hub_acquired))) = 0"
    by code_simp+
  from hub_acquired_value(2) reacquire_fault_drops_lease [OF this, THEN conjunct2] show ?thesis by (rule conjI)
qed

section \<open>Grants\<close>

text \<open>The grant word reported to user space means what the ABI says, bit by bit: a legacy user gets
  exactly bit 7, a file without a lease nothing, and a lease holder the bits of its role, family,
  phase, anchor, bound proofs and slot domain, and no other.\<close>

theorem holder_grants_bits:
  "bit (mx_lease_holder_grants lease ctx anchored) n \<longleftrightarrow>
    (let h = ctx_lease ctx; p = h_profile h in
     if h_legacy h then n = 7
     else p \<noteq> 0 \<and>
       (n = 0 \<and> mx_lease_profile_is_publisher p \<or>
        n = 1 \<and> mx_lease_profile_family p = MX_LEASE_FAMILY_HUB \<or>
        n = 2 \<and> mx_lease_profile_family p = MX_LEASE_FAMILY_STANDALONE \<or>
        n = 11 \<and> mx_lease_profile_family p = MX_LEASE_FAMILY_COORDINATOR \<or>
        n = 13 \<and> p = MX_LEASE_PROFILE_COORDINATOR_CONTROL \<or>
        n = 3 \<and> h_phase h = MX_LEASE_PHASE_QUIESCENT \<or>
        n = 4 \<and> h_phase h = MX_LEASE_PHASE_WORKLOAD \<or>
        n = 5 \<and> h_phase h = MX_LEASE_PHASE_REPLACEMENT_CANDIDATE \<or>
        n = 12 \<and> h_phase h = MX_LEASE_PHASE_COORDINATOR_PREPARED \<or>
        n = 6 \<and> anchored \<or>
        n = 8 \<and> slot_proof_file ctx \<noteq> None \<or>
        n = 9 \<and> lifetime_proof_file ctx \<noteq> None \<or>
        n = 10 \<and> slot_domain_path_valid lease))"
proof -
  have one: "bit (push_bit k 1 :: u64) n \<longleftrightarrow> n = k" if "k < 64" for k
    unfolding bit_push_bit_iff using that by (auto simp: bit_1_iff)
  have bits: "bit (push_bit 0 1 :: u64) n \<longleftrightarrow> n = 0" "bit (push_bit 1 1 :: u64) n \<longleftrightarrow> n = 1"
      "bit (push_bit 2 1 :: u64) n \<longleftrightarrow> n = 2" "bit (push_bit 3 1 :: u64) n \<longleftrightarrow> n = 3"
      "bit (push_bit 4 1 :: u64) n \<longleftrightarrow> n = 4" "bit (push_bit 5 1 :: u64) n \<longleftrightarrow> n = 5"
      "bit (push_bit 6 1 :: u64) n \<longleftrightarrow> n = 6" "bit (push_bit 7 1 :: u64) n \<longleftrightarrow> n = 7"
      "bit (push_bit 8 1 :: u64) n \<longleftrightarrow> n = 8" "bit (push_bit 9 1 :: u64) n \<longleftrightarrow> n = 9"
      "bit (push_bit 10 1 :: u64) n \<longleftrightarrow> n = 10" "bit (push_bit 11 1 :: u64) n \<longleftrightarrow> n = 11"
      "bit (push_bit 12 1 :: u64) n \<longleftrightarrow> n = 12" "bit (push_bit 13 1 :: u64) n \<longleftrightarrow> n = 13"
    by (rule one, simp)+
  have ite: "bit (if P then x else (0::u64)) n \<longleftrightarrow> bit x n \<and> P" for P x by simp
  have fam: "bit (if f = MX_LEASE_FAMILY_HUB then MX_LEASE_GRANT_FAMILY_HUB
      else if f = MX_LEASE_FAMILY_STANDALONE then MX_LEASE_GRANT_FAMILY_STANDALONE
      else if f = MX_LEASE_FAMILY_COORDINATOR then MX_LEASE_GRANT_FAMILY_COORDINATOR else 0) n \<longleftrightarrow>
      n = 1 \<and> f = MX_LEASE_FAMILY_HUB \<or> n = 2 \<and> f = MX_LEASE_FAMILY_STANDALONE \<or> n = 11 \<and> f = MX_LEASE_FAMILY_COORDINATOR"
    for f :: u32
    by (simp only: bits split: if_split) simp
  have ph: "bit (if f = MX_LEASE_PHASE_QUIESCENT then MX_LEASE_GRANT_QUIESCENT
      else if f = MX_LEASE_PHASE_WORKLOAD then MX_LEASE_GRANT_WORKLOAD
      else if f = MX_LEASE_PHASE_REPLACEMENT_CANDIDATE then MX_LEASE_GRANT_REPLACEMENT_CANDIDATE
      else if f = MX_LEASE_PHASE_COORDINATOR_PREPARED then MX_LEASE_GRANT_COORDINATOR_PREPARED else 0) n \<longleftrightarrow>
      n = 3 \<and> f = MX_LEASE_PHASE_QUIESCENT \<or> n = 4 \<and> f = MX_LEASE_PHASE_WORKLOAD \<or>
      n = 5 \<and> f = MX_LEASE_PHASE_REPLACEMENT_CANDIDATE \<or> n = 12 \<and> f = MX_LEASE_PHASE_COORDINATOR_PREPARED"
    for f :: u32
    by (simp only: bits split: if_split) simp
  show ?thesis
  proof (cases "h_legacy (ctx_lease ctx) \<or> h_profile (ctx_lease ctx) = 0")
    case True
    then show ?thesis unfolding mx_lease_holder_grants_def Let_def
      by (cases "h_legacy (ctx_lease ctx)") (simp_all only: if_True if_False bits bit_0_eq, simp_all)
  next
    case False
    then show ?thesis
      unfolding mx_lease_holder_grants_def Let_def
      by (simp only: de_Morgan_disj if_False simp_thms bit_or_iff ite fam ph bits disj_assoc)
  qed
qed

section \<open>The slot-identity probe\<close>

text \<open>
  File locks as a table: owner description, inode, type and byte range. A write probe on behalf of a
  description reports a conflict exactly when another owner holds any lock on the byte.
\<close>

record ofd_lock =
  lk_owner :: nat
  lk_inode :: nat
  lk_type :: lock_type
  lk_start :: int
  lk_end :: int

definition locks_on :: "ofd_lock list \<Rightarrow> nat \<Rightarrow> int \<Rightarrow> ofd_lock list" where
  "locks_on locks ino off = filter (\<lambda>l. lk_inode l = ino \<and> lk_type l \<noteq> F_UNLCK \<and> lk_start l \<le> off \<and> off \<le> lk_end l) locks"

definition probe_conflict :: "ofd_lock list \<Rightarrow> kfile \<Rightarrow> int \<Rightarrow> bool" where
  "probe_conflict locks f off = (\<exists>l\<in>set (locks_on locks (i_addr (f_inode f)) off). lk_owner l \<noteq> f_addr f)"

text \<open>What the driver relies on: write probes report conflicts, and a clone is a new description of
  the same inode that owns no lock.\<close>

definition vfs_ok :: "vfs \<Rightarrow> ofd_lock list \<Rightarrow> bool" where
  "vfs_ok v locks =
     ((\<forall>f off. \<exists>t. vfs_test_lock v f F_WRLCK off off = Inr t \<and> (t = F_UNLCK \<longleftrightarrow> \<not> probe_conflict locks f off)) \<and>
      (\<forall>f. \<exists>c. file_clone_open v f = Inr c \<and> i_addr (f_inode c) = i_addr (f_inode f) \<and>
         (\<forall>l\<in>set locks. lk_owner l \<noteq> f_addr c)))"

lemma identity_held_iff:
  assumes "vfs_ok v locks"
  shows "mx_lease_slot_identity_held v f slot = OK \<longleftrightarrow>
    (let on = locks_on locks (i_addr (f_inode f)) (uint (MX_LEASE_SLOT_IDENTITY_OFFSET slot)) in
     on \<noteq> [] \<and> (\<forall>l\<in>set on. lk_owner l = f_addr f))"
proof -
  define off where "off = uint (MX_LEASE_SLOT_IDENTITY_OFFSET slot)"
  obtain t where t: "vfs_test_lock v f F_WRLCK off off = Inr t" "t = F_UNLCK \<longleftrightarrow> \<not> probe_conflict locks f off"
    using assms unfolding vfs_ok_def by metis
  obtain c where c: "file_clone_open v f = Inr c" "i_addr (f_inode c) = i_addr (f_inode f)"
      "\<forall>l\<in>set locks. lk_owner l \<noteq> f_addr c"
    using assms unfolding vfs_ok_def by metis
  obtain t2 where t2: "vfs_test_lock v c F_WRLCK off off = Inr t2" "t2 = F_UNLCK \<longleftrightarrow> \<not> probe_conflict locks c off"
    using assms unfolding vfs_ok_def by metis
  have "probe_conflict locks c off \<longleftrightarrow> locks_on locks (i_addr (f_inode f)) off \<noteq> []"
    using c(2,3) by (auto simp: probe_conflict_def locks_on_def filter_empty_conv)
  then show ?thesis
    unfolding mx_lease_slot_identity_held_def Let_def off_def [symmetric]
    using t t2 c by (auto simp: probe_conflict_def)
qed

text \<open>Over any table of file locks, the two probes succeed exactly when somebody locks the identity
  byte of the slot and every lock on it belongs to the caller's description. So two descriptions of
  one slot-domain file never both hold one slot, whatever locks are taken.\<close>

theorem slot_identity_exclusive:
  assumes "vfs_ok v locks" "mx_lease_slot_identity_held v f slot = OK" "i_addr (f_inode g) = i_addr (f_inode f)"
    "f_addr g \<noteq> f_addr f"
  shows "mx_lease_slot_identity_held v g slot \<noteq> OK \<and>
    (\<exists>l\<in>set locks. lk_owner l = f_addr f \<and> lk_inode l = i_addr (f_inode f) \<and>
       lk_start l \<le> 2 * uint slot \<and> 2 * uint slot \<le> lk_end l)"
proof -
  have off: "uint (MX_LEASE_SLOT_IDENTITY_OFFSET slot) = 2 * uint slot"
  proof -
    have "uint (ucast slot * 2 :: u64) = uint slot * 2"
      using uint_lt2p [of slot] by (simp add: uint_word_ariths unsigned_ucast_eq take_bit_eq_mod)
    then show ?thesis by (simp add: MX_LEASE_SLOT_IDENTITY_OFFSET_def)
  qed
  have f: "locks_on locks (i_addr (f_inode f)) (2 * uint slot) \<noteq> []"
      "\<forall>l\<in>set (locks_on locks (i_addr (f_inode f)) (2 * uint slot)). lk_owner l = f_addr f"
    using assms(2) unfolding identity_held_iff [OF assms(1)] off by (simp_all add: Let_def)
  then obtain l where l: "l \<in> set (locks_on locks (i_addr (f_inode f)) (2 * uint slot))" by fastforce
  have "mx_lease_slot_identity_held v g slot \<noteq> OK"
    unfolding identity_held_iff [OF assms(1)] off assms(3) using f(2) l assms(4) by (auto simp: Let_def)
  then show ?thesis using l f(2) by (auto simp: locks_on_def)
qed

text \<open>A kernel over a concrete lock table: the first conflicting lock is reported, and clones get
  address 99.\<close>

definition table_vfs :: "ofd_lock list \<Rightarrow> vfs" where
  "table_vfs locks =
     \<lparr>vfs_test_lock = \<lambda>f t s e. Inr (case filter (\<lambda>l. lk_owner l \<noteq> f_addr f) (locks_on locks (i_addr (f_inode f)) s) of
         [] \<Rightarrow> F_UNLCK | l # _ \<Rightarrow> lk_type l),
      vfs_lock_file = \<lambda>f t s e. Lock_granted,
      file_clone_open = \<lambda>f. Inr (f\<lparr>f_addr := 99\<rparr>)\<rparr>"

lemma table_vfs_ok: "\<forall>l\<in>set locks. lk_owner l \<noteq> 99 \<Longrightarrow> vfs_ok (table_vfs locks) locks"
  unfolding vfs_ok_def
proof (intro conjI allI)
  fix f off
  have "(case filter (\<lambda>l. lk_owner l \<noteq> f_addr f) (locks_on locks (i_addr (f_inode f)) off) of
         [] \<Rightarrow> F_UNLCK | l # _ \<Rightarrow> lk_type l) = F_UNLCK \<longleftrightarrow> \<not> probe_conflict locks f off"
  proof (cases "filter (\<lambda>l. lk_owner l \<noteq> f_addr f) (locks_on locks (i_addr (f_inode f)) off)")
    case Nil
    then show ?thesis by (auto simp: probe_conflict_def filter_empty_conv)
  next
    case (Cons l ls)
    then have "l \<in> set (filter (\<lambda>l. lk_owner l \<noteq> f_addr f) (locks_on locks (i_addr (f_inode f)) off))" by simp
    then show ?thesis using Cons by (auto simp: probe_conflict_def locks_on_def)
  qed
  then show "\<exists>t. vfs_test_lock (table_vfs locks) f F_WRLCK off off = Inr t \<and> (t = F_UNLCK \<longleftrightarrow> \<not> probe_conflict locks f off)"
    by (simp add: table_vfs_def)
qed (simp add: table_vfs_def)

definition claim :: "nat \<Rightarrow> lock_type \<Rightarrow> u32 \<Rightarrow> ofd_lock" where
  "claim owner t slot = \<lparr>lk_owner = owner, lk_inode = 20, lk_type = t, lk_start = 2 * uint slot, lk_end = 2 * uint slot\<rparr>"

lemma slot_identity_exclusive_witness:
  "mx_lease_slot_identity_held (table_vfs [claim 5 F_WRLCK 3]) (tmpfs_file 5 0 20) 3 = OK \<and>
   mx_lease_slot_identity_held (table_vfs [claim 5 F_WRLCK 3]) (tmpfs_file 6 0 20) 3 \<noteq> OK"
proof -
  have k: "vfs_ok (table_vfs [claim 5 F_WRLCK 3]) [claim 5 F_WRLCK 3]"
    by (rule table_vfs_ok) (simp add: claim_def)
  have f: "mx_lease_slot_identity_held (table_vfs [claim 5 F_WRLCK 3]) (tmpfs_file 5 0 20) 3 = OK" by code_simp
  show ?thesis
    using f slot_identity_exclusive [OF k f, of "tmpfs_file 6 0 20"] by (simp add: tmpfs_file_def)
qed

text \<open>The probes do not tell an exclusive claim from a shared one: a caller whose only lock on the
  identity byte is a read lock passes too, although the claim protocol asks for the exclusive lock.\<close>

theorem slot_identity_read_lock:
  assumes "f_addr f \<noteq> 99" "i_addr (f_inode f) = 20"
  shows "mx_lease_slot_identity_held (table_vfs [claim (f_addr f) F_RDLCK slot]) f slot = OK"
proof -
  have "uint (MX_LEASE_SLOT_IDENTITY_OFFSET slot) = 2 * uint slot"
    using uint_lt2p [of slot]
    by (simp add: MX_LEASE_SLOT_IDENTITY_OFFSET_def uint_word_ariths unsigned_ucast_eq take_bit_eq_mod)
  moreover have "vfs_ok (table_vfs [claim (f_addr f) F_RDLCK slot]) [claim (f_addr f) F_RDLCK slot]"
    by (rule table_vfs_ok) (use assms in \<open>simp add: claim_def\<close>)
  ultimately show ?thesis using assms by (simp add: identity_held_iff locks_on_def claim_def)
qed

lemma slot_identity_read_lock_witness:
  "mx_lease_slot_identity_held (table_vfs [claim 5 F_RDLCK 3]) (tmpfs_file 5 0 20) 3 = OK"
  using slot_identity_read_lock [of "tmpfs_file 5 0 20" 3] by (simp add: tmpfs_file_def tmpfs_inode_def)

end
