(* ===== verification/Lease_Proofs_Correct.thy ===== *)
theory Lease_Proofs_Correct
  imports Lease_Ctl_Correct
begin

text \<open>
  Reclamation proofs: no file reference is lost or dropped twice by binding and unbinding, and a
  workload whose proofs were taken away can neither start a direct call nor issue a transfer.
\<close>

section \<open>Accounting of file references\<close>

text \<open>The references a bind call acquires: the descriptors it fetched and the locks it pinned.\<close>

definition bind_gets ::
  "vfs \<Rightarrow> mx_device_lease \<Rightarrow> mx_file_ctx \<Rightarrow> mx_lease_proofs_req \<Rightarrow> (int \<Rightarrow> kfile option) \<Rightarrow> nat list" where
  "bind_gets v lease ctx req fget =
     (case bind_open ctx req fget of
        (Inl e, slot_file, lifetime_file) \<Rightarrow> put_files [slot_file, lifetime_file]
      | (Inr _, slot_file, lifetime_file) \<Rightarrow>
          (case bind_locked v lease ctx req slot_file lifetime_file of
             (_, _, slot_lock, lifetime_lock) \<Rightarrow>
               put_files [slot_file, slot_lock, lifetime_file, lifetime_lock]))"

text \<open>A lifetime source is kept only beside the lock pinned on it.\<close>

definition files_ok :: "mx_file_ctx \<Rightarrow> bool" where
  "files_ok ctx = (lifetime_source_file ctx \<noteq> None \<longrightarrow> lifetime_proof_file ctx \<noteq> None)"

lemma map_filter_opt: "List.map_filter id (x # xs) = (case x of None \<Rightarrow> [] | Some y \<Rightarrow> [y]) @ List.map_filter id xs"
  by (cases x) (simp_all add: map_filter_simps)

lemma put_files_Cons: "put_files (x # xs) = (case x of None \<Rightarrow> [] | Some y \<Rightarrow> [f_addr y]) @ put_files xs"
  by (cases x) (simp_all add: put_files_def map_filter_simps)

lemma put_files_Nil: "put_files [] = []"
  by (simp add: put_files_def map_filter_simps)

lemma ctx_files_mset:
  "mset (ctx_files ctx) = (case slot_source_file ctx of None \<Rightarrow> {#} | Some y \<Rightarrow> {#y#}) +
     (case slot_proof_file ctx of None \<Rightarrow> {#} | Some y \<Rightarrow> {#y#}) +
     (case lifetime_proof_file ctx of None \<Rightarrow> {#} | Some y \<Rightarrow> {#y#}) +
     (case lifetime_source_file ctx of None \<Rightarrow> {#} | Some y \<Rightarrow> {#y#})"
  by (simp add: ctx_files_def map_filter_opt map_filter_simps split: option.split)

lemma put_files_mset:
  "mset (put_files [a, b, c, d]) = (case a of None \<Rightarrow> {#} | Some y \<Rightarrow> {#f_addr y#}) +
     (case b of None \<Rightarrow> {#} | Some y \<Rightarrow> {#f_addr y#}) + (case c of None \<Rightarrow> {#} | Some y \<Rightarrow> {#f_addr y#}) +
     (case d of None \<Rightarrow> {#} | Some y \<Rightarrow> {#f_addr y#})"
  by (simp add: put_files_Cons put_files_Nil split: option.split)

lemma pin_lifetime_lock:
  "pin_lifetime v lease ctx req sf lf = Inr ll \<Longrightarrow> \<not> same_binding ctx req sf lf \<Longrightarrow>
   (ll = None \<longleftrightarrow> \<not> lifetime_ofd req \<or> lf = None)"
  by (cases "mx_lease_clone_with_ofd_lock v (the lf) F_RDLCK (uint (MX_LEASE_WORKLOAD_LIVENESS_OFFSET (lifetime_slot req)))
        (uint (MX_LEASE_WORKLOAD_LIVENESS_OFFSET (lifetime_slot req)))")
     (auto simp: pin_lifetime_def Let_def split: if_split_asm option.split_asm)

lemma four_files:
  assumes "slot_source_file ctx = map_option f_addr sf" "slot_proof_file ctx = map_option f_addr sl"
    "lifetime_source_file ctx = (if lifetime_ofd req then map_option f_addr lf else None)"
    "lifetime_proof_file ctx = map_option f_addr (if lifetime_ofd req then ll else lf)"
    "ll = None \<longleftrightarrow> \<not> lifetime_ofd req \<or> lf = None"
  shows "mset (ctx_files ctx) = mset (put_files [sf, sl, lf, ll])"
  using assms unfolding ctx_files_mset put_files_mset
  by (cases "lifetime_ofd req"; cases sf; cases sl; cases lf; cases ll) (simp_all add: add.commute)

text \<open>The files of a committed binding are exactly the four of the call.\<close>

lemma bind_commit_files:
  assumes "pin_lifetime v lease ctx req sf lf = Inr ll" "\<not> same_binding ctx req sf lf"
  shows "mset (ctx_files (bind_commit ctx req sf sl lf ll)) = mset (put_files [sf, sl, lf, ll])"
    "files_ok (bind_commit ctx req sf sl lf ll)"
proof -
  note ll = pin_lifetime_lock [OF assms]
  show "mset (ctx_files (bind_commit ctx req sf sl lf ll)) = mset (put_files [sf, sl, lf, ll])"
    by (rule four_files [where req = req]) (simp_all add: bind_commit_def ll)
  show "files_ok (bind_commit ctx req sf sl lf ll)"
    using ll by (auto simp: files_ok_def bind_commit_def split: if_split_asm)
qed

lemma bind_locked_cases:
  assumes "bind_locked v lease ctx req sf lf = (r, ctx', sl, ll)"
  obtains (refused) e where "r = Inl e" "ctx' = ctx"
    | (same) out where "r = Inr (out, False)" "ctx' = ctx"
    | (committed) out where "r = Inr (out, True)" "ctx' = bind_commit ctx req sf sl lf ll"
        "pin_lifetime v lease ctx req sf lf = Inr ll" "\<not> same_binding ctx req sf lf"
        "slot_source_file ctx = None" "slot_proof_file ctx = None" "lifetime_proof_file ctx = None"
proof (cases "bind_check lease ctx req sf lf")
  case (Inl e)
  then show ?thesis using assms refused [of e] by (simp add: bind_locked_def)
next
  case (Inr u)
  have free: "slot_source_file ctx = None" "slot_proof_file ctx = None" "lifetime_proof_file ctx = None"
    if "\<not> same_binding ctx req sf lf"
    using Inr that by (simp_all add: bind_check_def split: if_split_asm)
  show ?thesis
    using assms Inr refused same committed free unfolding bind_locked_def Let_def
    by (auto split: sum.split_asm if_split_asm)
qed

lemma bind_undo_files:
  assumes "bind_undo ctx req sf sl lf ll = (ours, ctx')" "pin_lifetime v lease c0 req sf lf = Inr ll" "\<not> same_binding c0 req sf lf"
  shows "mset (ctx_files ctx) = mset (ctx_files ctx') + mset (if ours then put_files [sf, sl, lf, ll] else [])"
    "files_ok ctx \<Longrightarrow> files_ok ctx'"
proof -
  show "mset (ctx_files ctx) = mset (ctx_files ctx') + mset (if ours then put_files [sf, sl, lf, ll] else [])"
  proof (cases ours)
    case True
    then have "slot_source_file ctx = map_option f_addr sf" "slot_proof_file ctx = map_option f_addr sl"
        "lifetime_source_file ctx = (if lifetime_ofd req then map_option f_addr lf else None)"
        "lifetime_proof_file ctx = map_option f_addr (if lifetime_ofd req then ll else lf)"
        "ctx_files ctx' = []"
      using assms(1) by (auto simp: bind_undo_def ctx_files_def map_filter_simps split: if_split_asm)
    then show ?thesis using True four_files [OF _ _ _ _ pin_lifetime_lock [OF assms(2,3)], of ctx sf sl] by simp
  next
    case False
    then show ?thesis using assms(1) by (auto simp: bind_undo_def split: if_split_asm)
  qed
  show "files_ok ctx \<Longrightarrow> files_ok ctx'"
    using assms(1) by (auto simp: bind_undo_def files_ok_def split: if_split_asm)
qed

text \<open>The context as the call leaves it at its first unlock, and whether it goes on to copy the answer
  out, so that other threads may change the context before a fault makes the call take the lock again.\<close>

definition bind_unlocked :: "vfs \<Rightarrow> mx_device_lease \<Rightarrow> mx_file_ctx \<Rightarrow> mx_lease_proofs_req \<Rightarrow> (int \<Rightarrow> kfile option) \<Rightarrow>
    mx_file_ctx \<times> bool" where
  "bind_unlocked v lease ctx req fget =
     (case bind_open ctx req fget of
        (Inl e, sf, lf) \<Rightarrow> (ctx, False)
      | (Inr _, sf, lf) \<Rightarrow> (case bind_locked v lease ctx req sf lf of (r, ctx1, sl, ll) \<Rightarrow> (ctx1, case r of Inl e \<Rightarrow> False | Inr x \<Rightarrow> True)))"

text \<open>C31. Binding neither leaks nor double-drops a file reference, on any path and whatever other threads
  do to the context between its two lock sections, an unbind or a rebind that drops the very files this
  call installed included. What the call itself changes in the context, before the first unlock and after
  a fault made it lock again, accounts with the references it dropped for exactly the references it
  fetched and pinned. And a faulted call with which nobody interfered leaves the context with the files
  it had before.\<close>

theorem bind_references_balanced:
  assumes "mx_lease_bind_proofs v lease ctx req fget ok mid = (r, ctx', puts)" "files_ok ctx"
    "bind_unlocked v lease ctx req fget = (c1, answered)"
    "c2 = (if answered \<and> \<not> ok then mid c1 else c1)"
  shows "mset (ctx_files ctx) + mset (bind_gets v lease ctx req fget) + mset (ctx_files c2) =
      mset (ctx_files c1) + mset (ctx_files ctx') + mset puts \<and>
    (\<not> ok \<and> mid c1 = c1 \<longrightarrow> mset (ctx_files ctx') = mset (ctx_files ctx))"
proof -
  obtain ro sf lf where o: "bind_open ctx req fget = (ro, sf, lf)" by (metis prod_cases3)
  show ?thesis
  proof (cases ro)
    case (Inl e)
    then show ?thesis using assms(1,3,4) o by (simp add: mx_lease_bind_proofs_def bind_gets_def bind_unlocked_def)
  next
    case (Inr u)
    obtain rl k sl ll where l: "bind_locked v lease ctx req sf lf = (rl, k, sl, ll)" by (metis prod_cases4)
    have g: "bind_gets v lease ctx req fget = put_files [sf, sl, lf, ll]" using o Inr l by (simp add: bind_gets_def)
    have k: "c1 = k" "answered = (case rl of Inl e \<Rightarrow> False | Inr x \<Rightarrow> True)"
      using assms(3) o Inr l by (simp_all add: bind_unlocked_def)
    note h = assms(1) [unfolded mx_lease_bind_proofs_def o Inr prod.case sum.case l Let_def]
    from l show ?thesis
    proof (cases rule: bind_locked_cases)
      case refused
      then show ?thesis using h g k assms(4) by simp
    next
      case same
      then show ?thesis using h g k assms(4) by (auto split: if_split_asm)
    next
      case (committed out)
      have empty: "mset (ctx_files ctx) = {#}"
        using committed(5-7) assms(2) by (simp add: ctx_files_mset files_ok_def)
      have c1: "mset (ctx_files c1) = mset (put_files [sf, sl, lf, ll])"
        unfolding k(1) committed(2) by (rule bind_commit_files(1) [OF committed(3,4)])
      show ?thesis
      proof (cases ok)
        case True
        then show ?thesis using h g k assms(4) committed(1) c1 empty by auto
      next
        case False
        obtain ours c3 where u: "bind_undo (mid c1) req sf sl lf ll = (ours, c3)" by fastforce
        have taken: "mset (ctx_files (mid c1)) = mset (ctx_files c3) + mset (if ours then put_files [sf, sl, lf, ll] else [])"
          by (rule bind_undo_files(1) [OF u committed(3,4)])
        have undone: "mid c1 = c1 \<Longrightarrow> ours" using u k(1) committed(2) by (auto simp: bind_undo_def bind_commit_def)
        have "ctx' = c3" "puts = (if ours then put_files [sf, sl, lf, ll] else [])"
          using h committed(1) False u k(1) by auto
        then show ?thesis using g k assms(4) committed(1) c1 empty taken undone False by auto
      qed
    qed
  qed
qed

text \<open>Unbinding hands back exactly the references the context held: they are dropped when the answer
  was delivered, and when it was not they are back in the context, unless another thread bound new
  proofs meanwhile, in which case they are dropped. A refused unbind touches nothing.\<close>

theorem unbind_references_balanced:
  assumes "mx_lease_unbind_proofs lease ctx req ok mid = (r, ctx', puts)"
  shows "(case r of
      Inl EFAULT \<Rightarrow> (if ctx_files (mid (unbound ctx)) = []
         then mset (ctx_files ctx') = mset (ctx_files ctx) \<and> puts = []
         else ctx' = mid (unbound ctx) \<and> mset puts = mset (ctx_files ctx))
    | Inl e \<Rightarrow> ctx' = ctx \<and> puts = []
    | Inr out \<Rightarrow> ctx_files ctx' = [] \<and> mset puts = mset (ctx_files ctx))"
proof -
  have none: "ctx_files c = [] \<longleftrightarrow> slot_source_file c = None \<and> slot_proof_file c = None \<and>
      lifetime_proof_file c = None \<and> lifetime_source_file c = None" for c
    by (auto simp: ctx_files_def map_filter_opt map_filter_simps split: option.splits)
  have unb: "ctx_files (unbound ctx) = []" by (simp add: unbound_def ctx_files_def map_filter_simps)
  have chk: "unbind_check lease ctx req \<noteq> Inl EFAULT"
    by (simp add: unbind_check_def Let_def)
  show ?thesis
  proof (cases "prf_slot_fd req \<noteq> - 1 \<or> prf_lifetime_fd req \<noteq> - 1")
    case True
    then have "r = Inl EINVAL \<and> ctx' = ctx \<and> puts = []" using assms by (auto simp: mx_lease_unbind_proofs_def)
    then show ?thesis by simp
  next
    case False
    show ?thesis
    proof (cases "unbind_check lease ctx req")
      case (Inl e)
      then have "r = Inl e \<and> ctx' = ctx \<and> puts = []" using assms False by (simp add: mx_lease_unbind_proofs_def)
      then show ?thesis using Inl chk by (auto split: errno.split)
    next
      case (Inr u)
      show ?thesis
      proof (cases ok)
        case True
        then show ?thesis using assms False Inr unb by (auto simp: mx_lease_unbind_proofs_def Let_def)
      next
        case bad: False
        obtain b c2 where u: "unbind_undo (mid (unbound ctx)) ctx = (b, c2)" by fastforce
        have r: "r = Inl EFAULT" "ctx' = c2" "puts = (if b then [] else ctx_files ctx)"
          using assms False Inr bad u by (simp_all add: mx_lease_unbind_proofs_def Let_def)
        have "b = (ctx_files (mid (unbound ctx)) = [])" using u by (auto simp: unbind_undo_def none split: if_split_asm)
        moreover have "b \<Longrightarrow> ctx_files c2 = ctx_files ctx" "\<not> b \<Longrightarrow> c2 = mid (unbound ctx)"
          using u by (auto simp: unbind_undo_def ctx_files_def map_filter_simps split: if_split_asm option.split)
        ultimately show ?thesis using r by auto
      qed
    qed
  qed
qed

text \<open>A coordinator controller on slot 3 and the kernel on which it holds the identity lock.\<close>

definition control_ctx :: mx_file_ctx where
  "control_ctx = (ctx_zero True)\<lparr>ctx_lease := \<lparr>h_profile = MX_LEASE_PROFILE_COORDINATOR_CONTROL,
     h_phase = MX_LEASE_PHASE_WORKLOAD, h_legacy = False\<rparr>\<rparr>"

definition coordinator_lease :: mx_device_lease where
  "coordinator_lease = (mx_lease_init 42)\<lparr>lease_state := sm_zero\<lparr>sm_family := 3, family_holders := 1, workloads := 1,
       coordinator_ready := True\<rparr>, state_path_valid := True, state_inode := Some (tmpfs_inode 10),
     slot_domain_path_valid := True, slot_domain_inode := Some (tmpfs_inode 20), state_identity := (1, 2),
     state_family := MX_LEASE_FAMILY_COORDINATOR, generation_counter := 1, lease_generation := 1\<rparr>"

definition bind_request :: mx_lease_proofs_req where
  "bind_request = \<lparr>prf_abi_magic = MX_LEASE_ABI_MAGIC, prf_expected_incarnation = 42, prf_expected_generation = 1,
     prf_identity = (1, 2), prf_slot_fd = 5, prf_lifetime_fd = - 1, prf_slot = 3, prf_operation = 1,
     prf_abi_version = 1, prf_struct_size = 128, prf_grants = 0, prf_slot_dev = 0, prf_slot_ino = 0,
     prf_lifetime_dev = 0, prf_lifetime_ino = 0, prf_reserved0 = 0, prf_reserved1 = 0, prf_reserved2 = 0\<rparr>"

definition slot_fget :: "int \<Rightarrow> kfile option" where
  "slot_fget fd = (if fd = 5 then Some (tmpfs_file 5 (MX_LEASE_SLOT_MARKER_BASE + 3) 20) else None)"

definition bound_run :: "bool \<Rightarrow> mx_lease_proofs_req result \<times> mx_file_ctx \<times> nat list" where
  "bound_run ok = mx_lease_bind_proofs (table_vfs [claim 5 F_WRLCK 3]) coordinator_lease control_ctx bind_request slot_fget ok id"

text \<open>Another thread unbinds, and so drops, the files 5 and 99 while the answer of the bind faults: the
  bind drops nothing any more.\<close>

lemma bind_references_balanced_witness:
  "mset (bind_gets (table_vfs [claim 5 F_WRLCK 3]) coordinator_lease control_ctx bind_request slot_fget) = {#5, 99#} \<and>
   snd (snd (mx_lease_bind_proofs (table_vfs [claim 5 F_WRLCK 3]) coordinator_lease control_ctx bind_request slot_fget
     False unbound)) = []"
proof -
  let ?v = "table_vfs [claim 5 F_WRLCK 3]"
  define b where "b = mx_lease_bind_proofs ?v coordinator_lease control_ctx bind_request slot_fget False unbound"
  define u where "u = bind_unlocked ?v coordinator_lease control_ctx bind_request slot_fget"
  have f: "files_ok control_ctx" "ctx_files control_ctx = []" by code_simp+
  have v: "snd u" "ctx_files (fst u) = [5, 99]" "ctx_files (unbound (fst u)) = []"
      "ctx_files (fst (snd b)) = []" "snd (snd b) = []"
    unfolding u_def b_def by code_simp+
  have e: "mx_lease_bind_proofs ?v coordinator_lease control_ctx bind_request slot_fget False unbound =
      (fst b, fst (snd b), snd (snd b))"
    "bind_unlocked ?v coordinator_lease control_ctx bind_request slot_fget = (fst u, snd u)"
    by (simp_all add: b_def u_def)
  from bind_references_balanced [OF e(1) f(1) e(2) refl] show ?thesis using v f(2) by (simp add: b_def)
qed

lemma unbind_references_balanced_witness:
  "fst (snd (bound_run True)) \<noteq> control_ctx \<and>
   snd (snd (mx_lease_unbind_proofs coordinator_lease (fst (snd (bound_run True)))
     (bind_request\<lparr>prf_slot_fd := - 1, prf_operation := 2\<rparr>) True id)) = [5, 99]"
proof -
  let ?c = "fst (snd (bound_run True))" and ?req = "bind_request\<lparr>prf_slot_fd := - 1, prf_operation := 2\<rparr>"
  define u where "u = mx_lease_unbind_proofs coordinator_lease ?c ?req True id"
  have "case fst u of Inl e \<Rightarrow> False | Inr x \<Rightarrow> True" unfolding u_def by code_simp
  then obtain out where "fst u = Inr out" by (auto split: sum.split_asm)
  then have "mx_lease_unbind_proofs coordinator_lease ?c ?req True id = (Inr out, fst (snd u), snd (snd u))"
    by (metis u_def prod.collapse)
  from unbind_references_balanced [OF this] have "mset (snd (snd u)) = mset (ctx_files ?c)" by simp
  moreover have "ctx_files ?c = [5, 99]" "ctx_files control_ctx = []" "snd (snd u) = [5, 99]" unfolding u_def by code_simp+
  ultimately show ?thesis unfolding u_def by (metis list.discI)
qed

section \<open>The gate\<close>

text \<open>C30. A transfer is issued only on a live device within an admitted direct call; it takes along the
  proofs bound at that moment, and they are there whenever the profile requires them: always for the
  coordinator's controllers and workloads, and for a hub or standalone workload from its first bind
  on. Its end restores the context exactly.\<close>

theorem transfer_carries_proofs:
  assumes "mx_lease_transfer_get lease ctx = (Inr tp, ctx')"
  shows "\<not> lease_removed lease \<and> direct_count ctx \<noteq> 0 \<and>
    tp_slot_proof tp = slot_proof_file ctx \<and> tp_lifetime_proof tp = lifetime_proof_file ctx \<and>
    (h_profile (ctx_lease ctx) = MX_LEASE_PROFILE_COORDINATOR_CONTROL \<longrightarrow> tp_slot_proof tp \<noteq> None) \<and>
    (h_profile (ctx_lease ctx) = MX_LEASE_PROFILE_COORDINATOR_WORKLOAD \<longrightarrow> tp_lifetime_proof tp \<noteq> None) \<and>
    (proofs_ever_bound ctx \<longrightarrow>
      (h_profile (ctx_lease ctx) = MX_LEASE_PROFILE_HUB_WORKLOAD \<longrightarrow> tp_slot_proof tp \<noteq> None) \<and>
      (h_profile (ctx_lease ctx) = MX_LEASE_PROFILE_STANDALONE_WORKLOAD \<longrightarrow> tp_lifetime_proof tp \<noteq> None)) \<and>
    mx_lease_transfer_put ctx' = ctx"
proof -
  have nz: "x + 1 \<noteq> 0" if "x \<noteq> U32_MAX" for x :: u32 using unat_inc_u32 [OF that] by auto
  have g: "\<not> lease_removed lease" "direct_count ctx \<noteq> 0" "ctx_proofs_valid ctx = OK" "transfer_count ctx \<noteq> U32_MAX"
      "tp = \<lparr>tp_slot_proof = slot_proof_file ctx, tp_lifetime_proof = lifetime_proof_file ctx\<rparr>"
      "ctx' = ctx\<lparr>transfer_count := transfer_count ctx + 1\<rparr>"
    using assms by (auto simp: mx_lease_transfer_get_def split: if_split_asm sum.split_asm)
  have "mx_lease_transfer_put ctx' = ctx" using g(6) nz [OF g(4)] by (simp add: mx_lease_transfer_put_def)
  then show ?thesis using g(1,2,3,5)
    by (auto simp: ctx_proofs_valid_def mx_lease_sm_validate_proofs_def split: if_split_asm)
qed

lemma transfer_carries_proofs_witness:
  "tp_slot_proof (case fst (mx_lease_transfer_get coordinator_lease ((fst (snd (bound_run True)))\<lparr>direct_count := 1\<rparr>)) of Inr tp \<Rightarrow> tp) \<noteq> None"
proof -
  let ?c = "(fst (snd (bound_run True)))\<lparr>direct_count := 1\<rparr>"
  have "case fst (mx_lease_transfer_get coordinator_lease ?c) of Inl e \<Rightarrow> False | Inr x \<Rightarrow> True" by code_simp
  then obtain tp where tp: "fst (mx_lease_transfer_get coordinator_lease ?c) = Inr tp" by (auto split: sum.split_asm)
  then have "mx_lease_transfer_get coordinator_lease ?c = (Inr tp, snd (mx_lease_transfer_get coordinator_lease ?c))"
    by (metis prod.collapse)
  note carries = transfer_carries_proofs [OF this]
  have "h_profile (ctx_lease ?c) = MX_LEASE_PROFILE_COORDINATOR_CONTROL" by code_simp
  then have "tp_slot_proof tp \<noteq> None" using carries by blast
  then show ?thesis using tp by simp
qed

text \<open>Detaching the proofs of a workload closes its gate until it binds again: it can issue no
  transfer, no direct call is admitted, and the refused admission leaves the count of running direct
  calls as it was.\<close>

theorem unbind_closes_gate:
  assumes "proofs_ever_bound ctx"
    "h_profile (ctx_lease ctx) = MX_LEASE_PROFILE_HUB_WORKLOAD \<or>
     h_profile (ctx_lease ctx) = MX_LEASE_PROFILE_STANDALONE_WORKLOAD \<or>
     h_profile (ctx_lease ctx) = MX_LEASE_PROFILE_COORDINATOR_CONTROL \<or>
     h_profile (ctx_lease ctx) = MX_LEASE_PROFILE_COORDINATOR_WORKLOAD"
  shows "(\<forall>tp. fst (mx_lease_transfer_get lease (unbound ctx)) \<noteq> Inr tp) \<and>
    snd (mx_lease_transfer_get lease (unbound ctx)) = unbound ctx \<and>
    (case mx_lease_direct_begin lease (unbound ctx) of
       (r, lease', ctx') \<Rightarrow> r \<noteq> OK \<and> direct_count ctx' = direct_count ctx)"
proof -
  have shut: "ctx_proofs_valid c = Inl EACCES"
    if "ctx_lease c = ctx_lease ctx" "slot_proof_file c = None" "lifetime_proof_file c = None" "proofs_ever_bound c" for c
    using that assms(2) by (auto simp: ctx_proofs_valid_def mx_lease_sm_validate_proofs_def)
  have u: "ctx_lease (unbound ctx) = ctx_lease ctx" "slot_proof_file (unbound ctx) = None"
      "lifetime_proof_file (unbound ctx) = None" "proofs_ever_bound (unbound ctx)" "direct_count (unbound ctx) = direct_count ctx"
    using assms(1) by (simp_all add: unbound_def)
  obtain r l c where d: "mx_lease_direct_begin lease (unbound ctx) = (r, l, c)" by (metis prod_cases3)
  from d have "r \<noteq> OK \<and> direct_count c = direct_count ctx"
  proof (cases rule: direct_begin_cases)
    case refused
    then show ?thesis using u by simp
  next
    case (authorized sm h)
    have "h = ctx_lease (unbound ctx)"
      using authorize_direct_cases [OF authorized(3)] assms(2) u(1) by auto
    then have "r = Inl EACCES" using authorized(5) shut u by simp
    then show ?thesis using authorized(6) u(5) by simp
  qed
  then show ?thesis using d shut [of "unbound ctx"] u by (simp add: mx_lease_transfer_get_def)
qed

lemma unbind_closes_gate_witness:
  "fst (mx_lease_transfer_get coordinator_lease ((fst (snd (bound_run True)))\<lparr>direct_count := 1\<rparr>)) \<noteq> Inl EACCES \<and>
   (\<forall>tp. fst (mx_lease_transfer_get coordinator_lease (unbound ((fst (snd (bound_run True)))\<lparr>direct_count := 1\<rparr>))) \<noteq> Inr tp)"
proof -
  let ?c = "(fst (snd (bound_run True)))\<lparr>direct_count := 1\<rparr>"
  have "proofs_ever_bound ?c" "h_profile (ctx_lease ?c) = MX_LEASE_PROFILE_COORDINATOR_CONTROL"
      "case fst (mx_lease_transfer_get coordinator_lease ?c) of Inl e \<Rightarrow> False | Inr x \<Rightarrow> True" by code_simp+
  then show ?thesis using unbind_closes_gate [of ?c coordinator_lease] by (auto split: sum.split_asm)
qed

end
