(* ===== verification/Prp.thy ===== *)
theory Prp
  imports Mx_Prelude
begin

text \<open>
  The descriptor (PRP) lists of \<open>core_common.c\<close>. A DMA mapping is the list of its entries; a
  pointer into it is the suffix it points to, so \<open>sg_next\<close> is the tail and \<open>NULL\<close> the empty list.
  \<open>size_t\<close> and \<open>dma_addr_t\<close> values are naturals: a mapping never extends past the 64-bit
  address space, so none of the sums below wraps.

  The device side is stated from the contract the code documents: a descriptor carries no length,
  the first one covers the bytes up to the next \<open>dma_size\<close> boundary, every later one a full
  \<open>dma_size\<close>, and the last slot of a full list with more to come is the address of the next list.
\<close>

section \<open>The code\<close>

record scatterlist =
  sg_dma_address :: nat
  sg_dma_len :: nat

text \<open>The loop of \<open>mx_get_list_count\<close>; \<open>None\<close> is a loop that never ends.\<close>

partial_function (option) list_count_loop :: "nat \<Rightarrow> nat \<Rightarrow> nat \<Rightarrow> nat option" where
  "list_count_loop total_desc_cnt descs_per_list list_cnt =
     (if descs_per_list < total_desc_cnt
      then list_count_loop (total_desc_cnt - (descs_per_list - 1)) descs_per_list (list_cnt + 1)
      else Some list_cnt)"

declare list_count_loop.simps [code]

definition mx_get_list_count :: "nat \<Rightarrow> nat \<Rightarrow> nat option" where
  "mx_get_list_count total_desc_cnt descs_per_list = list_count_loop total_desc_cnt descs_per_list 1"

primrec sg_locate_loop :: "scatterlist list \<Rightarrow> nat \<Rightarrow> nat \<Rightarrow> (scatterlist list \<times> nat) result" where
  "sg_locate_loop [] acc byte_offset = Inl EINVAL"
| "sg_locate_loop (sg # sgs) acc byte_offset =
     (if byte_offset < acc + sg_dma_len sg then Inr (sg # sgs, byte_offset - acc)
      else sg_locate_loop sgs (acc + sg_dma_len sg) byte_offset)"

definition mx_sg_locate :: "scatterlist list \<Rightarrow> nat \<Rightarrow> (scatterlist list \<times> nat) result" where
  "mx_sg_locate sgt byte_offset = sg_locate_loop sgt 0 byte_offset"

definition prp_chunk_len_at :: "nat \<Rightarrow> nat \<Rightarrow> nat" where
  "prp_chunk_len_at dma_addr dma_size =
     (let r = dma_addr AND (dma_size - 1) in if r \<noteq> 0 then dma_size - r else dma_size)"

definition mx_prp_first_chunk_len :: "scatterlist \<Rightarrow> nat \<Rightarrow> nat \<Rightarrow> nat" where
  "mx_prp_first_chunk_len sg intra_off dma_size =
     min (prp_chunk_len_at (sg_dma_address sg + intra_off) dma_size) (sg_dma_len sg - intra_off)"

definition DIV_ROUND_UP :: "nat \<Rightarrow> nat \<Rightarrow> nat" where
  "DIV_ROUND_UP n d = (n + d - 1) div d"

primrec desc_count_loop :: "scatterlist list \<Rightarrow> nat \<Rightarrow> nat \<Rightarrow> nat \<Rightarrow> nat \<Rightarrow> nat result" where
  "desc_count_loop [] intra_off remaining dma_size tot =
     (if remaining \<noteq> 0 then Inl EINVAL else Inr tot)"
| "desc_count_loop (sg # sgs) intra_off remaining dma_size tot =
     (if remaining = 0 then Inr tot
      else
        let avail = sg_dma_len sg - intra_off;
            consumed = min avail remaining;
            first_len = min (mx_prp_first_chunk_len sg intra_off dma_size) consumed;
            tot = tot + 1;
            tot = (if first_len < consumed
                     then tot + DIV_ROUND_UP (consumed - first_len) dma_size else tot);
            remaining = remaining - consumed
        in if remaining = 0 then Inr tot
           else if (sg_dma_address sg + intra_off + consumed) AND (dma_size - 1) \<noteq> 0 then Inl EINVAL
           else if sgs \<noteq> [] \<and> sg_dma_address (hd sgs) AND (dma_size - 1) \<noteq> 0 then Inl EINVAL
           else desc_count_loop sgs 0 remaining dma_size tot)"

definition mx_get_total_desc_count :: "scatterlist list \<Rightarrow> nat \<Rightarrow> nat \<Rightarrow> nat \<Rightarrow> nat result" where
  "mx_get_total_desc_count sg intra_off byte_size dma_size =
     (if byte_size = 0 then Inl EINVAL else desc_count_loop sg intra_off byte_size dma_size 0)"

text \<open>
  \<open>desc_list_alloc\<close>: the two pointer arrays, then one page of the pool per list. \<open>pool i\<close> is what
  the \<open>i\<close>-th \<open>dma_pool_alloc\<close> returns: a page (with whatever it contains) and its bus address.
\<close>

definition desc_list_alloc ::
  "bool \<Rightarrow> bool \<Rightarrow> (nat \<Rightarrow> (nat list \<times> nat) option) \<Rightarrow> nat \<Rightarrow> (nat list list \<times> nat list) result" where
  "desc_list_alloc va_ok ba_ok pool list_cnt =
     (if \<not> va_ok then Inl ENOMEM
      else if \<not> ba_ok then Inl ENOMEM
      else if list_all (\<lambda>i. pool i \<noteq> None) [0..<list_cnt]
      then Inr (map (\<lambda>i. fst (the (pool i))) [0..<list_cnt],
                map (\<lambda>i. snd (the (pool i))) [0..<list_cnt])
      else Inl ENOMEM)"

text \<open>
  A store to \<open>desc_list_va[li][di]\<close>. \<open>None\<close> is a store outside the allocated pages, which in C is
  undefined behaviour; a value \<open>Some (Inl e)\<close> is the code's own error return.
\<close>

definition desc_store :: "nat list list \<Rightarrow> nat \<Rightarrow> nat \<Rightarrow> nat \<Rightarrow> nat list list option" where
  "desc_store pages li di v =
     (if li < length pages \<and> di < length (pages ! li) then Some (pages[li := (pages ! li)[di := v]])
      else None)"

text \<open>The link to the next list, when the last slot is reached with more than one entry to go.\<close>

definition desc_link ::
  "nat \<Rightarrow> nat \<Rightarrow> nat list \<Rightarrow> nat list list \<Rightarrow> nat \<Rightarrow> nat \<Rightarrow> nat \<Rightarrow>
     (nat list list \<times> nat \<times> nat) result option" where
  "desc_link per list_cnt bas pages li di tot =
     (if di = per - 1 \<and> 1 < tot then
        if list_cnt \<le> li + 1 then Some (Inl EINVAL)
        else (case desc_store pages li di (bas ! (li + 1)) of
                None \<Rightarrow> None
              | Some pages' \<Rightarrow> Some (Inr (pages', li + 1, 0)))
      else Some (Inr (pages, li, di)))"

text \<open>
  The emit loop of \<open>mx_desc_list_init\<close>: \<open>sgs\<close> is the current entry and its successors, the other
  arguments are the C locals of the same name, \<open>tot\<close> is \<open>total_desc_cnt\<close> (\<open>per\<close> is \<open>descs_per_list\<close>).
\<close>

function desc_emit_loop ::
  "nat \<Rightarrow> nat \<Rightarrow> nat \<Rightarrow> nat list \<Rightarrow> scatterlist list \<Rightarrow> nat \<Rightarrow> nat \<Rightarrow> nat \<Rightarrow> nat \<Rightarrow> nat \<Rightarrow> nat \<Rightarrow> nat \<Rightarrow>
     nat list list \<Rightarrow> (nat list list) result option" where
  "desc_emit_loop dma_size per list_cnt bas sgs dma_addr entry_avail remaining len li di tot pages =
     (if remaining = 0 then Some (Inr pages)
      else case desc_link per list_cnt bas pages li di tot of
        None \<Rightarrow> None
      | Some (Inl e) \<Rightarrow> Some (Inl e)
      | Some (Inr (pages1, li1, di1)) \<Rightarrow>
          if per \<le> di1 \<or> tot = 0 then Some (Inl EINVAL)
          else case desc_store pages1 li1 di1 dma_addr of
            None \<Rightarrow> None
          | Some pages2 \<Rightarrow>
              (let dma_addr1 = dma_addr + len; avail1 = entry_avail - len;
                   remaining1 = remaining - len; total1 = tot - 1
               in if remaining1 = 0 then Some (Inr pages2)
                  else if avail1 = 0 \<and> tl sgs = [] then Some (Inl EINVAL)
                  else
                    let sgs1 = (if avail1 = 0 then tl sgs else sgs);
                        dma_addr2 = (if avail1 = 0 then sg_dma_address (hd sgs1) else dma_addr1);
                        avail2 = (if avail1 = 0 then sg_dma_len (hd sgs1) else avail1)
                    in if dma_addr2 AND (dma_size - 1) \<noteq> 0 then Some (Inl EINVAL)
                       else desc_emit_loop dma_size per list_cnt bas sgs1 dma_addr2 avail2 remaining1
                              (min dma_size (min avail2 remaining1)) li1 (di1 + 1) total1 pages2))"
  by pat_completeness auto
termination
  by (relation "measure (\<lambda>(dma_size, per, list_cnt, bas, sgs, dma_addr, entry_avail, remaining, len,
        li, di, tot, pages). tot)") auto

definition mx_desc_list_init ::
  "bool \<Rightarrow> bool \<Rightarrow> (nat \<Rightarrow> (nat list \<times> nat) option) \<Rightarrow> scatterlist list \<Rightarrow> nat \<Rightarrow> nat \<Rightarrow> nat \<Rightarrow> nat \<Rightarrow>
     bool \<Rightarrow> nat \<Rightarrow> (nat list list \<times> nat list) result option" where
  "mx_desc_list_init va_ok ba_ok pool sgt byte_offset sz dma_size per skip_first_entry desc_cnt =
     (case mx_sg_locate sgt byte_offset of
        Inl e \<Rightarrow> Some (Inl e)
      | Inr (sgs, intra_off) \<Rightarrow>
          if desc_cnt = 0 then Some (Inl EINVAL)
          else case mx_get_list_count desc_cnt per of
            None \<Rightarrow> None
          | Some list_cnt \<Rightarrow>
              (case desc_list_alloc va_ok ba_ok pool list_cnt of
                 Inl e \<Rightarrow> Some (Inl e)
               | Inr (pages, bas) \<Rightarrow>
                   (let sg = hd sgs;
                        dma_addr = sg_dma_address sg + intra_off;
                        avail = sg_dma_len sg - intra_off;
                        len = min (mx_prp_first_chunk_len sg intra_off dma_size) (min avail sz);
                        emit = (\<lambda>sgs dma_addr avail remaining len.
                          map_option (map_sum id (\<lambda>pages. (pages, bas)))
                            (desc_emit_loop dma_size per list_cnt bas sgs dma_addr avail remaining
                               len 0 0 desc_cnt pages))
                    in if \<not> skip_first_entry then emit sgs dma_addr avail sz len
                       else
                         let dma_addr1 = dma_addr + len; avail1 = avail - len;
                             remaining1 = sz - len;
                             move = (avail1 = 0 \<and> 0 < remaining1)
                         in if move \<and> tl sgs = [] then Some (Inl EINVAL)
                            else
                              let sgs1 = (if move then tl sgs else sgs);
                                  dma_addr2 = (if move then sg_dma_address (hd sgs1) else dma_addr1);
                                  avail2 = (if move then sg_dma_len (hd sgs1) else avail1)
                              in if dma_addr2 AND (dma_size - 1) \<noteq> 0 then Some (Inl EINVAL)
                                 else emit sgs1 dma_addr2 avail2 remaining1
                                        (min dma_size (min avail2 remaining1)))))"

end
