(* ===== verification/Prp_Correct.thy ===== *)
theory Prp_Correct
  imports Prp
begin

text \<open>
  Correctness of the descriptor lists. \<open>sg_chunks\<close> is the reference: the chunks of a slice, cut at
  the boundaries of the device's chunk size. The count returns their number and accepts exactly
  layouts the device can express (\<open>prp_ok\<close>); the emit walk stores their addresses, with links where
  a list is full (\<open>chain_ok\<close>); the device, which follows the links and derives the lengths itself
  (\<open>device_chain\<close>, \<open>device_bytes\<close>), reads back the bytes of the slice.
\<close>

section \<open>The list count\<close>

definition lists_needed :: "nat \<Rightarrow> nat \<Rightarrow> nat" where
  "lists_needed per t = (if t \<le> per then 1 else 1 + DIV_ROUND_UP (t - per) (per - 1))"

lemma DIV_ROUND_UP_step: "0 < d \<Longrightarrow> 0 < n \<Longrightarrow> DIV_ROUND_UP n d = Suc (DIV_ROUND_UP (n - d) d)"
proof -
  assume d: "0 < d" "0 < n"
  show ?thesis
  proof (cases "n \<le> d")
    case True
    with d have "(n + d - 1) div d = 1" by (intro div_nat_eqI) auto
    with True d show ?thesis by (simp add: DIV_ROUND_UP_def)
  next
    case False
    then have e: "n + d - 1 = (n - d + d - 1) + d" using d by linarith
    have "(n - d + d - 1 + d) div d = Suc ((n - d + d - 1) div d)"
      using d by (simp only: div_add_self2 Suc_eq_plus1)
    then show ?thesis unfolding DIV_ROUND_UP_def e .
  qed
qed

lemma DIV_ROUND_UP_0 [simp]: "0 < d \<Longrightarrow> DIV_ROUND_UP 0 d = 0"
  by (simp add: DIV_ROUND_UP_def)

lemma lists_needed_step:
  "2 \<le> per \<Longrightarrow> per < t \<Longrightarrow> lists_needed per t = Suc (lists_needed per (t - (per - 1)))"
proof -
  assume p: "2 \<le> per" "per < t"
  have "DIV_ROUND_UP (t - per) (per - 1) = Suc (DIV_ROUND_UP (t - per - (per - 1)) (per - 1))"
    using p by (intro DIV_ROUND_UP_step) auto
  moreover have "t - per - (per - 1) = t - (per - 1) - per" using p by simp
  ultimately show ?thesis using p by (auto simp: lists_needed_def)
qed

lemma list_count_loop_eq:
  "2 \<le> per \<Longrightarrow> list_count_loop t per c = Some (c + lists_needed per t - 1)"
proof (induction t arbitrary: c rule: less_induct)
  case (less t)
  show ?case
  proof (cases "per < t")
    case True
    with less.prems less.IH [of "t - (per - 1)" "c + 1"]
    have "list_count_loop (t - (per - 1)) per (c + 1) =
        Some (c + 1 + lists_needed per (t - (per - 1)) - 1)" by simp
    with True show ?thesis
      by (subst list_count_loop.simps) (simp add: lists_needed_step less.prems)
  next
    case False
    then show ?thesis by (subst list_count_loop.simps) (simp add: lists_needed_def)
  qed
qed

section \<open>Chunks\<close>

text \<open>The chunks of \<open>c\<close> contiguous bytes at bus address \<open>a\<close>: each ends at the next boundary.\<close>

function entry_chunks :: "nat \<Rightarrow> nat \<Rightarrow> nat \<Rightarrow> (nat \<times> nat) list" where
  "entry_chunks d a c =
     (let l = min (prp_chunk_len_at a d) c
      in if l = 0 then [] else (a, l) # entry_chunks d (a + l) (c - l))"
  by pat_completeness auto
termination
  by (relation "measure (\<lambda>(d, a, c). c)") auto

declare entry_chunks.simps [simp del]

fun sg_chunks :: "nat \<Rightarrow> scatterlist list \<Rightarrow> nat \<Rightarrow> nat \<Rightarrow> (nat \<times> nat) list" where
  "sg_chunks d [] intra remaining = []"
| "sg_chunks d (sg # sgs) intra remaining =
     entry_chunks d (sg_dma_address sg + intra) (min (sg_dma_len sg - intra) remaining) @
     (if sg_dma_len sg - intra < remaining
      then sg_chunks d sgs 0 (remaining - (sg_dma_len sg - intra)) else [])"

definition chunk_bytes :: "(nat \<times> nat) list \<Rightarrow> nat list" where
  "chunk_bytes cs = concat (map (\<lambda>(a, l). [a..<a + l]) cs)"

definition sg_bytes :: "scatterlist list \<Rightarrow> nat list" where
  "sg_bytes sgs = concat (map (\<lambda>sg. [sg_dma_address sg..<sg_dma_address sg + sg_dma_len sg]) sgs)"

text \<open>What the device can express: after the first chunk every chunk starts on a boundary, and all
  but the last are full.\<close>

fun prp_tail_ok :: "nat \<Rightarrow> (nat \<times> nat) list \<Rightarrow> bool" where
  "prp_tail_ok d [] = True"
| "prp_tail_ok d ((a, l) # cs) =
     (a mod d = 0 \<and> l \<le> d \<and> (cs \<noteq> [] \<longrightarrow> l = d) \<and> prp_tail_ok d cs)"

fun prp_ok :: "nat \<Rightarrow> (nat \<times> nat) list \<Rightarrow> bool" where
  "prp_ok d [] = True"
| "prp_ok d ((a, l) # cs) =
     (l \<le> prp_chunk_len_at a d \<and> (cs \<noteq> [] \<longrightarrow> l = prp_chunk_len_at a d) \<and> prp_tail_ok d cs)"

lemma and_mod: "(a :: nat) AND (2 ^ k - 1) = a mod 2 ^ k"
  by (metis mask_eq_exp_minus_1 take_bit_eq_mask take_bit_eq_mod)

lemmas and_mod_Suc = and_mod [unfolded One_nat_def]

lemma chunk_len_eq: "prp_chunk_len_at a (2 ^ k) = 2 ^ k - a mod 2 ^ k"
  unfolding prp_chunk_len_at_def and_mod Let_def by simp

lemma chunk_len_pos: "0 < prp_chunk_len_at a (2 ^ k)"
  by (simp add: chunk_len_eq)

lemma chunk_len_aligned: "a mod 2 ^ k = 0 \<Longrightarrow> prp_chunk_len_at a (2 ^ k) = 2 ^ k"
  by (simp add: chunk_len_eq)

lemma chunk_end_aligned: "(a + prp_chunk_len_at a (2 ^ k)) mod 2 ^ k = 0"
proof -
  have "a mod 2 ^ k < 2 ^ k" by simp
  then have "a + (2 ^ k - a mod 2 ^ k) = (a - a mod 2 ^ k) + 2 ^ k" by (simp add: less_imp_le)
  moreover have "(a - a mod 2 ^ k) mod 2 ^ k = 0" by (simp add: minus_mod_eq_mult_div)
  ultimately show ?thesis unfolding chunk_len_eq by (simp only: mod_add_self2)
qed

lemma entry_chunks_0 [simp]: "entry_chunks d a 0 = []"
  by (simp add: entry_chunks.simps)

lemma entry_chunks_pos:
  "0 < c \<Longrightarrow> entry_chunks (2 ^ k) a c =
     (a, min (prp_chunk_len_at a (2 ^ k)) c) #
       entry_chunks (2 ^ k) (a + min (prp_chunk_len_at a (2 ^ k)) c) (c - min (prp_chunk_len_at a (2 ^ k)) c)"
  using chunk_len_pos [of a k] by (subst entry_chunks.simps) (simp add: Let_def)

lemma entry_chunks_bytes: "chunk_bytes (entry_chunks (2 ^ k) a c) = [a..<a + c]"
proof (induction c arbitrary: a rule: less_induct)
  case (less c)
  show ?case
  proof (cases "c = 0")
    case False
    let ?l = "min (prp_chunk_len_at a (2 ^ k)) c"
    have l: "0 < ?l" "?l \<le> c" using False chunk_len_pos [of a k] by simp_all
    with less.IH [of "c - ?l" "a + ?l"] False
    have "chunk_bytes (entry_chunks (2 ^ k) a c) = [a..<a + ?l] @ [a + ?l..<a + ?l + (c - ?l)]"
      by (simp add: entry_chunks_pos [of c] chunk_bytes_def)
    also have "\<dots> = [a..<a + c]" using l upt_add_eq_append [of a "a + ?l" "c - ?l"] by simp
    finally show ?thesis .
  qed (simp add: chunk_bytes_def)
qed

lemma entry_chunks_len_aligned:
  "a mod 2 ^ k = 0 \<Longrightarrow> length (entry_chunks (2 ^ k) a c) = DIV_ROUND_UP c (2 ^ k)"
proof (induction c arbitrary: a rule: less_induct)
  case (less c)
  show ?case
  proof (cases "c = 0")
    case False
    have "length (entry_chunks (2 ^ k) (a + min (2 ^ k) c) (c - min (2 ^ k) c)) =
        DIV_ROUND_UP (c - min (2 ^ k) c) (2 ^ k)"
    proof (cases "2 ^ k \<le> c")
      case True
      with less.IH [of "c - 2 ^ k" "a + 2 ^ k"] less.prems False show ?thesis by simp
    qed simp
    moreover have "DIV_ROUND_UP c (2 ^ k) = Suc (DIV_ROUND_UP (c - 2 ^ k) (2 ^ k))"
      using False by (intro DIV_ROUND_UP_step) auto
    moreover have "c - min (2 ^ k) c = c - 2 ^ k" by simp
    ultimately show ?thesis using False less.prems
      by (simp add: entry_chunks_pos [of c] chunk_len_aligned)
  qed simp
qed

lemma entry_chunks_len:
  assumes "0 < c"
  shows "length (entry_chunks (2 ^ k) a c) =
    (let f = min (prp_chunk_len_at a (2 ^ k)) c
     in if f < c then 1 + DIV_ROUND_UP (c - f) (2 ^ k) else 1)"
proof (cases "prp_chunk_len_at a (2 ^ k) < c")
  case True
  then show ?thesis using assms chunk_end_aligned [of a k]
    by (simp add: entry_chunks_pos [of c] entry_chunks_len_aligned Let_def)
next
  case False
  then show ?thesis using assms by (simp add: entry_chunks_pos [of c] Let_def)
qed

lemma entry_chunks_tail:
  "a mod 2 ^ k = 0 \<Longrightarrow> prp_tail_ok (2 ^ k) (entry_chunks (2 ^ k) a c)"
proof (induction c arbitrary: a rule: less_induct)
  case (less c)
  show ?case
  proof (cases "c \<le> 2 ^ k")
    case True
    then show ?thesis using less.prems
      by (cases "c = 0") (simp_all add: entry_chunks_pos [of c] chunk_len_aligned)
  next
    case False
    with less.IH [of "c - 2 ^ k" "a + 2 ^ k"] less.prems
    show ?thesis by (simp add: entry_chunks_pos [of c] chunk_len_aligned)
  qed
qed

text \<open>Whole pages of chunks in front of an expressible tail.\<close>

lemma entry_chunks_tail_append:
  assumes "a mod 2 ^ k = 0" "(a + c) mod 2 ^ k = 0" "prp_tail_ok (2 ^ k) cs"
  shows "prp_tail_ok (2 ^ k) (entry_chunks (2 ^ k) a c @ cs)"
  using assms
proof (induction c arbitrary: a rule: less_induct)
  case (less c)
  show ?case
  proof (cases "c = 0")
    case False
    have "c mod 2 ^ k = 0" using less.prems(1,2) by (metis mod_add_left_eq add.left_neutral)
    with False have "2 ^ k \<le> c" by (metis mod_less not_le)
    with False less.IH [of "c - 2 ^ k" "a + 2 ^ k"] less.prems show ?thesis
      by (simp add: entry_chunks_pos [of c] chunk_len_aligned)
  qed (use less.prems in simp)
qed

section \<open>The count validates the layout\<close>

definition sg_wf :: "scatterlist list \<Rightarrow> bool" where
  "sg_wf sgs = (\<forall>sg \<in> set sgs. 0 < sg_dma_len sg)"

lemma entry_chunks_prp_ok:
  assumes "(a + c) mod 2 ^ k = 0 \<or> cs = []" "prp_tail_ok (2 ^ k) cs" "0 < c"
  shows "prp_ok (2 ^ k) (entry_chunks (2 ^ k) a c @ cs)"
proof (cases "c \<le> prp_chunk_len_at a (2 ^ k)")
  case True
  have "cs \<noteq> [] \<Longrightarrow> c = prp_chunk_len_at a (2 ^ k)"
  proof -
    assume "cs \<noteq> []"
    then have z: "(a + c) mod 2 ^ k = 0" using assms by simp
    have "(a mod 2 ^ k + c) mod 2 ^ k = 0" using z by (simp add: mod_add_left_eq)
    moreover have "0 < a mod 2 ^ k + c" "a mod 2 ^ k + c \<le> 2 ^ k"
      using True assms(3) by (simp_all add: chunk_len_eq le_diff_conv2 add.commute)
    ultimately have "a mod 2 ^ k + c = 2 ^ k" by (metis le_neq_implies_less mod_less less_irrefl)
    then show ?thesis by (simp add: chunk_len_eq)
  qed
  with True assms show ?thesis by (simp add: entry_chunks_pos [of c] min_def)
next
  case False
  let ?l = "prp_chunk_len_at a (2 ^ k)"
  have "prp_tail_ok (2 ^ k) (entry_chunks (2 ^ k) (a + ?l) (c - ?l) @ cs)"
  proof (cases "cs = []")
    case True
    then show ?thesis using entry_chunks_tail [OF chunk_end_aligned [of a k], of "c - ?l"] by simp
  next
    case False
    with assms(1) have "(a + ?l + (c - ?l)) mod 2 ^ k = 0" using \<open>\<not> c \<le> ?l\<close> by simp
    then show ?thesis using assms(2) chunk_end_aligned [of a k] by (intro entry_chunks_tail_append)
  qed
  with False assms show ?thesis by (simp add: entry_chunks_pos [of c] min_def)
qed

text \<open>One step of the count loop, with what it has checked when it goes on.\<close>

lemma desc_count_step:
  assumes "desc_count_loop (sg # sgs) intra rem (2 ^ k) tot = Inr n" "0 < rem" "intra < sg_dma_len sg"
  shows "(rem \<le> sg_dma_len sg - intra \<and>
      n = tot + length (entry_chunks (2 ^ k) (sg_dma_address sg + intra) rem)) \<or>
    (sg_dma_len sg - intra < rem \<and>
      (sg_dma_address sg + intra + (sg_dma_len sg - intra)) mod 2 ^ k = 0 \<and>
      (sgs \<noteq> [] \<longrightarrow> sg_dma_address (hd sgs) mod 2 ^ k = 0) \<and>
      desc_count_loop sgs 0 (rem - (sg_dma_len sg - intra)) (2 ^ k)
        (tot + length (entry_chunks (2 ^ k) (sg_dma_address sg + intra) (sg_dma_len sg - intra))) = Inr n)"
proof -
  let ?avail = "sg_dma_len sg - intra"
  let ?c = "min ?avail rem"
  have c: "0 < ?c" using assms(2,3) by simp
  let ?f = "min (prp_chunk_len_at (sg_dma_address sg + intra) (2 ^ k)) ?c"
  have f: "min (mx_prp_first_chunk_len sg intra (2 ^ k)) ?c = ?f"
    by (simp add: mx_prp_first_chunk_len_def min_def)
  have tot: "(if ?f < ?c then tot + 1 + DIV_ROUND_UP (?c - ?f) (2 ^ k) else tot + 1) =
      tot + length (entry_chunks (2 ^ k) (sg_dma_address sg + intra) ?c)"
    unfolding entry_chunks_len [OF c] Let_def by simp
  note loop = assms(1) [unfolded desc_count_loop.simps(2) Let_def f tot and_mod]
  show ?thesis
  proof (cases "rem \<le> ?avail")
    case True
    then have "?c = rem" by simp
    with loop assms(2) True show ?thesis by simp
  next
    case False
    then have c: "?c = ?avail" and r: "rem - ?avail \<noteq> 0" by simp_all
    from loop [unfolded c] r assms(2) False show ?thesis by (auto split: if_splits)
  qed
qed

lemma chunk_bytes_append: "chunk_bytes (xs @ ys) = chunk_bytes xs @ chunk_bytes ys"
  by (simp add: chunk_bytes_def)

lemma length_chunk_bytes: "length (chunk_bytes cs) = sum_list (map snd cs)"
  by (induction cs) (auto simp: chunk_bytes_def)

lemma entry_chunks_sum: "sum_list (map snd (entry_chunks (2 ^ k) a c)) = c"
  by (simp add: length_chunk_bytes [symmetric] entry_chunks_bytes)

lemma drop_sg_bytes:
  "intra \<le> sg_dma_len sg \<Longrightarrow> drop intra (sg_bytes (sg # sgs)) =
     [sg_dma_address sg + intra..<sg_dma_address sg + sg_dma_len sg] @ sg_bytes sgs"
  by (simp add: sg_bytes_def)

text \<open>
  What the count returns: the number of chunks, whose bytes are the slice. Entries after the first
  start on a boundary, so their chunks are an expressible tail.
\<close>

lemma desc_count_bytes:
  assumes "desc_count_loop sgs intra rem (2 ^ k) tot = Inr n" "sg_wf sgs"
    and "sgs \<noteq> [] \<longrightarrow> intra < sg_dma_len (hd sgs)"
  shows "n = tot + length (sg_chunks (2 ^ k) sgs intra rem) \<and>
    chunk_bytes (sg_chunks (2 ^ k) sgs intra rem) = take rem (drop intra (sg_bytes sgs)) \<and>
    sum_list (map snd (sg_chunks (2 ^ k) sgs intra rem)) = rem"
  using assms
proof (induction sgs arbitrary: intra rem tot)
  case Nil
  then show ?case by (auto split: if_splits simp: chunk_bytes_def sg_bytes_def)
next
  case (Cons sg sgs)
  let ?avail = "sg_dma_len sg - intra"
  have i: "intra < sg_dma_len sg" using Cons.prems by simp
  show ?case
  proof (cases "rem = 0")
    case True
    then show ?thesis using Cons.prems(1) by (simp add: chunk_bytes_def)
  next
    case False
    with desc_count_step [OF Cons.prems(1) _ i] consider
        (last) "rem \<le> ?avail" "n = tot + length (entry_chunks (2 ^ k) (sg_dma_address sg + intra) rem)"
      | (more) "?avail < rem"
          "desc_count_loop sgs 0 (rem - ?avail) (2 ^ k)
             (tot + length (entry_chunks (2 ^ k) (sg_dma_address sg + intra) ?avail)) = Inr n"
      by blast
    then show ?thesis
    proof cases
      case last
      then have "sg_chunks (2 ^ k) (sg # sgs) intra rem = entry_chunks (2 ^ k) (sg_dma_address sg + intra) rem"
        by simp
      with last i show ?thesis
        by (simp add: entry_chunks_sum entry_chunks_bytes drop_sg_bytes take_upt)
    next
      case more
      then have c: "sg_chunks (2 ^ k) (sg # sgs) intra rem =
          entry_chunks (2 ^ k) (sg_dma_address sg + intra) ?avail @ sg_chunks (2 ^ k) sgs 0 (rem - ?avail)"
        by (simp add: min_absorb1)
      have "sg_wf sgs" "sgs \<noteq> [] \<longrightarrow> 0 < sg_dma_len (hd sgs)" using Cons.prems(2)
        by (cases sgs; simp add: sg_wf_def)+
      note IH = Cons.IH [OF more(2) this]
      show ?thesis unfolding c using IH more(1) i
        by (simp add: chunk_bytes_append entry_chunks_sum entry_chunks_bytes drop_sg_bytes)
    qed
  qed
qed

lemma desc_count_tail:
  assumes "desc_count_loop sgs 0 rem (2 ^ k) tot = Inr n" "sg_wf sgs"
    and "sgs \<noteq> [] \<longrightarrow> sg_dma_address (hd sgs) mod 2 ^ k = 0"
  shows "prp_tail_ok (2 ^ k) (sg_chunks (2 ^ k) sgs 0 rem)"
  using assms
proof (induction sgs arbitrary: rem tot)
  case (Cons sg sgs)
  have i: "0 < sg_dma_len sg" and a: "sg_dma_address sg mod 2 ^ k = 0"
    using Cons.prems by (simp_all add: sg_wf_def)
  show ?case
  proof (cases "sg_dma_len sg < rem")
    case False
    then show ?thesis using entry_chunks_tail [OF a] by simp
  next
    case True
    with desc_count_step [OF Cons.prems(1) _ i] i
    have s: "(sg_dma_address sg + sg_dma_len sg) mod 2 ^ k = 0"
        "sgs \<noteq> [] \<longrightarrow> sg_dma_address (hd sgs) mod 2 ^ k = 0"
        "desc_count_loop sgs 0 (rem - sg_dma_len sg) (2 ^ k)
           (tot + length (entry_chunks (2 ^ k) (sg_dma_address sg) (sg_dma_len sg))) = Inr n"
      by auto
    have "prp_tail_ok (2 ^ k) (sg_chunks (2 ^ k) sgs 0 (rem - sg_dma_len sg))"
      using Cons.IH [OF s(3) _ s(2)] Cons.prems(2) by (simp add: sg_wf_def)
    with True show ?thesis using entry_chunks_tail_append [OF a s(1)] by (simp add: min_absorb1)
  qed
qed simp

lemma desc_count_prp_ok:
  assumes "desc_count_loop (sg # sgs) intra rem (2 ^ k) tot = Inr n" "sg_wf (sg # sgs)"
    "intra < sg_dma_len sg" "0 < rem"
  shows "prp_ok (2 ^ k) (sg_chunks (2 ^ k) (sg # sgs) intra rem)"
proof (cases "sg_dma_len sg - intra < rem")
  case False
  then show ?thesis using entry_chunks_prp_ok [of _ rem k "[]"] assms(4) by simp
next
  case True
  note s = desc_count_step [OF assms(1,4,3)]
  have "prp_tail_ok (2 ^ k) (sg_chunks (2 ^ k) sgs 0 (rem - (sg_dma_len sg - intra)))"
    using s True assms(2) by (intro desc_count_tail) (auto simp: sg_wf_def)
  with s True assms(3) show ?thesis by (auto simp: min_absorb1 intro!: entry_chunks_prp_ok)
qed

section \<open>The emit walk\<close>

text \<open>The chunks still to be emitted in a state of the emit loop.\<close>

definition todo :: "nat \<Rightarrow> scatterlist list \<Rightarrow> nat \<Rightarrow> nat \<Rightarrow> nat \<Rightarrow> (nat \<times> nat) list" where
  "todo d sgs a avail rem = entry_chunks d a (min avail rem) @
     (if avail < rem then sg_chunks d (tl sgs) 0 (rem - avail) else [])"

lemma sg_chunks_todo:
  "sg_chunks d (sg # sgs) intra rem = todo d (sg # sgs) (sg_dma_address sg + intra) (sg_dma_len sg - intra) rem"
  by (simp add: todo_def)

lemma todo_first:
  assumes "0 < avail" "0 < rem"
  shows "todo (2 ^ k) sgs a avail rem =
    (a, min (prp_chunk_len_at a (2 ^ k)) (min avail rem)) #
     todo (2 ^ k) sgs (a + min (prp_chunk_len_at a (2 ^ k)) (min avail rem))
       (avail - min (prp_chunk_len_at a (2 ^ k)) (min avail rem))
       (rem - min (prp_chunk_len_at a (2 ^ k)) (min avail rem))"
proof -
  let ?l = "min (prp_chunk_len_at a (2 ^ k)) (min avail rem)"
  have e: "min (avail - ?l) (rem - ?l) = min avail rem - ?l" "(avail - ?l < rem - ?l) = (avail < rem)"
      "avail < rem \<Longrightarrow> rem - ?l - (avail - ?l) = rem - avail" by (auto simp: min_def)
  show ?thesis unfolding todo_def using assms e by (simp add: entry_chunks_pos [of "min avail rem"])
qed

lemma todo_next_entry:
  "0 < rem \<Longrightarrow> todo d (sg # sgs) a 0 rem = (if sgs = [] then []
     else todo d sgs (sg_dma_address (hd sgs)) (sg_dma_len (hd sgs)) rem)"
  by (cases sgs) (simp_all add: todo_def)

text \<open>The slots the chain occupies, mirroring the writer: a full list ends in a link.\<close>

fun chain_ok :: "nat \<Rightarrow> nat list \<Rightarrow> nat list list \<Rightarrow> nat \<Rightarrow> nat \<Rightarrow> nat list \<Rightarrow> bool" where
  "chain_ok per bas pages li di [] = True"
| "chain_ok per bas pages li di (a # ds) =
     (if di = per - 1 \<and> ds \<noteq> []
      then pages ! li ! di = bas ! (li + 1) \<and> pages ! (li + 1) ! 0 = a \<and>
           chain_ok per bas pages (li + 1) 1 ds
      else pages ! li ! di = a \<and> chain_ok per bas pages li (di + 1) ds)"

text \<open>Lists the writer still needs, the current one included.\<close>

definition need :: "nat \<Rightarrow> nat \<Rightarrow> nat \<Rightarrow> nat" where
  "need per di t = (if t \<le> per - di then 1 else Suc (lists_needed per (t - (per - 1 - di))))"

definition pages_wf :: "nat \<Rightarrow> nat \<Rightarrow> nat list list \<Rightarrow> bool" where
  "pages_wf per n pages = (length pages = n \<and> (\<forall>p \<in> set pages. length p = per))"

lemma need_0: "2 \<le> per \<Longrightarrow> need per 0 t = lists_needed per t"
  by (auto simp: need_def lists_needed_step) (simp add: lists_needed_def)

lemma desc_store_ok:
  assumes "pages_wf per n pages" "li < n" "di < per"
  obtains pages' where "desc_store pages li di v = Some pages'" "pages_wf per n pages'"
    "pages' ! li ! di = v" "\<And>l d. (l, d) \<noteq> (li, di) \<Longrightarrow> pages' ! l ! d = pages ! l ! d"
proof -
  have len: "length (pages ! li) = per" using assms by (auto simp: pages_wf_def)
  let ?p = "pages[li := (pages ! li)[di := v]]"
  have "desc_store pages li di v = Some ?p" using assms len by (simp add: desc_store_def pages_wf_def)
  moreover have "pages_wf per n ?p" using assms len
    by (auto simp: pages_wf_def dest!: set_update_subset_insert [THEN subsetD])
  moreover have "?p ! li ! di = v" using assms len by (simp add: pages_wf_def)
  moreover have "?p ! l ! d = pages ! l ! d" if "(l, d) \<noteq> (li, di)" for l d
  proof (cases "l = li")
    case True
    then show ?thesis using that assms(1,2) by (simp add: pages_wf_def)
  qed simp
  ultimately show thesis by (rule that)
qed

lemma need_Suc: "Suc di < per \<Longrightarrow> need per di (Suc t) = need per (Suc di) t"
  by (auto simp: need_def Suc_diff_Suc)

lemma lists_needed_pos: "0 < lists_needed per t"
  by (simp add: lists_needed_def)

text \<open>The link step leaves a free slot in an allocated list.\<close>

lemma desc_link_ok:
  assumes wf: "pages_wf per n pages" and per: "2 \<le> per" "di < per" and t: "0 < t"
    and room: "li + need per di t \<le> n"
  obtains pages1 li1 di1 where "desc_link per n bas pages li di t = Some (Inr (pages1, li1, di1))"
    "pages_wf per n pages1" "li1 + need per di1 t \<le> n" "di1 < per" "1 < t \<longrightarrow> Suc di1 < per"
    "if di = per - 1 \<and> 1 < t then li1 = li + 1 \<and> di1 = 0 \<and> pages1 ! li ! di = bas ! (li + 1) \<and>
       (\<forall>l d. (l, d) \<noteq> (li, di) \<longrightarrow> pages1 ! l ! d = pages ! l ! d)
     else pages1 = pages \<and> li1 = li \<and> di1 = di"
proof (cases "di = per - 1 \<and> 1 < t")
  case True
  then have n: "need per di t = Suc (lists_needed per t)" using per by (simp add: need_def)
  then have li: "li < n" "\<not> n \<le> li + 1" using room lists_needed_pos [of per t] by linarith+
  obtain p where p: "desc_store pages li di (bas ! (li + 1)) = Some p" "pages_wf per n p"
      "p ! li ! di = bas ! (li + 1)" "\<And>l d. (l, d) \<noteq> (li, di) \<Longrightarrow> p ! l ! d = pages ! l ! d"
    using desc_store_ok [OF wf li(1) per(2)] by metis
  show thesis
  proof (rule that)
    show "desc_link per n bas pages li di t = Some (Inr (p, li + 1, 0))"
      using True li(2) p(1) by (simp add: desc_link_def)
    show "li + 1 + need per 0 t \<le> n" using n room need_0 [OF per(1)] by simp
    show "if di = per - 1 \<and> 1 < t then li + 1 = li + 1 \<and> (0::nat) = 0 \<and> p ! li ! di = bas ! (li + 1) \<and>
       (\<forall>l d. (l, d) \<noteq> (li, di) \<longrightarrow> p ! l ! d = pages ! l ! d)
     else p = pages \<and> li + 1 = li \<and> 0 = di" using True p(3,4) by simp
  qed (use p per in simp_all)
next
  case False
  show thesis
  proof (rule that)
    show "desc_link per n bas pages li di t = Some (Inr (pages, li, di))"
      unfolding desc_link_def using False by (simp only: if_False)
    show "1 < t \<longrightarrow> Suc di < per" using False per by auto
    show "if di = per - 1 \<and> 1 < t then li = li + 1 \<and> di = 0 \<and> pages ! li ! di = bas ! (li + 1) \<and>
       (\<forall>l d. (l, d) \<noteq> (li, di) \<longrightarrow> pages ! l ! d = pages ! l ! d)
     else pages = pages \<and> li = li \<and> di = di" using False by (simp only: if_False)
  qed (use wf per room in simp_all)
qed

lemma prp_tail_tl: "prp_tail_ok d cs \<Longrightarrow> prp_tail_ok d (tl cs)"
  by (cases cs) auto

text \<open>What the walk does between two descriptors.\<close>

lemma todo_step:
  assumes cs: "todo (2 ^ k) sgs a avail rem = (a, len) # cs'" and sgs: "sgs \<noteq> []" "sg_wf sgs"
    and pos: "0 < avail" "0 < rem" and more: "cs' \<noteq> []" and al: "prp_tail_ok (2 ^ k) cs'"
    and len: "len = min (prp_chunk_len_at a (2 ^ k)) (min avail rem)"
    and sgs1: "sgs1 = (if avail - len = 0 then tl sgs else sgs)"
    and a2: "a2 = (if avail - len = 0 then sg_dma_address (hd sgs1) else a + len)"
    and avail2: "avail2 = (if avail - len = 0 then sg_dma_len (hd sgs1) else avail - len)"
  shows "\<not> (avail - len = 0 \<and> tl sgs = [])" "0 < rem - len" "sgs1 \<noteq> []" "sg_wf sgs1" "0 < avail2"
    "cs' = todo (2 ^ k) sgs1 a2 avail2 (rem - len)" "a2 mod 2 ^ k = 0"
    "min (2 ^ k) (min avail2 (rem - len)) = min (prp_chunk_len_at a2 (2 ^ k)) (min avail2 (rem - len))"
proof -
  have c: "cs' = todo (2 ^ k) sgs (a + len) (avail - len) (rem - len)"
    using cs todo_first [OF pos, of k sgs a] len by simp
  show r: "0 < rem - len" using more unfolding c by (cases "rem - len = 0") (auto simp: todo_def)
  obtain sg rest where s: "sgs = sg # rest" using sgs(1) by (cases sgs) auto
  show m: "\<not> (avail - len = 0 \<and> tl sgs = [])"
    using more c todo_next_entry [OF r, of "2 ^ k" sg rest "a + len"] s by auto
  then show n: "sgs1 \<noteq> []" "sg_wf sgs1" using s sgs sgs1 by (auto simp: sg_wf_def)
  then show v: "0 < avail2" using avail2 pos len by (cases sgs1) (auto simp: sg_wf_def)
  show t: "cs' = todo (2 ^ k) sgs1 a2 avail2 (rem - len)"
    using c m s sgs1 a2 avail2 todo_next_entry [OF r, of "2 ^ k" sg rest "a + len"] by auto
  show "a2 mod 2 ^ k = 0" using al todo_first [OF v r, of k sgs1 a2] t by simp
  then show "min (2 ^ k) (min avail2 (rem - len)) =
      min (prp_chunk_len_at a2 (2 ^ k)) (min avail2 (rem - len))"
    by (simp add: chunk_len_aligned)
qed

declare desc_emit_loop.simps [simp del]

lemma emit_unroll:
  assumes "desc_link per n bas pages li di tot = Some (Inr (pages1, li1, di1))"
    "di1 < per" "tot = Suc tot1" "desc_store pages1 li1 di1 a = Some pages2" "0 < rem"
    "\<not> (avail - len = 0 \<and> tl sgs = [])" "0 < rem - len"
    and sgs1: "sgs1 = (if avail - len = 0 then tl sgs else sgs)"
    and a2: "a2 = (if avail - len = 0 then sg_dma_address (hd sgs1) else a + len)"
    and avail2: "avail2 = (if avail - len = 0 then sg_dma_len (hd sgs1) else avail - len)"
    and "a2 AND (d - 1) = 0"
  shows "desc_emit_loop d per n bas sgs a avail rem len li di tot pages =
    desc_emit_loop d per n bas sgs1 a2 avail2 (rem - len) (min d (min avail2 (rem - len)))
      li1 (di1 + 1) tot1 pages2"
  using assms(1-7,11) unfolding avail2 a2 sgs1
  by (subst desc_emit_loop.simps) (cases "avail - len = 0"; simp add: Let_def)

lemma emit_loop_ok:
  assumes "todo (2 ^ k) sgs a avail rem = cs" "sgs \<noteq> []" "sg_wf sgs" "0 < avail" "0 < rem"
    and "sum_list (map snd cs) = rem" "prp_tail_ok (2 ^ k) (tl cs)"
    and "len = min (prp_chunk_len_at a (2 ^ k)) (min avail rem)"
    and "pages_wf per n pages" "2 \<le> per" "di < per" "li + need per di (length cs) \<le> n"
  shows "\<exists>pages'. desc_emit_loop (2 ^ k) per n bas sgs a avail rem len li di (length cs) pages =
      Some (Inr pages') \<and> pages_wf per n pages' \<and>
      (\<forall>l d. l < li \<or> l = li \<and> d < di \<longrightarrow> pages' ! l ! d = pages ! l ! d) \<and>
      chain_ok per bas pages' li di (map fst cs)"
  using assms
proof (induction cs arbitrary: sgs a avail rem len li di pages)
  case Nil
  then show ?case using todo_first [of avail rem k sgs a] by simp
next
  case (Cons c cs')
  note pos = Cons.prems(4,5) and per = Cons.prems(10)
  have c: "todo (2 ^ k) sgs a avail rem = (a, len) # cs'" "c = (a, len)"
    using Cons.prems(1,8) todo_first [OF pos, of k sgs a] by simp_all
  have room: "li + need per di (Suc (length cs')) \<le> n" using Cons.prems(12) by simp
  obtain pages1 li1 di1 where
    lk: "desc_link per n bas pages li di (Suc (length cs')) = Some (Inr (pages1, li1, di1))"
      "pages_wf per n pages1" "li1 + need per di1 (Suc (length cs')) \<le> n" "di1 < per"
      "1 < Suc (length cs') \<longrightarrow> Suc di1 < per"
    and lf: "if di = per - 1 \<and> 1 < Suc (length cs') then li1 = li + 1 \<and> di1 = 0 \<and>
         pages1 ! li ! di = bas ! (li + 1) \<and> (\<forall>l d. (l, d) \<noteq> (li, di) \<longrightarrow> pages1 ! l ! d = pages ! l ! d)
       else pages1 = pages \<and> li1 = li \<and> di1 = di"
    by (rule desc_link_ok [OF Cons.prems(9) per Cons.prems(11) zero_less_Suc room])
  have li1: "li1 < n" using lk(3) by (auto simp: need_def split: if_splits)
  obtain pages2 where st: "desc_store pages1 li1 di1 a = Some pages2" "pages_wf per n pages2"
      "pages2 ! li1 ! di1 = a" "\<And>l d. (l, d) \<noteq> (li1, di1) \<Longrightarrow> pages2 ! l ! d = pages1 ! l ! d"
    using desc_store_ok [OF lk(2) li1 lk(4)] by metis
  have frame: "pages2 ! l ! d = pages ! l ! d" if "l < li \<or> l = li \<and> d < di" for l d
    using lf st(4) [of l d] that by (auto split: if_splits)
  show ?case
  proof (cases "cs' = []")
    case True
    then have "rem = len" using Cons.prems(6) c by simp
    moreover have "li1 = li" "di1 = di" using lf True by simp_all
    ultimately show ?thesis using True lk st(1-3) frame pos(2) c(2)
      by (subst desc_emit_loop.simps) auto
  next
    case False
    define sgs1 where "sgs1 = (if avail - len = 0 then tl sgs else sgs)"
    define a2 where "a2 = (if avail - len = 0 then sg_dma_address (hd sgs1) else a + len)"
    define avail2 where "avail2 = (if avail - len = 0 then sg_dma_len (hd sgs1) else avail - len)"
    have al: "prp_tail_ok (2 ^ k) cs'" using Cons.prems(7) by simp
    note ts = todo_step [OF c(1) Cons.prems(2,3) pos False al Cons.prems(8) sgs1_def a2_def avail2_def]
    have sum: "sum_list (map snd cs') = rem - len" using Cons.prems(6) c by simp
    have room1: "di1 + 1 < per" "li1 + need per (di1 + 1) (length cs') \<le> n"
      using lk(3,5) False need_Suc [of di1 per "length cs'"] by simp_all
    have unroll: "desc_emit_loop (2 ^ k) per n bas sgs a avail rem len li di (Suc (length cs')) pages =
        desc_emit_loop (2 ^ k) per n bas sgs1 a2 avail2 (rem - len) (min (2 ^ k) (min avail2 (rem - len)))
          li1 (di1 + 1) (length cs') pages2"
      by (rule emit_unroll [OF lk(1,4) refl st(1) pos(2) ts(1,2) sgs1_def a2_def avail2_def])
         (simp only: and_mod ts(7))
    have "\<exists>pages'. desc_emit_loop (2 ^ k) per n bas sgs1 a2 avail2 (rem - len)
          (min (2 ^ k) (min avail2 (rem - len))) li1 (di1 + 1) (length cs') pages2 =
        Some (Inr pages') \<and> pages_wf per n pages' \<and>
        (\<forall>l d. l < li1 \<or> l = li1 \<and> d < di1 + 1 \<longrightarrow> pages' ! l ! d = pages2 ! l ! d) \<and>
        chain_ok per bas pages' li1 (di1 + 1) (map fst cs')"
      by (rule Cons.IH [OF ts(6) [symmetric] ts(3-5,2) sum prp_tail_tl [OF al] ts(8) st(2) per room1(1)
            room1(2)])
    then obtain pages' where e: "desc_emit_loop (2 ^ k) per n bas sgs a avail rem len li di
          (length (c # cs')) pages = Some (Inr pages')" "pages_wf per n pages'"
        "\<And>l d. l < li1 \<or> l = li1 \<and> d < di1 + 1 \<Longrightarrow> pages' ! l ! d = pages2 ! l ! d"
        "chain_ok per bas pages' li1 (di1 + 1) (map fst cs')"
      using unroll by auto
    have fr: "pages' ! l ! d = pages ! l ! d" if "l < li \<or> l = li \<and> d < di" for l d
    proof -
      have "l < li1 \<or> l = li1 \<and> d < di1 + 1" using lf that by (auto split: if_split_asm)
      then show ?thesis using e(3) frame [OF that] by simp
    qed
    have new: "pages' ! li1 ! di1 = a" using e(3) st(3) by simp
    have "chain_ok per bas pages' li di (map fst (c # cs'))"
    proof (cases "di = per - 1")
      case True
      then have l: "li1 = li + 1" "di1 = 0" "pages1 ! li ! di = bas ! (li + 1)" using lf False by auto
      have "pages' ! li ! di = bas ! (li + 1)" using e(3) [of li di] st(4) [of li di] l by simp
      then show ?thesis using True l new e(4) c(2) False by simp
    next
      case di: False
      then have "li1 = li" "di1 = di" using lf by simp_all
      then show ?thesis using di new e(4) c(2) by simp
    qed
    with e fr show ?thesis by blast
  qed
qed

section \<open>The device's view\<close>

text \<open>Descriptors reached from the list at bus address \<open>ba\<close>, \<open>n\<close> of them.\<close>

function device_chain :: "nat \<Rightarrow> (nat \<Rightarrow> nat list) \<Rightarrow> nat \<Rightarrow> nat \<Rightarrow> nat list" where
  "device_chain per mem ba n =
     (if n \<le> per \<or> per < 2 then take n (mem ba)
      else take (per - 1) (mem ba) @ device_chain per mem (mem ba ! (per - 1)) (n - (per - 1)))"
  by pat_completeness auto
termination
  by (relation "measure (\<lambda>(per, mem, ba, n). n)") auto

declare device_chain.simps [simp del]

text \<open>The bytes the device moves for a list of descriptors after the first, and for all of them.\<close>

fun device_tail_bytes :: "nat \<Rightarrow> nat list \<Rightarrow> nat \<Rightarrow> nat list" where
  "device_tail_bytes d [] n = []"
| "device_tail_bytes d (a # ds) n = [a..<a + min d n] @ device_tail_bytes d ds (n - min d n)"

fun device_bytes :: "nat \<Rightarrow> nat list \<Rightarrow> nat \<Rightarrow> nat list" where
  "device_bytes d [] n = []"
| "device_bytes d (a # ds) n =
     (let l = min (prp_chunk_len_at a d) n in [a..<a + l] @ device_tail_bytes d ds (n - l))"

lemma device_tail_bytes_ok:
  "prp_tail_ok d cs \<Longrightarrow> sum_list (map snd cs) = n \<Longrightarrow>
     device_tail_bytes d (map fst cs) n = chunk_bytes cs"
proof (induction cs arbitrary: n)
  case (Cons c cs)
  obtain a l where c: "c = (a, l)" by force
  have "min d n = l" using Cons.prems c by (cases "cs = []") auto
  moreover have "sum_list (map snd cs) = n - l" using Cons.prems(2) c by simp
  ultimately show ?case using Cons.IH [of "n - l"] Cons.prems(1) c by (simp add: chunk_bytes_def)
qed (simp add: chunk_bytes_def)

lemma device_bytes_ok:
  assumes "prp_ok d cs" "sum_list (map snd cs) = n"
  shows "device_bytes d (map fst cs) n = chunk_bytes cs"
proof (cases cs)
  case (Cons c cs')
  obtain a l where c: "c = (a, l)" by force
  have "min (prp_chunk_len_at a d) n = l" using assms Cons c by (cases "cs' = []") auto
  then show ?thesis using assms Cons c device_tail_bytes_ok [of d cs' "n - l"]
    by (simp add: chunk_bytes_def Let_def)
qed (simp add: chunk_bytes_def)

text \<open>A chain laid out by the writer is what the device reads back.\<close>

lemma chain_ok_prefix:
  assumes "chain_ok per bas pages li di ds" "length ds \<le> per - di" "2 \<le> per"
    "length (pages ! li) = per" "di < per"
  shows "take (length ds) (drop di (pages ! li)) = ds"
  using assms
proof (induction ds arbitrary: di)
  case (Cons a ds)
  have "\<not> (di = per - 1 \<and> ds \<noteq> [])" using Cons.prems by (cases ds) auto
  then have h: "pages ! li ! di = a" "chain_ok per bas pages li (di + 1) ds"
    using Cons.prems(1) by (auto split: if_splits)
  have d: "drop di (pages ! li) = pages ! li ! di # drop (Suc di) (pages ! li)"
    using Cons.prems by (simp add: Cons_nth_drop_Suc)
  show ?case
  proof (cases ds)
    case Nil
    with d h show ?thesis by simp
  next
    case (Cons b bs)
    then have "take (length ds) (drop (Suc di) (pages ! li)) = ds"
      using Cons.IH [of "di + 1"] h Cons.prems by simp
    with d h show ?thesis by simp
  qed
qed simp

lemma chain_ok_split:
  assumes "chain_ok per bas pages li di ds" "per - di < length ds" "2 \<le> per"
    "length (pages ! li) = per" "di < per"
  shows "take (per - 1 - di) (drop di (pages ! li)) = take (per - 1 - di) ds \<and>
    pages ! li ! (per - 1) = bas ! (li + 1) \<and>
    chain_ok per bas pages (li + 1) 0 (drop (per - 1 - di) ds)"
  using assms
proof (induction ds arbitrary: di)
  case (Cons a ds)
  show ?case
  proof (cases "di = per - 1")
    case True
    with Cons.prems show ?thesis by (cases ds) auto
  next
    case False
    then have di: "Suc di < per" "per - 1 - di = Suc (per - 1 - Suc di)" using Cons.prems by auto
    have h: "pages ! li ! di = a" "chain_ok per bas pages li (di + 1) ds"
      using Cons.prems(1) False by auto
    have d: "drop di (pages ! li) = pages ! li ! di # drop (Suc di) (pages ! li)"
      using Cons.prems by (simp add: Cons_nth_drop_Suc)
    show ?thesis unfolding d di(2) using Cons.IH [of "di + 1"] h Cons.prems di by simp
  qed
qed simp

lemma device_chain_ok:
  assumes "chain_ok per bas pages li 0 ds" "2 \<le> per" "pages_wf per n pages"
    "li + lists_needed per (length ds) \<le> n" "\<And>i. i < n \<Longrightarrow> mem (bas ! i) = pages ! i"
  shows "device_chain per mem (bas ! li) (length ds) = ds"
  using assms
proof (induction "length ds" arbitrary: li ds rule: less_induct)
  case less
  have li: "li < n" using less.prems(4) lists_needed_pos [of per "length ds"] by linarith
  then have m: "mem (bas ! li) = pages ! li" "length (pages ! li) = per"
    using less.prems(3,5) by (auto simp: pages_wf_def)
  show ?case
  proof (cases "length ds \<le> per")
    case True
    then show ?thesis using chain_ok_prefix [OF less.prems(1) _ less.prems(2) m(2)] less.prems(2) m
      by (subst device_chain.simps) auto
  next
    case False
    let ?r = "drop (per - 1) ds"
    have sp: "take (per - 1) (pages ! li) = take (per - 1) ds" "pages ! li ! (per - 1) = bas ! (li + 1)"
        "chain_ok per bas pages (li + 1) 0 ?r"
      using chain_ok_split [OF less.prems(1) _ less.prems(2) m(2)] False less.prems(2) by auto
    have "lists_needed per (length ds) = Suc (lists_needed per (length ?r))"
      using lists_needed_step [of per "length ds"] False less.prems(2) by simp
    then have "device_chain per mem (bas ! (li + 1)) (length ?r) = ?r"
      using less.prems False sp(3) by (intro less.hyps) auto
    then show ?thesis using False less.prems(2) m sp
      by (subst device_chain.simps) (simp add: append_take_drop_id)
  qed
qed

text \<open>The pages as the device sees them, by bus address.\<close>

definition dma_read :: "nat list \<Rightarrow> nat list list \<Rightarrow> nat \<Rightarrow> nat list" where
  "dma_read bas pages ba = (case map_of (zip bas pages) ba of Some p \<Rightarrow> p | None \<Rightarrow> [])"

text \<open>What the code relies on of the pool: pages of \<open>per\<close> slots at different bus addresses.\<close>

definition pool_ok :: "(nat \<Rightarrow> (nat list \<times> nat) option) \<Rightarrow> nat \<Rightarrow> nat \<Rightarrow> bool" where
  "pool_ok pool per n =
     (list_all (\<lambda>i. pool i \<noteq> None \<and> length (fst (the (pool i))) = per) [0..<n] \<and>
      distinct (map (\<lambda>i. snd (the (pool i))) [0..<n]))"

lemma pool_alloc:
  assumes "pool_ok pool per n"
  obtains pages bas where "desc_list_alloc True True pool n = Inr (pages, bas)" "pages_wf per n pages"
    "length bas = n" "distinct bas"
proof (rule that)
  show "desc_list_alloc True True pool n =
      Inr (map (\<lambda>i. fst (the (pool i))) [0..<n], map (\<lambda>i. snd (the (pool i))) [0..<n])"
    using assms by (simp add: desc_list_alloc_def pool_ok_def list_all_iff)
qed (use assms in \<open>auto simp: pool_ok_def pages_wf_def list_all_iff\<close>)

lemma dma_read_nth:
  "distinct bas \<Longrightarrow> length bas = length pages \<Longrightarrow> i < length bas \<Longrightarrow> dma_read bas pages (bas ! i) = pages ! i"
  by (simp add: dma_read_def map_of_zip_nth)

lemma emit_chain:
  assumes "todo (2 ^ k) sgs a avail rem = cs" "sgs \<noteq> []" "sg_wf sgs" "0 < avail" "0 < rem"
    "sum_list (map snd cs) = rem" "prp_tail_ok (2 ^ k) (tl cs)"
    "len = min (prp_chunk_len_at a (2 ^ k)) (min avail rem)"
    "pages_wf per n pages" "2 \<le> per" "n = lists_needed per (length cs)" "length bas = n" "distinct bas"
  shows "\<exists>pages'. desc_emit_loop (2 ^ k) per n bas sgs a avail rem len 0 0 (length cs) pages =
      Some (Inr pages') \<and> dma_read bas pages' (bas ! 0) \<noteq> [] \<and>
      device_chain per (dma_read bas pages') (bas ! 0) (length cs) = map fst cs"
proof -
  have "0 + need per 0 (length cs) \<le> n" using assms(10,11) by (simp add: need_0)
  then obtain pages' where p: "desc_emit_loop (2 ^ k) per n bas sgs a avail rem len 0 0 (length cs) pages =
      Some (Inr pages')" "pages_wf per n pages'" "chain_ok per bas pages' 0 0 (map fst cs)"
    using emit_loop_ok [OF assms(1-10), of 0 0 bas] assms(10) by auto
  have rd: "dma_read bas pages' (bas ! i) = pages' ! i" if "i < n" for i
    using that assms(12,13) p(2) by (simp add: dma_read_nth pages_wf_def)
  then have "device_chain per (dma_read bas pages') (bas ! 0) (length (map fst cs)) = map fst cs"
    using assms(11) by (intro device_chain_ok [OF p(3) assms(10) p(2)]) auto
  moreover have n: "0 < n" using assms(11) lists_needed_pos by simp
  have "length (pages' ! 0) = per" using p(2) n by (simp add: pages_wf_def)
  then have "dma_read bas pages' (bas ! 0) \<noteq> []" using rd [OF n] assms(10) by auto
  ultimately show ?thesis using p(1) by simp
qed

lemma locate_loop_ok:
  "sg_locate_loop sgt acc off = Inr (sgs, intra) \<Longrightarrow> acc \<le> off \<Longrightarrow>
     sgs \<noteq> [] \<and> intra < sg_dma_len (hd sgs) \<and> set sgs \<subseteq> set sgt \<and>
     drop (off - acc) (sg_bytes sgt) = drop intra (sg_bytes sgs)"
proof (induction sgt arbitrary: acc)
  case (Cons sg sgt)
  show ?case
  proof (cases "off < acc + sg_dma_len sg")
    case True
    with Cons.prems show ?thesis by auto
  next
    case False
    then have "off - acc = sg_dma_len sg + (off - (acc + sg_dma_len sg))" by simp
    then have "drop (off - acc) (sg_bytes (sg # sgt)) = drop (off - (acc + sg_dma_len sg)) (sg_bytes sgt)"
      by (simp add: sg_bytes_def)
    with False Cons show ?thesis by fastforce
  qed
qed simp

lemma locate_ok:
  assumes "mx_sg_locate sgt off = Inr (sgs, intra)" "sg_wf sgt"
  obtains sg rest where "sgs = sg # rest" "intra < sg_dma_len sg" "sg_wf sgs"
    "drop intra (sg_bytes sgs) = drop off (sg_bytes sgt)"
  using locate_loop_ok [of sgt 0 off sgs intra] assms
  by (cases sgs) (auto simp: mx_sg_locate_def sg_wf_def)

lemma first_len_eq:
  "min (mx_prp_first_chunk_len sg intra d) (min (sg_dma_len sg - intra) sz) =
   min (prp_chunk_len_at (sg_dma_address sg + intra) d) (min (sg_dma_len sg - intra) sz)"
  by (simp add: mx_prp_first_chunk_len_def min.assoc)

lemma entry_chunks_positive: "(x, l) \<in> set (entry_chunks d a c) \<Longrightarrow> 0 < l"
proof (induction c arbitrary: a rule: less_induct)
  case (less c)
  let ?m = "min (prp_chunk_len_at a d) c"
  show ?case
  proof (cases "?m = 0")
    case False
    with less.prems consider "l = ?m" | "(x, l) \<in> set (entry_chunks d (a + ?m) (c - ?m))"
      by (subst (asm) entry_chunks.simps) (auto simp: Let_def)
    then show ?thesis using less.IH [of "c - ?m" "a + ?m"] False by cases auto
  qed (use less.prems in \<open>simp add: entry_chunks.simps [of d a c]\<close>)
qed

lemma todo_positive: "(x, l) \<in> set (todo d sgs a avail rem) \<Longrightarrow> 0 < l"
proof -
  have "(x, l) \<in> set (sg_chunks d ss i r) \<Longrightarrow> 0 < l" for ss i r
    by (induction ss arbitrary: i r) (auto dest: entry_chunks_positive split: if_split_asm)
  then show "(x, l) \<in> set (todo d sgs a avail rem) \<Longrightarrow> 0 < l"
    by (auto simp: todo_def dest: entry_chunks_positive split: if_split_asm)
qed

text \<open>The facts of a validated slice, shared by the two ways of building its list.\<close>

lemma validated_slice:
  assumes loc: "mx_sg_locate sgt off = Inr (sg # rest, intra)" and wf: "sg_wf sgt"
    and count: "mx_get_total_desc_count (sg # rest) intra sz (2 ^ k) = Inr n"
  defines "cs \<equiv> todo (2 ^ k) (sg # rest) (sg_dma_address sg + intra) (sg_dma_len sg - intra) sz"
  shows "0 < sz" "sg_wf (sg # rest)" "intra < sg_dma_len sg" "length cs = n"
    "sum_list (map snd cs) = sz" "prp_ok (2 ^ k) cs" "prp_tail_ok (2 ^ k) (tl cs)"
    "device_bytes (2 ^ k) (map fst cs) sz = take sz (drop off (sg_bytes sgt))"
proof -
  show sz: "0 < sz" using count by (cases "sz = 0") (auto simp: mx_get_total_desc_count_def)
  from locate_ok [OF loc wf] show w: "sg_wf (sg # rest)" and i: "intra < sg_dma_len sg" by auto
  have b: "drop intra (sg_bytes (sg # rest)) = drop off (sg_bytes sgt)"
    using locate_ok [OF loc wf] by metis
  have loop: "desc_count_loop (sg # rest) intra sz (2 ^ k) 0 = Inr n"
    using count sz by (simp add: mx_get_total_desc_count_def)
  have cs: "cs = sg_chunks (2 ^ k) (sg # rest) intra sz"
    unfolding cs_def by (rule sg_chunks_todo [symmetric])
  note d = desc_count_bytes [OF loop w] and ok = desc_count_prp_ok [OF loop w i sz]
  show "length cs = n" and s: "sum_list (map snd cs) = sz" and p: "prp_ok (2 ^ k) cs"
    using d ok i unfolding cs by simp_all
  show "prp_tail_ok (2 ^ k) (tl cs)" using p by (cases cs) auto
  show "device_bytes (2 ^ k) (map fst cs) sz = take sz (drop off (sg_bytes sgt))"
    unfolding device_bytes_ok [OF p s] using d i b unfolding cs by simp
qed

lemma desc_list_init_full:
  assumes "sg_wf sgt" "mx_sg_locate sgt off = Inr (sgs, intra)"
    "mx_get_total_desc_count sgs intra sz (2 ^ k) = Inr n"
    "2 \<le> per" "pool_ok pool per (lists_needed per n)"
  shows "\<exists>pages bas. mx_desc_list_init True True pool sgt off sz (2 ^ k) per False n =
      Some (Inr (pages, bas)) \<and> dma_read bas pages (bas ! 0) \<noteq> [] \<and>
      device_chain per (dma_read bas pages) (bas ! 0) n =
        map fst (todo (2 ^ k) sgs (sg_dma_address (hd sgs) + intra) (sg_dma_len (hd sgs) - intra) sz)"
proof -
  obtain sg rest where s: "sgs = sg # rest" using locate_ok [OF assms(2,1)] by metis
  note v = validated_slice [OF assms(2,1) [unfolded s] assms(3) [unfolded s]]
  let ?cs = "todo (2 ^ k) (sg # rest) (sg_dma_address sg + intra) (sg_dma_len sg - intra) sz"
  let ?len = "min (mx_prp_first_chunk_len sg intra (2 ^ k)) (min (sg_dma_len sg - intra) sz)"
  have len: "?len = min (prp_chunk_len_at (sg_dma_address sg + intra) (2 ^ k)) (min (sg_dma_len sg - intra) sz)"
    by (rule first_len_eq)
  obtain pages bas where pool: "desc_list_alloc True True pool (lists_needed per n) = Inr (pages, bas)"
      "pages_wf per (lists_needed per n) pages" "length bas = lists_needed per n" "distinct bas"
    using pool_alloc [OF assms(5)] by metis
  have "0 < sg_dma_len sg - intra" using v(3) by simp
  from emit_chain [OF refl list.distinct(2) v(2) this v(1) v(5) v(7) len pool(2) assms(4) _ pool(3,4)] v(4)
  obtain pages' where "desc_emit_loop (2 ^ k) per (lists_needed per n) bas (sg # rest)
      (sg_dma_address sg + intra) (sg_dma_len sg - intra) sz ?len 0 0 n pages = Some (Inr pages')"
      "dma_read bas pages' (bas ! 0) \<noteq> []" "device_chain per (dma_read bas pages') (bas ! 0) n = map fst ?cs"
    by auto
  moreover have "n \<noteq> 0" unfolding v(4) [symmetric] todo_first [OF \<open>0 < sg_dma_len sg - intra\<close> v(1)] by simp
  moreover have "mx_get_list_count n per = Some (lists_needed per n)"
    by (simp add: mx_get_list_count_def list_count_loop_eq [OF assms(4)])
  ultimately show ?thesis using assms(2) s pool(1)
    by (simp add: mx_desc_list_init_def Let_def)
qed

text \<open>A small mapping for the witnesses: two entries, chunks of 4 bytes, lists of two slots.\<close>

definition prp_example_sgt :: "scatterlist list" where
  "prp_example_sgt = [\<lparr>sg_dma_address = 2, sg_dma_len = 6\<rparr>, \<lparr>sg_dma_address = 16, sg_dma_len = 8\<rparr>]"

definition prp_example_pool :: "nat \<Rightarrow> (nat list \<times> nat) option" where
  "prp_example_pool i = Some ([0, 0], 4096 * (i + 1))"

text \<open>A slice the count accepts is described exactly by the list that is then built: with the
  count as its size, the walk neither overruns the allocated lists nor leaves a chunk boundary, and
  the bytes the device moves by following the chain, from lengths it derives itself, are the bytes of
  the slice in order, whatever the number of entries, lists and pages.\<close>

theorem desc_list_correct:
  assumes "sg_wf sgt" "mx_sg_locate sgt off = Inr (sgs, intra)"
    "mx_get_total_desc_count sgs intra sz (2 ^ k) = Inr n"
    "2 \<le> per" "pool_ok pool per (lists_needed per n)"
  shows "\<exists>pages bas. mx_desc_list_init True True pool sgt off sz (2 ^ k) per False n =
      Some (Inr (pages, bas)) \<and>
      device_bytes (2 ^ k) (device_chain per (dma_read bas pages) (bas ! 0) n) sz =
        take sz (drop off (sg_bytes sgt))"
proof -
  obtain sg rest where s: "sgs = sg # rest" using locate_ok [OF assms(2,1)] by metis
  note v = validated_slice [OF assms(2,1) [unfolded s] assms(3) [unfolded s]]
  show ?thesis using desc_list_init_full [OF assms] v(8) s by auto
qed

theorem desc_list_correct_witness:
  "\<exists>pages bas. mx_desc_list_init True True prp_example_pool prp_example_sgt 1 12 4 2 False 4 =
      Some (Inr (pages, bas)) \<and>
      device_bytes 4 (device_chain 2 (dma_read bas pages) (bas ! 0) 4) 12 =
        [3, 4, 5, 6, 7, 16, 17, 18, 19, 20, 21, 22]"
proof -
  have "sg_wf prp_example_sgt" by (simp add: sg_wf_def prp_example_sgt_def)
  moreover have "mx_sg_locate prp_example_sgt 1 = Inr (prp_example_sgt, 1)"
      "mx_get_total_desc_count prp_example_sgt 1 12 (2 ^ 2) = Inr 4"
      "pool_ok prp_example_pool 2 (lists_needed 2 4)"
      "take 12 (drop 1 (sg_bytes prp_example_sgt)) = [3, 4, 5, 6, 7, 16, 17, 18, 19, 20, 21, 22]"
    by code_simp+
  ultimately show ?thesis
    using desc_list_correct [of prp_example_sgt 1 prp_example_sgt 1 12 2 4 2 prp_example_pool] by simp
qed

lemma desc_list_init_skip:
  assumes loc: "mx_sg_locate sgt off = Inr (sg # rest, intra)" and cnt: "desc_cnt \<noteq> 0"
    and lc: "mx_get_list_count desc_cnt per = Some list_cnt"
    and al: "desc_list_alloc va_ok ba_ok pool list_cnt = Inr (pages, bas)"
    and len: "min (mx_prp_first_chunk_len sg intra d) (min (sg_dma_len sg - intra) sz) = len"
    and go: "\<not> (sg_dma_len sg - intra - len = 0 \<and> tl (sg # rest) = [])" "0 < sz - len"
    and sgs1: "sgs1 = (if sg_dma_len sg - intra - len = 0 then tl (sg # rest) else sg # rest)"
    and a2: "a2 = (if sg_dma_len sg - intra - len = 0 then sg_dma_address (hd sgs1)
                   else sg_dma_address sg + intra + len)"
    and avail2: "avail2 = (if sg_dma_len sg - intra - len = 0 then sg_dma_len (hd sgs1)
                   else sg_dma_len sg - intra - len)"
    and aligned: "a2 AND (d - 1) = 0"
  shows "mx_desc_list_init va_ok ba_ok pool sgt off sz d per True desc_cnt =
    map_option (map_sum id (\<lambda>pages. (pages, bas)))
      (desc_emit_loop d per list_cnt bas sgs1 a2 avail2 (sz - len) (min d (min avail2 (sz - len)))
         0 0 desc_cnt pages)"
proof -
  have mv: "(sg_dma_len sg - intra - len = 0 \<and> 0 < sz - len) = (sg_dma_len sg - intra - len = 0)"
    using go(2) by simp
  show ?thesis
    unfolding mx_desc_list_init_def loc Let_def sum.case prod.case lc al option.case list.sel(1) len mv
      sgs1 [symmetric] a2 [symmetric] avail2 [symmetric]
    using cnt go(1) aligned by auto
qed

lemma desc_list_init_skip_full:
  assumes "sg_wf sgt" "mx_sg_locate sgt off = Inr (sgs, intra)"
    "mx_get_total_desc_count sgs intra sz (2 ^ k) = Inr n"
    "2 \<le> n" "2 \<le> per" "pool_ok pool per (lists_needed per (n - 1))"
  shows "\<exists>pages bas. mx_desc_list_init True True pool sgt off sz (2 ^ k) per True (n - 1) =
      Some (Inr (pages, bas)) \<and>
      (sg_dma_address (hd sgs) + intra) # device_chain per (dma_read bas pages) (bas ! 0) (n - 1) =
        map fst (todo (2 ^ k) sgs (sg_dma_address (hd sgs) + intra) (sg_dma_len (hd sgs) - intra) sz)"
proof -
  obtain sg rest where s: "sgs = sg # rest" using locate_ok [OF assms(2,1)] by metis
  note v = validated_slice [OF assms(2,1) [unfolded s] assms(3) [unfolded s]]
  let ?a = "sg_dma_address sg + intra" and ?avail = "sg_dma_len sg - intra"
  define len where "len = min (prp_chunk_len_at ?a (2 ^ k)) (min ?avail sz)"
  have len: "min (mx_prp_first_chunk_len sg intra (2 ^ k)) (min ?avail sz) = len"
    unfolding len_def by (rule first_len_eq)
  have pos: "0 < ?avail" "0 < sz" using v(1,3) by simp_all
  define cs' where "cs' = tl (todo (2 ^ k) (sg # rest) ?a ?avail sz)"
  have c: "todo (2 ^ k) (sg # rest) ?a ?avail sz = (?a, len) # cs'"
    unfolding cs'_def using todo_first [OF pos, of k "sg # rest" ?a] len_def by simp
  define sgs1 where "sgs1 = (if ?avail - len = 0 then tl (sg # rest) else sg # rest)"
  define a2 where "a2 = (if ?avail - len = 0 then sg_dma_address (hd sgs1) else ?a + len)"
  define avail2 where "avail2 = (if ?avail - len = 0 then sg_dma_len (hd sgs1) else ?avail - len)"
  have n: "length cs' = n - 1" "cs' \<noteq> []" "prp_tail_ok (2 ^ k) cs'" "sum_list (map snd cs') = sz - len"
    using v(4,5,7) assms(4) c by auto
  note ts = todo_step [OF c list.distinct(2) v(2) pos n(2,3) len_def sgs1_def a2_def avail2_def]
  obtain pages bas where pool: "desc_list_alloc True True pool (lists_needed per (n - 1)) = Inr (pages, bas)"
      "pages_wf per (lists_needed per (n - 1)) pages" "length bas = lists_needed per (n - 1)" "distinct bas"
    using pool_alloc [OF assms(6)] by metis
  have ne: "lists_needed per (n - 1) = lists_needed per (length cs')" using n(1) by simp
  from emit_chain [OF ts(6) [symmetric] ts(3-5,2) n(4) prp_tail_tl [OF n(3)] ts(8) pool(2) assms(5) ne pool(3,4)]
  obtain pages' where e: "desc_emit_loop (2 ^ k) per (lists_needed per (n - 1)) bas sgs1 a2 avail2 (sz - len)
      (min (2 ^ k) (min avail2 (sz - len))) 0 0 (n - 1) pages = Some (Inr pages')"
      "device_chain per (dma_read bas pages') (bas ! 0) (n - 1) = map fst cs'"
    unfolding n(1) by auto
  have "mx_get_list_count (n - 1) per = Some (lists_needed per (n - 1))"
    by (simp add: mx_get_list_count_def list_count_loop_eq [OF assms(5)])
  from desc_list_init_skip [OF assms(2) [unfolded s] _ this pool(1) len ts(1,2) sgs1_def a2_def avail2_def]
  have "mx_desc_list_init True True pool sgt off sz (2 ^ k) per True (n - 1) = Some (Inr (pages', bas))"
    using assms(4) ts(7) e(1) unfolding and_mod by simp
  with e(2) c s show ?thesis by auto
qed

text \<open>The same for the v2 layout, where the first descriptor travels in the command and the list
  holds the remaining ones: the first descriptor followed by the chain moves exactly the slice.\<close>

theorem desc_list_skip_correct:
  assumes "sg_wf sgt" "mx_sg_locate sgt off = Inr (sgs, intra)"
    "mx_get_total_desc_count sgs intra sz (2 ^ k) = Inr n"
    "2 \<le> n" "2 \<le> per" "pool_ok pool per (lists_needed per (n - 1))"
  shows "\<exists>pages bas. mx_desc_list_init True True pool sgt off sz (2 ^ k) per True (n - 1) =
      Some (Inr (pages, bas)) \<and>
      device_bytes (2 ^ k) ((sg_dma_address (hd sgs) + intra) #
          device_chain per (dma_read bas pages) (bas ! 0) (n - 1)) sz =
        take sz (drop off (sg_bytes sgt))"
proof -
  obtain sg rest where s: "sgs = sg # rest" using locate_ok [OF assms(2,1)] by metis
  note v = validated_slice [OF assms(2,1) [unfolded s] assms(3) [unfolded s]]
  show ?thesis using desc_list_init_skip_full [OF assms] v(8) s by auto
qed

theorem desc_list_skip_correct_witness:
  "\<exists>pages bas. mx_desc_list_init True True prp_example_pool prp_example_sgt 1 12 4 2 True 3 =
      Some (Inr (pages, bas)) \<and>
      device_bytes 4 (3 # device_chain 2 (dma_read bas pages) (bas ! 0) 3) 12 =
        [3, 4, 5, 6, 7, 16, 17, 18, 19, 20, 21, 22]"
proof -
  have "sg_wf prp_example_sgt" by (simp add: sg_wf_def prp_example_sgt_def)
  moreover have "mx_sg_locate prp_example_sgt 1 = Inr (prp_example_sgt, 1)"
      "mx_get_total_desc_count prp_example_sgt 1 12 (2 ^ 2) = Inr 4"
      "pool_ok prp_example_pool 2 (lists_needed 2 (4 - 1))"
      "sg_dma_address (hd prp_example_sgt) + 1 = 3"
      "take 12 (drop 1 (sg_bytes prp_example_sgt)) = [3, 4, 5, 6, 7, 16, 17, 18, 19, 20, 21, 22]"
    by code_simp+
  ultimately show ?thesis
    using desc_list_skip_correct [of prp_example_sgt 1 prp_example_sgt 1 12 2 4 2 prp_example_pool] by simp
qed

section \<open>Memory safety\<close>

text \<open>A store at a valid slot succeeds and keeps the shape of the pages.\<close>

lemma desc_store_wf:
  "pages_wf per n pages \<Longrightarrow> li < n \<Longrightarrow> di < per \<Longrightarrow>
     \<exists>pages'. desc_store pages li di v = Some pages' \<and> pages_wf per n pages'"
  using desc_store_ok by metis

lemma desc_link_safe:
  assumes "pages_wf per n pages" "li < n" "0 < per"
  shows "\<exists>r. desc_link per n bas pages li di tot = Some r \<and>
    (\<forall>pages1 li1 di1. r = Inr (pages1, li1, di1) \<longrightarrow> pages_wf per n pages1 \<and> li1 < n)"
proof (cases "di = per - 1 \<and> 1 < tot \<and> li + 1 < n")
  case True
  then obtain p where "desc_store pages li di (bas ! (li + 1)) = Some p" "pages_wf per n p"
    using desc_store_wf [OF assms(1,2), of di] assms(3) by auto
  with True show ?thesis by (simp add: desc_link_def)
next
  case False
  then show ?thesis using assms by (auto simp: desc_link_def)
qed

lemma emit_safe:
  "pages_wf per n pages \<Longrightarrow> li < n \<Longrightarrow> 0 < per \<Longrightarrow>
   desc_emit_loop d per n bas sgs a avail rem len li di tot pages \<noteq> None"
proof (induction tot arbitrary: sgs a avail rem len li di pages)
  case 0
  from desc_link_safe [OF 0, of bas di 0] obtain r where r: "desc_link per n bas pages li di 0 = Some r" by auto
  then show ?case by (subst desc_emit_loop.simps) (auto split: sum.split)
next
  case (Suc tot)
  from desc_link_safe [OF Suc.prems, of bas di "Suc tot"]
  obtain r where r: "desc_link per n bas pages li di (Suc tot) = Some r"
      "\<And>p l d. r = Inr (p, l, d) \<Longrightarrow> pages_wf per n p \<and> l < n" by auto
  show ?case
  proof (cases r)
    case (Inl e)
    with r show ?thesis by (subst desc_emit_loop.simps) simp
  next
    case (Inr x)
    obtain p l d1 where x: "x = (p, l, d1)" by (cases x)
    with r(2) Inr have w: "pages_wf per n p" "l < n" by simp_all
    show ?thesis
    proof (cases "d1 < per")
      case True
      then obtain p2 where p2: "desc_store p l d1 a = Some p2" "pages_wf per n p2"
        using desc_store_wf [OF w] by metis
      show ?thesis using r(1) Inr x True p2 Suc.IH [OF p2(2) w(2) Suc.prems(3)]
        by (subst desc_emit_loop.simps) (simp add: Let_def)
    next
      case False
      then show ?thesis using r(1) Inr x by (subst desc_emit_loop.simps) simp
    qed
  qed
qed

lemma if_not_None: "x \<noteq> None \<Longrightarrow> y \<noteq> None \<Longrightarrow> (if b then x else y) \<noteq> None"
  by simp

text \<open>C35. Building a list never stores outside the pages it allocated, for any mapping, offset, size,
  chunk size and descriptor count, also one that disagrees with the walk: a disagreement ends in the
  error return. The loop that sizes the allocation always ends.\<close>

theorem desc_list_memory_safe:
  assumes "2 \<le> per" "\<forall>i page ba. pool i = Some (page, ba) \<longrightarrow> length page = per"
  shows "mx_desc_list_init va_ok ba_ok pool sgt off sz d per skip desc_cnt \<noteq> None"
proof -
  have lc: "mx_get_list_count desc_cnt per = Some (lists_needed per desc_cnt)"
    by (simp add: mx_get_list_count_def list_count_loop_eq [OF assms(1)])
  have wf: "pages_wf per n pages" if al: "desc_list_alloc va_ok ba_ok pool n = Inr (pages, bas)" for n pages bas
  proof -
    have some: "\<forall>i < n. pool i \<noteq> None" and p: "pages = map (\<lambda>i. fst (the (pool i))) [0..<n]"
      using al by (simp_all add: desc_list_alloc_def list_all_iff split: if_split_asm)
    have "length (fst (the (pool i))) = per" if "i < n" for i
      using some assms(2) that by (metis option.collapse prod.collapse)
    then show ?thesis unfolding p by (simp add: pages_wf_def)
  qed
  show ?thesis
  proof (cases "mx_sg_locate sgt off")
    case (Inr x)
    obtain sgs intra where x: "x = (sgs, intra)" by (cases x)
    show ?thesis
    proof (cases "desc_list_alloc va_ok ba_ok pool (lists_needed per desc_cnt)")
      case (Inr y)
      obtain pages bas where y: "y = (pages, bas)" by (cases y)
      have e: "desc_emit_loop d per (lists_needed per desc_cnt) bas s a v r l 0 0 desc_cnt pages \<noteq> None"
        for s a v r l
        using wf [OF Inr [unfolded y]] lists_needed_pos assms(1) by (intro emit_safe) auto
      show ?thesis
        unfolding mx_desc_list_init_def \<open>mx_sg_locate sgt off = Inr x\<close> x sum.case prod.case lc
          option.case Inr y Let_def
        by (intro if_not_None) (simp_all only: option.map_disc_iff e option.distinct not_False_eq_True)
    qed (simp add: mx_desc_list_init_def Inr x lc)
  qed (simp add: mx_desc_list_init_def)
qed

theorem desc_list_memory_safe_witness:
  "mx_desc_list_init True True prp_example_pool prp_example_sgt 1 12 4 2 False 2 \<noteq> None \<and>
   mx_desc_list_init True True prp_example_pool prp_example_sgt 1 12 4 2 False 2 = Some (Inl EINVAL)"
proof
  show "mx_desc_list_init True True prp_example_pool prp_example_sgt 1 12 4 2 False 2 \<noteq> None"
    by (rule desc_list_memory_safe) (auto simp: prp_example_pool_def)
  show "mx_desc_list_init True True prp_example_pool prp_example_sgt 1 12 4 2 False 2 =
      Some (Inl EINVAL)"
    by code_simp
qed

end
