(* ===== verification/Command.thy ===== *)
theory Command
  imports Prp_Correct
begin

text \<open>
  The hardware commands of \<open>core_v1.c\<close> and \<open>core_v2.c\<close>: their layouts, the constructors for data
  (scatter-gather), control, pass-through and ping commands, and what a data command makes the device
  do. 64-bit addresses and sizes are naturals, as in the descriptor theory; the narrow bit-fields of
  the v1 header keep their widths, since they truncate what is stored in them.
\<close>

section \<open>Shared structures\<close>

text \<open>\<open>IO_OPCODE_*\<close> of \<open>mx_dma.h\<close>\<close>

abbreviation (input) IO_OPCODE_DATA_READ :: nat where "IO_OPCODE_DATA_READ \<equiv> 0"
abbreviation (input) IO_OPCODE_DATA_WRITE :: nat where "IO_OPCODE_DATA_WRITE \<equiv> 1"
abbreviation (input) IO_OPCODE_CONTEXT_READ :: nat where "IO_OPCODE_CONTEXT_READ \<equiv> 2"
abbreviation (input) IO_OPCODE_CONTEXT_WRITE :: nat where "IO_OPCODE_CONTEXT_WRITE \<equiv> 3"
abbreviation (input) IO_OPCODE_SQ_READ :: nat where "IO_OPCODE_SQ_READ \<equiv> 4"
abbreviation (input) IO_OPCODE_SQ_WRITE :: nat where "IO_OPCODE_SQ_WRITE \<equiv> 5"
abbreviation (input) IO_OPCODE_CQ_READ :: nat where "IO_OPCODE_CQ_READ \<equiv> 6"
abbreviation (input) IO_OPCODE_CQ_WRITE :: nat where "IO_OPCODE_CQ_WRITE \<equiv> 7"
abbreviation (input) IO_OPCODE_PASSTHRU :: nat where "IO_OPCODE_PASSTHRU \<equiv> 8"
abbreviation (input) IO_OPCODE_SEND :: nat where "IO_OPCODE_SEND \<equiv> 9"
abbreviation (input) IO_OPCODE_RECV :: nat where "IO_OPCODE_RECV \<equiv> 10"
abbreviation (input) IO_OPCODE_PING :: nat where "IO_OPCODE_PING \<equiv> 11"

abbreviation (input) MX_PING_ID :: nat where "MX_PING_ID \<equiv> 65535"
abbreviation (input) MAGIC_COMMAND :: nat where "MAGIC_COMMAND \<equiv> 0x1234"

datatype dma_data_direction = DMA_BIDIRECTIONAL | DMA_TO_DEVICE | DMA_FROM_DEVICE | DMA_NONE

text \<open>The fields of \<open>struct mx_transfer\<close> a command is built from.\<close>

record transfer_req =
  t_id :: nat
  t_size :: nat
  t_device_addr :: nat
  t_dir :: dma_data_direction
  t_sg_byte_offset :: nat

text \<open>
  \<open>mx_fill_ctrl_doorbell\<close>: \<open>access_ok\<close> tells user from kernel addresses; \<open>user_word\<close> is what
  \<open>copy_from_user\<close> delivers (or its fault), \<open>kernel_word\<close> what the kernel pointer holds. The old
  doorbell value is kept for the other directions.
\<close>

definition mx_fill_ctrl_doorbell ::
  "dma_data_direction \<Rightarrow> bool \<Rightarrow> nat option \<Rightarrow> nat \<Rightarrow> nat \<Rightarrow> nat result" where
  "mx_fill_ctrl_doorbell dir access_ok user_word kernel_word doorbell =
     (if dir \<noteq> DMA_TO_DEVICE then Inr doorbell
      else if access_ok then (case user_word of None \<Rightarrow> Inl EFAULT | Some w \<Rightarrow> Inr w)
      else Inr kernel_word)"

section \<open>Version 1\<close>

record mx_command_v1 =
  c1_magic :: u16
  c1_opcode :: "4 word"
  c1_control :: "4 word"
  c1_page_mode :: "2 word"
  c1_id :: u16
  c1_barrier_index :: "6 word"
  c1_subopcode :: "6 word"
  c1_rsvd :: "10 word"
  c1_size :: nat
  c1_device_addr :: nat
  c1_host_addr :: nat

abbreviation (input) MXDMA_PAGE_MODE_SINGLE :: "2 word" where "MXDMA_PAGE_MODE_SINGLE \<equiv> 0"
abbreviation (input) MXDMA_PAGE_MODE_MULTI :: "2 word" where "MXDMA_PAGE_MODE_MULTI \<equiv> 1"
abbreviation (input) SINGLE_DMA_SIZE_V1 :: nat where "SINGLE_DMA_SIZE_V1 \<equiv> 2 ^ 10"
abbreviation (input) NUM_OF_DESC_PER_LIST_V1 :: nat where "NUM_OF_DESC_PER_LIST_V1 \<equiv> 128"

text \<open>The \<open>memset\<close> to zero.\<close>

definition command_v1_zero :: mx_command_v1 where
  "command_v1_zero = \<lparr>c1_magic = 0, c1_opcode = 0, c1_control = 0, c1_page_mode = 0, c1_id = 0,
     c1_barrier_index = 0, c1_subopcode = 0, c1_rsvd = 0, c1_size = 0, c1_device_addr = 0,
     c1_host_addr = 0\<rparr>"

definition build_ping_command_v1 :: mx_command_v1 where
  "build_ping_command_v1 = command_v1_zero\<lparr>c1_magic := of_nat MAGIC_COMMAND,
     c1_id := of_nat MX_PING_ID, c1_opcode := of_nat IO_OPCODE_PING\<rparr>"

definition alloc_mx_command_v1 :: "transfer_req \<Rightarrow> nat \<Rightarrow> mx_command_v1" where
  "alloc_mx_command_v1 t opcode = command_v1_zero\<lparr>c1_magic := of_nat MAGIC_COMMAND,
     c1_id := of_nat (t_id t), c1_opcode := of_nat opcode, c1_size := t_size t,
     c1_device_addr := t_device_addr t\<rparr>"

text \<open>
  The result carries the descriptor lists the command refers to (pages and bus addresses); \<open>None\<close>
  is a store outside them, as in \<open>mx_desc_list_init\<close>.
\<close>

definition create_mx_command_sg_v1 ::
  "bool \<Rightarrow> bool \<Rightarrow> (nat \<Rightarrow> (nat list \<times> nat) option) \<Rightarrow> scatterlist list \<Rightarrow> transfer_req \<Rightarrow> nat \<Rightarrow>
     (mx_command_v1 \<times> nat list list \<times> nat list) result option" where
  "create_mx_command_sg_v1 va_ok ba_ok pool sgt t opcode =
     (let comm = alloc_mx_command_v1 t opcode in
      case mx_sg_locate sgt (t_sg_byte_offset t) of
        Inl e \<Rightarrow> Some (Inl e)
      | Inr (sgs, intra_off) \<Rightarrow>
          if t_size t \<le> mx_prp_first_chunk_len (hd sgs) intra_off SINGLE_DMA_SIZE_V1 then
            (let host = sg_dma_address (hd sgs) + intra_off in
             if host = 0 then Some (Inl EINVAL)
             else Some (Inr (comm\<lparr>c1_page_mode := MXDMA_PAGE_MODE_SINGLE, c1_host_addr := host\<rparr>, [], [])))
          else case mx_get_total_desc_count sgs intra_off (t_size t) SINGLE_DMA_SIZE_V1 of
            Inl e \<Rightarrow> Some (Inl e)
          | Inr desc_cnt \<Rightarrow>
              (case mx_desc_list_init va_ok ba_ok pool sgt (t_sg_byte_offset t) (t_size t)
                      SINGLE_DMA_SIZE_V1 NUM_OF_DESC_PER_LIST_V1 False desc_cnt of
                 None \<Rightarrow> None
               | Some (Inl e) \<Rightarrow> Some (Inl e)
               | Some (Inr (pages, bas)) \<Rightarrow>
                   Some (Inr (comm\<lparr>c1_page_mode := MXDMA_PAGE_MODE_MULTI, c1_host_addr := bas ! 0\<rparr>,
                              pages, bas))))"

definition create_mx_command_ctrl_v1 ::
  "bool \<Rightarrow> nat option \<Rightarrow> nat \<Rightarrow> transfer_req \<Rightarrow> nat \<Rightarrow> mx_command_v1 result" where
  "create_mx_command_ctrl_v1 access_ok user_word kernel_word t opcode =
     (let comm = alloc_mx_command_v1 t opcode in
      case mx_fill_ctrl_doorbell (t_dir t) access_ok user_word kernel_word (c1_host_addr comm) of
        Inl e \<Rightarrow> Inl e
      | Inr doorbell \<Rightarrow> Inr (comm\<lparr>c1_host_addr := doorbell\<rparr>))"

definition create_mx_command_passthru_v1 :: "transfer_req \<Rightarrow> nat \<Rightarrow> mx_command_v1" where
  "create_mx_command_passthru_v1 t subopcode = command_v1_zero\<lparr>c1_magic := of_nat MAGIC_COMMAND,
     c1_opcode := of_nat IO_OPCODE_PASSTHRU, c1_id := of_nat (t_id t),
     c1_subopcode := of_nat subopcode, c1_size := t_size t, c1_device_addr := t_device_addr t,
     c1_host_addr := 0\<rparr>"

text \<open>The header word the completion path reads back: id and control.\<close>

definition command_v1_header :: "mx_command_v1 \<Rightarrow> u64" where
  "command_v1_header c =
     ucast (c1_magic c) OR push_bit 16 (ucast (c1_opcode c)) OR push_bit 20 (ucast (c1_control c)) OR
     push_bit 24 (ucast (c1_page_mode c)) OR push_bit 26 (ucast (c1_id c)) OR
     push_bit 42 (ucast (c1_barrier_index c)) OR push_bit 48 (ucast (c1_subopcode c)) OR
     push_bit 54 (ucast (c1_rsvd c))"

definition header_v1_id :: "u64 \<Rightarrow> u16" where "header_v1_id h = ucast (drop_bit 26 h)"

definition header_v1_control :: "u64 \<Rightarrow> 4 word" where "header_v1_control h = ucast (drop_bit 20 h)"

section \<open>Version 2\<close>

record mx_command_v2 =
  c2_opcode :: u8
  c2_flags :: u8
  c2_command_id :: u16
  c2_prp_entry1 :: nat
  c2_prp_entry2 :: nat
  c2_device_addr :: nat
  c2_size :: nat

abbreviation (input) SINGLE_DMA_SIZE_V2 :: nat where "SINGLE_DMA_SIZE_V2 \<equiv> 2 ^ 12"
abbreviation (input) NUM_OF_DESC_PER_LIST_V2 :: nat where "NUM_OF_DESC_PER_LIST_V2 \<equiv> 512"

definition command_v2_zero :: mx_command_v2 where
  "command_v2_zero = \<lparr>c2_opcode = 0, c2_flags = 0, c2_command_id = 0, c2_prp_entry1 = 0,
     c2_prp_entry2 = 0, c2_device_addr = 0, c2_size = 0\<rparr>"

definition build_ping_command_v2 :: mx_command_v2 where
  "build_ping_command_v2 = command_v2_zero\<lparr>c2_opcode := of_nat IO_OPCODE_PING,
     c2_command_id := of_nat MX_PING_ID\<rparr>"

definition alloc_mx_command_v2 :: "transfer_req \<Rightarrow> nat \<Rightarrow> mx_command_v2" where
  "alloc_mx_command_v2 t opcode = command_v2_zero\<lparr>c2_opcode := of_nat opcode,
     c2_command_id := of_nat (t_id t), c2_size := t_size t, c2_device_addr := t_device_addr t\<rparr>"

definition create_mx_command_sg_v2 ::
  "bool \<Rightarrow> bool \<Rightarrow> (nat \<Rightarrow> (nat list \<times> nat) option) \<Rightarrow> scatterlist list \<Rightarrow> transfer_req \<Rightarrow> nat \<Rightarrow>
     (mx_command_v2 \<times> nat list list \<times> nat list) result option" where
  "create_mx_command_sg_v2 va_ok ba_ok pool sgt t opcode =
     (let comm = alloc_mx_command_v2 t opcode in
      case mx_sg_locate sgt (t_sg_byte_offset t) of
        Inl e \<Rightarrow> Some (Inl e)
      | Inr (sgs, intra_off) \<Rightarrow>
          let prp1 = sg_dma_address (hd sgs) + intra_off;
              comm = comm\<lparr>c2_prp_entry1 := prp1\<rparr> in
          if prp1 = 0 then Some (Inl EINVAL)
          else case mx_get_total_desc_count sgs intra_off (t_size t) SINGLE_DMA_SIZE_V2 of
            Inl e \<Rightarrow> Some (Inl e)
          | Inr desc_cnt \<Rightarrow>
              if desc_cnt = 0 then Some (Inl EINVAL)
              else if desc_cnt = 1 then Some (Inr (comm\<lparr>c2_prp_entry2 := 0\<rparr>, [], []))
              else if desc_cnt = 2 then
                (let first_len = mx_prp_first_chunk_len (hd sgs) intra_off SINGLE_DMA_SIZE_V2 in
                 if intra_off + first_len < sg_dma_len (hd sgs) then
                   (if prp1 + first_len = 0 then Some (Inl EINVAL)
                    else Some (Inr (comm\<lparr>c2_prp_entry2 := prp1 + first_len\<rparr>, [], [])))
                 else if tl sgs = [] then Some (Inl EINVAL)
                 else if sg_dma_address (hd (tl sgs)) = 0 then Some (Inl EINVAL)
                 else Some (Inr (comm\<lparr>c2_prp_entry2 := sg_dma_address (hd (tl sgs))\<rparr>, [], [])))
              else
                case mx_desc_list_init va_ok ba_ok pool sgt (t_sg_byte_offset t) (t_size t)
                       SINGLE_DMA_SIZE_V2 NUM_OF_DESC_PER_LIST_V2 True (desc_cnt - 1) of
                  None \<Rightarrow> None
                | Some (Inl e) \<Rightarrow> Some (Inl e)
                | Some (Inr (pages, bas)) \<Rightarrow>
                    Some (Inr (comm\<lparr>c2_prp_entry2 := bas ! 0\<rparr>, pages, bas)))"

definition create_mx_command_ctrl_v2 ::
  "bool \<Rightarrow> nat option \<Rightarrow> nat \<Rightarrow> transfer_req \<Rightarrow> nat \<Rightarrow> mx_command_v2 result" where
  "create_mx_command_ctrl_v2 access_ok user_word kernel_word t opcode =
     (let comm = alloc_mx_command_v2 t opcode in
      case mx_fill_ctrl_doorbell (t_dir t) access_ok user_word kernel_word (c2_prp_entry1 comm) of
        Inl e \<Rightarrow> Inl e
      | Inr doorbell \<Rightarrow> Inr (comm\<lparr>c2_prp_entry1 := doorbell\<rparr>))"

section \<open>What the device does with a data command\<close>

text \<open>The number of descriptors the device expects, from the first address and the size alone.\<close>

definition device_desc_count :: "nat \<Rightarrow> nat \<Rightarrow> nat \<Rightarrow> nat" where
  "device_desc_count d a n =
     (let f = min (prp_chunk_len_at a d) n in if f < n then 1 + DIV_ROUND_UP (n - f) d else 1)"

definition v2_device_bytes :: "mx_command_v2 \<Rightarrow> (nat \<Rightarrow> nat list) \<Rightarrow> nat list" where
  "v2_device_bytes c mem =
     (let d = SINGLE_DMA_SIZE_V2; n = device_desc_count d (c2_prp_entry1 c) (c2_size c) in
      if n = 1 then device_bytes d [c2_prp_entry1 c] (c2_size c)
      else if n = 2 then device_bytes d [c2_prp_entry1 c, c2_prp_entry2 c] (c2_size c)
      else device_bytes d (c2_prp_entry1 c #
             device_chain NUM_OF_DESC_PER_LIST_V2 mem (c2_prp_entry2 c) (n - 1)) (c2_size c))"

definition v1_device_bytes :: "mx_command_v1 \<Rightarrow> (nat \<Rightarrow> nat list) \<Rightarrow> nat list" where
  "v1_device_bytes c mem =
     (if c1_page_mode c = MXDMA_PAGE_MODE_SINGLE then [c1_host_addr c..<c1_host_addr c + c1_size c]
      else let d = SINGLE_DMA_SIZE_V1;
               n = device_desc_count d (mem (c1_host_addr c) ! 0) (c1_size c) in
           device_bytes d (device_chain NUM_OF_DESC_PER_LIST_V1 mem (c1_host_addr c) n) (c1_size c))"

lemma tail_count:
  assumes "prp_tail_ok d cs" "\<forall>(x, l) \<in> set cs. 0 < l" "0 < d"
  shows "length cs = DIV_ROUND_UP (sum_list (map snd cs)) d"
  using assms
proof (induction cs)
  case (Cons c cs)
  obtain a l where c: "c = (a, l)" by force
  have l: "0 < l" "l \<le> d" "cs \<noteq> [] \<Longrightarrow> l = d" using Cons.prems c by auto
  have "DIV_ROUND_UP (l + sum_list (map snd cs)) d = Suc (DIV_ROUND_UP (l + sum_list (map snd cs) - d) d)"
    using l Cons.prems(3) by (intro DIV_ROUND_UP_step) auto
  moreover have "DIV_ROUND_UP (l + sum_list (map snd cs) - d) d = length cs"
  proof (cases "cs = []")
    case True
    then show ?thesis using l Cons.prems(3) by simp
  next
    case False
    then show ?thesis using l Cons c by simp
  qed
  ultimately show ?case using c by simp
qed (simp add: DIV_ROUND_UP_def)

lemma device_count_ok:
  assumes "prp_ok d ((a, l) # cs)" "\<forall>(x, l) \<in> set cs. 0 < l" "0 < d" "l + sum_list (map snd cs) = n"
  shows "Suc (length cs) = device_desc_count d a n"
proof (cases "cs = []")
  case True
  then show ?thesis using assms(1,4) by (auto simp: device_desc_count_def Let_def)
next
  case False
  then have l: "l = prp_chunk_len_at a d" using assms(1) by simp
  have "0 < sum_list (map snd cs)" using False assms(2) by (cases cs) auto
  moreover have "length cs = DIV_ROUND_UP (sum_list (map snd cs)) d"
    using assms(1-3) by (intro tail_count) auto
  ultimately show ?thesis using l assms(4) by (auto simp: device_desc_count_def Let_def)
qed

text \<open>The chunks of a validated slice, and that the device counts them the same way.\<close>

lemma slice_chunks:
  assumes wf: "sg_wf sgt" and loc: "mx_sg_locate sgt off = Inr (sgs, intra)"
    and count: "mx_get_total_desc_count sgs intra sz (2 ^ k) = Inr n"
  obtains l cs where
    "todo (2 ^ k) sgs (sg_dma_address (hd sgs) + intra) (sg_dma_len (hd sgs) - intra) sz =
       (sg_dma_address (hd sgs) + intra, l) # cs"
    "l = min (prp_chunk_len_at (sg_dma_address (hd sgs) + intra) (2 ^ k)) (min (sg_dma_len (hd sgs) - intra) sz)"
    "n = Suc (length cs)" "device_desc_count (2 ^ k) (sg_dma_address (hd sgs) + intra) sz = n"
    "device_bytes (2 ^ k) ((sg_dma_address (hd sgs) + intra) # map fst cs) sz = take sz (drop off (sg_bytes sgt))"
    "sgs \<noteq> []" "sg_wf sgs" "0 < sz" "intra < sg_dma_len (hd sgs)" "prp_tail_ok (2 ^ k) cs"
proof -
  obtain sg rest where s: "sgs = sg # rest" using locate_ok [OF loc wf] by metis
  note v = validated_slice [OF loc [unfolded s] wf count [unfolded s]]
  let ?a = "sg_dma_address sg + intra" and ?v = "sg_dma_len sg - intra"
  let ?l = "min (prp_chunk_len_at ?a (2 ^ k)) (min ?v sz)"
  have "0 < ?v" using v(3) by simp
  from todo_first [OF this v(1), of k "sg # rest" ?a]
  obtain cs where c: "todo (2 ^ k) (sg # rest) ?a ?v sz = (?a, ?l) # cs" by blast
  have pos: "\<forall>(x, l) \<in> set cs. 0 < l"
    using todo_positive [of _ _ "2 ^ k" "sg # rest" ?a ?v sz] c by auto
  have "Suc (length cs) = device_desc_count (2 ^ k) ?a sz"
    using v(5,6) c pos by (intro device_count_ok) auto
  then have n: "device_desc_count (2 ^ k) ?a sz = n" "n = Suc (length cs)" using v(4) c by simp_all
  have b: "device_bytes (2 ^ k) (?a # map fst cs) sz = take sz (drop off (sg_bytes sgt))"
    using v(8) unfolding c by (simp only: list.map fst_conv)
  have t: "prp_tail_ok (2 ^ k) cs" using v(7) unfolding c by (simp only: list.sel)
  show thesis
    by (rule that [of ?l cs, unfolded s list.sel(1)])
       (fact c refl n b v list.distinct(2) [of sg rest, THEN not_sym] t | rule list.distinct)+
qed

lemma device_chain_hd:
  assumes "device_chain per mem ba n = a # ds" "2 \<le> per" "mem ba \<noteq> []" "0 < n"
  shows "mem ba ! 0 = a"
proof (cases "mem ba")
  case (Cons x xs)
  then have "hd (device_chain per mem ba n) = x"
    using assms(2,4) by (subst device_chain.simps) (cases n; cases "per - 1"; auto)
  with assms(1) Cons show ?thesis by simp
qed (use assms in simp)

text \<open>The constructor past its checks, and the three shapes of a v2 data command.\<close>

lemma create_v2_located:
  fixes opcode :: nat
  assumes "mx_sg_locate sgt (t_sg_byte_offset t) = Inr (sgs, intra)"
    "sg_dma_address (hd sgs) + intra \<noteq> 0" "mx_get_total_desc_count sgs intra (t_size t) (2 ^ 12) = Inr n"
  defines "comm \<equiv> (alloc_mx_command_v2 t opcode)\<lparr>c2_prp_entry1 := sg_dma_address (hd sgs) + intra\<rparr>"
  shows "n = 1 \<Longrightarrow> create_mx_command_sg_v2 va ba pool sgt t opcode = Some (Inr (comm\<lparr>c2_prp_entry2 := 0\<rparr>, [], []))"
    "\<lbrakk> n = 2; p2 = (if intra + mx_prp_first_chunk_len (hd sgs) intra (2 ^ 12) < sg_dma_len (hd sgs)
         then sg_dma_address (hd sgs) + intra + mx_prp_first_chunk_len (hd sgs) intra (2 ^ 12)
         else sg_dma_address (hd (tl sgs))); p2 \<noteq> 0;
       intra + mx_prp_first_chunk_len (hd sgs) intra (2 ^ 12) < sg_dma_len (hd sgs) \<or> tl sgs \<noteq> [] \<rbrakk> \<Longrightarrow>
     create_mx_command_sg_v2 va ba pool sgt t opcode = Some (Inr (comm\<lparr>c2_prp_entry2 := p2\<rparr>, [], []))"
    "\<lbrakk> 2 < n; mx_desc_list_init va ba pool sgt (t_sg_byte_offset t) (t_size t) (2 ^ 12) 512 True (n - 1) =
         Some (Inr (pages, bas)) \<rbrakk> \<Longrightarrow>
     create_mx_command_sg_v2 va ba pool sgt t opcode =
       Some (Inr (comm\<lparr>c2_prp_entry2 := bas ! 0\<rparr>, pages, bas))"
  using assms(1-3) unfolding create_mx_command_sg_v2_def Let_def comm_def
  by (auto simp del: power_numeral split: if_split_asm)

lemma v2_device_bytes_shape:
  "device_desc_count (2 ^ 12) (c2_prp_entry1 c) (c2_size c) = n \<Longrightarrow>
   v2_device_bytes c mem = device_bytes (2 ^ 12) (c2_prp_entry1 c #
     (if n = 1 then [] else if n = 2 then [c2_prp_entry2 c]
      else device_chain 512 mem (c2_prp_entry2 c) (n - 1))) (c2_size c)"
  unfolding v2_device_bytes_def Let_def by (simp only: if_split) simp

text \<open>A mapping whose slice needs three v2 descriptors, and a pool of zeroed pages.\<close>

definition cmd_example_sgt :: "scatterlist list" where
  "cmd_example_sgt = [\<lparr>sg_dma_address = 5000, sg_dma_len = 3192\<rparr>, \<lparr>sg_dma_address = 12288, sg_dma_len = 8192\<rparr>]"

definition cmd_example_pool :: "nat \<Rightarrow> nat \<Rightarrow> (nat list \<times> nat) option" where
  "cmd_example_pool per i = Some (replicate per 0, 65536 * (i + 1))"

definition cmd_example_transfer :: transfer_req where
  "cmd_example_transfer = \<lparr>t_id = 7, t_size = 11384, t_device_addr = 0, t_dir = DMA_TO_DEVICE,
     t_sg_byte_offset = 0\<rparr>"

lemma v2_moves:
  assumes "sg_wf sgt" "\<forall>sg \<in> set sgt. 0 < sg_dma_address sg"
    "mx_sg_locate sgt (t_sg_byte_offset t) = Inr (sgs, intra)"
    "mx_get_total_desc_count sgs intra (t_size t) SINGLE_DMA_SIZE_V2 = Inr n"
    "pool_ok pool NUM_OF_DESC_PER_LIST_V2 (lists_needed NUM_OF_DESC_PER_LIST_V2 (n - 1))"
  shows "\<exists>c pages bas. create_mx_command_sg_v2 True True pool sgt t opcode = Some (Inr (c, pages, bas)) \<and>
    v2_device_bytes c (dma_read bas pages) =
      take (t_size t) (drop (t_sg_byte_offset t) (sg_bytes sgt))"
proof -
  let ?a = "sg_dma_address (hd sgs) + intra" and ?v = "sg_dma_len (hd sgs) - intra" and ?sz = "t_size t"
  obtain l cs where c: "todo (2 ^ 12) sgs ?a ?v ?sz = (?a, l) # cs"
    and l: "l = min (prp_chunk_len_at ?a (2 ^ 12)) (min ?v ?sz)"
    and n: "n = Suc (length cs)" "device_desc_count (2 ^ 12) ?a ?sz = n"
    and b: "device_bytes (2 ^ 12) (?a # map fst cs) ?sz = take ?sz (drop (t_sg_byte_offset t) (sg_bytes sgt))"
    and s: "sgs \<noteq> []" "sg_wf sgs" "0 < ?sz" "intra < sg_dma_len (hd sgs)" "prp_tail_ok (2 ^ 12) cs"
    by (rule slice_chunks [OF assms(1,3,4)])
  have nz: "\<forall>sg \<in> set sgs. 0 < sg_dma_address sg"
    using locate_loop_ok [of sgt 0 _ sgs intra] assms(2,3) unfolding mx_sg_locate_def by blast
  then have a0: "?a \<noteq> 0" using s(1) by (cases sgs) auto
  let ?c = "(alloc_mx_command_v2 t opcode)\<lparr>c2_prp_entry1 := ?a\<rparr>"
  have shape: "v2_device_bytes (?c\<lparr>c2_prp_entry2 := p2\<rparr>) mem = device_bytes (2 ^ 12) (?a #
      (if n = 1 then [] else if n = 2 then [p2] else device_chain 512 mem p2 (n - 1))) ?sz" for p2 mem
    using v2_device_bytes_shape [of "?c\<lparr>c2_prp_entry2 := p2\<rparr>" n mem] n(2)
    by (simp del: power_numeral add: alloc_mx_command_v2_def)
  note create = create_v2_located [OF assms(3) a0 assms(4)]
  consider "n = 1" | "n = 2" | "2 < n" using n(1) by linarith
  then show ?thesis
  proof cases
    case 1
    then have "cs = []" using n(1) by simp
    with 1 create(1) shape b show ?thesis by (auto simp del: power_numeral device_bytes.simps)
  next
    case 2
    then obtain a2 l2 where cs: "cs = [(a2, l2)]" using n(1) by (cases cs) auto
    define sgs1 where "sgs1 = (if ?v - l = 0 then tl sgs else sgs)"
    define p2 where "p2 = (if ?v - l = 0 then sg_dma_address (hd sgs1) else ?a + l)"
    define avail2 where "avail2 = (if ?v - l = 0 then sg_dma_len (hd sgs1) else ?v - l)"
    have v0: "0 < ?v" using s(4) by simp
    have "cs \<noteq> []" using cs by simp
    note ts = todo_step [OF c s(1,2) v0 s(3) this s(5) l sgs1_def p2_def avail2_def]
    have a2: "a2 = p2" using ts(6) todo_first [OF ts(5,2), of 12 sgs1 p2] unfolding cs
      by (metis list.inject prod.inject)
    have fl: "l = mx_prp_first_chunk_len (hd sgs) intra (2 ^ 12)"
      using ts(2) l unfolding mx_prp_first_chunk_len_def by (simp add: min_def split: if_split_asm)
    have cond: "(intra + l < sg_dma_len (hd sgs)) = (\<not> ?v - l = 0)" using s(4) by linarith
    have p2: "p2 = (if intra + l < sg_dma_len (hd sgs) then ?a + l else sg_dma_address (hd (tl sgs)))"
      unfolding cond p2_def sgs1_def by simp
    have next_sg: "intra + l < sg_dma_len (hd sgs) \<or> tl sgs \<noteq> []" using ts(1) cond by blast
    then have "p2 \<noteq> 0" unfolding p2 using a0 nz by (cases sgs; cases "tl sgs") auto
    from create(2) [OF 2 p2 [unfolded fl] this next_sg [unfolded fl]] show ?thesis
      using shape [of p2] b 2 unfolding cs a2 by (auto simp del: power_numeral device_bytes.simps)
  next
    case 3
    have "2 \<le> n" "2 \<le> (512::nat)" using 3 by simp_all
    from desc_list_init_skip_full [OF assms(1,3,4) this assms(5)]
    obtain pages bas where i: "mx_desc_list_init True True pool sgt (t_sg_byte_offset t) ?sz (2 ^ 12) 512 True (n - 1) =
        Some (Inr (pages, bas))" "?a # device_chain 512 (dma_read bas pages) (bas ! 0) (n - 1) = map fst ((?a, l) # cs)"
      unfolding c by (elim exE conjE) (erule (1) that)
    from create(3) [OF 3 i(1)] show ?thesis
      using shape [of "bas ! 0" "dma_read bas pages"] i(2) b 3
      by (auto simp del: power_numeral device_bytes.simps)
  qed
qed

text \<open>C33. A v2 data command built for a valid slice of a mapping makes the device move exactly the
  bytes of that slice: for one descriptor, for two (the second in the command) and for any longer
  chain of lists, where the device derives the number and the lengths of the descriptors from the
  first address and the size only.\<close>

theorem v2_command_moves_slice:
  assumes "sg_wf sgt" "\<forall>sg \<in> set sgt. 0 < sg_dma_address sg"
    "mx_sg_locate sgt (t_sg_byte_offset t) = Inr (sgs, intra)"
    "mx_get_total_desc_count sgs intra (t_size t) SINGLE_DMA_SIZE_V2 = Inr n"
    "pool_ok pool NUM_OF_DESC_PER_LIST_V2 (lists_needed NUM_OF_DESC_PER_LIST_V2 (n - 1))"
  shows "\<exists>c pages bas. create_mx_command_sg_v2 True True pool sgt t opcode = Some (Inr (c, pages, bas)) \<and>
    v2_device_bytes c (dma_read bas pages) =
      take (t_size t) (drop (t_sg_byte_offset t) (sg_bytes sgt))"
  by (rule v2_moves [OF assms])

theorem v2_command_moves_slice_witness:
  "\<exists>c pages bas. create_mx_command_sg_v2 True True (cmd_example_pool 512) cmd_example_sgt
      cmd_example_transfer IO_OPCODE_DATA_WRITE = Some (Inr (c, pages, bas)) \<and>
    v2_device_bytes c (dma_read bas pages) = take 11384 (sg_bytes cmd_example_sgt)"
proof -
  have t: "t_size cmd_example_transfer = 11384" "t_sg_byte_offset cmd_example_transfer = 0"
    by (simp_all add: cmd_example_transfer_def)
  have "sg_wf cmd_example_sgt" "\<forall>sg \<in> set cmd_example_sgt. 0 < sg_dma_address sg"
    by (simp_all add: sg_wf_def cmd_example_sgt_def)
  moreover have "mx_sg_locate cmd_example_sgt (t_sg_byte_offset cmd_example_transfer) = Inr (cmd_example_sgt, 0)"
      "mx_get_total_desc_count cmd_example_sgt 0 (t_size cmd_example_transfer) (2 ^ 12) = Inr 3"
    by (simp_all add: mx_sg_locate_def mx_get_total_desc_count_def cmd_example_sgt_def
        cmd_example_transfer_def mx_prp_first_chunk_len_def prp_chunk_len_at_def DIV_ROUND_UP_def Let_def)
  moreover have "pool_ok (cmd_example_pool 512) 512 (lists_needed 512 (3 - 1))"
    by (simp add: pool_ok_def cmd_example_pool_def lists_needed_def)
  ultimately show ?thesis
    using v2_command_moves_slice [of cmd_example_sgt cmd_example_transfer cmd_example_sgt 0 3
        "cmd_example_pool 512" IO_OPCODE_DATA_WRITE]
    unfolding t by simp
qed

text \<open>C34. The same for v1: in single mode from the explicit address and size, in multi mode through the
  list of 1 KiB chunks.\<close>

theorem v1_command_moves_slice:
  assumes "sg_wf sgt" "\<forall>sg \<in> set sgt. 0 < sg_dma_address sg"
    "mx_sg_locate sgt (t_sg_byte_offset t) = Inr (sgs, intra)"
    "mx_get_total_desc_count sgs intra (t_size t) SINGLE_DMA_SIZE_V1 = Inr n"
    "pool_ok pool NUM_OF_DESC_PER_LIST_V1 (lists_needed NUM_OF_DESC_PER_LIST_V1 n)"
  shows "\<exists>c pages bas. create_mx_command_sg_v1 True True pool sgt t opcode = Some (Inr (c, pages, bas)) \<and>
    v1_device_bytes c (dma_read bas pages) =
      take (t_size t) (drop (t_sg_byte_offset t) (sg_bytes sgt))"
proof -
  let ?a = "sg_dma_address (hd sgs) + intra" and ?v = "sg_dma_len (hd sgs) - intra" and ?sz = "t_size t"
  let ?f = "mx_prp_first_chunk_len (hd sgs) intra (2 ^ 10)"
  obtain l cs where c: "todo (2 ^ 10) sgs ?a ?v ?sz = (?a, l) # cs"
    and l: "l = min (prp_chunk_len_at ?a (2 ^ 10)) (min ?v ?sz)"
    and n: "n = Suc (length cs)" "device_desc_count (2 ^ 10) ?a ?sz = n"
    and b: "device_bytes (2 ^ 10) (?a # map fst cs) ?sz = take ?sz (drop (t_sg_byte_offset t) (sg_bytes sgt))"
    and s: "sgs \<noteq> []" "0 < ?sz" "prp_tail_ok (2 ^ 10) cs"
    by (rule slice_chunks [OF assms(1,3,4)])
  have nz: "\<forall>sg \<in> set sgs. 0 < sg_dma_address sg"
    using locate_loop_ok [of sgt 0 _ sgs intra] assms(2,3) unfolding mx_sg_locate_def by blast
  then have a0: "?a \<noteq> 0" using s(1) by (cases sgs) auto
  show ?thesis
  proof (cases "?sz \<le> ?f")
    case True
    then have f: "?sz \<le> prp_chunk_len_at ?a (2 ^ 10)" by (simp add: mx_prp_first_chunk_len_def)
    then have n1: "cs = []" using n by (simp add: device_desc_count_def Let_def min_absorb2)
    have "[?a..<?a + ?sz] = take ?sz (drop (t_sg_byte_offset t) (sg_bytes sgt))"
      using b f unfolding n1 by (simp add: Let_def min_absorb2)
    then show ?thesis using True a0 assms(3)
      by (auto simp: create_mx_command_sg_v1_def v1_device_bytes_def alloc_mx_command_v1_def
          command_v1_zero_def Let_def)
  next
    case False
    have "2 \<le> (128::nat)" by simp
    from desc_list_init_full [OF assms(1,3,4) this assms(5)]
    obtain pages bas where i: "mx_desc_list_init True True pool sgt (t_sg_byte_offset t) ?sz (2 ^ 10) 128 False n =
        Some (Inr (pages, bas))" "dma_read bas pages (bas ! 0) \<noteq> []"
      "device_chain 128 (dma_read bas pages) (bas ! 0) n = ?a # map fst cs"
      unfolding c by (elim exE conjE) (erule (1) that, simp)
    have h: "dma_read bas pages (bas ! 0) ! 0 = ?a"
      using device_chain_hd [of 128 "dma_read bas pages" "bas ! 0" n ?a "map fst cs"] i(2,3) n(1) by simp
    let ?c = "(alloc_mx_command_v1 t opcode)\<lparr>c1_page_mode := 1, c1_host_addr := bas ! 0\<rparr>"
    have "create_mx_command_sg_v1 True True pool sgt t opcode = Some (Inr (?c, pages, bas))"
      unfolding create_mx_command_sg_v1_def Let_def assms(3,4) sum.case prod.case i(1) option.case
      using False by (simp only: if_False)
    moreover have "v1_device_bytes ?c (dma_read bas pages) = device_bytes (2 ^ 10) (?a # map fst cs) ?sz"
      unfolding v1_device_bytes_def Let_def
      using h n(2) i(3) by (simp del: power_numeral device_bytes.simps add: alloc_mx_command_v1_def)
    ultimately show ?thesis using b by auto
  qed
qed

theorem v1_command_moves_slice_witness:
  "\<exists>c pages bas. create_mx_command_sg_v1 True True (cmd_example_pool 128) cmd_example_sgt
      cmd_example_transfer IO_OPCODE_DATA_WRITE = Some (Inr (c, pages, bas)) \<and>
    v1_device_bytes c (dma_read bas pages) = take 11384 (sg_bytes cmd_example_sgt)"
proof -
  have t: "t_size cmd_example_transfer = 11384" "t_sg_byte_offset cmd_example_transfer = 0"
    by (simp_all add: cmd_example_transfer_def)
  have "sg_wf cmd_example_sgt" "\<forall>sg \<in> set cmd_example_sgt. 0 < sg_dma_address sg"
    by (simp_all add: sg_wf_def cmd_example_sgt_def)
  moreover have "mx_sg_locate cmd_example_sgt (t_sg_byte_offset cmd_example_transfer) = Inr (cmd_example_sgt, 0)"
      "mx_get_total_desc_count cmd_example_sgt 0 (t_size cmd_example_transfer) (2 ^ 10) = Inr 12"
    by (simp_all add: mx_sg_locate_def mx_get_total_desc_count_def cmd_example_sgt_def
        cmd_example_transfer_def mx_prp_first_chunk_len_def prp_chunk_len_at_def DIV_ROUND_UP_def Let_def)
  moreover have "pool_ok (cmd_example_pool 128) 128 (lists_needed 128 12)"
    by (simp add: pool_ok_def cmd_example_pool_def lists_needed_def)
  ultimately show ?thesis
    using v1_command_moves_slice [of cmd_example_sgt cmd_example_transfer cmd_example_sgt 0 12
        "cmd_example_pool 128" IO_OPCODE_DATA_WRITE]
    unfolding t by simp
qed

section \<open>The v1 header word\<close>

lemma bit_beyond_header:
  "16 \<le> n \<Longrightarrow> bit (w16 :: u16) n = False" "4 \<le> n \<Longrightarrow> bit (w4 :: 4 word) n = False"
  "2 \<le> n \<Longrightarrow> bit (w2 :: 2 word) n = False" "6 \<le> n \<Longrightarrow> bit (w6 :: 6 word) n = False"
  using bit_imp_le_length [of w16 n] bit_imp_le_length [of w4 n] bit_imp_le_length [of w2 n]
    bit_imp_le_length [of w6 n] by auto

text \<open>The id and the control field the completion path extracts from a v1 header word are the ones
  stored in the command, and the ids the allocator hands out (below \<open>MX_PING_ID\<close>) survive the 16-bit
  field and are never mistaken for the reserved ping id.\<close>

theorem header_v1_roundtrip:
  "header_v1_id (command_v1_header c) = c1_id c \<and>
   header_v1_control (command_v1_header c) = c1_control c \<and>
   (t_id t < MX_PING_ID \<longrightarrow>
      unat (header_v1_id (command_v1_header (alloc_mx_command_v1 t opcode))) = t_id t \<and>
      c1_id (alloc_mx_command_v1 t opcode) \<noteq> c1_id build_ping_command_v1)"
proof -
  have id: "header_v1_id (command_v1_header c) = c1_id c" for c
    unfolding header_v1_id_def command_v1_header_def
    by (rule bit_word_eqI) (auto simp: bit_or_iff bit_push_bit_iff bit_unsigned_iff bit_drop_bit_eq
        bit_beyond_header)
  have control: "header_v1_control (command_v1_header c) = c1_control c"
    unfolding header_v1_control_def command_v1_header_def
    by (rule bit_word_eqI) (auto simp: bit_or_iff bit_push_bit_iff bit_unsigned_iff bit_drop_bit_eq
        bit_beyond_header)
  have "unat (of_nat (t_id t) :: u16) = t_id t" if "t_id t < MX_PING_ID"
    using that by (simp add: unat_of_nat take_bit_nat_eq_self)
  moreover have "unat (of_nat MX_PING_ID :: u16) = 65535" by simp
  ultimately show ?thesis unfolding id control
    by (auto simp: alloc_mx_command_v1_def build_ping_command_v1_def)
qed

theorem header_v1_roundtrip_witness:
  "unat (header_v1_id (command_v1_header (alloc_mx_command_v1 cmd_example_transfer 1))) = 7"
  using header_v1_roundtrip [of undefined cmd_example_transfer 1] by (simp add: cmd_example_transfer_def)

end
