(* ===== verification/Mbox_Fifo.thy ===== *)
theory Mbox_Fifo
  imports Mbox_Ioctl
begin

text \<open>
  What the mailbox ioctls do to the words of a ring. Device and host agree on two unbounded
  positions \<open>H \<le> T \<le> H + d\<close>; the words at positions \<open>H..<T\<close> are the queue. Sending appends to it,
  receiving removes a prefix, and waiting for room returns as soon as the device reports progress.
\<close>

section \<open>The ring holds a queue\<close>

text \<open>The words outstanding in a ring of depth \<open>d\<close> between positions \<open>H\<close> and \<open>T\<close>, oldest first.\<close>

definition ring_words :: "(nat \<Rightarrow> u64) \<Rightarrow> nat \<Rightarrow> nat \<Rightarrow> nat \<Rightarrow> u64 list" where
  "ring_words mem d H T = map (\<lambda>n. mem (n mod d)) [H..<T]"

text \<open>A write of consecutive words from slot \<open>s\<close>.\<close>

definition write_words :: "(nat \<Rightarrow> u64) \<Rightarrow> nat \<Rightarrow> u64 list \<Rightarrow> nat \<Rightarrow> u64" where
  "write_words mem s ws i = (if s \<le> i \<and> i < s + length ws then ws ! (i - s) else mem i)"

lemma write_words_Nil [simp]: "write_words mem s [] = mem"
  by (rule ext) (auto simp: write_words_def)

lemma mod_add_small: "(T::nat) mod d + i < d \<Longrightarrow> (T + i) mod d = T mod d + i"
  by (metis mod_add_left_eq mod_less)

lemma ring_append:
  assumes "H \<le> T" "T + length ws \<le> H + d" "T mod d + length ws \<le> d"
  shows "ring_words (write_words mem (T mod d) ws) d H (T + length ws) = ring_words mem d H T @ ws"
proof -
  have old: "write_words mem (T mod d) ws (j mod d) = mem (j mod d)" if j: "H \<le> j" "j < T" for j
  proof (rule ccontr)
    assume "write_words mem (T mod d) ws (j mod d) \<noteq> mem (j mod d)"
    then obtain i where i: "i < length ws" "j mod d = T mod d + i"
      unfolding write_words_def by (metis add_diff_inverse_nat nat_add_left_cancel_less not_le)
    then have "(T + i) mod d = j mod d" using assms(3) by (simp add: mod_add_small)
    then have "d dvd T + i - j" using j by (metis mod_eq_dvd_iff_nat le_add1 le_trans less_imp_le)
    moreover have "0 < T + i - j" "T + i - j < d" using i j assms(2) by linarith+
    ultimately show False using nat_dvd_not_less by blast
  qed
  have new: "write_words mem (T mod d) ws ((T + i) mod d) = ws ! i" if "i < length ws" for i
    using that assms(3) by (simp add: write_words_def mod_add_small)
  have "[H..<T + length ws] = [H..<T] @ map (\<lambda>i. T + i) [0..<length ws]"
    using assms(1) by (simp add: upt_add_eq_append [of H T] map_add_upt add.commute)
  moreover have "map (\<lambda>n. write_words mem (T mod d) ws (n mod d)) (map (\<lambda>i. T + i) [0..<length ws]) = ws"
    using new by (intro nth_equalityI) simp_all
  ultimately show ?thesis unfolding ring_words_def using old by simp
qed

lemma ring_take:
  assumes "H + n \<le> T"
  shows "map mem (map (\<lambda>i. (H + i) mod d) [0..<n]) = take n (ring_words mem d H T)"
    "ring_words mem d (H + n) T = drop n (ring_words mem d H T)"
proof -
  have "take n [H..<T] = map (\<lambda>i. H + i) [0..<n]"
    using assms by (simp add: map_add_upt add.commute)
  then show "map mem (map (\<lambda>i. (H + i) mod d) [0..<n]) = take n (ring_words mem d H T)"
    by (simp add: ring_words_def take_map)
  show "ring_words mem d (H + n) T = drop n (ring_words mem d H T)"
    by (simp add: ring_words_def drop_map)
qed

section \<open>Positions of a mailbox under the ioctls\<close>

lemma set_head_at:
  assumes "mbox_at mbox k H T" "ctx_head (mbox_context_of_u64 w) = enc (2 ^ k) H'" "H' \<le> T" "H \<le> H'"
  shows "mbox_at (set_head mbox w) k H' T"
  using assms by (simp add: mbox_at_def set_head_def)

lemma set_tail_at:
  assumes "mbox_at mbox k H T" "ctx_tail (mbox_context_of_u64 w) = enc (2 ^ k) T'" "H \<le> T'" "T' \<le> H + 2 ^ k"
  shows "mbox_at (set_tail mbox w) k H T'"
  using assms by (simp add: mbox_at_def set_tail_def)

lemma pow_u32: "mbox_at mbox k H T \<Longrightarrow> (2::nat) ^ k \<le> 128"
  using mbox_at_pow by blast

lemma advance_tail_at:
  assumes "mbox_at mbox k H T" "T + unat n \<le> H + 2 ^ k" "unat n \<le> 2 ^ k"
  shows "mbox_at (advance_tail mbox n) k H (T + unat n)"
  using assms next_index_at [of k "unat n" T] by (simp add: mbox_at_def advance_tail_def)

lemma advance_head_at:
  assumes "mbox_at mbox k H T" "H + unat n \<le> T" "unat n \<le> 2 ^ k"
  shows "mbox_at (advance_head mbox n) k (H + unat n) T"
  using assms next_index_at [of k "unat n" H] by (simp add: mbox_at_def advance_head_def)

lemma data_offset_at:
  assumes "mbox_at mbox k H T"
  shows "(ucast (get_data_offset (ctx_tail (mbox_ctx mbox))) :: u64) = of_nat (8 * (T mod 2 ^ k))"
    "(ucast (get_data_offset (ctx_head (mbox_ctx mbox))) :: u64) = of_nat (8 * (H mod 2 ^ k))"
proof -
  have k: "k \<le> 7" using assms by (simp add: mbox_at_def)
  have "ucast (8 * (of_nat i :: u32)) = (of_nat (8 * i) :: u64)" if "i < 128" for i
  proof -
    have "unat (8 * (of_nat i :: u32)) = 8 * i"
      using that by (intro unat_wordI) simp_all
    then show ?thesis by (metis of_nat_unat)
  qed
  then show "(ucast (get_data_offset (ctx_tail (mbox_ctx mbox))) :: u64) = of_nat (8 * (T mod 2 ^ k))"
    "(ucast (get_data_offset (ctx_head (mbox_ctx mbox))) :: u64) = of_nat (8 * (H mod 2 ^ k))"
    using mod_pow_lt [OF k] unfolding get_data_offset_def mbox_at_index(1,2) [OF assms] by metis+
qed

lemma send_cmds_cases:
  assumes "send_cmds_locked mbox nr reply wret = (r, mbox', ops)"
    and "refresh = (get_pushable_count mbox < nr)"
    and "mbox1 = (if refresh then set_head mbox (snd reply) else mbox)"
    and "n = (if nr < get_pushable_count mbox1 then nr else get_pushable_count mbox1)"
  shows "(\<exists>e. r = Inl e \<and> (mbox' = mbox \<or> mbox' = mbox1) \<and> (\<forall>a w. Write_ctrl a w \<notin> set ops)) \<or>
    (r = Inr 0 \<and> mbox' = mbox1 \<and> n = 0) \<or>
    (r = Inr n \<and> mbox' = advance_tail mbox1 n \<and>
     (\<exists>pre. ops = pre @ [Write_data (data_addr mbox1 + ucast (get_data_offset (ctx_tail (mbox_ctx mbox1)))) (8 * unat n),
        Write_ctrl (w_ctx_addr mbox') (mbox_context_u64 (mbox_ctx mbox'))]))"
  using assms(1) unfolding send_cmds_locked_def Let_def assms(2) [symmetric] assms(3) [symmetric] assms(4) [symmetric]
  by (auto split: if_split_asm sum.split_asm simp: assms(4))

text \<open>A mailbox of depth 8 for the concrete instances below, and the context word a device at those positions holds.\<close>

definition fifo_mbox :: "nat \<Rightarrow> nat \<Rightarrow> mx_mbox" where
  "fifo_mbox H T = \<lparr>r_ctx_addr = 0x100, w_ctx_addr = 0x108, data_addr = 0x1000,
     mbox_ctx = \<lparr>mid = 1, ctx_base = 0, data_base = 0, q_size = 3, data_size = 0, ctx_tail = enc 8 T, ctx_head = enc 8 H\<rparr>,
     depth = 8\<rparr>"

definition fifo_word :: "nat \<Rightarrow> nat \<Rightarrow> u64" where
  "fifo_word H T = mbox_context_u64 (mbox_ctx (fifo_mbox H T))"

lemma fifo_mbox_at: "H \<le> T \<Longrightarrow> T \<le> H + 8 \<Longrightarrow> mbox_at (fifo_mbox H T) 3 H T"
  by (simp add: mbox_at_def fifo_mbox_def)

lemma fifo_word_fields: "ctx_head (mbox_context_of_u64 (fifo_word H T)) = enc 8 H" "ctx_tail (mbox_context_of_u64 (fifo_word H T)) = enc 8 T"
  by (simp_all add: fifo_word_def context_struct_roundtrip) (simp_all add: fifo_mbox_def)

text \<open>C36. Sending a batch: with the device's head somewhere between the cached head and the tail, the
  handler sends as many commands as were asked for and fit before the consumer and before the end of
  the ring. It writes them at consecutive slots from the tail, so the words outstanding are the old
  ones followed by the new ones and no unconsumed word is overwritten, and publishes the new tail
  only after that write. If the context read or the data write fails the tail stays where it was and
  nothing is published.\<close>

theorem send_cmds_fifo:
  assumes at: "mbox_at mbox k H T" and dev: "H \<le> H'" "H' \<le> T"
    and reply: "ctx_head (mbox_context_of_u64 (snd reply)) = enc (2 ^ k) H'"
    and send: "send_cmds_locked mbox nr reply wret = (r, mbox', ops)"
  shows "case r of
      Inl e \<Rightarrow> (\<exists>H2. (H2 = H \<or> H2 = H') \<and> mbox_at mbox' k H2 T) \<and> (\<forall>a w. Write_ctrl a w \<notin> set ops)
    | Inr n \<Rightarrow> \<exists>H2. (H2 = H \<or> H2 = H') \<and> mbox_at mbox' k H2 (T + unat n) \<and>
        unat n = min (unat nr) (min (2 ^ k - (T - H2)) (2 ^ k - T mod 2 ^ k)) \<and>
        (0 < n \<longrightarrow> (\<exists>pre. ops = pre @ [Write_data (data_addr mbox + of_nat (8 * (T mod 2 ^ k))) (8 * unat n),
            Write_ctrl (w_ctx_addr mbox) (mbox_context_u64 (mbox_ctx mbox'))])) \<and>
        (\<forall>mem ws. length ws = unat n \<longrightarrow>
           ring_words (write_words mem (T mod 2 ^ k) ws) (2 ^ k) H2 (T + unat n) =
             ring_words mem (2 ^ k) H2 T @ ws)"
proof -
  define refresh where "refresh = (get_pushable_count mbox < nr)"
  define mbox1 where "mbox1 = (if refresh then set_head mbox (snd reply) else mbox)"
  define H2 where "H2 = (if refresh then H' else H)"
  have at1: "mbox_at mbox1 k H2 T" and H2: "H2 = H \<or> H2 = H'" "H2 \<le> T"
    using set_head_at [OF at reply dev(2,1)] at dev by (auto simp: mbox1_def H2_def)
  have same: "data_addr mbox1 = data_addr mbox" "w_ctx_addr mbox1 = w_ctx_addr mbox" "r_ctx_addr mbox1 = r_ctx_addr mbox"
    by (simp_all add: mbox1_def set_head_def)
  note push = pushable_at [OF at1] and off = data_offset_at(1) [OF at1]
  define n where "n = (if nr < get_pushable_count mbox1 then nr else get_pushable_count mbox1)"
  have n: "unat n = min (unat nr) (min (2 ^ k - (T - H2)) (2 ^ k - T mod 2 ^ k))"
    unfolding push [symmetric] n_def by (simp add: word_less_nat_alt min_def)
  have room: "T + unat n \<le> H2 + 2 ^ k" "unat n \<le> 2 ^ k" "T mod 2 ^ k + unat n \<le> 2 ^ k"
  proof -
    have "T \<le> H2 + 2 ^ k" "T mod 2 ^ k < 2 ^ k" using at1 by (simp_all add: mbox_at_def)
    then show "T + unat n \<le> H2 + 2 ^ k" "unat n \<le> 2 ^ k" "T mod 2 ^ k + unat n \<le> 2 ^ k"
      using H2(2) unfolding n by linarith+
  qed
  have fifo: "ring_words (write_words mem (T mod 2 ^ k) ws) (2 ^ k) H2 (T + unat n) = ring_words mem (2 ^ k) H2 T @ ws"
    if "length ws = unat n" for mem ws
    using ring_append [OF H2(2), of ws "2 ^ k" mem] room that by simp
  have at2: "mbox_at (advance_tail mbox1 n) k H2 (T + unat n)" by (rule advance_tail_at [OF at1 room(1,2)])
  from send_cmds_cases [OF send refresh_def mbox1_def n_def]
  consider (interrupted) e where "r = Inl e" "mbox' = mbox \<or> mbox' = mbox1" "\<forall>a w. Write_ctrl a w \<notin> set ops"
    | (full) "r = Inr 0" "mbox' = mbox1" "n = 0"
    | (sent) pre where "r = Inr n" "mbox' = advance_tail mbox1 n"
        "ops = pre @ [Write_data (data_addr mbox1 + ucast (get_data_offset (ctx_tail (mbox_ctx mbox1)))) (8 * unat n),
           Write_ctrl (w_ctx_addr mbox') (mbox_context_u64 (mbox_ctx mbox'))]"
    by blast
  then show ?thesis
  proof cases
    case interrupted
    then show ?thesis using at at1 H2(1) by auto
  next
    case full
    then show ?thesis using at1 H2(1) n by (auto intro!: exI [of _ H2])
  next
    case sent
    have "w_ctx_addr mbox' = w_ctx_addr mbox" using sent(2) same by (simp add: advance_tail_def)
    then show ?thesis unfolding sent(1) sum.case
      by (intro exI [of _ H2] conjI H2(1) n allI impI)
         (use sent(2,3) at2 same off in \<open>simp_all add: fifo\<close>)
  qed
qed

lemma send_cmds_fifo_witness:
  "mbox_at (fifo_mbox 3 6) 3 3 6 \<and>
   (case send_cmds_locked (fifo_mbox 3 6) 4 (Inr 8, fifo_word 5 6) (Inr 16) of
      (r, mbox', ops) \<Rightarrow> r = Inr 2 \<and> (mbox_at mbox' 3 3 8 \<or> mbox_at mbox' 3 5 8))"
proof -
  define out where "out = send_cmds_locked (fifo_mbox 3 6) 4 (Inr 8, fifo_word 5 6) (Inr 16)"
  have at: "mbox_at (fifo_mbox 3 6) 3 3 6" by (rule fifo_mbox_at) simp_all
  obtain r mbox' ops where out: "out = (r, mbox', ops)" by (cases out)
  note fifo = send_cmds_fifo [of "fifo_mbox 3 6" 3 3 6 5 "(Inr 8, fifo_word 5 6)" 4 "Inr 16" r mbox' ops]
  have push: "unat (get_pushable_count (fifo_mbox 3 6)) = 2" "unat (get_pushable_count (set_head (fifo_mbox 3 6) (fifo_word 5 6))) = 2"
    using pushable_at [OF at] pushable_at [OF set_head_at [OF at, of "fifo_word 5 6" 5]]
    by (simp_all add: fifo_word_fields)
  then have c: "get_pushable_count (fifo_mbox 3 6) = 2" "get_pushable_count (set_head (fifo_mbox 3 6) (fifo_word 5 6)) = 2"
    by (simp_all add: word_unat_eq_iff)
  have "r = Inr 2" using out unfolding out_def send_cmds_locked_def Let_def
    by (simp add: c read_failed_def split: if_split_asm)
  moreover have "case r of Inl e \<Rightarrow> True | Inr n \<Rightarrow> \<exists>H2. (H2 = 3 \<or> H2 = 5) \<and> mbox_at mbox' 3 H2 (6 + unat n)"
    using fifo at out by (auto simp: out_def fifo_word_fields split: sum.splits)
  ultimately show ?thesis using at out by (auto simp: out_def)
qed

section \<open>Receiving\<close>

lemma recv_cmds_cases:
  assumes "recv_cmds_locked mbox nr reply = (r, mbox', ops)"
    and "mbox1 = set_tail mbox (snd reply)"
    and "n = (if nr < get_popable_count mbox1 then nr else get_popable_count mbox1)"
  obtains (interrupted) "read_failed reply" "r = Inl EINTR" "mbox' = mbox" "ops = [Read_ctrl (r_ctx_addr mbox)]"
    | (empty) "\<not> read_failed reply" "r = Inr 0" "mbox' = mbox1" "is_empty mbox1" "ops = [Read_ctrl (r_ctx_addr mbox)]"
    | (read) "\<not> read_failed reply" "r = Inr n" "mbox' = advance_head mbox1 n" "\<not> is_empty mbox1"
        "ops = [Read_ctrl (r_ctx_addr mbox),
          Read_data (data_addr mbox1 + ucast (get_data_offset (ctx_head (mbox_ctx mbox1)))) (8 * unat n),
          Write_ctrl (w_ctx_addr mbox') (mbox_context_u64 (mbox_ctx mbox'))]"
  using assms(1) unfolding recv_cmds_locked_def Let_def assms(2) [symmetric] assms(3) [symmetric]
  by (auto split: if_split_asm)

text \<open>C37. Receiving a batch: with the device's tail at or ahead of the cached one, the handler takes as
  many commands as were asked for, are outstanding and lie before the end of the ring. One read at
  the head's slot covers exactly the oldest words of the queue, the rest of the queue is what stays
  outstanding, and the new head is published after that read. A failed context read changes nothing.\<close>

theorem recv_cmds_fifo:
  assumes at: "mbox_at mbox k H T" and dev: "T \<le> T'" "T' \<le> H + 2 ^ k"
    and reply: "ctx_tail (mbox_context_of_u64 (snd reply)) = enc (2 ^ k) T'"
    and recv: "recv_cmds_locked mbox nr reply = (r, mbox', ops)"
  shows "case r of
      Inl e \<Rightarrow> e = EINTR \<and> mbox' = mbox \<and> ops = [Read_ctrl (r_ctx_addr mbox)]
    | Inr n \<Rightarrow> mbox_at mbox' k (H + unat n) T' \<and>
        unat n = min (unat nr) (min (T' - H) (2 ^ k - H mod 2 ^ k)) \<and>
        (H < T' \<longrightarrow> ops = [Read_ctrl (r_ctx_addr mbox),
            Read_data (data_addr mbox + of_nat (8 * (H mod 2 ^ k))) (8 * unat n),
            Write_ctrl (w_ctx_addr mbox) (mbox_context_u64 (mbox_ctx mbox'))]) \<and>
        (\<forall>mem. map (\<lambda>i. mem (H mod 2 ^ k + i)) [0..<unat n] = take (unat n) (ring_words mem (2 ^ k) H T') \<and>
           ring_words mem (2 ^ k) (H + unat n) T' = drop (unat n) (ring_words mem (2 ^ k) H T'))"
proof -
  define mbox1 where "mbox1 = set_tail mbox (snd reply)"
  define n where "n = (if nr < get_popable_count mbox1 then nr else get_popable_count mbox1)"
  have H: "H \<le> T'" using at dev by (simp add: mbox_at_def)
  have at1: "mbox_at mbox1 k H T'" unfolding mbox1_def by (rule set_tail_at [OF at reply H dev(2)])
  have same: "data_addr mbox1 = data_addr mbox" "w_ctx_addr mbox1 = w_ctx_addr mbox"
    by (simp_all add: mbox1_def set_tail_def)
  have n: "unat n = min (unat nr) (min (T' - H) (2 ^ k - H mod 2 ^ k))"
    unfolding popable_at [OF at1, symmetric] n_def by (simp add: word_less_nat_alt min_def)
  have room: "H + unat n \<le> T'" "unat n \<le> 2 ^ k" "H mod 2 ^ k + unat n \<le> 2 ^ k"
  proof -
    have "H mod 2 ^ k < 2 ^ k" by simp
    then show "H + unat n \<le> T'" "unat n \<le> 2 ^ k" "H mod 2 ^ k + unat n \<le> 2 ^ k"
      using H dev(2) unfolding n by linarith+
  qed
  have at2: "mbox_at (advance_head mbox1 n) k (H + unat n) T'" by (rule advance_head_at [OF at1 room(1,2)])
  have "map (\<lambda>i. mem (H mod 2 ^ k + i)) [0..<unat n] = map mem (map (\<lambda>i. (H + i) mod 2 ^ k) [0..<unat n])" for mem :: "nat \<Rightarrow> u64"
    using room(3) by (auto simp: mod_add_small)
  then have words: "map (\<lambda>i. mem (H mod 2 ^ k + i)) [0..<unat n] = take (unat n) (ring_words mem (2 ^ k) H T') \<and>
      ring_words mem (2 ^ k) (H + unat n) T' = drop (unat n) (ring_words mem (2 ^ k) H T')" for mem
    using ring_take [OF room(1)] by metis
  from recv mbox1_def n_def show ?thesis
  proof (cases rule: recv_cmds_cases)
    case interrupted
    then show ?thesis by simp
  next
    case empty
    then have "T' = H" using is_empty_at [OF at1] by simp
    then show ?thesis using empty at1 by simp
  next
    case read
    have "w_ctx_addr mbox' = w_ctx_addr mbox" using read(3) same by (simp add: advance_head_def)
    then show ?thesis using read at2 n words same data_offset_at(2) [OF at1] by simp
  qed
qed

lemma recv_cmds_fifo_witness:
  "mbox_at (fifo_mbox 6 6) 3 6 6 \<and>
   (\<exists>mbox'. recv_cmds_locked (fifo_mbox 6 6) 4 (Inr 8, fifo_word 6 9) =
      (Inr 2, mbox', [Read_ctrl 0x100, Read_data 0x1030 16, Write_ctrl 0x108 (mbox_context_u64 (mbox_ctx mbox'))]) \<and>
      mbox_at mbox' 3 8 9)"
proof -
  have at: "mbox_at (fifo_mbox 6 6) 3 6 6" by (rule fifo_mbox_at) simp_all
  obtain r mbox' ops where out: "recv_cmds_locked (fifo_mbox 6 6) 4 (Inr 8, fifo_word 6 9) = (r, mbox', ops)"
    by (cases "recv_cmds_locked (fifo_mbox 6 6) 4 (Inr 8, fifo_word 6 9)")
  note fifo = recv_cmds_fifo [OF at _ _ _ out, of 9]
  have "\<exists>n. r = Inr n" using out by (auto simp: recv_cmds_locked_def Let_def read_failed_def split: if_split_asm)
  then obtain n where r: "r = Inr n" by blast
  then have "mbox_at mbox' 3 (6 + unat n) 9" "unat n = 2"
      "ops = [Read_ctrl 0x100, Read_data 0x1030 (8 * unat n), Write_ctrl 0x108 (mbox_context_u64 (mbox_ctx mbox'))]"
    using fifo by (auto simp: fifo_word_fields) (auto simp: fifo_mbox_def)
  moreover from this(2) have "n = 2" by (simp add: word_unat_eq_iff)
  ultimately show ?thesis using at out r by simp
qed

section \<open>Waiting for room\<close>

text \<open>The replies report heads at the positions \<open>hs\<close>.\<close>

definition reports :: "nat \<Rightarrow> ctrl_reply list \<Rightarrow> nat list \<Rightarrow> bool" where
  "reports d = list_all2 (\<lambda>r h. \<not> read_failed r \<and> ctx_head (mbox_context_of_u64 (snd r)) = enc d h)"

declare wait_not_full.simps [simp del]

text \<open>Waiting for room in a full ring returns exactly when some reply reports a head beyond the cached
  one; it then succeeds with the tail where it was and the ring at the first such position, after as
  many context reads as it took. While the device reports no progress the loop does not end.\<close>

theorem wait_not_full_progress:
  assumes "mbox_at mbox k H T" "reports (2 ^ k) replies hs" "sorted (H # hs)" "\<forall>h\<in>set hs. h \<le> T"
  shows "case wait_not_full mbox replies of
      None \<Rightarrow> \<forall>h\<in>set (H # hs). T = h + 2 ^ k
    | Some (r, mbox', ops) \<Rightarrow> r = OK \<and>
        (\<exists>n \<le> length hs. mbox_at mbox' k ((H # hs) ! n) T \<and> T < (H # hs) ! n + 2 ^ k \<and>
           (\<forall>h\<in>set (take n (H # hs)). T = h + 2 ^ k) \<and> ops = replicate n (Read_ctrl (r_ctx_addr mbox)))"
  using assms
proof (induction hs arbitrary: mbox H replies)
  case Nil
  then show ?case using is_full_at [OF Nil.prems(1)]
    by (auto simp: reports_def wait_not_full.simps mbox_at_def)
next
  case (Cons h hs)
  obtain r rest where rs: "replies = r # rest" "\<not> read_failed r" "ctx_head (mbox_context_of_u64 (snd r)) = enc (2 ^ k) h"
      "reports (2 ^ k) rest hs"
    using Cons.prems(2) by (auto simp: reports_def list_all2_Cons2)
  note full = is_full_at [OF Cons.prems(1)]
  show ?case
  proof (cases "is_full mbox")
    case False
    then have "T < H + 2 ^ k" using full Cons.prems(1) by (simp add: mbox_at_def)
    then show ?thesis using False Cons.prems(1) by (auto simp: wait_not_full.simps intro!: exI [of _ 0])
  next
    case True
    have at: "mbox_at (set_head mbox (snd r)) k h T"
      using set_head_at [OF Cons.prems(1) rs(3)] Cons.prems(3,4) by simp
    have step: "wait_not_full mbox replies =
        map_option (\<lambda>(r, m, ops). (r, m, Read_ctrl (r_ctx_addr mbox) # ops)) (wait_not_full (set_head mbox (snd r)) rest)"
      using True rs by (simp add: wait_not_full.simps [of mbox])
    note IH = Cons.IH [OF at rs(4)]
    have r: "r_ctx_addr (set_head mbox (snd r)) = r_ctx_addr mbox" by (simp add: set_head_def)
    show ?thesis
    proof (cases "wait_not_full (set_head mbox (snd r)) rest")
      case None
      then show ?thesis using IH step Cons.prems(3,4) full True by auto
    next
      case (Some a)
      obtain x m ops where a: "a = (x, m, ops)" by (cases a)
      with Some IH Cons.prems(3,4) r obtain n where n: "x = OK" "n \<le> length hs" "mbox_at m k ((h # hs) ! n) T" "T < (h # hs) ! n + 2 ^ k"
          "\<forall>h\<in>set (take n (h # hs)). T = h + 2 ^ k" "ops = replicate n (Read_ctrl (r_ctx_addr mbox))"
        by auto
      then show ?thesis using step Some a full True by (auto intro!: exI [of _ "Suc n"])
    qed
  qed
qed

lemma wait_not_full_progress_witness:
  "mbox_at (fifo_mbox 1 9) 3 1 9 \<and>
   (case wait_not_full (fifo_mbox 1 9) [(Inr 8, fifo_word 1 9), (Inr 8, fifo_word 4 9)] of
      None \<Rightarrow> False
    | Some (r, mbox', ops) \<Rightarrow> r = OK)"
proof -
  have at: "mbox_at (fifo_mbox 1 9) 3 1 9" by (rule fifo_mbox_at) simp_all
  have "reports (2 ^ 3) [(Inr 8, fifo_word 1 9), (Inr 8, fifo_word 4 9)] [1, 4]"
    by (simp add: reports_def read_failed_def fifo_word_fields)
  from wait_not_full_progress [OF at this] show ?thesis using at
    by (auto split: option.splits)
qed

end
