(* ===== verification/Hw_Queue.thy ===== *)
theory Hw_Queue
  imports Command Mbox_Fifo
begin

text \<open>
  The two hardware queues behind \<open>struct mx_queue_ops\<close>: the memory rings of \<open>core_v2.c\<close> with their
  doorbells and phase bit, and the mailboxes of \<open>core_v1.c\<close>.  Device memory the driver reads is an
  argument (\<open>readq\<close>) or a field the device writes (the completion ring); what the driver writes to the
  device is a field (rings and doorbells of version 2) or a list of accesses (version 1).
\<close>

section \<open>The common part\<close>

datatype mx_liveness_health = MX_LIVENESS_UNKNOWN | MX_LIVENESS_ALIVE | MX_LIVENESS_SUSPECT | MX_LIVENESS_DEAD

text \<open>\<open>struct mx_queue\<close>; the lock and the wait queues are left out, \<open>atomic_t\<close> is a 32-bit \<open>int\<close>.\<close>

record 'e mx_queue =
  sq_list :: "'e list"
  wait_count :: int
  zombie_wait_count :: int
  lv_health :: mx_liveness_health
  lv_inflight :: bool
  lv_sent_ns :: u64
  lv_progress_jiffies :: u64
  lv_rtt_ns :: u64

text \<open>\<open>mx_queue_common_init\<close> on zeroed memory; \<open>now\<close> is \<open>jiffies\<close>.\<close>

definition mx_queue_common_init :: "u64 \<Rightarrow> 'e mx_queue" where
  "mx_queue_common_init now =
     \<lparr>sq_list = [], wait_count = 0, zombie_wait_count = 0, lv_health = MX_LIVENESS_ALIVE, lv_inflight = False,
      lv_sent_ns = 0, lv_progress_jiffies = now, lv_rtt_ns = 0\<rparr>"

record mx_completion_info =
  info_id :: int
  info_result :: u64
  info_status :: u8

text \<open>Both \<open>is_popable\<close> return early when no completion and no pong can be outstanding.\<close>

definition expects_completion :: "'e mx_queue \<Rightarrow> bool" where
  "expects_completion q = (\<not> (wait_count q \<le> 0 \<and> \<not> lv_inflight q))"

section \<open>Version 2: rings in memory\<close>

record mx_completion =
  cq_result :: u64
  cq_sq_head :: u16
  cq_sq_id :: u16
  cq_command_id :: u16
  cq_status :: u16

definition completion_zero :: mx_completion where
  "completion_zero = \<lparr>cq_result = 0, cq_sq_head = 0, cq_sq_id = 0, cq_command_id = 0, cq_status = 0\<rparr>"

text \<open>
  The ring part of \<open>struct mx_queue_v2\<close>; \<open>db_sq\<close> and \<open>db_cq\<close> are the two doorbell registers at \<open>db\<close>.
\<close>

record mx_queue_v2 =
  sqes :: "mx_command_v2 list"
  cqes :: "mx_completion list"
  q2_depth :: u32
  last_sq_tail :: u16
  last_cq_head :: u16
  sq_tail :: u16
  sq_head :: u16
  cq_head :: u16
  cq_phase :: u16
  db_sq :: u32
  db_cq :: u32

definition is_pushable_v2 :: "mx_queue_v2 \<Rightarrow> bool" where
  "is_pushable_v2 queue = ((unat (sq_tail queue) + 1) mod unat (q2_depth queue) \<noteq> unat (sq_head queue))"

text \<open>The phase comparison of \<open>is_popable\<close>, after the early return.\<close>

definition phase_matches :: "mx_queue_v2 \<Rightarrow> bool" where
  "phase_matches queue = (cq_status (cqes queue ! unat (cq_head queue)) AND 1 = cq_phase queue)"

definition is_popable_v2 :: "'e mx_queue \<Rightarrow> mx_queue_v2 \<Rightarrow> bool" where
  "is_popable_v2 common queue = (expects_completion common \<and> phase_matches queue)"

definition update_sq_doorbell :: "mx_queue_v2 \<Rightarrow> mx_queue_v2" where
  "update_sq_doorbell queue =
     (let next_tail = ucast (sq_tail queue) + 1 :: u32 in
      if next_tail = q2_depth queue then queue\<lparr>sq_tail := 0\<rparr> else queue\<lparr>sq_tail := ucast next_tail\<rparr>)"

definition update_cq_doorbell :: "mx_queue_v2 \<Rightarrow> mx_queue_v2" where
  "update_cq_doorbell queue =
     (let next_head = ucast (cq_head queue) + 1 :: u32 in
      if next_head = q2_depth queue then queue\<lparr>cq_head := 0, cq_phase := cq_phase queue XOR 1\<rparr>
      else queue\<lparr>cq_head := ucast next_head\<rparr>)"

definition push_mx_command_v2 :: "mx_queue_v2 \<Rightarrow> mx_command_v2 \<Rightarrow> mx_queue_v2" where
  "push_mx_command_v2 queue comm =
     update_sq_doorbell (queue\<lparr>sqes := (sqes queue)[unat (sq_tail queue) := comm]\<rparr>)"

definition pop_mx_completion :: "mx_queue_v2 \<Rightarrow> mx_completion \<times> mx_queue_v2" where
  "pop_mx_completion queue =
     (let cmpl = cqes queue ! unat (cq_head queue)
      in (cmpl, update_cq_doorbell (queue\<lparr>sq_head := cq_sq_head cmpl\<rparr>)))"

definition ring_sq_doorbell :: "mx_queue_v2 \<Rightarrow> mx_queue_v2" where
  "ring_sq_doorbell queue =
     (if last_sq_tail queue = sq_tail queue then queue
      else queue\<lparr>db_sq := ucast (sq_tail queue), last_sq_tail := sq_tail queue\<rparr>)"

definition ring_cq_doorbell :: "mx_queue_v2 \<Rightarrow> mx_queue_v2" where
  "ring_cq_doorbell queue =
     (if last_cq_head queue = cq_head queue then queue
      else queue\<lparr>db_cq := ucast (cq_head queue), last_cq_head := cq_head queue\<rparr>)"

definition v2_pop_completion :: "mx_queue_v2 \<Rightarrow> mx_completion_info \<times> mx_queue_v2" where
  "v2_pop_completion queue =
     (case pop_mx_completion queue of
        (cmpl, queue) \<Rightarrow>
          (\<lparr>info_id = uint (cq_command_id cmpl), info_result = cq_result cmpl, info_status = 0\<rparr>, queue))"

text \<open>
  \<open>alloc_queue\<close> and \<open>configure_queue\<close>: fresh zeroed rings; \<open>kzalloc\<close> has cleared the last doorbell
  values, and the device's doorbell registers are zero after the queue was created.
\<close>

definition configure_queue :: "u32 \<Rightarrow> mx_queue_v2" where
  "configure_queue dp =
     \<lparr>sqes = replicate (unat dp) command_v2_zero, cqes = replicate (unat dp) completion_zero, q2_depth = dp,
      last_sq_tail = 0, last_cq_head = 0, sq_tail = 0, sq_head = 0, cq_head = 0, cq_phase = 1,
      db_sq = 0, db_cq = 0\<rparr>"

section \<open>Version 1: mailboxes\<close>

record mx_queue_v1 =
  sq_mbox :: mx_mbox
  cq_mbox :: mx_mbox

text \<open>A command as the four words \<open>memcpy_toio\<close> copies.\<close>

definition command_v1_words :: "mx_command_v1 \<Rightarrow> u64 list" where
  "command_v1_words comm =
     [command_v1_header comm, of_nat (c1_size comm), of_nat (c1_device_addr comm), of_nat (c1_host_addr comm)]"

text \<open>\<open>reg\<close> is what \<open>readq(mbox->r_ctx_addr)\<close> returns; it is read only when the cached space is low.\<close>

definition is_pushable_v1 :: "mx_queue_v1 \<Rightarrow> u64 \<Rightarrow> bool \<times> mx_queue_v1" where
  "is_pushable_v1 queue reg =
     (if 8 \<le> get_free_space (sq_mbox queue) then (True, queue)
      else let mbox = (sq_mbox queue)\<lparr>mbox_ctx := mbox_context_of_u64 reg\<rparr>
           in (4 \<le> get_free_space mbox, queue\<lparr>sq_mbox := mbox\<rparr>))"

definition is_popable_v1 :: "'e mx_queue \<Rightarrow> mx_queue_v1 \<Rightarrow> u64 \<Rightarrow> bool \<times> mx_queue_v1" where
  "is_popable_v1 common queue reg =
     (if \<not> expects_completion common then (False, queue)
      else let mbox = (cq_mbox queue)\<lparr>mbox_ctx := mbox_context_of_u64 reg\<rparr>
           in (4 \<le> get_pending_count mbox, queue\<lparr>cq_mbox := mbox\<rparr>))"

text \<open>The address of the four data words and the context word published after them.\<close>

definition push_mx_command_v1 :: "mx_queue_v1 \<Rightarrow> mx_command_v1 \<Rightarrow> mx_queue_v1 \<times> (u64 \<times> u64 list) \<times> (u64 \<times> u64)" where
  "push_mx_command_v1 queue comm =
     (let mbox = sq_mbox queue;
          addr = data_addr mbox + ucast (get_data_offset (ctx_tail (mbox_ctx mbox)));
          mbox = advance_tail mbox 4
      in (queue\<lparr>sq_mbox := mbox\<rparr>, (addr, command_v1_words comm),
          (w_ctx_addr mbox, mbox_context_u64 (mbox_ctx mbox))))"

text \<open>\<open>rd\<close> is \<open>readq\<close> of the data area; only the header and \<open>host_addr\<close> are read.\<close>

definition pop_mx_command :: "mx_queue_v1 \<Rightarrow> (u64 \<Rightarrow> u64) \<Rightarrow> (u64 \<times> u64) \<times> mx_queue_v1 \<times> (u64 \<times> u64)" where
  "pop_mx_command queue rd =
     (let mbox = cq_mbox queue;
          addr = data_addr mbox + ucast (get_data_offset (ctx_head (mbox_ctx mbox)));
          words = (rd addr, rd (addr + 24));
          mbox = advance_head mbox 4
      in (words, queue\<lparr>cq_mbox := mbox\<rparr>, (w_ctx_addr mbox, mbox_context_u64 (mbox_ctx mbox))))"

definition v1_pop_completion :: "mx_queue_v1 \<Rightarrow> (u64 \<Rightarrow> u64) \<Rightarrow> mx_completion_info \<times> mx_queue_v1 \<times> (u64 \<times> u64)" where
  "v1_pop_completion queue rd =
     (case pop_mx_command queue rd of
        ((header, host_addr), queue, pub) \<Rightarrow>
          (\<lparr>info_id = uint (header_v1_id header), info_result = host_addr,
            info_status = ucast (header_v1_control header)\<rparr>, queue, pub))"

text \<open>
  The queue part of \<open>init_mx_queue\<close>: \<open>rd\<close> is \<open>readq\<close> of the context words; the thread start is left
  to the caller.
\<close>

abbreviation (input) HMBOX_HIO_QID :: nat where "HMBOX_HIO_QID \<equiv> 48"
abbreviation (input) HMBOX_RQ_OFFSET :: u64 where "HMBOX_RQ_OFFSET \<equiv> 0x1000"
abbreviation (input) HIFC_MBOX_BAR_OFFSET :: u64 where "HIFC_MBOX_BAR_OFFSET \<equiv> 0x100000"

definition init_mx_queue_v1 :: "u64 \<Rightarrow> (u64 \<Rightarrow> u64) \<Rightarrow> bool \<Rightarrow> mx_queue_v1 result" where
  "init_mx_queue_v1 bar rd alloc_ok =
     (if \<not> alloc_ok then Inl ENOMEM
      else
        let ctx_addr = bar + of_nat (HMBOX_HIO_QID * 8); ctx = rd ctx_addr in
        if ctx = ULLONG_MAX then Inl EINVAL
        else
          let sq = mx_mbox_init ctx_addr (bar + HIFC_MBOX_BAR_OFFSET) ctx;
              ctx_addr = ctx_addr + HMBOX_RQ_OFFSET; ctx = rd ctx_addr
          in if ctx = ULLONG_MAX then Inl EINVAL
             else Inr \<lparr>sq_mbox = sq, cq_mbox = mx_mbox_init ctx_addr bar ctx\<rparr>)"

end
