(* ===== verification/Queue_V2.thy ===== *)
theory Queue_V2
  imports Hw_Queue
begin

text \<open>
  The version 2 rings and the device on their other side.  The device follows the NVMe rules: it
  fetches commands up to the submission doorbell, posts a completion only into a slot the completion
  doorbell has released, with the phase of its current lap and the number of commands it has fetched.
  \<open>v2_reachable\<close> interleaves driver and device; \<open>v2_inv\<close> ties every index, register and ring entry to
  unbounded positions.
\<close>

section \<open>Ring arithmetic\<close>

lemma mod_Suc_wrap: "0 < d \<Longrightarrow> Suc n mod d = (if Suc (n mod d) = d then 0 else Suc (n mod d))"
  by (simp add: mod_Suc)

lemma mod_inj_window:
  assumes "i mod d = j mod d" "i \<le> j" "j < i + d"
  shows "i = (j :: nat)"
proof -
  have "(j - i) mod d = 0" using assms by (metis mod_eq_dvd_iff_nat mod_0_imp_dvd dvd_imp_mod_0)
  moreover have "j - i < d" using assms by simp
  ultimately show ?thesis using assms(2) by simp
qed

definition lap_phase :: "nat \<Rightarrow> nat \<Rightarrow> u16" where
  "lap_phase d n = (if even (n div d) then 1 else 0)"

lemma lap_phase_cases: "lap_phase d n = 0 \<or> lap_phase d n = 1"
  by (simp add: lap_phase_def)

lemma lap_phase_next: "0 < d \<Longrightarrow> lap_phase d (n + d) = lap_phase d n XOR 1"
  by (simp add: lap_phase_def div_add_self2)

lemma lap_phase_flip: "0 < d \<Longrightarrow> lap_phase d (n + d) \<noteq> lap_phase d n"
  by (simp add: lap_phase_def div_add_self2)

lemma lap_phase_Suc: "0 < d \<Longrightarrow> lap_phase d (Suc n) = (if Suc (n mod d) = d then lap_phase d n XOR 1 else lap_phase d n)"
  by (simp add: lap_phase_def div_Suc mod_Suc)

text \<open>An index word one step on.\<close>

lemma ring_index_step:
  assumes "unat (w :: u16) = n mod d" "unat (dp :: u32) = d" "0 < d" "d \<le> 65535"
  shows "ucast w + 1 = dp \<longleftrightarrow> Suc (n mod d) = d"
    "unat (if ucast w + 1 = dp then 0 else ucast (ucast w + 1 :: u32) :: u16) = Suc n mod d"
proof -
  have lt: "n mod d < d" using assms(3) by simp
  then have lt': "n mod d < 65535" using assms(4) by linarith
  have u: "unat (ucast w + 1 :: u32) = Suc (n mod d)"
  proof -
    have "unat (ucast w :: u32) = n mod d" using assms(1) lt' by (simp add: unsigned_ucast_eq take_bit_eq_mod)
    then show ?thesis using lt' by (intro trans [OF unat_inc_u32]) (auto simp: unat_arith_simps)
  qed
  show eq: "ucast w + 1 = dp \<longleftrightarrow> Suc (n mod d) = d"
    using u assms(2) by (simp add: word_unat_eq_iff)
  have "unat (ucast (ucast w + 1 :: u32) :: u16) = Suc (n mod d)"
    using u lt' by (simp add: unsigned_ucast_eq take_bit_eq_mod)
  then show "unat (if ucast w + 1 = dp then 0 else ucast (ucast w + 1 :: u32) :: u16) = Suc n mod d"
    using eq assms(3) by (simp add: mod_Suc_wrap)
qed

section \<open>Driver and device\<close>

record v2_sys =
  hq :: mx_queue_v2
  pushed :: "mx_command_v2 list"           \<comment> \<open>commands the driver wrote, in order\<close>
  rung :: nat                              \<comment> \<open>how many of them the submission doorbell announced\<close>
  taken :: "mx_command_v2 list"            \<comment> \<open>commands the device fetched\<close>
  posted :: "(mx_completion \<times> nat) list"   \<comment> \<open>completions posted, with the commands fetched at that time\<close>
  popped :: "mx_completion list"           \<comment> \<open>completions the driver consumed\<close>
  released :: nat                          \<comment> \<open>how many of them the completion doorbell announced\<close>

abbreviation (input) dpt :: "v2_sys \<Rightarrow> nat" where "dpt S \<equiv> unat (q2_depth (hq S))"

definition v2_init :: "u32 \<Rightarrow> v2_sys" where
  "v2_init dp = \<lparr>hq = configure_queue dp, pushed = [], rung = 0, taken = [], posted = [], popped = [], released = 0\<rparr>"

text \<open>The steps of the driver.\<close>

definition v2_push :: "v2_sys \<Rightarrow> mx_command_v2 \<Rightarrow> v2_sys" where
  "v2_push S c = S\<lparr>hq := push_mx_command_v2 (hq S) c, pushed := pushed S @ [c]\<rparr>"

definition v2_ring_sq :: "v2_sys \<Rightarrow> v2_sys" where
  "v2_ring_sq S = S\<lparr>hq := ring_sq_doorbell (hq S), rung := length (pushed S)\<rparr>"

definition v2_pop :: "v2_sys \<Rightarrow> mx_completion_info \<times> v2_sys" where
  "v2_pop S = (case v2_pop_completion (hq S) of
     (info, q) \<Rightarrow> (info, S\<lparr>hq := q, popped := popped S @ [cqes (hq S) ! unat (cq_head (hq S))]\<rparr>))"

definition v2_ring_cq :: "v2_sys \<Rightarrow> v2_sys" where
  "v2_ring_cq S = S\<lparr>hq := ring_cq_doorbell (hq S), released := length (popped S)\<rparr>"

text \<open>The steps of the device: fetch the next announced command, post the next completion.\<close>

definition dev_fetch :: "v2_sys \<Rightarrow> v2_sys" where
  "dev_fetch S = S\<lparr>taken := taken S @ [sqes (hq S) ! (length (taken S) mod dpt S)]\<rparr>"

definition dev_post :: "v2_sys \<Rightarrow> mx_completion \<Rightarrow> v2_sys" where
  "dev_post S m =
     (let d = dpt S; n = length (posted S);
          m = m\<lparr>cq_sq_head := of_nat (length (taken S) mod d), cq_status := (cq_status m AND 0xfffe) OR lap_phase d n\<rparr>
      in S\<lparr>hq := (hq S)\<lparr>cqes := (cqes (hq S))[n mod d := m]\<rparr>, posted := posted S @ [(m, length (taken S))]\<rparr>)"

inductive v2_reachable :: "v2_sys \<Rightarrow> bool" where
  init: "1 < unat dp \<Longrightarrow> unat dp \<le> 65535 \<Longrightarrow> v2_reachable (v2_init dp)"
| push: "v2_reachable S \<Longrightarrow> is_pushable_v2 (hq S) \<Longrightarrow> v2_reachable (v2_push S c)"
| ring_sq: "v2_reachable S \<Longrightarrow> v2_reachable (v2_ring_sq S)"
| fetch: "v2_reachable S \<Longrightarrow> length (taken S) mod dpt S \<noteq> unat (db_sq (hq S)) \<Longrightarrow> v2_reachable (dev_fetch S)"
| post: "v2_reachable S \<Longrightarrow> Suc (length (posted S)) mod dpt S \<noteq> unat (db_cq (hq S)) \<Longrightarrow>
    v2_reachable (dev_post S m)"
| pop: "v2_reachable S \<Longrightarrow> phase_matches (hq S) \<Longrightarrow> v2_pop S = (info, S') \<Longrightarrow> v2_reachable S'"
| ring_cq: "v2_reachable S \<Longrightarrow> v2_reachable (v2_ring_cq S)"

text \<open>What each step adds to the histories.\<close>

lemma v2_histories [simp]:
  "pushed (v2_init dp) = []" "taken (v2_init dp) = []" "posted (v2_init dp) = []" "popped (v2_init dp) = []"
  "pushed (v2_push S c) = pushed S @ [c]" "taken (v2_push S c) = taken S" "posted (v2_push S c) = posted S"
  "popped (v2_push S c) = popped S"
  "pushed (v2_ring_sq S) = pushed S" "taken (v2_ring_sq S) = taken S" "posted (v2_ring_sq S) = posted S"
  "popped (v2_ring_sq S) = popped S"
  "pushed (dev_fetch S) = pushed S" "length (taken (dev_fetch S)) = Suc (length (taken S))"
  "posted (dev_fetch S) = posted S" "popped (dev_fetch S) = popped S"
  "pushed (dev_post S m) = pushed S" "taken (dev_post S m) = taken S"
  "length (posted (dev_post S m)) = Suc (length (posted S))" "popped (dev_post S m) = popped S"
  "map (cq_command_id o fst) (posted (dev_post S m)) = map (cq_command_id o fst) (posted S) @ [cq_command_id m]"
  "pushed (snd (v2_pop S)) = pushed S" "taken (snd (v2_pop S)) = taken S" "posted (snd (v2_pop S)) = posted S"
  "length (popped (snd (v2_pop S))) = Suc (length (popped S))"
  "pushed (v2_ring_cq S) = pushed S" "taken (v2_ring_cq S) = taken S" "posted (v2_ring_cq S) = posted S"
  "popped (v2_ring_cq S) = popped S"
  by (simp_all add: v2_init_def v2_push_def v2_ring_sq_def dev_fetch_def dev_post_def v2_pop_def v2_ring_cq_def Let_def
      split: prod.split)

section \<open>The invariant\<close>

text \<open>How many fetched commands the driver knows of.\<close>

definition known :: "v2_sys \<Rightarrow> nat" where
  "known S = (if popped S = [] then 0 else snd (posted S ! (length (popped S) - 1)))"

definition sq_inv :: "v2_sys \<Rightarrow> bool" where
  "sq_inv S \<longleftrightarrow>
     (let q = hq S; d = dpt S; P = length (pushed S); T = length (taken S) in
      1 < d \<and> d \<le> 65535 \<and> length (sqes q) = d \<and>
      unat (sq_tail q) = P mod d \<and> unat (sq_head q) = known S mod d \<and>
      unat (db_sq q) = rung S mod d \<and> last_sq_tail q = ucast (db_sq q) \<and>
      known S \<le> T \<and> T \<le> rung S \<and> rung S \<le> P \<and> P < known S + d \<and>
      (\<forall>i. T \<le> i \<longrightarrow> i < P \<longrightarrow> sqes q ! (i mod d) = pushed S ! i) \<and>
      taken S = take T (pushed S))"

definition cq_inv :: "v2_sys \<Rightarrow> bool" where
  "cq_inv S \<longleftrightarrow>
     (let q = hq S; d = dpt S; N = length (posted S); Q = length (popped S) in
      length (cqes q) = d \<and>
      unat (cq_head q) = Q mod d \<and> cq_phase q = lap_phase d Q \<and>
      unat (db_cq q) = released S mod d \<and> last_cq_head q = ucast (db_cq q) \<and>
      released S \<le> Q \<and> Q \<le> N \<and> N < released S + d \<and>
      (\<forall>i. Q \<le> i \<longrightarrow> i < N \<longrightarrow> cqes q ! (i mod d) = fst (posted S ! i)) \<and>
      (\<forall>i < N. cq_status (fst (posted S ! i)) AND 1 = lap_phase d i) \<and>
      (\<forall>i. N \<le> i \<longrightarrow> i < N + d \<longrightarrow> cq_status (cqes q ! (i mod d)) AND 1 \<noteq> lap_phase d i) \<and>
      (\<forall>i < N. unat (cq_sq_head (fst (posted S ! i))) = snd (posted S ! i) mod d) \<and>
      sorted (map snd (posted S)) \<and> (\<forall>x \<in> set (posted S). snd x \<le> length (taken S)) \<and>
      popped S = map fst (take Q (posted S)))"

definition v2_inv :: "v2_sys \<Rightarrow> bool" where
  "v2_inv S \<longleftrightarrow> sq_inv S \<and> cq_inv S"

section \<open>Preservation\<close>

lemma db_last: "unat (w :: u32) = n mod d \<Longrightarrow> d \<le> 65535 \<Longrightarrow> 0 < d \<Longrightarrow> unat (ucast w :: u16) = n mod d"
  using mod_less_divisor [of d n] order.strict_trans2 [of "n mod d" d 65536]
  by (simp add: unsigned_ucast_eq take_bit_eq_mod)

lemma ucast_u16_u32: "unat (ucast (w :: u16) :: u32) = unat w"
proof -
  have "unat w < 4294967296" using unsigned_less [of w, where 'a = nat] by simp
  then show ?thesis by (simp add: unsigned_ucast_eq take_bit_eq_mod)
qed

lemma ucast_u16_back [simp]: "ucast (ucast (w :: u16) :: u32) = w"
  by (rule word_unat_eq_iff [THEN iffD2])
    (use unsigned_less [of w, where 'a = nat] in \<open>simp add: ucast_u16_u32 unsigned_ucast_eq [of "ucast w :: u32"] take_bit_eq_mod\<close>)

lemma v2_init_inv:
  assumes "1 < unat dp" "unat dp \<le> 65535"
  shows "v2_inv (v2_init dp)"
  using assms
  by (simp add: v2_inv_def sq_inv_def cq_inv_def v2_init_def configure_queue_def known_def completion_zero_def
      lap_phase_def Let_def)

lemma sq_invD:
  assumes "sq_inv S"
  shows "1 < dpt S" "dpt S \<le> 65535" "length (sqes (hq S)) = dpt S"
    "unat (sq_tail (hq S)) = length (pushed S) mod dpt S" "unat (sq_head (hq S)) = known S mod dpt S"
    "unat (db_sq (hq S)) = rung S mod dpt S" "last_sq_tail (hq S) = ucast (db_sq (hq S))"
    "known S \<le> length (taken S)" "length (taken S) \<le> rung S" "rung S \<le> length (pushed S)"
    "length (pushed S) < known S + dpt S"
    "length (taken S) \<le> i \<Longrightarrow> i < length (pushed S) \<Longrightarrow> sqes (hq S) ! (i mod dpt S) = pushed S ! i"
    "taken S = take (length (taken S)) (pushed S)"
  using assms unfolding sq_inv_def Let_def by blast+

lemma cq_invD:
  assumes "cq_inv S"
  shows "length (cqes (hq S)) = dpt S"
    "unat (cq_head (hq S)) = length (popped S) mod dpt S" "cq_phase (hq S) = lap_phase (dpt S) (length (popped S))"
    "unat (db_cq (hq S)) = released S mod dpt S" "last_cq_head (hq S) = ucast (db_cq (hq S))"
    "released S \<le> length (popped S)" "length (popped S) \<le> length (posted S)" "length (posted S) < released S + dpt S"
    "length (popped S) \<le> i \<Longrightarrow> i < length (posted S) \<Longrightarrow> cqes (hq S) ! (i mod dpt S) = fst (posted S ! i)"
    "i < length (posted S) \<Longrightarrow> cq_status (fst (posted S ! i)) AND 1 = lap_phase (dpt S) i"
    "length (posted S) \<le> i \<Longrightarrow> i < length (posted S) + dpt S \<Longrightarrow>
       cq_status (cqes (hq S) ! (i mod dpt S)) AND 1 \<noteq> lap_phase (dpt S) i"
    "i < length (posted S) \<Longrightarrow> unat (cq_sq_head (fst (posted S ! i))) = snd (posted S ! i) mod dpt S"
    "sorted (map snd (posted S))" "x \<in> set (posted S) \<Longrightarrow> snd x \<le> length (taken S)"
    "popped S = map fst (take (length (popped S)) (posted S))"
  using assms unfolding cq_inv_def Let_def by blast+

text \<open>The driver finds room exactly when it knows of fewer than \<open>depth - 1\<close> commands the device has not fetched.\<close>

lemma pushable_iff:
  assumes "sq_inv S"
  shows "is_pushable_v2 (hq S) \<longleftrightarrow> Suc (length (pushed S)) < known S + dpt S"
proof -
  note i = sq_invD [OF assms]
  have e: "is_pushable_v2 (hq S) \<longleftrightarrow> Suc (length (pushed S)) mod dpt S \<noteq> known S mod dpt S"
    using i(4,5) by (simp add: is_pushable_v2_def mod_Suc_eq)
  show ?thesis
  proof (cases "Suc (length (pushed S)) = known S + dpt S")
    case True
    then show ?thesis using e by simp
  next
    case False
    then have "Suc (length (pushed S)) < known S + dpt S" using i(11) by simp
    moreover have "known S \<le> Suc (length (pushed S))" using i(8-10) by simp
    moreover have "known S \<noteq> Suc (length (pushed S))" using i(8-10) by simp
    ultimately show ?thesis
      using e mod_inj_window [of "known S" "dpt S" "Suc (length (pushed S))"] by auto
  qed
qed

lemma sq_tail_step:
  assumes "sq_inv S"
  shows "unat (sq_tail (update_sq_doorbell (hq S))) = Suc (length (pushed S)) mod dpt S"
    "update_sq_doorbell (hq S) = (hq S)\<lparr>sq_tail := sq_tail (update_sq_doorbell (hq S))\<rparr>"
proof -
  note i = sq_invD [OF assms]
  show "unat (sq_tail (update_sq_doorbell (hq S))) = Suc (length (pushed S)) mod dpt S"
    using ring_index_step(2) [OF i(4), of "q2_depth (hq S)"] i(1,2)
    by (simp add: update_sq_doorbell_def Let_def split: if_split_asm)
  show "update_sq_doorbell (hq S) = (hq S)\<lparr>sq_tail := sq_tail (update_sq_doorbell (hq S))\<rparr>"
    by (simp add: update_sq_doorbell_def Let_def)
qed

lemma push_inv:
  assumes inv: "v2_inv S" and p: "is_pushable_v2 (hq S)"
  shows "v2_inv (v2_push S c)"
proof -
  have s: "sq_inv S" and c: "cq_inv S" using inv by (simp_all add: v2_inv_def)
  note i = sq_invD [OF s]
  have room: "Suc (length (pushed S)) < known S + dpt S" using p pushable_iff [OF s] by simp
  let ?S = "S\<lparr>hq := (hq S)\<lparr>sqes := (sqes (hq S))[length (pushed S) mod dpt S := c]\<rparr>\<rparr>"
  obtain w where w: "v2_push S c = ?S\<lparr>hq := (hq ?S)\<lparr>sq_tail := w\<rparr>, pushed := pushed S @ [c]\<rparr>"
    "unat w = Suc (length (pushed S)) mod dpt S"
  proof
    let ?w = "sq_tail (update_sq_doorbell (hq S))"
    show "unat ?w = Suc (length (pushed S)) mod dpt S" by (rule sq_tail_step(1) [OF s])
    show "v2_push S c = ?S\<lparr>hq := (hq ?S)\<lparr>sq_tail := ?w\<rparr>, pushed := pushed S @ [c]\<rparr>"
      using i(4) by (simp add: v2_push_def push_mx_command_v2_def update_sq_doorbell_def Let_def)
  qed
  have k: "known (v2_push S c) = known S" by (simp add: known_def w(1))
  have slot: "(sqes (hq S))[length (pushed S) mod dpt S := c] ! (j mod dpt S) = (pushed S @ [c]) ! j"
    if "length (taken S) \<le> j" "j < Suc (length (pushed S))" for j
  proof (cases "j = length (pushed S)")
    case True
    then show ?thesis using i(1,3) by simp
  next
    case False
    then have "j < length (pushed S)" using that by simp
    moreover have "j mod dpt S \<noteq> length (pushed S) mod dpt S"
      using mod_inj_window [of j "dpt S" "length (pushed S)"] that False i(8,9,10,11) by auto
    ultimately show ?thesis using i(12) [of j] that(1) by (simp add: nth_append)
  qed
  have "sq_inv (v2_push S c)"
    unfolding sq_inv_def Let_def k
    using i(1-11,13) room slot w(2) by (simp add: w(1))
  moreover have "cq_inv (v2_push S c)" using c by (simp add: cq_inv_def Let_def w(1))
  ultimately show ?thesis by (simp add: v2_inv_def)
qed

lemma unat_u16_eq: "unat (v :: u16) = unat (w :: u16) \<longleftrightarrow> v = w"
  by (simp add: word_unat_eq_iff)

lemma ring_sq_inv:
  assumes inv: "v2_inv S"
  shows "v2_inv (v2_ring_sq S)"
proof -
  have s: "sq_inv S" and c: "cq_inv S" using inv by (simp_all add: v2_inv_def)
  note i = sq_invD [OF s]
  have d: "unat (ucast (db_sq (hq S)) :: u16) = rung S mod dpt S"
    using db_last [OF i(6)] i(1,2) by simp
  have same: "rung S = length (pushed S)" if "last_sq_tail (hq S) = sq_tail (hq S)"
    using that mod_inj_window [of "rung S" "dpt S" "length (pushed S)"] d i(4,7,8-11) by auto
  have "sq_inv (v2_ring_sq S)"
  proof (cases "last_sq_tail (hq S) = sq_tail (hq S)")
    case True
    then have "v2_ring_sq S = S" using same [OF True] by (simp add: v2_ring_sq_def ring_sq_doorbell_def)
    then show ?thesis using s by simp
  next
    case False
    then have e: "v2_ring_sq S = S\<lparr>hq := (hq S)\<lparr>db_sq := ucast (sq_tail (hq S)), last_sq_tail := sq_tail (hq S)\<rparr>,
        rung := length (pushed S)\<rparr>"
      by (simp add: v2_ring_sq_def ring_sq_doorbell_def)
    have "known (v2_ring_sq S) = known S" by (simp add: known_def e)
    then show ?thesis using i unfolding sq_inv_def Let_def
      by (simp add: e ucast_u16_u32)
  qed
  moreover have "cq_inv (v2_ring_sq S)"
    using c by (simp add: cq_inv_def Let_def v2_ring_sq_def ring_sq_doorbell_def)
  ultimately show ?thesis by (simp add: v2_inv_def)
qed

lemma ring_cq_inv:
  assumes inv: "v2_inv S"
  shows "v2_inv (v2_ring_cq S)"
proof -
  have s: "sq_inv S" and c: "cq_inv S" using inv by (simp_all add: v2_inv_def)
  note d0 = sq_invD(1,2) [OF s]
  note i = cq_invD [OF c]
  have d: "unat (ucast (db_cq (hq S)) :: u16) = released S mod dpt S"
    using db_last [OF i(4)] d0 by simp
  have same: "released S = length (popped S)" if "last_cq_head (hq S) = cq_head (hq S)"
    using that mod_inj_window [of "released S" "dpt S" "length (popped S)"] d i(2,5,6-8) by auto
  have "cq_inv (v2_ring_cq S)"
  proof (cases "last_cq_head (hq S) = cq_head (hq S)")
    case True
    then have "v2_ring_cq S = S" using same [OF True] by (simp add: v2_ring_cq_def ring_cq_doorbell_def)
    then show ?thesis using c by simp
  next
    case False
    then have e: "v2_ring_cq S = S\<lparr>hq := (hq S)\<lparr>db_cq := ucast (cq_head (hq S)), last_cq_head := cq_head (hq S)\<rparr>,
        released := length (popped S)\<rparr>"
      by (simp add: v2_ring_cq_def ring_cq_doorbell_def)
    show ?thesis using i unfolding cq_inv_def Let_def
      by (simp add: e ucast_u16_u32)
  qed
  moreover have "known (v2_ring_cq S) = known S" by (simp add: known_def v2_ring_cq_def)
  then have "sq_inv (v2_ring_cq S)"
    using s by (simp add: sq_inv_def Let_def v2_ring_cq_def ring_cq_doorbell_def)
  ultimately show ?thesis by (simp add: v2_inv_def)
qed

lemma fetch_inv:
  assumes inv: "v2_inv S" and g: "length (taken S) mod dpt S \<noteq> unat (db_sq (hq S))"
  shows "v2_inv (dev_fetch S)"
proof -
  have s: "sq_inv S" and c: "cq_inv S" using inv by (simp_all add: v2_inv_def)
  note i = sq_invD [OF s]
  have "length (taken S) < rung S" using i(6,9) g by (cases "length (taken S) = rung S") auto
  then have lt: "length (taken S) < length (pushed S)" using i(10) by simp
  have e: "sqes (hq S) ! (length (taken S) mod dpt S) = pushed S ! length (taken S)" by (rule i(12) [OF order_refl lt])
  have tk: "taken S @ [pushed S ! length (taken S)] = take (Suc (length (taken S))) (pushed S)"
    using i(13) lt by (simp add: take_Suc_conv_app_nth)
  have "known (dev_fetch S) = known S" by (simp add: known_def dev_fetch_def)
  then have "sq_inv (dev_fetch S)"
    using i(1-8,10,11) \<open>length (taken S) < rung S\<close> i(12) tk
    unfolding sq_inv_def Let_def by (simp add: dev_fetch_def e)
  moreover have "cq_inv (dev_fetch S)" using c by (auto simp: cq_inv_def Let_def dev_fetch_def)
  ultimately show ?thesis by (simp add: v2_inv_def)
qed

lemma phase_bit:
  assumes "p = 0 \<or> p = (1 :: u16)"
  shows "((w AND 0xfffe) OR p) AND 1 = p"
proof -
  have "(w AND 0xfffe) AND 1 = (0 :: u16)" by (simp add: and.assoc)
  then show ?thesis using assms by (auto simp: bit.conj_disj_distrib2)
qed

lemma post_inv:
  assumes inv: "v2_inv S" and g: "Suc (length (posted S)) mod dpt S \<noteq> unat (db_cq (hq S))"
  shows "v2_inv (dev_post S m)"
proof -
  have s: "sq_inv S" and c: "cq_inv S" using inv by (simp_all add: v2_inv_def)
  note d0 = sq_invD(1,2) [OF s]
  note i = cq_invD [OF c]
  let ?d = "dpt S" let ?N = "length (posted S)" let ?T = "length (taken S)"
  define m' where "m' = m\<lparr>cq_sq_head := of_nat (?T mod ?d), cq_status := (cq_status m AND 0xfffe) OR lap_phase ?d ?N\<rparr>"
  have e: "dev_post S m = S\<lparr>hq := (hq S)\<lparr>cqes := (cqes (hq S))[?N mod ?d := m']\<rparr>, posted := posted S @ [(m', ?T)]\<rparr>"
    by (simp add: dev_post_def m'_def Let_def)
  have ph: "cq_status m' AND 1 = lap_phase ?d ?N"
    unfolding m'_def by (simp add: phase_bit [OF lap_phase_cases])
  have "?T mod ?d < 65536" using mod_less_divisor [of ?d ?T] d0 by linarith
  then have hd: "unat (cq_sq_head m') = ?T mod ?d"
    by (simp add: m'_def unsigned_of_nat take_bit_eq_mod)
  have "Suc ?N \<noteq> released S + ?d" using g i(4) by auto
  then have room: "Suc ?N < released S + ?d" using i(8) by simp
  have lt: "?N mod ?d < length (cqes (hq S))" using i(1) d0 by simp
  have unread: "(cqes (hq S))[?N mod ?d := m'] ! (j mod ?d) = fst ((posted S @ [(m', ?T)]) ! j)"
    if "length (popped S) \<le> j" "j < Suc ?N" for j
  proof (cases "j = ?N")
    case True
    then show ?thesis using lt by simp
  next
    case False
    then have "j mod ?d \<noteq> ?N mod ?d"
      using mod_inj_window [of j ?d ?N] that i(6-8) by auto
    then show ?thesis using i(9) [of j] that False by (simp add: nth_append)
  qed
  have free: "cq_status ((cqes (hq S))[?N mod ?d := m'] ! (j mod ?d)) AND 1 \<noteq> lap_phase ?d j"
    if "Suc ?N \<le> j" "j < Suc ?N + ?d" for j
  proof (cases "j = ?N + ?d")
    case True
    then show ?thesis using lt ph lap_phase_flip [of ?d ?N] d0 by simp
  next
    case False
    then have "?N mod ?d \<noteq> j mod ?d"
      using mod_inj_window [of ?N ?d j] that by auto
    then show ?thesis using i(11) [of j] that False by simp
  qed
  have "cq_inv (dev_post S m)"
    unfolding cq_inv_def Let_def
  proof (intro conjI)
    show "sorted (map snd (posted (dev_post S m)))"
      using i(13,14) by (auto simp: e sorted_append)
    show "\<forall>x \<in> set (posted (dev_post S m)). snd x \<le> length (taken (dev_post S m))"
      using i(14) by (auto simp: e)
    show "popped (dev_post S m) = map fst (take (length (popped (dev_post S m))) (posted (dev_post S m)))"
      using i(7,15) by (simp add: e)
  qed (use i room unread free ph hd in \<open>auto simp: e nth_append less_Suc_eq\<close>)
  moreover have "known (dev_post S m) = known S"
  proof (cases "popped S = []")
    case False
    then have "length (popped S) - 1 < ?N" using i(7) by (cases "popped S") auto
    then show ?thesis by (simp add: known_def e nth_append)
  qed (simp add: known_def e)
  then have "sq_inv (dev_post S m)"
    using s unfolding sq_inv_def Let_def by (simp add: e)
  ultimately show ?thesis by (simp add: v2_inv_def)
qed

text \<open>The phase comparison finds exactly the completions that were posted and not consumed.\<close>

lemma phase_matches_iff:
  assumes "v2_inv S"
  shows "phase_matches (hq S) \<longleftrightarrow> length (popped S) < length (posted S)"
proof -
  have s: "sq_inv S" and c: "cq_inv S" using assms by (simp_all add: v2_inv_def)
  note i = cq_invD [OF c]
  have e: "phase_matches (hq S) \<longleftrightarrow>
      cq_status (cqes (hq S) ! (length (popped S) mod dpt S)) AND 1 = lap_phase (dpt S) (length (popped S))"
    using i(2,3) by (simp add: phase_matches_def)
  show ?thesis
  proof (cases "length (popped S) < length (posted S)")
    case True
    then show ?thesis using e i(9) [OF order_refl True] i(10) [OF True] by simp
  next
    case False
    then have "length (popped S) = length (posted S)" using i(7) by simp
    then show ?thesis using e i(11) [of "length (popped S)"] sq_invD(1) [OF s] by simp
  qed
qed

lemma pop_eq:
  assumes inv: "v2_inv S" and lt: "length (popped S) < length (posted S)"
  shows "cqes (hq S) ! unat (cq_head (hq S)) = fst (posted S ! length (popped S))"
    "\<exists>h. snd (v2_pop S) = S\<lparr>hq := (hq S)\<lparr>sq_head := cq_sq_head (fst (posted S ! length (popped S))), cq_head := h,
         cq_phase := lap_phase (dpt S) (Suc (length (popped S)))\<rparr>,
       popped := popped S @ [fst (posted S ! length (popped S))]\<rparr> \<and>
       unat h = Suc (length (popped S)) mod dpt S"
proof -
  have s: "sq_inv S" and c: "cq_inv S" using inv by (simp_all add: v2_inv_def)
  note d0 = sq_invD(1,2) [OF s]
  note i = cq_invD [OF c]
  show hd: "cqes (hq S) ! unat (cq_head (hq S)) = fst (posted S ! length (popped S))"
    using i(2) i(9) [OF order_refl lt] by simp
  let ?n = "ucast (cq_head (hq S)) + 1 :: u32"
  have st: "?n = q2_depth (hq S) \<longleftrightarrow> Suc (length (popped S) mod dpt S) = dpt S"
    "unat (if ?n = q2_depth (hq S) then 0 else ucast ?n :: u16) = Suc (length (popped S)) mod dpt S"
    using ring_index_step [OF i(2) refl] d0 by simp_all
  have ph: "lap_phase (dpt S) (Suc (length (popped S))) =
      (if ?n = q2_depth (hq S) then cq_phase (hq S) XOR 1 else cq_phase (hq S))"
    using lap_phase_Suc [of "dpt S" "length (popped S)"] d0 st(1) i(3) by simp
  show "\<exists>h. snd (v2_pop S) = S\<lparr>hq := (hq S)\<lparr>sq_head := cq_sq_head (fst (posted S ! length (popped S))), cq_head := h,
         cq_phase := lap_phase (dpt S) (Suc (length (popped S)))\<rparr>,
       popped := popped S @ [fst (posted S ! length (popped S))]\<rparr> \<and>
       unat h = Suc (length (popped S)) mod dpt S"
    by (rule exI [of _ "if ?n = q2_depth (hq S) then 0 else ucast ?n"])
      (use st(2) hd ph in \<open>simp add: v2_pop_def v2_pop_completion_def pop_mx_completion_def update_cq_doorbell_def Let_def\<close>)
qed

lemma pop_inv:
  assumes inv: "v2_inv S" and lt: "length (popped S) < length (posted S)"
  shows "v2_inv (snd (v2_pop S))"
proof -
  have s: "sq_inv S" and c: "cq_inv S" using inv by (simp_all add: v2_inv_def)
  note si = sq_invD [OF s] and i = cq_invD [OF c]
  let ?Q = "length (popped S)" let ?m = "fst (posted S ! ?Q)"
  obtain h where e: "snd (v2_pop S) = S\<lparr>hq := (hq S)\<lparr>sq_head := cq_sq_head ?m, cq_head := h,
         cq_phase := lap_phase (dpt S) (Suc ?Q)\<rparr>, popped := popped S @ [?m]\<rparr>"
      (is "_ = ?S") and h: "unat h = Suc ?Q mod dpt S"
    using pop_eq(2) [OF inv lt] by blast
  have k: "known ?S = snd (posted S ! ?Q)" by (simp add: known_def)
  have mono: "known S \<le> snd (posted S ! ?Q)"
  proof (cases "popped S = []")
    case False
    then have "?Q - 1 < ?Q" by (cases "popped S") auto
    then have "map snd (posted S) ! (?Q - 1) \<le> map snd (posted S) ! ?Q"
      using i(13) lt by (intro sorted_nth_mono) auto
    then show ?thesis using False lt \<open>?Q - 1 < ?Q\<close> by (simp add: known_def)
  qed (simp add: known_def)
  have le: "snd (posted S ! ?Q) \<le> length (taken S)" using i(14) [of "posted S ! ?Q"] lt by simp
  have "sq_inv ?S"
    unfolding sq_inv_def Let_def k using si(1-4,6,7,9,10) si(11,12) le mono i(12) [OF lt] si(13) by simp
  moreover have "cq_inv ?S"
    unfolding cq_inv_def Let_def
  proof (intro conjI)
    show "popped ?S = map fst (take (length (popped ?S)) (posted ?S))"
      using i(15) lt by (simp add: take_Suc_conv_app_nth)
  qed (use i lt h in \<open>simp_all\<close>)
  ultimately show ?thesis unfolding e by (simp add: v2_inv_def)
qed

theorem v2_reachable_inv: "v2_reachable S \<Longrightarrow> v2_inv S"
proof (induction rule: v2_reachable.induct)
  case (init dp)
  then show ?case by (rule v2_init_inv)
next
  case (push S c)
  then show ?case by (simp add: push_inv)
next
  case (ring_sq S)
  then show ?case by (simp add: ring_sq_inv)
next
  case (fetch S)
  then show ?case by (simp add: fetch_inv)
next
  case (post S m)
  then show ?case by (simp add: post_inv)
next
  case (pop S info S')
  then show ?case using pop_inv [of S] phase_matches_iff [of S] by simp
next
  case (ring_cq S)
  then show ?case by (simp add: ring_cq_inv)
qed

section \<open>The property\<close>

text \<open>C24. The version 2 rings are reliable queues in both directions, whatever the interleaving of
  driver and device: the device fetches exactly the commands the driver pushed, in order and none
  twice; the driver consumes exactly the completions the device posted, in order and none twice; the
  phase bit is right exactly when an unread completion is in the ring; and neither ring ever holds
  more than \<open>depth - 1\<close> entries, so no entry is overwritten before it was read.\<close>

theorem v2_rings_fifo:
  assumes "v2_reachable S"
  shows "taken S = take (length (taken S)) (pushed S) \<and>
    popped S = map fst (take (length (popped S)) (posted S)) \<and>
    (phase_matches (hq S) \<longleftrightarrow> length (popped S) < length (posted S)) \<and>
    length (pushed S) - length (taken S) < unat (q2_depth (hq S)) \<and>
    length (posted S) - length (popped S) < unat (q2_depth (hq S))"
proof -
  note inv = v2_reachable_inv [OF assms]
  have s: "sq_inv S" and c: "cq_inv S" using inv by (simp_all add: v2_inv_def)
  show ?thesis
    using sq_invD(8-11,13) [OF s] cq_invD(6-8,15) [OF c] phase_matches_iff [OF inv] sq_invD(1) [OF s] by linarith
qed

text \<open>Depth 4: one command goes out, is fetched and completed, and its completion is consumed.\<close>

definition ring_example :: v2_sys where
  "ring_example = v2_ring_cq (snd (v2_pop (dev_post (dev_fetch (v2_ring_sq (v2_push (v2_init 4)
     (build_ping_command_v2)))) (completion_zero\<lparr>cq_command_id := 65535\<rparr>))))"

lemma ring_example_reachable: "v2_reachable ring_example"
proof -
  let ?S1 = "v2_push (v2_init 4) build_ping_command_v2" let ?S2 = "v2_ring_sq ?S1" let ?S3 = "dev_fetch ?S2"
  note ex_defs = v2_ring_sq_def v2_push_def v2_init_def configure_queue_def push_mx_command_v2_def update_sq_doorbell_def
    ring_sq_doorbell_def Let_def
  let ?S4 = "dev_post ?S3 (completion_zero\<lparr>cq_command_id := 65535\<rparr>)"
  have "v2_reachable (v2_init 4)" by (rule v2_reachable.init) simp_all
  then have "v2_reachable ?S1" by (rule v2_reachable.push) code_simp
  then have "v2_reachable ?S2" by (rule v2_reachable.ring_sq)
  then have "v2_reachable ?S3" 
    by (rule v2_reachable.fetch) (simp add: ex_defs)
  then have "v2_reachable ?S4" 
    by (rule v2_reachable.post) (simp add: ex_defs dev_fetch_def)
  note s4 = this
  have "phase_matches (hq ?S4)" using phase_matches_iff [OF v2_reachable_inv [OF s4]] by simp
  then have "v2_reachable (snd (v2_pop ?S4))" by (rule v2_reachable.pop [OF s4 _ prod.collapse [symmetric]])
  then show ?thesis unfolding ring_example_def by (rule v2_reachable.ring_cq)
qed

theorem v2_rings_fifo_witness:
  "v2_reachable ring_example \<and> taken ring_example = [build_ping_command_v2] \<and>
   map cq_command_id (popped ring_example) = [65535] \<and> \<not> phase_matches (hq ring_example)"
proof -
  note fifo = v2_rings_fifo [OF ring_example_reachable]
  have n: "length (popped ring_example) = 1" "length (posted ring_example) = 1" "length (taken ring_example) = 1"
    "pushed ring_example = [build_ping_command_v2]" "map (cq_command_id o fst) (posted ring_example) = [65535]"
    by (simp_all add: ring_example_def)
  have "popped ring_example = map fst (posted ring_example)" using fifo n(1,2) by simp
  then have "map cq_command_id (popped ring_example) = [65535]" using n(5) by simp
  then show ?thesis using fifo n ring_example_reachable by simp
qed

end
