(* ===== verification/Queue_Ops.thy ===== *)
theory Queue_Ops
  imports Queue_V2
begin

text \<open>
  The interface \<open>struct mx_queue_ops\<close> as the handlers of \<open>core_common.c\<close> use it: the contract of the
  submission side and of the completion side as locales, the batches of \<open>mx_submit_handler\<close> and
  \<open>mx_complete_handler\<close> proved once against the contracts, and both contracts discharged for the
  version 2 rings and for the version 1 mailboxes.
\<close>

section \<open>The handlers' batches\<close>

text \<open>An entry of \<open>sq_list\<close>: the transfer (by address), its command and \<open>no_completion\<close>.\<close>

record 'c sq_entry =
  se_xfer :: nat
  se_command :: 'c
  se_no_completion :: bool

text \<open>The accounting before a push; \<open>now\<close> is \<open>jiffies\<close>.\<close>

definition submit_account :: "bool \<Rightarrow> u64 \<Rightarrow> 'e mx_queue \<Rightarrow> 'e mx_queue" where
  "submit_account no_completion now q =
     (if no_completion then q
      else let q = q\<lparr>wait_count := wait_count q + 1\<rparr> in
           if wait_count q - zombie_wait_count q \<le> 1 then q\<lparr>lv_progress_jiffies := now\<rparr> else q)"

text \<open>
  The loop over \<open>sq_list\<close>; the last component lists the entries pushed, in order.  \<open>pushable\<close> and
  \<open>push\<close> are the operations of the queue, which is the state \<open>hw\<close>.
\<close>

primrec submit_loop ::
  "('q \<Rightarrow> bool \<times> 'q) \<Rightarrow> ('q \<Rightarrow> 'c \<Rightarrow> 'q) \<Rightarrow> bool \<Rightarrow> u64 \<Rightarrow> 'c sq_entry list \<Rightarrow> 'q \<Rightarrow> 'c sq_entry mx_queue \<Rightarrow>
     'q \<times> 'c sq_entry mx_queue \<times> 'c sq_entry list" where
  "submit_loop pushable push lv_on now [] hw q = (hw, q\<lparr>sq_list := []\<rparr>, [])"
| "submit_loop pushable push lv_on now (t # ts) hw q =
     (if lv_on \<and> lv_inflight q then (hw, q\<lparr>sq_list := t # ts\<rparr>, [])
      else case pushable hw of
             (False, hw) \<Rightarrow> (hw, q\<lparr>sq_list := t # ts\<rparr>, [])
           | (True, hw) \<Rightarrow>
               (let q = submit_account (se_no_completion t) now q; hw = push hw (se_command t)
                in case submit_loop pushable push lv_on now ts hw q of
                     (hw, q, ps) \<Rightarrow> (hw, q, t # ps)))"

text \<open>
  The inner loop of \<open>mx_complete_handler\<close>: completions are popped while there are any.  \<open>fuel\<close> bounds
  the iterations: the loop runs as long as the device keeps posting.
\<close>

primrec pop_loop :: "('q \<Rightarrow> bool \<times> 'q) \<Rightarrow> ('q \<Rightarrow> 'i \<times> 'q) \<Rightarrow> nat \<Rightarrow> 'q \<Rightarrow> ('i list \<times> 'q) option" where
  "pop_loop popable pop 0 hw = None"
| "pop_loop popable pop (Suc fuel) hw =
     (case popable hw of
        (False, hw) \<Rightarrow> Some ([], hw)
      | (True, hw) \<Rightarrow>
          (case pop hw of
             (info, hw) \<Rightarrow>
               (case pop_loop popable pop fuel hw of
                  None \<Rightarrow> None
                | Some (infos, hw) \<Rightarrow> Some (info # infos, hw))))"

section \<open>The contracts\<close>

text \<open>
  \<open>pending\<close> is what the device has still to fetch, read from the memory it will fetch it from; \<open>image\<close>
  is a command as it lies there.
\<close>

locale submit_ops =
  fixes inv :: "'q \<Rightarrow> bool" and image :: "'c \<Rightarrow> 'w list" and pending :: "'q \<Rightarrow> 'w list"
    and pushable :: "'q \<Rightarrow> bool \<times> 'q" and push :: "'q \<Rightarrow> 'c \<Rightarrow> 'q"
  assumes check_inv: "inv q \<Longrightarrow> inv (snd (pushable q))"
    and check_pending: "inv q \<Longrightarrow> pending (snd (pushable q)) = pending q"
    and push_inv: "inv q \<Longrightarrow> pushable q = (True, q') \<Longrightarrow> inv (push q' c)"
    and push_pending: "inv q \<Longrightarrow> pushable q = (True, q') \<Longrightarrow> pending (push q' c) = pending q @ image c"
begin

text \<open>The batch moves a prefix of the software list into the queue, in order, and keeps the rest.\<close>

lemma submit_loop_fifo:
  assumes "inv hw" "submit_loop pushable push lv_on now ts hw q = (hw', q', ps)"
  shows "inv hw' \<and> pending hw' = pending hw @ concat (map (image o se_command) ps) \<and> ts = ps @ sq_list q'"
  using assms
proof (induction ts arbitrary: hw q hw' q' ps)
  case Nil
  then show ?case by auto
next
  case (Cons t ts)
  obtain b hw1 where p: "pushable hw = (b, hw1)" by fastforce
  show ?case
  proof (cases "(lv_on \<and> lv_inflight q) \<or> \<not> b")
    case True
    then show ?thesis using Cons.prems p check_inv [OF Cons.prems(1)] check_pending [OF Cons.prems(1)]
      by (auto split: if_split_asm bool.split_asm)
  next
    case False
    let ?q = "submit_account (se_no_completion t) now q"
    obtain pd where r: "submit_loop pushable push lv_on now ts (push hw1 (se_command t)) ?q = (hw', q', pd)"
      "ps = t # pd"
      using Cons.prems(2) p False by (auto simp: Let_def split: prod.split_asm)
    have "inv (push hw1 (se_command t))" "pending (push hw1 (se_command t)) = pending hw @ image (se_command t)"
      using push_inv push_pending Cons.prems(1) p False by auto
    with Cons.IH [OF _ r(1)] r(2) show ?thesis by simp
  qed
qed

end

locale complete_ops =
  fixes inv :: "'q \<Rightarrow> bool" and arrived :: "'q \<Rightarrow> 'i list"
    and popable :: "'q \<Rightarrow> bool \<times> 'q" and pop :: "'q \<Rightarrow> 'i \<times> 'q"
  assumes poll: "inv q \<Longrightarrow> popable q = (b, q') \<Longrightarrow> inv q' \<and> arrived q' = arrived q \<and> (b \<longleftrightarrow> arrived q \<noteq> [])"
    and pop: "inv q \<Longrightarrow> popable q = (True, q') \<Longrightarrow> pop q' = (info, q'') \<Longrightarrow>
      inv q'' \<and> info = hd (arrived q) \<and> arrived q'' = tl (arrived q)"
begin

text \<open>With nothing posted meanwhile the loop ends, having popped everything that had arrived, in order.\<close>

lemma pop_loop_all:
  assumes "inv hw" "length (arrived hw) < fuel"
  shows "\<exists>hw'. pop_loop popable pop fuel hw = Some (arrived hw, hw') \<and> inv hw' \<and> arrived hw' = []"
  using assms
proof (induction fuel arbitrary: hw)
  case (Suc fuel)
  obtain b hw1 where p: "popable hw = (b, hw1)" by fastforce
  note pl = poll [OF Suc.prems(1) p]
  show ?case
  proof (cases b)
    case True
    obtain info hw2 where i: "pop hw1 = (info, hw2)" by fastforce
    note pp = pop [OF Suc.prems(1) p [unfolded eqTrueI [OF True]] i]
    have ne: "arrived hw \<noteq> []" using pl True by simp
    obtain hw3 where "pop_loop popable pop fuel hw2 = Some (arrived hw2, hw3)" "inv hw3" "arrived hw3 = []"
      using Suc.IH [of hw2] pp Suc.prems(2) ne by (cases "arrived hw") auto
    then show ?thesis using p i True pp ne by simp
  next
    case False
    then show ?thesis using p pl by auto
  qed
qed simp

end

section \<open>Version 2\<close>

definition v2_pending :: "v2_sys \<Rightarrow> mx_command_v2 list" where
  "v2_pending S = map (\<lambda>i. sqes (hq S) ! (i mod dpt S)) [length (taken S)..<length (pushed S)]"

definition v2_arrived :: "v2_sys \<Rightarrow> mx_completion_info list" where
  "v2_arrived S = map (\<lambda>m. \<lparr>info_id = uint (cq_command_id m), info_result = cq_result m, info_status = 0\<rparr>)
     (map fst (drop (length (popped S)) (posted S)))"

lemma v2_pending_eq: "v2_inv S \<Longrightarrow> v2_pending S = drop (length (taken S)) (pushed S)"
  unfolding v2_pending_def
  by (rule nth_equalityI) (use sq_invD(12) [of S] in \<open>simp_all add: v2_inv_def\<close>)

interpretation v2_submit: submit_ops v2_inv "\<lambda>c. [c]" v2_pending "\<lambda>S. (is_pushable_v2 (hq S), S)" v2_push
proof
  fix S S' c assume i: "v2_inv S" and p: "(is_pushable_v2 (hq S), S) = (True, S')"
  then show "v2_inv (v2_push S' c)" by (auto simp: push_inv)
  have "length (taken S) \<le> length (pushed S)" using i sq_invD(9,10) [of S] by (simp add: v2_inv_def)
  then show "v2_pending (v2_push S' c) = v2_pending S @ [c]"
    using i p push_inv [OF i, of c] by (auto simp: v2_pending_eq)
qed simp_all

lemma v2_info_eq:
  assumes "v2_inv S" "length (popped S) < length (posted S)" "v2_pop S = (info, S')"
  shows "info = hd (v2_arrived S) \<and> v2_arrived S' = tl (v2_arrived S)"
proof -
  have d: "drop (length (popped S)) (posted S) =
      posted S ! length (popped S) # drop (Suc (length (popped S))) (posted S)"
    using assms(2) by (simp add: Cons_nth_drop_Suc)
  have n: "length (popped S') = Suc (length (popped S))" "posted S' = posted S"
    using assms(3) v2_histories(24,25) [of S] by simp_all
  have "info = \<lparr>info_id = uint (cq_command_id (fst (posted S ! length (popped S)))),
      info_result = cq_result (fst (posted S ! length (popped S))), info_status = 0\<rparr>"
    using assms(3) pop_eq(1) [OF assms(1,2)]
    by (auto simp: v2_pop_def v2_pop_completion_def pop_mx_completion_def Let_def)
  then show ?thesis using d n by (simp add: v2_arrived_def)
qed

interpretation v2_complete: complete_ops v2_inv v2_arrived "\<lambda>S. (phase_matches (hq S), S)" v2_pop
proof
  fix S S' b assume i: "v2_inv S" and p: "(phase_matches (hq S), S) = (b, S')"
  have "length (popped S) \<le> length (posted S)" using i cq_invD(7) [of S] by (simp add: v2_inv_def)
  then show "v2_inv S' \<and> v2_arrived S' = v2_arrived S \<and> (b \<longleftrightarrow> v2_arrived S \<noteq> [])"
    using i p phase_matches_iff [OF i] by (auto simp: v2_arrived_def)
next
  fix S S' S'' info assume i: "v2_inv S" and p: "(phase_matches (hq S), S) = (True, S')" and e: "v2_pop S' = (info, S'')"
  then have lt: "length (popped S) < length (posted S)" using phase_matches_iff [OF i] by auto
  show "v2_inv S'' \<and> info = hd (v2_arrived S) \<and> v2_arrived S'' = tl (v2_arrived S)"
    using pop_inv [OF i lt] v2_info_eq [OF i lt] p e by auto
qed

section \<open>Version 1\<close>

text \<open>
  Both mailboxes with the memory behind them.  \<open>sqH\<close>, \<open>cqT\<close> are the device's positions, \<open>sqT\<close>, \<open>cqH\<close>
  the driver's, and \<open>regs\<close> holds the words that the driver wrote, by address: all that the device learns of
  the driver's positions is the context word in the write register of a mailbox.  Reading a mailbox's
  context gives the device's own index and the one in that register.
\<close>

record v1_sys =
  q1 :: mx_queue_v1
  sqk :: nat
  sqH :: nat
  sqT :: nat
  sqmem :: "nat \<Rightarrow> u64"
  cqk :: nat
  cqH :: nat
  cqT :: nat
  cqmem :: "nat \<Rightarrow> u64"
  regs :: "u64 \<Rightarrow> u64"

definition v1_reg :: "mx_mbox \<Rightarrow> u8 \<Rightarrow> u8 \<Rightarrow> u64" where
  "v1_reg mbox head tail = mbox_context_u64 ((mbox_ctx mbox)\<lparr>ctx_head := head, ctx_tail := tail\<rparr>)"

text \<open>The two indices the driver has published.\<close>

definition v1_tail :: "v1_sys \<Rightarrow> u8" where
  "v1_tail S = ctx_tail (mbox_context_of_u64 (regs S (w_ctx_addr (sq_mbox (q1 S)))))"

definition v1_head :: "v1_sys \<Rightarrow> u8" where
  "v1_head S = ctx_head (mbox_context_of_u64 (regs S (w_ctx_addr (cq_mbox (q1 S)))))"

text \<open>The slot of a data address.\<close>

definition v1_slot :: "mx_mbox \<Rightarrow> u64 \<Rightarrow> nat" where
  "v1_slot mbox addr = unat (addr - data_addr mbox) div 8"

definition v1_pushable :: "v1_sys \<Rightarrow> bool \<times> v1_sys" where
  "v1_pushable S = (case is_pushable_v1 (q1 S) (v1_reg (sq_mbox (q1 S)) (enc (2 ^ sqk S) (sqH S)) (v1_tail S)) of
     (b, q) \<Rightarrow> (b, S\<lparr>q1 := q\<rparr>))"

definition v1_push :: "v1_sys \<Rightarrow> mx_command_v1 \<Rightarrow> v1_sys" where
  "v1_push S c = (case push_mx_command_v1 (q1 S) c of
     (q, (addr, ws), (reg, w)) \<Rightarrow>
       S\<lparr>q1 := q, sqmem := write_words (sqmem S) (v1_slot (sq_mbox (q1 S)) addr) ws, sqT := sqT S + 4,
         regs := (regs S)(reg := w)\<rparr>)"

definition v1_poll :: "v1_sys \<Rightarrow> bool \<times> v1_sys" where
  "v1_poll S = (case is_popable_v1 ((mx_queue_common_init 0)\<lparr>wait_count := 1\<rparr> :: unit mx_queue) (q1 S)
        (v1_reg (cq_mbox (q1 S)) (v1_head S) (enc (2 ^ cqk S) (cqT S))) of
     (b, q) \<Rightarrow> (b, S\<lparr>q1 := q\<rparr>))"

definition v1_pop :: "v1_sys \<Rightarrow> mx_completion_info \<times> v1_sys" where
  "v1_pop S = (case v1_pop_completion (q1 S) (\<lambda>addr. cqmem S (v1_slot (cq_mbox (q1 S)) addr)) of
     (info, q, (reg, w)) \<Rightarrow> (info, S\<lparr>q1 := q, cqH := cqH S + 4, regs := (regs S)(reg := w)\<rparr>))"

definition v1_inv :: "v1_sys \<Rightarrow> bool" where
  "v1_inv S \<longleftrightarrow>
     (\<exists>H. mbox_at (sq_mbox (q1 S)) (sqk S) H (sqT S) \<and> H \<le> sqH S) \<and> sqH S \<le> sqT S \<and> 2 \<le> sqk S \<and> 4 dvd sqT S \<and>
     (\<exists>T. mbox_at (cq_mbox (q1 S)) (cqk S) (cqH S) T \<and> T \<le> cqT S) \<and> cqT S \<le> cqH S + 2 ^ cqk S \<and> 2 \<le> cqk S \<and>
     4 dvd cqH S \<and>
     v1_tail S = enc (2 ^ sqk S) (sqT S) \<and> v1_head S = enc (2 ^ cqk S) (cqH S) \<and>
     w_ctx_addr (sq_mbox (q1 S)) \<noteq> w_ctx_addr (cq_mbox (q1 S))"

definition v1_pending :: "v1_sys \<Rightarrow> u64 list" where
  "v1_pending S = ring_words (sqmem S) (2 ^ sqk S) (sqH S) (sqT S)"

text \<open>
  What the device can fetch: from its own position on, as many words as it works out from the published
  tail, seven bits of index and one of the lap.
\<close>

definition v1_known :: "nat \<Rightarrow> nat \<Rightarrow> u8 \<Rightarrow> nat" where
  "v1_known d H tail =
     (if unat tail div 128 = H div d mod 2 then unat tail mod 128 - H mod d else d + unat tail mod 128 - H mod d)"

definition v1_announced :: "v1_sys \<Rightarrow> u64 list" where
  "v1_announced S = ring_words (sqmem S) (2 ^ sqk S) (sqH S) (sqH S + v1_known (2 ^ sqk S) (sqH S) (v1_tail S))"

definition v1_info :: "u64 \<Rightarrow> u64 \<Rightarrow> mx_completion_info" where
  "v1_info header host_addr = \<lparr>info_id = uint (header_v1_id header), info_result = host_addr,
     info_status = ucast (header_v1_control header)\<rparr>"

definition v1_arrived :: "v1_sys \<Rightarrow> mx_completion_info list" where
  "v1_arrived S = map (\<lambda>i. v1_info (cqmem S ((cqH S + 4 * i) mod 2 ^ cqk S)) (cqmem S ((cqH S + 4 * i + 3) mod 2 ^ cqk S)))
     [0..<(cqT S - cqH S) div 4]"

lemma mbox_at_reg:
  assumes "mbox_at mbox k H T" "H' \<le> T'" "T' \<le> H' + 2 ^ k"
  shows "mbox_at (mbox\<lparr>mbox_ctx := mbox_context_of_u64 (v1_reg mbox (enc (2 ^ k) H') (enc (2 ^ k) T'))\<rparr>) k H' T'"
  using assms by (simp add: mbox_at_def v1_reg_def context_struct_roundtrip)

lemma v1_known_enc:
  assumes "k \<le> 7" "H \<le> T" "T \<le> H + 2 ^ k"
  shows "v1_known (2 ^ k) H (enc (2 ^ k) T) = T - H"
proof -
  let ?d = "(2 :: nat) ^ k"
  have "T mod ?d < 128" by (rule mod_pow_lt [OF assms(1)])
  then have u: "unat (enc ?d T) mod 128 = T mod ?d" "unat (enc ?d T) div 128 = T div ?d mod 2"
    by (simp_all add: unat_enc [OF assms(1)])
  have "Suc n mod 2 \<noteq> n mod 2" for n :: nat by presburger
  then show ?thesis using lap_cases [OF assms(2,3)] unfolding v1_known_def u by (auto simp del: mod_Suc_eq)
qed

lemma v1_announced_all: "v1_inv S \<Longrightarrow> v1_announced S = v1_pending S"
  unfolding v1_inv_def v1_announced_def v1_pending_def
  using v1_known_enc [of "sqk S" "sqH S" "sqT S"] by (auto simp: mbox_at_def)

lemma word_count_le: "(4 :: u32) \<le> w \<longleftrightarrow> 4 \<le> unat w" "(8 :: u32) \<le> w \<longleftrightarrow> 8 \<le> unat w"
  by (simp_all add: word_le_nat_alt)

lemma four_dvd_pow: "2 \<le> k \<Longrightarrow> (4 :: nat) dvd 2 ^ k"
  using le_imp_power_dvd [of 2 k "2 :: nat"] by simp

lemma aligned_slot:
  assumes "2 \<le> k" "4 dvd n"
  shows "n mod 2 ^ k + 4 \<le> (2 :: nat) ^ k"
proof -
  obtain a where a: "n mod 2 ^ k = 4 * a" using assms four_dvd_pow by (metis dvd_mod dvdE)
  obtain b where b: "(2 :: nat) ^ k = 4 * b" using four_dvd_pow [OF assms(1)] by (rule dvdE)
  have "n mod 2 ^ k < 2 ^ k" by simp
  then have "4 * a < 4 * b" unfolding a unfolding b .
  then show ?thesis unfolding a unfolding b by simp
qed

lemma v1_slot_at:
  assumes "mbox_at mbox k H T" "2 \<le> k"
  shows "v1_slot mbox (data_addr mbox + ucast (get_data_offset (ctx_tail (mbox_ctx mbox)))) = T mod 2 ^ k"
    "v1_slot mbox (data_addr mbox + ucast (get_data_offset (ctx_head (mbox_ctx mbox)))) = H mod 2 ^ k"
    "4 dvd H \<Longrightarrow> v1_slot mbox (data_addr mbox + ucast (get_data_offset (ctx_head (mbox_ctx mbox))) + 24) = H mod 2 ^ k + 3"
proof -
  have k: "k \<le> 7" using assms(1) by (simp add: mbox_at_def)
  have u: "unat (of_nat (8 * i) :: u64) div 8 = i" "unat (of_nat (8 * i) + 24 :: u64) div 8 = i + 3" if "i < 128" for i
  proof -
    have "unat (of_nat (8 * i) :: u64) = 8 * i" "unat (of_nat (8 * i + 24) :: u64) = 8 * i + 24"
      using that by (simp_all only: unsigned_of_nat take_bit_eq_mod) simp_all
    then show "unat (of_nat (8 * i) :: u64) div 8 = i" "unat (of_nat (8 * i) + 24 :: u64) div 8 = i + 3"
      by simp_all
  qed
  show "v1_slot mbox (data_addr mbox + ucast (get_data_offset (ctx_tail (mbox_ctx mbox)))) = T mod 2 ^ k"
    "v1_slot mbox (data_addr mbox + ucast (get_data_offset (ctx_head (mbox_ctx mbox)))) = H mod 2 ^ k"
    "v1_slot mbox (data_addr mbox + ucast (get_data_offset (ctx_head (mbox_ctx mbox))) + 24) = H mod 2 ^ k + 3"
    using u [OF mod_pow_lt [OF k]] unfolding v1_slot_def data_offset_at [OF assms(1)]
    by (simp_all only: add_diff_cancel_left' add.assoc)
qed

lemma v1_pushable_at:
  assumes i: "v1_inv S" and p: "v1_pushable S = (b, S')"
  shows "v1_inv S'" "v1_pending S' = v1_pending S" "sqT S' = sqT S" "sqH S' = sqH S" "sqk S' = sqk S" "sqmem S' = sqmem S"
    "b \<Longrightarrow> \<exists>H. mbox_at (sq_mbox (q1 S')) (sqk S) H (sqT S) \<and> H \<le> sqH S \<and> sqT S + 4 \<le> H + 2 ^ sqk S"
proof -
  obtain H where H: "mbox_at (sq_mbox (q1 S)) (sqk S) H (sqT S)" "H \<le> sqH S" "sqH S \<le> sqT S" "sqT S \<le> H + 2 ^ sqk S"
    using i unfolding v1_inv_def by (auto simp: mbox_at_def)
  let ?m = "(sq_mbox (q1 S))\<lparr>mbox_ctx := mbox_context_of_u64 (v1_reg (sq_mbox (q1 S)) (enc (2 ^ sqk S) (sqH S)) (v1_tail S))\<rparr>"
  have t: "v1_tail S = enc (2 ^ sqk S) (sqT S)" using i by (simp add: v1_inv_def)
  have m: "mbox_at ?m (sqk S) (sqH S) (sqT S)" unfolding t by (rule mbox_at_reg [OF H(1)]) (use H in simp_all)
  note f = free_space_at [OF H(1)] free_space_at [OF m]
  have S': "S' = S \<and> b \<and> 8 \<le> 2 ^ sqk S - (sqT S - H) \<or>
      S' = S\<lparr>q1 := (q1 S)\<lparr>sq_mbox := ?m\<rparr>\<rparr> \<and> (b \<longleftrightarrow> 4 \<le> 2 ^ sqk S - (sqT S - sqH S))"
    using p f by (auto simp: v1_pushable_def is_pushable_v1_def Let_def word_count_le split: if_split_asm)
  show "v1_pending S' = v1_pending S" "sqT S' = sqT S" "sqH S' = sqH S" "sqk S' = sqk S" "sqmem S' = sqmem S"
    using S' by (auto simp: v1_pending_def)
  show "v1_inv S'" using S' i m by (auto simp: v1_inv_def v1_tail_def v1_head_def)
  assume b
  with S' show "\<exists>H. mbox_at (sq_mbox (q1 S')) (sqk S) H (sqT S) \<and> H \<le> sqH S \<and> sqT S + 4 \<le> H + 2 ^ sqk S"
  proof (elim disjE conjE)
    assume "S' = S" "8 \<le> 2 ^ sqk S - (sqT S - H)"
    moreover have "sqT S + 4 \<le> H + 2 ^ sqk S" using calculation(2) H by linarith
    ultimately show ?thesis using H by blast
  next
    assume "S' = S\<lparr>q1 := (q1 S)\<lparr>sq_mbox := ?m\<rparr>\<rparr>" "b = (4 \<le> 2 ^ sqk S - (sqT S - sqH S))"
    moreover have "sqT S + 4 \<le> sqH S + 2 ^ sqk S" using calculation(2) \<open>b\<close> H by linarith
    ultimately show ?thesis using m by (intro exI [of _ "sqH S"]) simp
  qed
qed

interpretation v1_submit: submit_ops v1_inv command_v1_words v1_pending v1_pushable v1_push
proof
  fix S assume "v1_inv S"
  then show "v1_inv (snd (v1_pushable S))" "v1_pending (snd (v1_pushable S)) = v1_pending S"
    using v1_pushable_at [OF _ prod.collapse [symmetric]] by blast+
next
  fix S S' c assume i: "v1_inv S" and p: "v1_pushable S = (True, S')"
  note at = v1_pushable_at [OF i p]
  obtain H where H: "mbox_at (sq_mbox (q1 S')) (sqk S) H (sqT S)" "H \<le> sqH S" "sqT S + 4 \<le> H + 2 ^ sqk S"
    using at(7) by blast
  have c: "sqH S \<le> sqT S" "2 \<le> sqk S" "4 dvd sqT S" using i by (auto simp: v1_inv_def)
  have "4 \<le> (2::nat) ^ sqk S" using c(2) four_dvd_pow by (intro dvd_imp_le) simp_all
  then have T: "mbox_at (advance_tail (sq_mbox (q1 S')) 4) (sqk S) H (sqT S + 4)"
    using advance_tail_at [OF H(1), of 4] H(3) by simp
  have slot: "v1_slot (sq_mbox (q1 S')) (data_addr (sq_mbox (q1 S')) +
      ucast (get_data_offset (ctx_tail (mbox_ctx (sq_mbox (q1 S')))))) = sqT S mod 2 ^ sqk S"
    by (rule v1_slot_at(1) [OF H(1) c(2)])
  have push: "v1_push S' c = S'\<lparr>q1 := (q1 S')\<lparr>sq_mbox := advance_tail (sq_mbox (q1 S')) 4\<rparr>,
      sqmem := write_words (sqmem S') (sqT S mod 2 ^ sqk S) (command_v1_words c), sqT := sqT S' + 4,
      regs := (regs S')(w_ctx_addr (sq_mbox (q1 S')) := mbox_context_u64 (mbox_ctx (advance_tail (sq_mbox (q1 S')) 4)))\<rparr>"
    using slot by (simp add: v1_push_def push_mx_command_v1_def Let_def advance_tail_def)
  have w: "w_ctx_addr (advance_tail m n) = w_ctx_addr m" for m n by (simp add: advance_tail_def)
  have "v1_tail (v1_push S' c) = enc (2 ^ sqk S) (sqT S + 4)"
    using T by (simp add: push v1_tail_def w context_struct_roundtrip mbox_at_def)
  moreover have d: "w_ctx_addr (sq_mbox (q1 S')) \<noteq> w_ctx_addr (cq_mbox (q1 S'))" using at(1) by (simp add: v1_inv_def)
  moreover have "v1_head (v1_push S' c) = v1_head S'" using d by (simp add: push v1_head_def)
  ultimately show "v1_inv (v1_push S' c)"
    using at(1,3-5) T H(2) c by (auto simp: push w v1_inv_def)
  have len: "length (command_v1_words c) = 4" by (simp add: command_v1_words_def)
  show "v1_pending (v1_push S' c) = v1_pending S @ command_v1_words c"
    using ring_append [of "sqH S" "sqT S" "command_v1_words c" "2 ^ sqk S" "sqmem S"] c H aligned_slot [OF c(2,3)] at(3-6)
    by (simp add: push v1_pending_def len)
qed

lemma v1_poll_at:
  assumes i: "v1_inv S" and p: "v1_poll S = (b, S')"
  shows "v1_inv S'" "v1_arrived S' = v1_arrived S" "b \<longleftrightarrow> v1_arrived S \<noteq> []"
    "cqH S' = cqH S" "cqT S' = cqT S" "cqk S' = cqk S" "cqmem S' = cqmem S"
    "mbox_at (cq_mbox (q1 S')) (cqk S) (cqH S) (cqT S)"
proof -
  obtain T where T: "mbox_at (cq_mbox (q1 S)) (cqk S) (cqH S) T" "T \<le> cqT S" "cqT S \<le> cqH S + 2 ^ cqk S" "cqH S \<le> T"
    using i unfolding v1_inv_def by (auto simp: mbox_at_def)
  let ?m = "(cq_mbox (q1 S))\<lparr>mbox_ctx := mbox_context_of_u64 (v1_reg (cq_mbox (q1 S)) (v1_head S) (enc (2 ^ cqk S) (cqT S)))\<rparr>"
  have h: "v1_head S = enc (2 ^ cqk S) (cqH S)" using i by (simp add: v1_inv_def)
  have m: "mbox_at ?m (cqk S) (cqH S) (cqT S)" unfolding h by (rule mbox_at_reg [OF T(1)]) (use T in simp_all)
  have S': "S' = S\<lparr>q1 := (q1 S)\<lparr>cq_mbox := ?m\<rparr>\<rparr>" "b \<longleftrightarrow> 4 \<le> cqT S - cqH S"
    using p pending_count_at [OF m]
    by (auto simp: v1_poll_def is_popable_v1_def expects_completion_def Let_def word_count_le)
  show "v1_arrived S' = v1_arrived S" "cqH S' = cqH S" "cqT S' = cqT S" "cqk S' = cqk S" "cqmem S' = cqmem S"
    "mbox_at (cq_mbox (q1 S')) (cqk S) (cqH S) (cqT S)" using S'(1) m by (simp_all add: v1_arrived_def)
  show "v1_inv S'" using S'(1) i m by (auto simp: v1_inv_def v1_tail_def v1_head_def)
  show "b \<longleftrightarrow> v1_arrived S \<noteq> []" using S'(2) by (auto simp: v1_arrived_def)
qed

interpretation v1_complete: complete_ops v1_inv v1_arrived v1_poll v1_pop
proof
  fix S S' b assume "v1_inv S" "v1_poll S = (b, S')"
  from v1_poll_at [OF this] show "v1_inv S' \<and> v1_arrived S' = v1_arrived S \<and> (b \<longleftrightarrow> v1_arrived S \<noteq> [])" by simp
next
  fix S S' S'' info assume i: "v1_inv S" and p: "v1_poll S = (True, S')" and e: "v1_pop S' = (info, S'')"
  note at = v1_poll_at [OF i p]
  have c: "2 \<le> cqk S" "4 dvd cqH S" "cqT S \<le> cqH S + 2 ^ cqk S" using i by (auto simp: v1_inv_def)
  have n: "4 \<le> cqT S - cqH S" using at(3) by (auto simp: v1_arrived_def)
  have "4 \<le> (2::nat) ^ cqk S" using c(1) four_dvd_pow by (intro dvd_imp_le) simp_all
  then have T: "mbox_at (advance_head (cq_mbox (q1 S')) 4) (cqk S) (cqH S + 4) (cqT S)"
    using advance_head_at [OF at(8), of 4] n by simp
  have w3: "(cqH S + 3) mod 2 ^ cqk S = cqH S mod 2 ^ cqk S + 3"
    using aligned_slot [OF c(1,2)] by (simp add: mod_add_small)
  have pop: "info = v1_info (cqmem S (cqH S mod 2 ^ cqk S)) (cqmem S ((cqH S + 3) mod 2 ^ cqk S))"
    "S'' = S'\<lparr>q1 := (q1 S')\<lparr>cq_mbox := advance_head (cq_mbox (q1 S')) 4\<rparr>, cqH := cqH S' + 4,
       regs := (regs S')(w_ctx_addr (cq_mbox (q1 S')) := mbox_context_u64 (mbox_ctx (advance_head (cq_mbox (q1 S')) 4)))\<rparr>"
    using e v1_slot_at(2) [OF at(8) c(1)] v1_slot_at(3) [OF at(8) c(1,2)] at(7)
    by (auto simp: v1_pop_def v1_pop_completion_def pop_mx_command_def Let_def v1_info_def w3 advance_head_def)
  obtain k where k: "(cqT S - cqH S) div 4 = Suc k" "(cqT S - (cqH S + 4)) div 4 = k"
  proof
    show "(cqT S - cqH S) div 4 = Suc ((cqT S - (cqH S + 4)) div 4)" using n by simp
  qed simp
  have "v1_arrived S = info # v1_arrived S''"
    using k at(4-7)
    by (simp add: v1_arrived_def pop upt_conv_Cons map_Suc_upt [symmetric] del: upt_Suc map_Suc_upt)
       (simp add: o_def algebra_simps)
  moreover have "v1_inv S''"
  proof -
    have w: "w_ctx_addr (advance_head m n) = w_ctx_addr m" for m n by (simp add: advance_head_def)
    have "v1_head S'' = enc (2 ^ cqk S) (cqH S + 4)"
      using T by (simp add: pop(2) v1_head_def w context_struct_roundtrip mbox_at_def)
    moreover have d: "w_ctx_addr (sq_mbox (q1 S')) \<noteq> w_ctx_addr (cq_mbox (q1 S'))" using at(1) by (simp add: v1_inv_def)
    moreover have "v1_tail S'' = v1_tail S'" using d by (simp add: pop(2) v1_tail_def)
    ultimately show ?thesis using at(1,4-6) T c by (auto simp: pop(2) w v1_inv_def)
  qed
  ultimately show "v1_inv S'' \<and> info = hd (v1_arrived S) \<and> v1_arrived S'' = tl (v1_arrived S)" by simp
qed

section \<open>The properties\<close>

text \<open>The accounting of a batch, whatever the queue.\<close>

lemma submit_account_count:
  "wait_count (submit_account n now q) = wait_count q + of_bool (\<not> n)"
  "zombie_wait_count (submit_account n now q) = zombie_wait_count q"
  "lv_inflight (submit_account n now q) = lv_inflight q"
  by (simp_all add: submit_account_def Let_def)

lemma submit_loop_count:
  "submit_loop pushable push lv_on now ts hw q = (hw', q', ps) \<Longrightarrow>
     wait_count q' = wait_count q + int (cnt (\<lambda>t. \<not> se_no_completion t) ps)"
proof (induction ts arbitrary: hw q hw' q' ps)
  case (Cons t ts)
  then show ?case
    by (fastforce simp: Let_def submit_account_count split: if_split_asm prod.split_asm bool.split_asm)
qed simp

text \<open>A pass of the submit handler hands a prefix of the software list to the device, in order:
  the commands the device has still to fetch are those it had before, followed by the commands of
  the entries taken off the list, the other entries stay on the list, and \<open>wait_count\<close> grows by the
  number of entries that will complete. This holds for the rings of version 2 and, word for word,
  for the mailbox of version 1.\<close>

theorem submit_batch_fifo:
  assumes "v2_reachable S"
    and r2: "submit_loop (\<lambda>S. (is_pushable_v2 (hq S), S)) v2_push lv_on now ts S q = (S', q', ps)"
    and "v1_inv R" and r1: "submit_loop v1_pushable v1_push lv_on now us R r = (R', r', qs)"
  shows "ts = ps @ sq_list q' \<and> v2_pending S' = v2_pending S @ map se_command ps \<and>
    wait_count q' = wait_count q + int (cnt (\<lambda>t. \<not> se_no_completion t) ps) \<and>
    us = qs @ sq_list r' \<and> v1_pending R' = v1_pending R @ concat (map (command_v1_words o se_command) qs) \<and>
    wait_count r' = wait_count r + int (cnt (\<lambda>t. \<not> se_no_completion t) qs)"
proof -
  have "concat (map ((\<lambda>c. [c]) o se_command) ps) = map se_command ps" by (induction ps) simp_all
  then show ?thesis
    using v2_submit.submit_loop_fifo [OF v2_reachable_inv [OF assms(1)] r2] v1_submit.submit_loop_fifo [OF assms(3) r1]
      submit_loop_count [OF r2] submit_loop_count [OF r1] by simp
qed

text \<open>The inner loop of the complete handler ends as soon as the device stops posting, and by then
  it has delivered exactly the completions that had arrived, in order; nothing is left in the queue.
  This holds for both versions, with any fuel above the number of completions.\<close>

theorem complete_batch_drains:
  assumes "v2_reachable S" "length (v2_arrived S) < fuel" "v1_inv R" "length (v1_arrived R) < fuel"
  shows "(\<exists>S'. pop_loop (\<lambda>S. (phase_matches (hq S), S)) v2_pop fuel S = Some (v2_arrived S, S') \<and> v2_arrived S' = []) \<and>
    (\<exists>R'. pop_loop v1_poll v1_pop fuel R = Some (v1_arrived R, R') \<and> v1_arrived R' = [])"
  using v2_complete.pop_loop_all [OF v2_reachable_inv [OF assms(1)] assms(2)]
    v1_complete.pop_loop_all [OF assms(3,4)] by blast

text \<open>Two mailboxes of depth 8: four command words are waiting in each direction.\<close>

definition v1_example :: v1_sys where
  "v1_example = \<lparr>q1 = \<lparr>sq_mbox = fifo_mbox 4 8, cq_mbox = (fifo_mbox 4 4)\<lparr>w_ctx_addr := 0x208\<rparr>\<rparr>, sqk = 3, sqH = 4, sqT = 8,
     sqmem = (\<lambda>i. of_nat i), cqk = 3, cqH = 4, cqT = 8, cqmem = (\<lambda>i. push_bit 26 (of_nat i)),
     regs = (\<lambda>a. if a = 0x108 then fifo_word 4 8 else fifo_word 4 4)\<rparr>"

lemma v1_example_inv: "v1_inv v1_example"
proof -
  have "mbox_at (fifo_mbox 4 8) 3 4 8" "mbox_at ((fifo_mbox 4 4)\<lparr>w_ctx_addr := 0x208\<rparr>) 3 4 4"
    using fifo_mbox_at [of 4 8] fifo_mbox_at [of 4 4] by (simp_all add: mbox_at_def)
  moreover have "w_ctx_addr (fifo_mbox 4 8) = 0x108" by (simp add: fifo_mbox_def)
  then have "v1_tail v1_example = enc 8 8" "v1_head v1_example = enc 8 4"
    by (simp_all add: v1_tail_def v1_head_def v1_example_def fifo_word_fields)
  ultimately show ?thesis using \<open>w_ctx_addr (fifo_mbox 4 8) = 0x108\<close> unfolding v1_inv_def
    by (auto simp: v1_example_def intro!: exI)
qed

definition submit_example :: "'c \<Rightarrow> 'c sq_entry list" where
  "submit_example c = [\<lparr>se_xfer = 0, se_command = c, se_no_completion = False\<rparr>]"

lemma submit_batch_fifo_witness:
  "\<exists>S' q' ps R' r' qs.
     submit_loop (\<lambda>S. (is_pushable_v2 (hq S), S)) v2_push False 0 (submit_example build_ping_command_v2) ring_example
       (mx_queue_common_init 0) = (S', q', ps) \<and>
     submit_loop v1_pushable v1_push False 0 (submit_example build_ping_command_v1) v1_example
       (mx_queue_common_init 0) = (R', r', qs) \<and>
     v2_pending S' = v2_pending ring_example @ map se_command ps \<and> v1_pending v1_example = [4, 5, 6, 7] \<and>
     v1_pending R' = [4, 5, 6, 7] @ concat (map (command_v1_words o se_command) qs)"
proof -
  obtain S' q' ps where r2: "submit_loop (\<lambda>S. (is_pushable_v2 (hq S), S)) v2_push False 0
      (submit_example build_ping_command_v2) ring_example (mx_queue_common_init 0) = (S', q', ps)" by (rule prod_cases3)
  obtain R' r' qs where r1: "submit_loop v1_pushable v1_push False 0 (submit_example build_ping_command_v1) v1_example
      (mx_queue_common_init 0) = (R', r', qs)" by (rule prod_cases3)
  have "v1_pending v1_example = [4, 5, 6, 7]"
    by (simp add: v1_pending_def v1_example_def ring_words_def upt_rec)
  then show ?thesis
    using submit_batch_fifo [OF ring_example_reachable r2 v1_example_inv r1] r1 r2 by simp
qed

lemma complete_batch_drains_witness:
  "(\<exists>R'. pop_loop v1_poll v1_pop 5 v1_example = Some (v1_arrived v1_example, R') \<and> v1_arrived R' = []) \<and>
   map info_id (v1_arrived v1_example) = [4]"
proof -
  have a: "length (v1_arrived v1_example) < 5" by (simp add: v1_arrived_def v1_example_def)
  have b: "length (v2_arrived ring_example) < 5" by (simp add: v2_arrived_def ring_example_def)
  have "map info_id (v1_arrived v1_example) = [4]" by code_simp
  then show ?thesis using complete_batch_drains [OF ring_example_reachable b v1_example_inv a] by blast
qed

end
