(* ===== verification/Liveness.thy ===== *)
theory Liveness
  imports Queue_Ops
begin

text \<open>
  The idle backoff of the handler threads and the transport watchdog of \<open>core_common.c\<close>, with what
  the complete handler does to the watchdog's state on every completion.  Clock reads are arguments.
\<close>

section \<open>Backoff\<close>

text \<open>\<open>poll_backoff\<close>: the new idle count and the sleep range in microseconds, if it sleeps.\<close>

definition poll_backoff :: "nat \<Rightarrow> nat \<times> (nat \<times> nat) option" where
  "poll_backoff idle_count =
     (let n = min (idle_count + 1) 255 in
      if n \<le> 100 then (n, None)
      else let shift = min ((n - 100 - 1) div 4) 7;
               sleep_us = min (125 * 2 ^ shift) 16000
           in (n, Some (sleep_us, sleep_us + max 100 (sleep_us div 8))))"

section \<open>The watchdog\<close>

text \<open>\<open>time_after(now, progress)\<close> is the sign of the wrapped difference; \<open>to_msecs\<close> is \<open>jiffies_to_msecs\<close>.\<close>

definition mx_liveness_stalled_ms :: "(u64 \<Rightarrow> nat) \<Rightarrow> u64 \<Rightarrow> 'e mx_queue \<Rightarrow> nat" where
  "mx_liveness_stalled_ms to_msecs now q =
     (if sint (lv_progress_jiffies q - now) < 0 then to_msecs (now - lv_progress_jiffies q) else 0)"

text \<open>
  \<open>mx_liveness_watchdog\<close>: \<open>dead_cfg\<close>, \<open>stall_cfg\<close> are the sysfs parameters, \<open>now_ns\<close> and \<open>send_ns\<close> the two
  clock reads, \<open>j1\<close> and \<open>j2\<close> the two reads of \<open>jiffies\<close>, \<open>ping\<close> the built ping command.
\<close>

definition mx_liveness_watchdog ::
  "(u64 \<Rightarrow> nat) \<Rightarrow> nat \<Rightarrow> nat \<Rightarrow> u64 \<Rightarrow> u64 \<Rightarrow> u64 \<Rightarrow> u64 \<Rightarrow> ('q \<Rightarrow> bool \<times> 'q) \<Rightarrow> ('q \<Rightarrow> 'c \<Rightarrow> 'q) \<Rightarrow> 'c \<Rightarrow>
     'q \<Rightarrow> 'e mx_queue \<Rightarrow> 'q \<times> 'e mx_queue" where
  "mx_liveness_watchdog to_msecs dead_cfg stall_cfg now_ns send_ns j1 j2 pushable push ping hw q =
     (let outstanding = wait_count q - zombie_wait_count q;
          dead_ms = max dead_cfg 2;
          stall_ms = max 1 (min stall_cfg (dead_ms - 1));
          pong_wait_ns = now_ns - lv_sent_ns q
      in if lv_inflight q \<and> dead_ms * 1000000 < unat pong_wait_ns then
           let q = (if lv_health q = MX_LIVENESS_SUSPECT then q\<lparr>lv_health := MX_LIVENESS_DEAD\<rparr> else q)
           in case pushable hw of
                (False, hw) \<Rightarrow> (hw, q)
              | (True, hw) \<Rightarrow> (push hw ping, q\<lparr>lv_sent_ns := send_ns\<rparr>)
         else if outstanding \<le> 0 then (hw, q)
         else
           let stalled_ms = mx_liveness_stalled_ms to_msecs j1 q;
               q = (if dead_ms < stalled_ms \<and> \<not> lv_inflight q \<and> dead_ms < mx_liveness_stalled_ms to_msecs j2 q
                    then q\<lparr>lv_health := MX_LIVENESS_DEAD\<rparr> else q)
           in if stall_ms < stalled_ms \<and> \<not> lv_inflight q then
                case pushable hw of
                  (False, hw) \<Rightarrow> (hw, q)
                | (True, hw) \<Rightarrow>
                    (push hw ping,
                     q\<lparr>lv_inflight := True,
                       lv_health := (if lv_health q = MX_LIVENESS_ALIVE then MX_LIVENESS_SUSPECT else lv_health q),
                       lv_sent_ns := send_ns\<rparr>)
              else (hw, q))"

text \<open>What \<open>mx_complete_handler\<close> records for one completion before it looks for the transfer.\<close>

definition complete_liveness :: "u64 \<Rightarrow> u64 \<Rightarrow> int \<Rightarrow> 'e mx_queue \<Rightarrow> 'e mx_queue" where
  "complete_liveness now now_ns cid q =
     (let q = q\<lparr>lv_progress_jiffies := now, lv_health := MX_LIVENESS_ALIVE\<rparr> in
      if cid = int MX_PING_ID then
        (if lv_inflight q then q\<lparr>lv_inflight := False, lv_rtt_ns := now_ns - lv_sent_ns q\<rparr> else q)
      else q\<lparr>lv_inflight := False\<rparr>)"

section \<open>Properties\<close>

text \<open>The backoff of an idle handler is bounded and grows: the idle count never passes 255, up to
  100 idle rounds the thread only yields, after that it sleeps between 125 and 16000 microseconds
  (the timer slack at most an eighth, and at least 100), and a longer idle time never gives a
  shorter sleep.\<close>

theorem backoff_bounds:
  assumes "i \<le> 255"
  shows "case poll_backoff i of (n, s) \<Rightarrow> n = min (Suc i) 255 \<and>
    (case s of None \<Rightarrow> n \<le> 100
     | Some (lo, hi) \<Rightarrow> 100 < n \<and> 125 \<le> lo \<and> lo \<le> 16000 \<and> lo + 100 \<le> hi \<and> hi \<le> 18000 \<and>
         (\<forall>j lo' hi'. i \<le> j \<longrightarrow> snd (poll_backoff j) = Some (lo', hi') \<longrightarrow> lo \<le> lo'))"
proof -
  let ?sl = "\<lambda>n. min (125 * 2 ^ min ((n - 100 - 1) div 4) 7) 16000 :: nat"
  have mono: "?sl a \<le> ?sl b" if "a \<le> b" for a b
  proof -
    have "min ((a - 100 - 1) div 4) 7 \<le> min ((b - 100 - 1) div 4) 7" using that by (intro min.mono div_le_mono) auto
    then have "(2::nat) ^ min ((a - 100 - 1) div 4) 7 \<le> 2 ^ min ((b - 100 - 1) div 4) 7" by (simp add: power_increasing)
    then show ?thesis by (intro min.mono mult_le_mono) simp_all
  qed
  have lo: "125 \<le> ?sl n" for n by simp
  have up: "?sl n \<le> 16000" for n by simp
  have slack: "x + max 100 (x div 8) \<le> 18000" if "x \<le> 16000" for x :: nat
    using that div_le_mono [OF that, of 8] by (auto simp: max_def)
  have hi: "?sl n + max 100 (?sl n div 8) \<le> 18000" for n by (rule slack [OF up])
  show ?thesis
  proof (cases "min (Suc i) 255 \<le> 100")
    case True
    then show ?thesis by (simp add: poll_backoff_def Let_def)
  next
    case False
    have e: "poll_backoff i = (min (Suc i) 255, Some (?sl (min (Suc i) 255), ?sl (min (Suc i) 255) + max 100 (?sl (min (Suc i) 255) div 8)))"
      using False unfolding poll_backoff_def Let_def Suc_eq_plus1 [symmetric] by (simp only: if_False)
    have later: "?sl (min (Suc i) 255) \<le> lo'" if "i \<le> j" "snd (poll_backoff j) = Some (lo', hi')" for j lo' hi'
    proof -
      have "lo' = ?sl (min (Suc j) 255)"
        using that(2) unfolding poll_backoff_def Let_def Suc_eq_plus1 [symmetric] by (auto split: if_split_asm)
      then show ?thesis using mono [of "min (Suc i) 255" "min (Suc j) 255"] that(1) by (simp only: min.mono Suc_le_mono order_refl)
    qed
    show ?thesis unfolding e prod.case option.case
      using False lo [of "min (Suc i) 255"] up [of "min (Suc i) 255"] hi [of "min (Suc i) 255"] later
      by (intro conjI allI impI) (simp_all only: not_le le_max_iff_disj add_le_cancel_left order_refl simp_thms)
  qed
qed

theorem backoff_bounds_witness:
  "poll_backoff 100 = (101, Some (125, 225)) \<and> poll_backoff 255 = (255, Some (16000, 18000)) \<and> (125::nat) \<le> 16000"
  using backoff_bounds [of 100] backoff_bounds [of 255] by (simp add: poll_backoff_def)

text \<open>The watchdog touches the queue at most with one ping, and not the list or the counters.\<close>

lemma watchdog_hw:
  assumes "mx_liveness_watchdog tm dc sc now_ns send_ns j1 j2 pushable push ping hw q = (hw', q')"
  shows "hw' = hw \<or> hw' = snd (pushable hw) \<or>
      fst (pushable hw) \<and> hw' = push (snd (pushable hw)) ping \<and> lv_inflight q' \<and> lv_sent_ns q' = send_ns"
    "lv_inflight q \<longrightarrow> lv_inflight q'" "wait_count q' = wait_count q" "sq_list q' = sq_list q"
proof -
  obtain b hw1 where p: "pushable hw = (b, hw1)" by fastforce
  note w = assms [unfolded mx_liveness_watchdog_def Let_def]
  show "hw' = hw \<or> hw' = snd (pushable hw) \<or>
      fst (pushable hw) \<and> hw' = push (snd (pushable hw)) ping \<and> lv_inflight q' \<and> lv_sent_ns q' = send_ns"
    using w by (cases b) (auto simp: p split: if_split_asm)
  show "lv_inflight q \<longrightarrow> lv_inflight q'" "wait_count q' = wait_count q" "sq_list q' = sq_list q"
    using w by (cases b; auto simp: p split: if_split_asm)+
qed

text \<open>C28. The watchdog's verdict is sound: it turns a queue dead only when a suspect queue's probe has
  gone unanswered for longer than the (sanitised) dead time, or when commands are outstanding, no
  probe is in flight and two clock reads find no completion for longer than the dead time. It
  pushes at most one ping, only into a queue that reported room and always with the hold on further
  submits set, it never lifts that hold itself, and any completion or pong makes the queue
  alive again and lifts the hold.\<close>

theorem watchdog_sound:
  assumes "mx_liveness_watchdog to_msecs dead_cfg stall_cfg now_ns send_ns j1 j2 pushable push ping hw q = (hw', q')"
  shows "(lv_health q \<noteq> MX_LIVENESS_DEAD \<and> lv_health q' = MX_LIVENESS_DEAD \<longrightarrow>
       lv_inflight q \<and> lv_health q = MX_LIVENESS_SUSPECT \<and> max dead_cfg 2 * 1000000 < unat (now_ns - lv_sent_ns q) \<or>
       \<not> lv_inflight q \<and> zombie_wait_count q < wait_count q \<and>
       max dead_cfg 2 < mx_liveness_stalled_ms to_msecs j1 q \<and> max dead_cfg 2 < mx_liveness_stalled_ms to_msecs j2 q) \<and>
    (hw' = hw \<or> hw' = snd (pushable hw) \<or>
       fst (pushable hw) \<and> hw' = push (snd (pushable hw)) ping \<and> lv_inflight q' \<and> lv_sent_ns q' = send_ns) \<and>
    (lv_inflight q \<longrightarrow> lv_inflight q') \<and>
    wait_count q' = wait_count q \<and> sq_list q' = sq_list q \<and>
    lv_health (complete_liveness j1 now_ns cid q') = MX_LIVENESS_ALIVE \<and> \<not> lv_inflight (complete_liveness j1 now_ns cid q')"
proof (intro conjI)
  note w = assms [unfolded mx_liveness_watchdog_def Let_def]
  obtain b hw1 where p: "pushable hw = (b, hw1)" by fastforce
  show "lv_health q \<noteq> MX_LIVENESS_DEAD \<and> lv_health q' = MX_LIVENESS_DEAD \<longrightarrow>
       lv_inflight q \<and> lv_health q = MX_LIVENESS_SUSPECT \<and> max dead_cfg 2 * 1000000 < unat (now_ns - lv_sent_ns q) \<or>
       \<not> lv_inflight q \<and> zombie_wait_count q < wait_count q \<and>
       max dead_cfg 2 < mx_liveness_stalled_ms to_msecs j1 q \<and> max dead_cfg 2 < mx_liveness_stalled_ms to_msecs j2 q"
    using w by (auto simp: p split: if_split_asm bool.split_asm)
  show "hw' = hw \<or> hw' = snd (pushable hw) \<or>
       fst (pushable hw) \<and> hw' = push (snd (pushable hw)) ping \<and> lv_inflight q' \<and> lv_sent_ns q' = send_ns"
    "lv_inflight q \<longrightarrow> lv_inflight q'" "wait_count q' = wait_count q" "sq_list q' = sq_list q"
    by (rule watchdog_hw [OF assms])+
  show "lv_health (complete_liveness j1 now_ns cid q') = MX_LIVENESS_ALIVE" "\<not> lv_inflight (complete_liveness j1 now_ns cid q')"
    by (simp_all add: complete_liveness_def Let_def)
qed

text \<open>A queue with one command outstanding since jiffy 0, no probe in flight.\<close>

definition stalled_queue :: "unit mx_queue" where
  "stalled_queue = (mx_queue_common_init 0)\<lparr>wait_count := 1\<rparr>"

theorem watchdog_sound_witness:
  "mx_liveness_watchdog unat 5000 1000 0 7 6000 6000 (\<lambda>n. (True, n)) (\<lambda>n (c::nat). n + 1) 0 (0::nat) stalled_queue =
     (1, stalled_queue\<lparr>lv_inflight := True, lv_health := MX_LIVENESS_DEAD, lv_sent_ns := 7\<rparr>) \<and>
   max 5000 2 < mx_liveness_stalled_ms unat 6000 stalled_queue"
proof -
  have w: "mx_liveness_watchdog unat 5000 1000 0 7 6000 6000 (\<lambda>n. (True, n)) (\<lambda>n (c::nat). n + 1) 0 (0::nat) stalled_queue =
     (1, stalled_queue\<lparr>lv_inflight := True, lv_health := MX_LIVENESS_DEAD, lv_sent_ns := 7\<rparr>)"
    by (simp add: mx_liveness_watchdog_def stalled_queue_def mx_queue_common_init_def mx_liveness_stalled_ms_def Let_def)
  show ?thesis using w watchdog_sound [OF w, of 0]
    by (simp add: stalled_queue_def mx_queue_common_init_def)
qed

text \<open>
  The verdict without a probe: when the first run of the watchdog finds the queue stalled past the dead
  time, it declares the queue dead although there is room for a probe and none was ever sent.
\<close>

lemma dead_before_first_probe:
  assumes "\<not> lv_inflight q" "zombie_wait_count q < wait_count q"
    "max dead_cfg 2 < mx_liveness_stalled_ms to_msecs j q" "pushable hw = (True, hw1)"
  shows "lv_health (snd (mx_liveness_watchdog to_msecs dead_cfg stall_cfg now_ns send_ns j j pushable push ping hw q)) =
    MX_LIVENESS_DEAD"
  using assms by (simp add: mx_liveness_watchdog_def Let_def mx_liveness_stalled_ms_def)

end
