(* ===== verification/Admin_V2.thy ===== *)
theory Admin_V2
  imports Liveness
begin

text \<open>
  The admin queue of hardware version 2 and the life of the rings it creates: \<open>core_v2.c\<close> from
  \<open>alloc_queue\<close> to \<open>free_mx_queue\<close>, with \<open>mx_start_io_queue\<close> and \<open>mx_stop_queue_threads\<close> of \<open>core_common.c\<close>.

  The world around the driver is the record \<open>v2_env\<close>: what the completion ring of the admin queue holds
  and whether the function is disconnected at each poll (the device writes both whenever it
  likes), the outcome of each allocation, and the two constants of \<open>linux/nvme.h\<close>.  \<open>clock\<close> counts the
  polls.  \<open>log\<close> records what passed on the queue, as it lay in the two rings: every command whose
  doorbell was rung, and every completion the driver took off the ring, with the command id the device put
  into it, whether the driver then used it or dropped it as stale.
\<close>

section \<open>State\<close>

abbreviation (input) ADMIN_OPCODE_CREATE_IO_CQ :: u8 where "ADMIN_OPCODE_CREATE_IO_CQ \<equiv> 0"
abbreviation (input) ADMIN_OPCODE_DELETE_IO_CQ :: u8 where "ADMIN_OPCODE_DELETE_IO_CQ \<equiv> 1"
abbreviation (input) ADMIN_OPCODE_CREATE_IO_SQ :: u8 where "ADMIN_OPCODE_CREATE_IO_SQ \<equiv> 2"
abbreviation (input) ADMIN_OPCODE_DELETE_IO_SQ :: u8 where "ADMIN_OPCODE_DELETE_IO_SQ \<equiv> 3"

record ring_alloc =
  ra_queue :: bool      \<comment> \<open>\<open>kzalloc\<close> of the queue\<close>
  ra_cq :: bool         \<comment> \<open>the two \<open>dma_alloc_coherent\<close>\<close>
  ra_sq :: bool
  ra_cq_dma :: u64
  ra_sq_dma :: u64

record v2_env =
  dev_cq :: "nat \<Rightarrow> mx_completion list"
  disconnected :: "nat \<Rightarrow> bool"
  NVME_AQ_DEPTH :: u32
  NVME_REG_DBS :: nat
  admin_alloc :: ring_alloc
  io_alloc :: ring_alloc
  submit_run :: "unit result"      \<comment> \<open>the two \<open>kthread_run\<close>\<close>
  complete_run :: "unit result"
  now_jiffies :: u64

record admin_q =
  aq_common :: "unit mx_queue"
  aq_ring :: mx_queue_v2
  aq_sq_dma :: u64
  aq_cq_dma :: u64
  admin_next_cid :: u16
  admin_pending_cid :: u16
  admin_pending_opcode :: u8
  admin_pending :: bool
  admin_desynced :: bool

record io_q =
  iq_common :: "nat mx_queue"
  iq_ring :: mx_queue_v2
  iq_qid :: u16
  iq_sq_dma :: u64
  iq_cq_dma :: u64
  hw_cq_created :: bool
  hw_sq_created :: bool
  hw_cq_id :: u16
  hw_sq_id :: u16

text \<open>A command (its id, opcode and queue information), or a completion (the id it carries and its result).\<close>

datatype admin_event = Pushed u16 u8 nat | Popped u16 u64

definition popped_event :: "mx_completion \<Rightarrow> admin_event" where
  "popped_event cmpl = Popped (cq_command_id cmpl) (cq_result cmpl)"

record v2_dev =
  clock :: nat
  admin_queue :: "admin_q option"
  io_queue :: "io_q option"
  queue_dma_programmed :: bool
  protocol_poisoned :: bool
  reg_aqa :: u32
  reg_asq :: u64
  reg_acq :: u64
  bar_mapped_size :: nat
  submit_thread :: bool
  complete_thread :: bool
  log :: "admin_event list"

section \<open>Rings\<close>

text \<open>\<open>alloc_queue\<close>: both rings or none.\<close>

definition alloc_queue :: "ring_alloc \<Rightarrow> u32 \<Rightarrow> (mx_queue_v2 \<times> u64 \<times> u64) result" where
  "alloc_queue a q_depth =
     (if \<not> ra_cq a then Inl ENOMEM
      else if \<not> ra_sq a then Inl ENOMEM
      else Inr (configure_queue q_depth, ra_sq_dma a, ra_cq_dma a))"

definition mx_start_io_queue :: "v2_env \<Rightarrow> v2_dev \<Rightarrow> unit result \<times> v2_dev" where
  "mx_start_io_queue env s =
     (case submit_run env of
        Inl e \<Rightarrow> (Inl e, s\<lparr>submit_thread := False\<rparr>)
      | Inr _ \<Rightarrow>
          (case complete_run env of
             Inl e \<Rightarrow> (Inl e, s\<lparr>submit_thread := False, complete_thread := False\<rparr>)
           | Inr _ \<Rightarrow> (OK, s\<lparr>submit_thread := True, complete_thread := True\<rparr>)))"

definition mx_stop_queue_threads :: "v2_dev \<Rightarrow> v2_dev" where
  "mx_stop_queue_threads s = s\<lparr>submit_thread := False, complete_thread := False\<rparr>"

section \<open>Admin commands\<close>

definition record_admin_terminal :: "u8 \<Rightarrow> u64 \<Rightarrow> v2_dev \<Rightarrow> v2_dev" where
  "record_admin_terminal opcode res s =
     (case io_queue s of
        None \<Rightarrow> s
      | Some io \<Rightarrow>
          if opcode = ADMIN_OPCODE_CREATE_IO_CQ then s\<lparr>io_queue := Some (io\<lparr>hw_cq_created := True, hw_cq_id := ucast res\<rparr>)\<rparr>
          else if opcode = ADMIN_OPCODE_CREATE_IO_SQ then s\<lparr>io_queue := Some (io\<lparr>hw_sq_created := True, hw_sq_id := ucast res\<rparr>)\<rparr>
          else if opcode = ADMIN_OPCODE_DELETE_IO_SQ then s\<lparr>io_queue := Some (io\<lparr>hw_sq_created := False\<rparr>)\<rparr>
          else if opcode = ADMIN_OPCODE_DELETE_IO_CQ then s\<lparr>io_queue := Some (io\<lparr>hw_cq_created := False\<rparr>)\<rparr>
          else s)"

text \<open>The next command id; zero is skipped when the counter wraps.\<close>

definition next_cid :: "admin_q \<Rightarrow> u16" where
  "next_cid q = (let cid = admin_next_cid q + 1 in if cid = 0 then cid + 1 else cid)"

text \<open>The two polling loops of \<open>submit_sync_command\<close>: whether there is room, and the result of the command.\<close>

primrec wait_pushable :: "nat \<Rightarrow> mx_queue_v2 \<Rightarrow> nat \<Rightarrow> bool \<times> nat" where
  "wait_pushable 0 ring t = (False, t)"
| "wait_pushable (Suc n) ring t = (if is_pushable_v2 ring then (True, t) else wait_pushable n ring (t + 1))"

text \<open>What a poll sees, and the completion it consumes.\<close>

definition ring_at :: "v2_env \<Rightarrow> nat \<Rightarrow> admin_q \<Rightarrow> admin_q" where
  "ring_at env t q = q\<lparr>aq_ring := (aq_ring q)\<lparr>cqes := dev_cq env t\<rparr>\<rparr>"

definition admin_popable :: "admin_q \<Rightarrow> bool" where
  "admin_popable q = is_popable_v2 (aq_common q) (aq_ring q)"

definition admin_pop :: "admin_q \<Rightarrow> mx_completion \<times> admin_q" where
  "admin_pop q = (case pop_mx_completion (aq_ring q) of (cmpl, ring) \<Rightarrow> (cmpl, q\<lparr>aq_ring := ring_cq_doorbell ring\<rparr>))"

text \<open>The result, if the command was answered, and all the completions taken off the ring.\<close>

primrec wait_terminal :: "v2_env \<Rightarrow> u16 \<Rightarrow> nat \<Rightarrow> nat \<Rightarrow> admin_q \<Rightarrow> u64 option \<times> mx_completion list \<times> nat \<times> admin_q" where
  "wait_terminal env cid 0 t q = (None, [], t, q)"
| "wait_terminal env cid (Suc n) t q =
     (let q = ring_at env t q in
      if admin_popable q then
        (case admin_pop q of
           (cmpl, q) \<Rightarrow>
             if cq_command_id cmpl \<noteq> cid then (case wait_terminal env cid n (t + 1) q of (r, cs, t, q) \<Rightarrow> (r, cmpl # cs, t, q))
             else (Some (cq_result cmpl), [cmpl], t + 1, q))
      else wait_terminal env cid n (t + 1) q)"

definition admin_start :: "mx_command_v2 \<Rightarrow> u16 \<Rightarrow> admin_q \<Rightarrow> admin_q" where
  "admin_start c cid q =
     q\<lparr>aq_ring := ring_sq_doorbell (push_mx_command_v2 (aq_ring q) c),
       aq_common := (aq_common q)\<lparr>wait_count := wait_count (aq_common q) + 1\<rparr>,
       admin_pending := True, admin_pending_cid := cid, admin_pending_opcode := c2_opcode c\<rparr>"

definition admin_finish :: "admin_q \<Rightarrow> admin_q" where
  "admin_finish q = q\<lparr>aq_common := (aq_common q)\<lparr>wait_count := wait_count (aq_common q) - 1\<rparr>, admin_pending := False\<rparr>"

text \<open>\<open>submit_sync_command\<close>: the device's result, or \<open>None\<close> for the \<open>false\<close> of the code.\<close>

definition submit_sync_command :: "v2_env \<Rightarrow> mx_command_v2 \<Rightarrow> v2_dev \<Rightarrow> u64 option \<times> v2_dev" where
  "submit_sync_command env c s =
     (case admin_queue s of
        None \<Rightarrow> (None, s)
      | Some q \<Rightarrow>
          if admin_desynced q then (None, s)
          else
            let cid = next_cid q; q = q\<lparr>admin_next_cid := cid\<rparr>; c = c\<lparr>c2_command_id := cid\<rparr> in
            case wait_pushable 500 (aq_ring q) (clock s) of
              (False, t) \<Rightarrow> (None, s\<lparr>clock := t, admin_queue := Some q\<rparr>)
            | (True, t) \<Rightarrow>
                let s = s\<lparr>log := log s @ [Pushed (c2_command_id c) (c2_opcode c) (c2_device_addr c)]\<rparr> in
                case wait_terminal env cid 500 t (admin_start c cid q) of
                  (None, cs, t, q) \<Rightarrow>
                    (None, s\<lparr>clock := t, admin_queue := Some (q\<lparr>admin_desynced := True\<rparr>), protocol_poisoned := True,
                       log := log s @ map popped_event cs\<rparr>)
                | (Some res, cs, t, q) \<Rightarrow>
                    (Some res, record_admin_terminal (c2_opcode c) res
                       (s\<lparr>clock := t, admin_queue := Some (admin_finish q), log := log s @ map popped_event cs\<rparr>)))"

text \<open>The 16-bit fields of \<open>io_queue_info_t\<close> share their eight bytes with \<open>device_addr\<close>.\<close>

definition io_queue_info :: "nat \<Rightarrow> u16 \<Rightarrow> u16 \<Rightarrow> nat" where
  "io_queue_info dp cqi sqi = dp mod 2 ^ 16 + unat cqi * 2 ^ 16 + unat sqi * 2 ^ 32"

definition delete_io_sq :: "v2_env \<Rightarrow> u16 \<Rightarrow> v2_dev \<Rightarrow> bool \<times> v2_dev" where
  "delete_io_sq env qid s =
     (case submit_sync_command env (command_v2_zero\<lparr>c2_opcode := ADMIN_OPCODE_DELETE_IO_SQ,
             c2_device_addr := io_queue_info 0 0 qid\<rparr>) s of (r, s) \<Rightarrow> (r \<noteq> None, s))"

definition delete_io_cq :: "v2_env \<Rightarrow> u16 \<Rightarrow> v2_dev \<Rightarrow> bool \<times> v2_dev" where
  "delete_io_cq env qid s =
     (case submit_sync_command env (command_v2_zero\<lparr>c2_opcode := ADMIN_OPCODE_DELETE_IO_CQ,
             c2_device_addr := io_queue_info 0 qid 0\<rparr>) s of (r, s) \<Rightarrow> (r \<noteq> None, s))"

text \<open>
  The loop of \<open>drain_pending_admin\<close> has no bound in the code; \<open>None\<close> means it still runs after \<open>fuel\<close> polls.
\<close>

primrec drain_loop :: "v2_env \<Rightarrow> nat \<Rightarrow> admin_q \<Rightarrow> v2_dev \<Rightarrow> (unit result \<times> v2_dev) option" where
  "drain_loop env 0 q s = None"
| "drain_loop env (Suc fuel) q s =
     (if \<not> admin_pending q then Some (OK, s\<lparr>admin_queue := Some (q\<lparr>admin_desynced := False\<rparr>)\<rparr>)
      else if disconnected env (clock s) then Some (Inl ENODEV, s\<lparr>admin_queue := Some q\<rparr>)
      else let q = ring_at env (clock s) q; s = s\<lparr>clock := clock s + 1\<rparr> in
           if \<not> admin_popable q then drain_loop env fuel q s
           else case admin_pop q of
                  (cmpl, q) \<Rightarrow>
                    let s = s\<lparr>log := log s @ [popped_event cmpl]\<rparr> in
                    if cq_command_id cmpl \<noteq> admin_pending_cid q then drain_loop env fuel q s
                    else drain_loop env fuel (admin_finish q)
                           (record_admin_terminal (admin_pending_opcode q) (cq_result cmpl) s))"

definition drain_pending_admin :: "v2_env \<Rightarrow> nat \<Rightarrow> v2_dev \<Rightarrow> (unit result \<times> v2_dev) option" where
  "drain_pending_admin env fuel s =
     (case admin_queue s of
        None \<Rightarrow> Some (OK, s)
      | Some q \<Rightarrow> if admin_desynced q \<and> \<not> admin_pending q then Some (Inl EUCLEAN, s) else drain_loop env fuel q s)"

definition disable_admin_queue :: "v2_dev \<Rightarrow> v2_dev" where
  "disable_admin_queue s = s\<lparr>reg_aqa := 0, reg_asq := 0, reg_acq := 0, queue_dma_programmed := False\<rparr>"

section \<open>Creating and deleting the rings\<close>

text \<open>Delete what the device still has, the submission ring before the completion ring it refers to.\<close>

definition delete_sq_if_created :: "v2_env \<Rightarrow> v2_dev \<Rightarrow> bool \<times> v2_dev" where
  "delete_sq_if_created env s =
     (case io_queue s of
        None \<Rightarrow> (True, s)
      | Some io \<Rightarrow> if hw_sq_created io then delete_io_sq env (hw_sq_id io) s else (True, s))"

definition delete_cq_if_created :: "v2_env \<Rightarrow> v2_dev \<Rightarrow> bool \<times> v2_dev" where
  "delete_cq_if_created env s =
     (case io_queue s of
        None \<Rightarrow> (True, s)
      | Some io \<Rightarrow> if hw_cq_created io then delete_io_cq env (hw_cq_id io) s else (True, s))"

definition delete_rings :: "v2_env \<Rightarrow> v2_dev \<Rightarrow> bool \<times> v2_dev" where
  "delete_rings env s =
     (case delete_sq_if_created env s of
        (False, s) \<Rightarrow> (False, s)
      | (True, s) \<Rightarrow> delete_cq_if_created env s)"

definition recover_mx_queue :: "v2_env \<Rightarrow> nat \<Rightarrow> v2_dev \<Rightarrow> (unit result \<times> v2_dev) option" where
  "recover_mx_queue env fuel s =
     (case admin_queue s of
        None \<Rightarrow> Some (OK, s)
      | Some _ \<Rightarrow>
          (case drain_pending_admin env fuel s of
             None \<Rightarrow> None
           | Some (Inl e, s) \<Rightarrow> Some (Inl e, s)
           | Some (Inr _, s) \<Rightarrow>
               let s = s\<lparr>protocol_poisoned := False\<rparr> in
               (case io_queue s of
                  None \<Rightarrow> Some (OK, disable_admin_queue s)
                | Some _ \<Rightarrow>
                    (case delete_rings env s of
                       (False, s) \<Rightarrow> Some (Inl EIO, s\<lparr>protocol_poisoned := True\<rparr>)
                     | (True, s) \<Rightarrow> Some (OK, disable_admin_queue s)))))"

definition configure_admin_queue :: "v2_env \<Rightarrow> v2_dev \<Rightarrow> unit result \<times> v2_dev" where
  "configure_admin_queue env s =
     (if \<not> ra_queue (admin_alloc env) then (Inl ENOMEM, s)
      else case alloc_queue (admin_alloc env) (NVME_AQ_DEPTH env) of
             Inl e \<Rightarrow> (Inl e, s)
           | Inr (ring, sq_dma, cq_dma) \<Rightarrow>
               let aqa = q2_depth ring - 1; aqa = aqa OR push_bit 16 aqa in
               (OK, s\<lparr>admin_queue := Some \<lparr>aq_common = mx_queue_common_init (now_jiffies env), aq_ring = ring, aq_sq_dma = sq_dma,
                        aq_cq_dma = cq_dma, admin_next_cid = 0, admin_pending_cid = 0, admin_pending_opcode = 0,
                        admin_pending = False, admin_desynced = False\<rparr>,
                      queue_dma_programmed := True, reg_aqa := aqa, reg_asq := sq_dma, reg_acq := cq_dma\<rparr>))"

text \<open>\<open>out_delete\<close>: what was created is deleted again; the error of the caller is kept.\<close>

definition out_delete :: "v2_env \<Rightarrow> errno \<Rightarrow> v2_dev \<Rightarrow> unit result \<times> v2_dev" where
  "out_delete env e s =
     (case delete_rings env s of
        (False, s) \<Rightarrow> (Inl e, s\<lparr>protocol_poisoned := True\<rparr>)
      | (True, s) \<Rightarrow> (Inl e, s))"

text \<open>The part of \<open>configure_io_queue\<close> after both rings exist.\<close>

definition use_io_queue :: "v2_env \<Rightarrow> u16 \<Rightarrow> v2_dev \<Rightarrow> unit result \<times> v2_dev" where
  "use_io_queue env qid s =
     (case io_queue s of
        None \<Rightarrow> (OK, s)
      | Some io \<Rightarrow>
          let io = io\<lparr>iq_qid := qid, iq_ring := configure_queue (q2_depth (iq_ring io)),
                iq_common := (iq_common io)\<lparr>lv_health := MX_LIVENESS_ALIVE, lv_progress_jiffies := now_jiffies env\<rparr>\<rparr> in
          (case mx_start_io_queue env (s\<lparr>io_queue := Some io\<rparr>) of
             (Inl e, s) \<Rightarrow> out_delete env e s
           | (Inr _, s) \<Rightarrow> (OK, s)))"

definition configure_io_queue :: "v2_env \<Rightarrow> v2_dev \<Rightarrow> unit result \<times> v2_dev" where
  "configure_io_queue env s =
     (if \<not> ra_queue (io_alloc env) then (Inl ENOMEM, s)
      else case alloc_queue (io_alloc env) 256 of
             Inl e \<Rightarrow> (Inl e, s)
           | Inr (ring, sq_dma, cq_dma) \<Rightarrow>
               let common = (mx_queue_common_init 0)\<lparr>lv_health := MX_LIVENESS_UNKNOWN\<rparr>;
                   s = s\<lparr>io_queue := Some \<lparr>iq_common = common, iq_ring = ring, iq_qid = 0, iq_sq_dma = sq_dma, iq_cq_dma = cq_dma,
                         hw_cq_created = False, hw_sq_created = False, hw_cq_id = 0, hw_sq_id = 0\<rparr>\<rparr>;
                   comm = command_v2_zero\<lparr>c2_opcode := ADMIN_OPCODE_CREATE_IO_CQ, c2_prp_entry1 := unat cq_dma,
                         c2_device_addr := io_queue_info 256 0 0\<rparr> in
               (case submit_sync_command env comm s of
                  (None, s) \<Rightarrow> (Inl EIO, s)
                | (Some r1, s) \<Rightarrow>
                    let cqi = ucast r1 :: u16;
                        comm = comm\<lparr>c2_opcode := ADMIN_OPCODE_CREATE_IO_SQ, c2_prp_entry1 := unat sq_dma,
                          c2_device_addr := io_queue_info 256 cqi 0\<rparr> in
                    (case submit_sync_command env comm s of
                       (None, s) \<Rightarrow>
                         (if (case admin_queue s of None \<Rightarrow> False | Some q \<Rightarrow> admin_desynced q) then (Inl EIO, s)
                          else out_delete env EIO s)
                     | (Some r2, s) \<Rightarrow>
                         let sqi = ucast r2 :: u16 in
                         if cqi \<noteq> sqi then out_delete env EINVAL s
                         else if bar_mapped_size s < NVME_REG_DBS env + (unat cqi + 1) * 8 then out_delete env EIO s
                         else use_io_queue env cqi s)))"

definition init_mx_queue :: "v2_env \<Rightarrow> v2_dev \<Rightarrow> unit result \<times> v2_dev" where
  "init_mx_queue env s =
     (case configure_admin_queue env s of
        (Inl e, s) \<Rightarrow> (Inl e, s)
      | (Inr _, s) \<Rightarrow> configure_io_queue env s)"

definition release_io_queue :: "v2_env \<Rightarrow> v2_dev \<Rightarrow> unit result \<times> v2_dev" where
  "release_io_queue env s =
     (case (admin_queue s, io_queue s) of
        (Some _, Some _) \<Rightarrow>
          (case delete_rings env (mx_stop_queue_threads s) of
             (False, s) \<Rightarrow> (Inl EIO, s)
           | (True, s) \<Rightarrow> (OK, disable_admin_queue s))
      | _ \<Rightarrow> (OK, s))"

definition release_mx_queue :: "v2_env \<Rightarrow> v2_dev \<Rightarrow> unit result \<times> v2_dev" where
  "release_mx_queue = release_io_queue"

definition free_mx_queue :: "v2_dev \<Rightarrow> v2_dev" where
  "free_mx_queue s = s\<lparr>io_queue := None, admin_queue := None\<rparr>"

end
