(* ===== verification/Admin_Inv.thy ===== *)
theory Admin_Inv
  imports Admin_V2
begin

text \<open>
  What the device did, as a function of the conversation on the admin queue, and the relation between
  the driver's record and that.
\<close>

section \<open>The device\<close>

record admin_spec =
  pend :: "(u16 \<times> u8 \<times> nat) option"
  dev_cqid :: "u16 option"
  dev_sqid :: "u16 option"

definition spec_init :: admin_spec where "spec_init = \<lparr>pend = None, dev_cqid = None, dev_sqid = None\<rparr>"

definition info_cq :: "nat \<Rightarrow> u16" where "info_cq i = of_nat (i div 2 ^ 16)"
definition info_sq :: "nat \<Rightarrow> u16" where "info_sq i = of_nat (i div 2 ^ 32)"

text \<open>The device executed a command and answered with \<open>r\<close>; deleting works on the ring the command names.\<close>

definition dev_exec :: "u8 \<Rightarrow> nat \<Rightarrow> u64 \<Rightarrow> admin_spec \<Rightarrow> admin_spec" where
  "dev_exec op info r A =
     (if op = ADMIN_OPCODE_CREATE_IO_CQ then A\<lparr>dev_cqid := Some (ucast r)\<rparr>
      else if op = ADMIN_OPCODE_CREATE_IO_SQ then A\<lparr>dev_sqid := Some (ucast r)\<rparr>
      else if op = ADMIN_OPCODE_DELETE_IO_SQ \<and> dev_sqid A = Some (info_sq info) then A\<lparr>dev_sqid := None\<rparr>
      else if op = ADMIN_OPCODE_DELETE_IO_CQ \<and> dev_cqid A = Some (info_cq info) then A\<lparr>dev_cqid := None\<rparr>
      else A)"

text \<open>
  The device takes one command at a time: a push with one outstanding is no run.  A completion that
  carries the id of the outstanding command says that the device has executed it; one that carries any
  other id says nothing about it.
\<close>

fun spec_step :: "admin_spec option \<Rightarrow> admin_event \<Rightarrow> admin_spec option" where
  "spec_step None e = None"
| "spec_step (Some A) (Pushed c op info) = (if pend A = None then Some (A\<lparr>pend := Some (c, op, info)\<rparr>) else None)"
| "spec_step (Some A) (Popped c r) =
     Some (case pend A of
        Some (c', op, info) \<Rightarrow> if c = c' then dev_exec op info r (A\<lparr>pend := None\<rparr>) else A
      | None \<Rightarrow> A)"

definition run_log :: "admin_event list \<Rightarrow> admin_spec option" where
  "run_log = foldl spec_step (Some spec_init)"

lemma run_log_simps [simp]: "run_log [] = Some spec_init" "run_log (l @ [e]) = spec_step (run_log l) e"
  by (simp_all add: run_log_def)

lemma run_log_append: "run_log (l @ m) = foldl spec_step (run_log l) m"
  by (simp add: run_log_def)

text \<open>Completions with other ids leave the device where it was.\<close>

lemma stale_ignored:
  "\<lbrakk> pend A = Some (cid, op, info); \<forall>c \<in> set cs. cq_command_id c \<noteq> cid \<rbrakk> \<Longrightarrow>
     foldl spec_step (Some A) (map popped_event cs) = Some A"
  by (induction cs) (auto simp: popped_event_def)

text \<open>The commands the driver may send in a state of the device.\<close>

definition cmd_ok :: "admin_spec \<Rightarrow> u8 \<Rightarrow> nat \<Rightarrow> bool" where
  "cmd_ok A op info \<longleftrightarrow>
     (op = ADMIN_OPCODE_CREATE_IO_CQ \<and> dev_cqid A = None \<and> dev_sqid A = None) \<or>
     (op = ADMIN_OPCODE_CREATE_IO_SQ \<and> dev_cqid A = Some (info_cq info) \<and> dev_sqid A = None) \<or>
     (op = ADMIN_OPCODE_DELETE_IO_SQ \<and> dev_sqid A = Some (info_sq info)) \<or>
     (op = ADMIN_OPCODE_DELETE_IO_CQ \<and> dev_cqid A = Some (info_cq info) \<and> dev_sqid A = None)"

definition spec_ok :: "admin_spec \<Rightarrow> bool" where
  "spec_ok A \<longleftrightarrow> (dev_sqid A \<noteq> None \<longrightarrow> dev_cqid A \<noteq> None) \<and> (\<forall>c op info. pend A = Some (c, op, info) \<longrightarrow> cmd_ok A op info)"

lemma exec_ok: "\<lbrakk> dev_sqid A \<noteq> None \<longrightarrow> dev_cqid A \<noteq> None; cmd_ok A op info \<rbrakk> \<Longrightarrow> spec_ok (dev_exec op info r (A\<lparr>pend := None\<rparr>))"
  by (auto simp: spec_ok_def cmd_ok_def dev_exec_def)

section \<open>The driver's record\<close>

definition q_rel :: "admin_spec \<Rightarrow> admin_q \<Rightarrow> bool" where
  "q_rel A q \<longleftrightarrow> admin_desynced q = admin_pending q \<and> wait_count (aq_common q) = (if admin_pending q then 1 else 0) \<and>
     (case pend A of None \<Rightarrow> \<not> admin_pending q
      | Some (c, op, info) \<Rightarrow> admin_pending q \<and> admin_pending_cid q = c \<and> admin_pending_opcode q = op)"

definition io_rel :: "admin_spec \<Rightarrow> io_q option \<Rightarrow> bool" where
  "io_rel A io \<longleftrightarrow>
     (case io of None \<Rightarrow> A = spec_init
      | Some i \<Rightarrow> dev_cqid A = (if hw_cq_created i then Some (hw_cq_id i) else None) \<and>
                 dev_sqid A = (if hw_sq_created i then Some (hw_sq_id i) else None))"

definition adm_rel :: "admin_spec \<Rightarrow> v2_dev \<Rightarrow> bool" where
  "adm_rel A s \<longleftrightarrow>
     run_log (log s) = Some A \<and> spec_ok A \<and> io_rel A (io_queue s) \<and>
     (case admin_queue s of None \<Rightarrow> A = spec_init | Some q \<Rightarrow> q_rel A q) \<and>
     (pend A \<noteq> None \<longrightarrow> protocol_poisoned s) \<and>
     (A \<noteq> spec_init \<longrightarrow> queue_dma_programmed s)"

lemma wait_pushable_cases: "fst (wait_pushable n ring t) \<longleftrightarrow> 0 < n \<and> is_pushable_v2 ring"
  by (induction n arbitrary: t) auto

lemma ring_at_fields [simp]:
  "admin_pending (ring_at env t q) = admin_pending q" "admin_pending_cid (ring_at env t q) = admin_pending_cid q"
  "admin_pending_opcode (ring_at env t q) = admin_pending_opcode q" "admin_desynced (ring_at env t q) = admin_desynced q"
  "aq_common (ring_at env t q) = aq_common q"
  by (simp_all add: ring_at_def)

lemma admin_pop_fields:
  assumes "admin_pop q = (c, q')"
  shows "admin_pending q' = admin_pending q" "admin_pending_cid q' = admin_pending_cid q"
    "admin_pending_opcode q' = admin_pending_opcode q" "admin_desynced q' = admin_desynced q" "aq_common q' = aq_common q"
  using assms by (auto simp: admin_pop_def split: prod.split_asm)

lemma wait_terminal_fields:
  "wait_terminal env cid n t q = (r, cs, t', q') \<Longrightarrow>
     admin_pending q' = admin_pending q \<and> admin_pending_cid q' = admin_pending_cid q \<and>
     admin_pending_opcode q' = admin_pending_opcode q \<and> admin_desynced q' = admin_desynced q \<and> aq_common q' = aq_common q"
proof (induction n arbitrary: t q cs)
  case (Suc n)
  obtain c p where p: "admin_pop (ring_at env t q) = (c, p)" by (rule prod.exhaust)
  note f = admin_pop_fields [OF p]
  from Suc.prems p f Suc.IH [of "t + 1" p] Suc.IH [of "t + 1" "ring_at env t q"] show ?case
    by (auto simp: Let_def split: if_split_asm prod.split_asm)
qed simp

text \<open>Only the last completion it takes may carry the id of the command, and then it is the answer.\<close>

lemma wait_terminal_popped:
  "wait_terminal env cid n t q = (r, cs, t', q') \<Longrightarrow>
     (case r of None \<Rightarrow> \<forall>c \<in> set cs. cq_command_id c \<noteq> cid
      | Some res \<Rightarrow> \<exists>ds cm. cs = ds @ [cm] \<and> (\<forall>c \<in> set ds. cq_command_id c \<noteq> cid) \<and> popped_event cm = Popped cid res)"
proof (induction n arbitrary: t q cs)
  case (Suc n)
  obtain c p where p: "admin_pop (ring_at env t q) = (c, p)" by (rule prod.exhaust)
  consider (wait) "wait_terminal env cid n (t + 1) (ring_at env t q) = (r, cs, t', q')"
    | (stale) ds where "wait_terminal env cid n (t + 1) p = (r, ds, t', q')" "cs = c # ds" "cq_command_id c \<noteq> cid"
    | (answer) "r = Some (cq_result c)" "cs = [c]" "cq_command_id c = cid"
    using Suc.prems p by (auto simp: Let_def split: if_split_asm prod.split_asm)
  then show ?case
  proof cases
    case wait
    then show ?thesis by (rule Suc.IH)
  next
    case stale
    from Suc.IH [OF stale(1)] stale(2,3) show ?thesis
    proof (cases r)
      case (Some res)
      then obtain es cm where "ds = es @ [cm]" "\<forall>c \<in> set es. cq_command_id c \<noteq> cid" "popped_event cm = Popped cid res"
        using Suc.IH [OF stale(1)] by auto
      then show ?thesis using Some stale(2,3) by (auto intro!: exI [of _ "c # es"])
    qed simp
  next
    case answer
    then show ?thesis by (simp add: popped_event_def)
  qed
qed simp

lemma record_fields [simp]:
  "admin_queue (record_admin_terminal op r s) = admin_queue s" "log (record_admin_terminal op r s) = log s"
  "protocol_poisoned (record_admin_terminal op r s) = protocol_poisoned s"
  "queue_dma_programmed (record_admin_terminal op r s) = queue_dma_programmed s"
  "bar_mapped_size (record_admin_terminal op r s) = bar_mapped_size s"
  "reg_aqa (record_admin_terminal op r s) = reg_aqa s"
  "(io_queue (record_admin_terminal op r s) = None) = (io_queue s = None)"
  by (simp_all add: record_admin_terminal_def split: option.split)

text \<open>An accepted completion moves the driver's record the way the device moved.\<close>

lemma record_rel:
  assumes "io_rel A (Some i)" "cmd_ok A op info" "io_queue s = Some i"
  shows "io_rel (dev_exec op info r (A\<lparr>pend := None\<rparr>)) (io_queue (record_admin_terminal op r s))"
  using assms by (auto simp: io_rel_def cmd_ok_def dev_exec_def record_admin_terminal_def)

text \<open>The three ends of a synchronous command.\<close>

lemma submit_cases:
  assumes q: "admin_queue s = Some q" and r: "submit_sync_command env c s = (r, s')"
  obtains (refused) "r = None" "admin_desynced q" "s' = s"
  | (no_room) t where "r = None" "\<not> admin_desynced q"
      "s' = s\<lparr>clock := t, admin_queue := Some (q\<lparr>admin_next_cid := next_cid q\<rparr>)\<rparr>"
  | (timeout) cs t p where "r = None" "\<not> admin_desynced q"
      "admin_pending p" "admin_pending_cid p = next_cid q" "admin_pending_opcode p = c2_opcode c"
      "wait_count (aq_common p) = wait_count (aq_common q) + 1"
      "s' = s\<lparr>clock := t, admin_queue := Some (p\<lparr>admin_desynced := True\<rparr>), protocol_poisoned := True,
         log := log s @ Pushed (next_cid q) (c2_opcode c) (c2_device_addr c) # map popped_event cs\<rparr>"
      "\<forall>c \<in> set cs. cq_command_id c \<noteq> next_cid q"
  | (accepted) res cs t p where "r = Some res" "\<not> admin_desynced q" "\<not> admin_desynced p" "\<not> admin_pending p"
      "wait_count (aq_common p) = wait_count (aq_common q)"
      "s' = record_admin_terminal (c2_opcode c) res (s\<lparr>clock := t, admin_queue := Some p,
         log := log s @ Pushed (next_cid q) (c2_opcode c) (c2_device_addr c) # map popped_event cs @ [Popped (next_cid q) res]\<rparr>)"
      "\<forall>c \<in> set cs. cq_command_id c \<noteq> next_cid q"
proof (cases "admin_desynced q")
  case True
  then show thesis using refused r q by (simp add: submit_sync_command_def)
next
  case False
  let ?q = "q\<lparr>admin_next_cid := next_cid q\<rparr>"
  let ?c = "c\<lparr>c2_command_id := next_cid q\<rparr>"
  obtain b t where w: "wait_pushable 500 (aq_ring q) (clock s) = (b, t)" by (rule prod.exhaust)
  show thesis
  proof (cases b)
    case False
    then show thesis using no_room [of t] r q w \<open>\<not> admin_desynced q\<close> by (simp add: submit_sync_command_def Let_def)
  next
    case True
    obtain o1 cs t1 p where wt: "wait_terminal env (next_cid q) 500 t (admin_start ?c (next_cid q) ?q) = (o1, cs, t1, p)"
      by (rule prod_cases4)
    note f = wait_terminal_fields [OF wt] and po = wait_terminal_popped [OF wt]
    show thesis
    proof (cases o1)
      case None
      show thesis
        by (rule timeout [where p = p and t = t1 and cs = cs])
          (use f r q w wt True None False po in \<open>simp_all add: submit_sync_command_def Let_def admin_start_def\<close>)
    next
      case (Some res)
      obtain ds cm where ds: "cs = ds @ [cm]" "\<forall>c \<in> set ds. cq_command_id c \<noteq> next_cid q" "popped_event cm = Popped (next_cid q) res"
        using po Some by auto
      show thesis
        by (rule accepted [where res = res and p = "admin_finish p" and t = t1 and cs = ds])
          (use f r q w wt True Some False ds in \<open>simp_all add: submit_sync_command_def Let_def admin_start_def admin_finish_def\<close>)
    qed
  qed
qed

lemma submit_rel:
  assumes rel: "adm_rel A s" and q: "admin_queue s = Some q" and io: "io_queue s = Some io"
    and ok: "cmd_ok A (c2_opcode c) (c2_device_addr c)" and prog: "queue_dma_programmed s"
    and r: "submit_sync_command env c s = (r, s')"
  obtains A' q' io' where "adm_rel A' s'" "admin_queue s' = Some q'" "io_queue s' = Some io'" "queue_dma_programmed s'"
    "bar_mapped_size s' = bar_mapped_size s"
    "case r of Some res \<Rightarrow> pend A = None \<and> A' = dev_exec (c2_opcode c) (c2_device_addr c) res A \<and> protocol_poisoned s' = protocol_poisoned s
     | None \<Rightarrow> (A' = A \<and> protocol_poisoned s' = protocol_poisoned s \<and> admin_desynced q' = admin_desynced q) \<or> pend A' \<noteq> None"
proof -
  have l: "run_log (log s) = Some A" and so: "spec_ok A" and ir: "io_rel A (Some io)" and qr: "q_rel A q"
    using rel q io by (auto simp: adm_rel_def)
  have pn: "pend A = None" if "\<not> admin_desynced q" using qr that by (auto simp: q_rel_def split: option.split_asm)
  from q r show thesis
  proof (cases rule: submit_cases)
    case refused
    show thesis by (rule that [of A q io]) (use refused rel q io prog in simp_all)
  next
    case (no_room t)
    have "adm_rel A s'" using rel q qr unfolding no_room by (auto simp: adm_rel_def q_rel_def split: option.split)
    then show thesis by (rule that [of A "q\<lparr>admin_next_cid := next_cid q\<rparr>" io]) (use no_room io prog in simp_all)
  next
    case (timeout cs t p)
    let ?A = "A\<lparr>pend := Some (next_cid q, c2_opcode c, c2_device_addr c)\<rparr>"
    have lg: "run_log (log s') = Some ?A"
      using l pn [OF timeout(2)] stale_ignored [OF _ timeout(8), of ?A] unfolding timeout(7) by (simp add: run_log_append)
    have "wait_count (aq_common q) = 0" using qr pn [OF timeout(2)] by (simp add: q_rel_def split: if_split_asm)
    then have "adm_rel ?A s'" using lg so ir ok prog pn timeout io
      by (auto simp: adm_rel_def q_rel_def io_rel_def spec_ok_def cmd_ok_def)
    then show thesis by (rule that) (use timeout io prog in simp_all)
  next
    case (accepted res cs t p)
    let ?P = "A\<lparr>pend := Some (next_cid q, c2_opcode c, c2_device_addr c)\<rparr>"
    let ?A = "dev_exec (c2_opcode c) (c2_device_addr c) res A"
    have A: "A\<lparr>pend := None\<rparr> = A" using pn [OF accepted(2)] by simp
    have sp: "spec_ok ?A" using exec_ok [of A _ _ res] so ok A by (simp add: spec_ok_def)
    have "pend ?A = None" using pn [OF accepted(2)] by (simp add: dev_exec_def)
    moreover have "io_rel ?A (io_queue s')"
      using record_rel [OF ir ok, of _ res] io A unfolding accepted(6) by simp
    moreover have "run_log (log s') = Some ?A"
      using l pn [OF accepted(2)] stale_ignored [OF _ accepted(7), of ?P] unfolding accepted(6) by (simp add: run_log_append A)
    ultimately have "adm_rel ?A s'" using sp prog accepted qr
      by (auto simp: adm_rel_def q_rel_def split: if_split_asm)
    moreover obtain io' where "io_queue s' = Some io'" using io unfolding accepted(6)
      by (cases "io_queue (record_admin_terminal (c2_opcode c) res (s\<lparr>clock := t, admin_queue := Some p,
         log := log s @ Pushed (next_cid q) (c2_opcode c) (c2_device_addr c) # map popped_event cs @ [Popped (next_cid q) res]\<rparr>))") auto
    ultimately show thesis by (intro that [of ?A p io']) (use accepted prog pn in simp_all)
  qed
qed

text \<open>A device with both queues of the driver in place and its addresses programmed.\<close>

definition queues_up :: "v2_dev \<Rightarrow> bool" where
  "queues_up s \<longleftrightarrow> admin_queue s \<noteq> None \<and> io_queue s \<noteq> None \<and> queue_dma_programmed s"

lemma info_fields [simp]: "info_sq (io_queue_info 0 0 qid) = qid" "info_cq (io_queue_info 0 qid 0) = qid"
  "info_cq (io_queue_info 256 qid 0) = qid"
  by (simp_all add: info_sq_def info_cq_def io_queue_info_def div_add1_eq)

lemma submit_up:
  assumes rel: "adm_rel A s" and up: "queues_up s" and ok: "cmd_ok A (c2_opcode c) (c2_device_addr c)"
    and r: "submit_sync_command env c s = (r, s')"
  obtains A' where "adm_rel A' s'" "queues_up s'" "bar_mapped_size s' = bar_mapped_size s"
    "case r of Some res \<Rightarrow> pend A = None \<and> A' = dev_exec (c2_opcode c) (c2_device_addr c) res A \<and> protocol_poisoned s' = protocol_poisoned s
     | None \<Rightarrow> (A' = A \<and> protocol_poisoned s' = protocol_poisoned s) \<or> pend A' \<noteq> None"
proof -
  obtain q io where "admin_queue s = Some q" "io_queue s = Some io" using up by (auto simp: queues_up_def)
  from submit_rel [OF rel this ok _ r] up obtain A' q' io' where "adm_rel A' s'" "admin_queue s' = Some q'" "io_queue s' = Some io'"
    "queue_dma_programmed s'" "bar_mapped_size s' = bar_mapped_size s"
    "case r of Some res \<Rightarrow> pend A = None \<and> A' = dev_exec (c2_opcode c) (c2_device_addr c) res A \<and> protocol_poisoned s' = protocol_poisoned s
     | None \<Rightarrow> (A' = A \<and> protocol_poisoned s' = protocol_poisoned s \<and> admin_desynced q' = admin_desynced q) \<or> pend A' \<noteq> None"
    unfolding queues_up_def by metis
  then show thesis by (intro that [of A']) (auto simp: queues_up_def split: option.split)
qed

text \<open>A command whose effect on the device does not depend on the answer.\<close>

lemma submit_up_exec:
  assumes rel: "adm_rel A s" and up: "queues_up s" and ok: "cmd_ok A (c2_opcode c) (c2_device_addr c)"
    and r: "submit_sync_command env c s = (r, s')" and ex: "\<And>res. dev_exec (c2_opcode c) (c2_device_addr c) res A = A2"
  obtains A' where "adm_rel A' s'" "queues_up s'" "bar_mapped_size s' = bar_mapped_size s"
    "r \<noteq> None \<longrightarrow> A' = A2 \<and> protocol_poisoned s' = protocol_poisoned s"
  by (rule submit_up [OF rel up ok r]) (use ex in \<open>auto intro: that split: option.split_asm\<close>)

lemma delete_sq_rel:
  assumes rel: "adm_rel A s" and up: "queues_up s" and r: "delete_sq_if_created env s = (b, s')"
  obtains A' where "adm_rel A' s'" "queues_up s'" "bar_mapped_size s' = bar_mapped_size s"
    "b \<longrightarrow> A' = A\<lparr>dev_sqid := None\<rparr> \<and> protocol_poisoned s' = protocol_poisoned s"
proof -
  obtain io where io: "io_queue s = Some io" using up by (auto simp: queues_up_def)
  have ir: "io_rel A (Some io)" using rel io by (simp add: adm_rel_def)
  show thesis
  proof (cases "hw_sq_created io")
    case False
    then have "A\<lparr>dev_sqid := None\<rparr> = A" using ir by (simp add: io_rel_def)
    then show thesis using that [of A] rel up r False io by (simp add: delete_sq_if_created_def)
  next
    case True
    then obtain o1 where o1: "submit_sync_command env (command_v2_zero\<lparr>c2_opcode := ADMIN_OPCODE_DELETE_IO_SQ,
        c2_device_addr := io_queue_info 0 0 (hw_sq_id io)\<rparr>) s = (o1, s')" "b = (o1 \<noteq> None)"
      using r io by (auto simp: delete_sq_if_created_def delete_io_sq_def split: prod.split_asm)
    show thesis
      by (rule submit_up_exec [OF rel up _ o1(1), of "A\<lparr>dev_sqid := None\<rparr>"])
        (use ir True o1(2) that in \<open>auto simp: cmd_ok_def io_rel_def dev_exec_def\<close>)
  qed
qed

lemma delete_cq_rel:
  assumes rel: "adm_rel A s" and up: "queues_up s" and sq: "dev_sqid A = None" and r: "delete_cq_if_created env s = (b, s')"
  obtains A' where "adm_rel A' s'" "queues_up s'" "bar_mapped_size s' = bar_mapped_size s"
    "b \<longrightarrow> A' = A\<lparr>dev_cqid := None\<rparr> \<and> protocol_poisoned s' = protocol_poisoned s"
proof -
  obtain io where io: "io_queue s = Some io" using up by (auto simp: queues_up_def)
  have ir: "io_rel A (Some io)" using rel io by (simp add: adm_rel_def)
  show thesis
  proof (cases "hw_cq_created io")
    case False
    then have "A\<lparr>dev_cqid := None\<rparr> = A" using ir by (simp add: io_rel_def)
    then show thesis using that [of A] rel up r False io by (simp add: delete_cq_if_created_def)
  next
    case True
    then obtain o1 where o1: "submit_sync_command env (command_v2_zero\<lparr>c2_opcode := ADMIN_OPCODE_DELETE_IO_CQ,
        c2_device_addr := io_queue_info 0 (hw_cq_id io) 0\<rparr>) s = (o1, s')" "b = (o1 \<noteq> None)"
      using r io by (auto simp: delete_cq_if_created_def delete_io_cq_def split: prod.split_asm)
    show thesis
      by (rule submit_up_exec [OF rel up _ o1(1), of "A\<lparr>dev_cqid := None\<rparr>"])
        (use ir True sq o1(2) that in \<open>auto simp: cmd_ok_def io_rel_def dev_exec_def\<close>)
  qed
qed

lemma delete_rings_rel:
  assumes rel: "adm_rel A s" and up: "queues_up s" and r: "delete_rings env s = (b, s')"
  obtains A' where "adm_rel A' s'" "queues_up s'" "bar_mapped_size s' = bar_mapped_size s"
    "b \<longrightarrow> A' = spec_init\<lparr>pend := pend A\<rparr> \<and> protocol_poisoned s' = protocol_poisoned s"
proof -
  obtain b1 s1 where d: "delete_sq_if_created env s = (b1, s1)" by (rule prod.exhaust)
  from rel up d obtain A1 where A1: "adm_rel A1 s1" "queues_up s1" "bar_mapped_size s1 = bar_mapped_size s"
    "b1 \<longrightarrow> A1 = A\<lparr>dev_sqid := None\<rparr> \<and> protocol_poisoned s1 = protocol_poisoned s" by (rule delete_sq_rel)
  show thesis
  proof (cases b1)
    case False
    then have "s' = s1" "\<not> b" using r d by (simp_all add: delete_rings_def)
    then show thesis using that A1(1-3) by simp
  next
    case True
    have "delete_cq_if_created env s1 = (b, s')" using r d True by (simp add: delete_rings_def)
    with A1(1,2) _ obtain A2 where A2: "adm_rel A2 s'" "queues_up s'" "bar_mapped_size s' = bar_mapped_size s1"
      "b \<longrightarrow> A2 = A1\<lparr>dev_cqid := None\<rparr> \<and> protocol_poisoned s' = protocol_poisoned s1"
      by (rule delete_cq_rel) (use A1(4) True in simp)
    show thesis by (rule that [OF A2(1,2)]) (use A1(3,4) A2(3,4) True in \<open>simp_all add: spec_init_def\<close>)
  qed
qed

section \<open>Draining, recovery and release\<close>

lemma record_admin_queue: "(record_admin_terminal op r s)\<lparr>admin_queue := x\<rparr> = record_admin_terminal op r (s\<lparr>admin_queue := x\<rparr>)"
  by (simp add: record_admin_terminal_def split: option.split)

lemma adm_rel_same_queue:
  assumes "adm_rel A (s\<lparr>admin_queue := Some q\<rparr>)" "admin_pending q' = admin_pending q" "admin_pending_cid q' = admin_pending_cid q"
    "admin_pending_opcode q' = admin_pending_opcode q" "admin_desynced q' = admin_desynced q" "aq_common q' = aq_common q"
  shows "adm_rel A (s\<lparr>clock := t, admin_queue := Some q'\<rparr>)"
  using assms by (auto simp: adm_rel_def q_rel_def split: option.split)

lemma adm_rel_stale:
  assumes "adm_rel A (s\<lparr>admin_queue := Some q\<rparr>)" "admin_pending q" "cq_command_id c \<noteq> admin_pending_cid q"
  shows "adm_rel A (s\<lparr>log := log s @ [popped_event c], admin_queue := Some q\<rparr>)"
proof -
  obtain op info where "pend A = Some (admin_pending_cid q, op, info)"
    using assms(1,2) by (auto simp: adm_rel_def q_rel_def split: option.split_asm)
  from stale_ignored [OF this, of "[c]"] assms show ?thesis by (simp add: adm_rel_def)
qed

lemma accept_rel:
  assumes rel: "adm_rel A (s\<lparr>admin_queue := Some q\<rparr>)" and p: "admin_pending q"
  shows "\<exists>A'. adm_rel A' ((record_admin_terminal (admin_pending_opcode q) r (s\<lparr>log := log s @ [Popped (admin_pending_cid q) r]\<rparr>))
            \<lparr>admin_queue := Some ((admin_finish q)\<lparr>admin_desynced := False\<rparr>)\<rparr>) \<and> pend A' = None"
proof -
  obtain info where pd: "pend A = Some (admin_pending_cid q, admin_pending_opcode q, info)"
    using rel p by (auto simp: adm_rel_def q_rel_def split: option.split_asm)
  obtain io where io: "io_queue s = Some io"
    using rel pd by (cases "io_queue s") (auto simp: adm_rel_def io_rel_def spec_init_def)
  let ?op = "admin_pending_opcode q"
  let ?A = "dev_exec ?op info r (A\<lparr>pend := None\<rparr>)"
  have ok: "cmd_ok A ?op info" and so: "dev_sqid A \<noteq> None \<longrightarrow> dev_cqid A \<noteq> None"
    using rel pd by (auto simp: adm_rel_def spec_ok_def)
  have ir: "io_rel A (Some io)" using rel io by (simp add: adm_rel_def)
  have pn: "pend ?A = None" by (simp add: dev_exec_def)
  have l: "run_log (log s) = Some A" and pr: "queue_dma_programmed s"
    using rel pd by (auto simp: adm_rel_def spec_init_def)
  have q1: "wait_count (aq_common q) = 1" using rel p by (simp add: adm_rel_def q_rel_def)
  let ?s = "s\<lparr>log := log s @ [Popped (admin_pending_cid q) r], admin_queue := Some ((admin_finish q)\<lparr>admin_desynced := False\<rparr>)\<rparr>"
  have "io_rel ?A (io_queue (record_admin_terminal ?op r ?s))"
    by (rule record_rel [OF ir ok]) (simp add: io)
  then have "adm_rel ?A (record_admin_terminal ?op r ?s)"
    using l pd pn pr q1 exec_ok [OF so ok, of r] by (simp add: adm_rel_def q_rel_def admin_finish_def)
  then show ?thesis using pn by (auto simp: record_admin_queue)
qed

lemma drain_loop_rel:
  "\<lbrakk> drain_loop env fuel q s = Some (r, s'); adm_rel A (s\<lparr>admin_queue := Some q\<rparr>) \<rbrakk> \<Longrightarrow>
     \<exists>A'. adm_rel A' s' \<and> admin_queue s' \<noteq> None \<and> (io_queue s' = None) = (io_queue s = None) \<and>
       queue_dma_programmed s' = queue_dma_programmed s \<and> protocol_poisoned s' = protocol_poisoned s \<and>
       bar_mapped_size s' = bar_mapped_size s \<and> (r = OK \<longleftrightarrow> pend A' = None)"
proof (induction fuel arbitrary: q s A)
  case (Suc fuel)
  note rel = Suc.prems(2)
  let ?q = "ring_at env (clock s) q" and ?s = "s\<lparr>clock := clock s + 1\<rparr>"
  have qr: "q_rel A q" using rel by (simp add: adm_rel_def)
  consider (idle) "\<not> admin_pending q" | (gone) "admin_pending q" "disconnected env (clock s)"
    | (run) "admin_pending q" "\<not> disconnected env (clock s)" by blast
  then show ?case
  proof cases
    case idle
    then have "q\<lparr>admin_desynced := False\<rparr> = q" "pend A = None" using qr by (auto simp: q_rel_def split: option.split_asm)
    then show ?thesis using Suc.prems idle by (intro exI [of _ A]) auto
  next
    case gone
    then have "pend A \<noteq> None" using qr by (auto simp: q_rel_def split: option.split_asm)
    then show ?thesis using Suc.prems gone by (intro exI [of _ A]) auto
  next
    case run
    obtain cm p where p: "admin_pop ?q = (cm, p)" by (rule prod.exhaust)
    note f = admin_pop_fields [OF p]
    have relp: "adm_rel A (?s\<lparr>admin_queue := Some p\<rparr>)" using adm_rel_same_queue [OF rel, of p] f by simp
    consider (wait) "drain_loop env fuel ?q ?s = Some (r, s')"
      | (stale) "cq_command_id cm \<noteq> admin_pending_cid p" "drain_loop env fuel p (?s\<lparr>log := log s @ [popped_event cm]\<rparr>) = Some (r, s')"
      | (answer) "cq_command_id cm = admin_pending_cid p"
          "drain_loop env fuel (admin_finish p) (record_admin_terminal (admin_pending_opcode p) (cq_result cm)
             (?s\<lparr>log := log s @ [popped_event cm]\<rparr>)) = Some (r, s')"
      using Suc.prems(1) run p by (auto simp: Let_def split: if_split_asm)
    then show ?thesis
    proof cases
      case wait
      have "adm_rel A (?s\<lparr>admin_queue := Some ?q\<rparr>)" using adm_rel_same_queue [OF rel, of ?q] by auto
      from Suc.IH [OF wait this] show ?thesis by simp
    next
      case stale
      have "adm_rel A (?s\<lparr>log := log s @ [popped_event cm], admin_queue := Some p\<rparr>)"
        using adm_rel_stale [OF relp _ stale(1)] f run by simp
      from Suc.IH [OF stale(2) this] show ?thesis by simp
    next
      case answer
      let ?t = "record_admin_terminal (admin_pending_opcode p) (cq_result cm) (?s\<lparr>log := log s @ [popped_event cm]\<rparr>)"
      have e: "popped_event cm = Popped (admin_pending_cid p) (cq_result cm)" using answer(1) by (simp add: popped_event_def)
      from accept_rel [OF relp, of "cq_result cm"] f run e obtain A' where
        A': "adm_rel A' (?t\<lparr>admin_queue := Some ((admin_finish p)\<lparr>admin_desynced := False\<rparr>)\<rparr>)" "pend A' = None" by auto
      have s': "r = OK" "s' = ?t\<lparr>admin_queue := Some ((admin_finish p)\<lparr>admin_desynced := False\<rparr>)\<rparr>"
        using answer(2) by (cases fuel; auto simp: admin_finish_def)+
      show ?thesis using A' s' by (intro exI [of _ A']) simp
    qed
  qed
qed simp

lemma drain_rel:
  assumes "adm_rel A s" "admin_queue s = Some q" "drain_pending_admin env fuel s = Some (r, s')"
  obtains A' where "adm_rel A' s'" "admin_queue s' \<noteq> None" "(io_queue s' = None) = (io_queue s = None)"
    "queue_dma_programmed s' = queue_dma_programmed s" "protocol_poisoned s' = protocol_poisoned s"
    "bar_mapped_size s' = bar_mapped_size s" "r = OK \<longleftrightarrow> pend A' = None"
proof -
  have e: "s\<lparr>admin_queue := Some q\<rparr> = s" using assms(2) by (cases s) simp
  have n: "admin_desynced q = admin_pending q" using assms(1,2) by (simp add: adm_rel_def q_rel_def)
  have "drain_loop env fuel q s = Some (r, s')" using assms(2,3) n by (simp add: drain_pending_admin_def)
  moreover have "adm_rel A (s\<lparr>admin_queue := Some q\<rparr>)" using assms(1) unfolding e .
  ultimately have "\<exists>A'. adm_rel A' s' \<and> admin_queue s' \<noteq> None \<and> (io_queue s' = None) = (io_queue s = None) \<and>
       queue_dma_programmed s' = queue_dma_programmed s \<and> protocol_poisoned s' = protocol_poisoned s \<and>
       bar_mapped_size s' = bar_mapped_size s \<and> (r = OK \<longleftrightarrow> pend A' = None)"
    by (rule drain_loop_rel)
  then show thesis by (elim exE conjE) (rule that, assumption+)
qed

text \<open>The device has been told everything is over: nothing outstanding, no rings, no addresses.\<close>

definition quiet :: "v2_dev \<Rightarrow> bool" where
  "quiet s \<longleftrightarrow> run_log (log s) = Some spec_init \<and> \<not> queue_dma_programmed s \<and> reg_aqa s = 0 \<and> reg_asq s = 0 \<and> reg_acq s = 0"

lemma disable_quiet: "adm_rel spec_init s \<Longrightarrow> adm_rel spec_init (disable_admin_queue s) \<and> quiet (disable_admin_queue s)"
  by (simp add: adm_rel_def quiet_def disable_admin_queue_def)

end
