(* ===== verification/Admin_Correct.thy ===== *)
theory Admin_Correct
  imports Admin_Inv
begin

text \<open>Creating, recovering and releasing the rings keep the driver's record equal to the device's state.\<close>

section \<open>Deleting, recovering, releasing\<close>

lemma delete_rings_none:
  assumes "adm_rel A s" "dev_cqid A = None" "dev_sqid A = None"
  shows "delete_rings env s = (True, s)"
  using assms by (cases "io_queue s")
    (auto simp: delete_rings_def delete_sq_if_created_def delete_cq_if_created_def adm_rel_def io_rel_def split: if_split_asm)

lemma delete_rings_ok:
  assumes rel: "adm_rel A s" and q: "admin_queue s \<noteq> None" "io_queue s \<noteq> None" and r: "delete_rings env s = (b, s')"
  obtains A' where "adm_rel A' s'" "admin_queue s' \<noteq> None" "io_queue s' \<noteq> None" "bar_mapped_size s' = bar_mapped_size s"
    "b \<longrightarrow> A' = spec_init\<lparr>pend := pend A\<rparr> \<and> protocol_poisoned s' = protocol_poisoned s"
proof (cases "dev_cqid A = None \<and> dev_sqid A = None")
  case True
  then have "b" "s' = s" using delete_rings_none [OF rel] r by simp_all
  then show thesis using that [of A] rel q True by (simp add: spec_init_def)
next
  case False
  then have "queues_up s" using rel q by (auto simp: queues_up_def adm_rel_def spec_init_def)
  from delete_rings_rel [OF rel this r] obtain A' where "adm_rel A' s'" "queues_up s'" "bar_mapped_size s' = bar_mapped_size s"
    "b \<longrightarrow> A' = spec_init\<lparr>pend := pend A\<rparr> \<and> protocol_poisoned s' = protocol_poisoned s" by metis
  then show thesis using that [of A'] by (simp add: queues_up_def)
qed

lemma spec_init_pend [simp]: "pend spec_init = None" "spec_init\<lparr>pend := None\<rparr> = spec_init"
  by (simp_all add: spec_init_def)

lemma poison_rel: "adm_rel A s \<Longrightarrow> adm_rel A (s\<lparr>protocol_poisoned := True\<rparr>)"
  by (simp add: adm_rel_def)

lemma recover_rel:
  assumes rel: "adm_rel A s" and r: "recover_mx_queue env fuel s = Some (r, s')" and q: "admin_queue s = Some q"
  obtains A' where "adm_rel A' s'" "r = OK \<longrightarrow> A' = spec_init \<and> quiet s' \<and> \<not> protocol_poisoned s'"
    "r \<noteq> OK \<longrightarrow> protocol_poisoned s'" "admin_queue s' \<noteq> None" "(io_queue s' = None) = (io_queue s = None)"
proof -
  obtain r1 s1 where d: "drain_pending_admin env fuel s = Some (r1, s1)"
    using r q by (auto simp: recover_mx_queue_def split: option.split_asm)
  from rel q d obtain A1 where A1: "adm_rel A1 s1" "admin_queue s1 \<noteq> None" "(io_queue s1 = None) = (io_queue s = None)"
    "queue_dma_programmed s1 = queue_dma_programmed s" "protocol_poisoned s1 = protocol_poisoned s"
    "bar_mapped_size s1 = bar_mapped_size s" "r1 = OK \<longleftrightarrow> pend A1 = None" by (rule drain_rel)
  show thesis
  proof (cases r1)
    case (Inl e)
    then have "r = Inl e" "s' = s1" using r q d by (simp_all add: recover_mx_queue_def)
    moreover have "protocol_poisoned s1" using A1(1,7) Inl by (simp add: adm_rel_def)
    ultimately show thesis using that [of A1] A1 by simp
  next
    case (Inr u)
    let ?s = "s1\<lparr>protocol_poisoned := False\<rparr>"
    have p: "pend A1 = None" using A1(7) Inr by simp
    have rel1: "adm_rel A1 ?s" using A1(1) p by (simp add: adm_rel_def)
    show thesis
    proof (cases "io_queue s1")
      case None
      then have "A1 = spec_init" using A1(1) by (simp add: adm_rel_def io_rel_def)
      then have dq: "adm_rel spec_init (disable_admin_queue ?s)" "quiet (disable_admin_queue ?s)"
        using disable_quiet rel1 by auto
      have "r = OK" "s' = disable_admin_queue ?s" using r q d Inr None by (simp_all add: recover_mx_queue_def Let_def)
      then show thesis using that [of spec_init] dq A1(2,3) None by (simp add: disable_admin_queue_def)
    next
      case (Some io)
      obtain b s2 where dr: "delete_rings env ?s = (b, s2)" by (rule prod.exhaust)
      have "admin_queue ?s \<noteq> None" "io_queue ?s \<noteq> None" using A1(2) Some by simp_all
      with rel1 obtain A2 where A2: "adm_rel A2 s2" "admin_queue s2 \<noteq> None" "io_queue s2 \<noteq> None" "bar_mapped_size s2 = bar_mapped_size ?s"
        "b \<longrightarrow> A2 = spec_init\<lparr>pend := pend A1\<rparr> \<and> protocol_poisoned s2 = protocol_poisoned ?s"
        using dr by (rule delete_rings_ok)
      have res: "(r, s') = (if b then (OK, disable_admin_queue s2) else (Inl EIO, s2\<lparr>protocol_poisoned := True\<rparr>))"
        using r q d Inr Some dr by (cases b) (simp_all add: recover_mx_queue_def Let_def)
      show thesis
      proof (cases b)
        case True
        then have "A2 = spec_init" "\<not> protocol_poisoned s2" using A2(5) p by simp_all
        then show thesis using that [of spec_init] res True A2(1-3) A1(3) Some disable_quiet [of s2]
          by (auto simp: disable_admin_queue_def)
      next
        case False
        then show thesis using that [of A2] res A2(1-3) A1(3) Some by (auto simp: poison_rel)
      qed
    qed
  qed
qed

lemma release_rel:
  assumes rel: "adm_rel A s" and p: "pend A = None" and r: "release_mx_queue env s = (r, s')"
    and q: "admin_queue s \<noteq> None" "io_queue s \<noteq> None"
  obtains A' where "adm_rel A' s'" "r = OK \<longrightarrow> A' = spec_init \<and> quiet s' \<and> protocol_poisoned s' = protocol_poisoned s"
    "admin_queue s' \<noteq> None" "io_queue s' \<noteq> None"
proof -
  let ?s = "mx_stop_queue_threads s"
  have rel1: "adm_rel A ?s" using rel by (simp add: adm_rel_def mx_stop_queue_threads_def)
  obtain b s2 where dr: "delete_rings env ?s = (b, s2)" by (rule prod.exhaust)
  have "admin_queue ?s \<noteq> None" "io_queue ?s \<noteq> None" using q by (simp_all add: mx_stop_queue_threads_def)
  with rel1 obtain A2 where A2: "adm_rel A2 s2" "admin_queue s2 \<noteq> None" "io_queue s2 \<noteq> None" "bar_mapped_size s2 = bar_mapped_size ?s"
    "b \<longrightarrow> A2 = spec_init\<lparr>pend := pend A\<rparr> \<and> protocol_poisoned s2 = protocol_poisoned ?s"
    using dr by (rule delete_rings_ok)
  have res: "(r, s') = (if b then (OK, disable_admin_queue s2) else (Inl EIO, s2))"
    using r q dr by (cases b) (auto simp: release_mx_queue_def release_io_queue_def)
  show thesis
  proof (cases b)
    case True
    then have "A2 = spec_init" "protocol_poisoned s2 = protocol_poisoned s" using A2(5) p by (simp_all add: mx_stop_queue_threads_def)
    then show thesis using that [of spec_init] res True A2(1-3) disable_quiet [of s2] by (simp add: disable_admin_queue_def)
  next
    case False
    then show thesis using that [of A2] res A2(1-3) by simp
  qed
qed

section \<open>Creating\<close>

text \<open>A device right after \<open>kzalloc\<close> and \<open>dev_map\<close>.\<close>

definition fresh :: "v2_dev \<Rightarrow> bool" where
  "fresh s \<longleftrightarrow> admin_queue s = None \<and> io_queue s = None \<and> log s = [] \<and> \<not> protocol_poisoned s \<and> \<not> queue_dma_programmed s \<and>
     \<not> submit_thread s \<and> \<not> complete_thread s"

lemma fresh_rel: "fresh s \<Longrightarrow> adm_rel spec_init s"
  by (simp add: fresh_def adm_rel_def io_rel_def spec_ok_def spec_init_def)

text \<open>What is left behind by a failed \<open>configure_io_queue\<close>: no rings, or a record of what is unclear.\<close>

definition settled :: "admin_spec \<Rightarrow> v2_dev \<Rightarrow> bool" where
  "settled A s \<longleftrightarrow> adm_rel A s \<and> (\<not> protocol_poisoned s \<longrightarrow> A = spec_init)"

lemma out_delete_rel:
  assumes rel: "adm_rel A s" and p: "pend A = None" and q: "admin_queue s \<noteq> None" "io_queue s \<noteq> None" and r: "out_delete env e s = (r, s')"
  shows "r = Inl e \<and> (\<exists>A'. settled A' s') \<and> admin_queue s' \<noteq> None"
proof -
  obtain b s2 where dr: "delete_rings env s = (b, s2)" by (rule prod.exhaust)
  from rel q dr obtain A2 where A2: "adm_rel A2 s2" "admin_queue s2 \<noteq> None" "io_queue s2 \<noteq> None" "bar_mapped_size s2 = bar_mapped_size s"
    "b \<longrightarrow> A2 = spec_init\<lparr>pend := pend A\<rparr> \<and> protocol_poisoned s2 = protocol_poisoned s" by (rule delete_rings_ok)
  show ?thesis
  proof (cases b)
    case True
    then show ?thesis using r dr A2 p by (auto simp: out_delete_def settled_def)
  next
    case False
    then show ?thesis using r dr A2 by (auto simp: out_delete_def settled_def dest: poison_rel)
  qed
qed

text \<open>The rings are in use: both exist under the same id, its doorbell is inside the mapped BAR, the handlers run.\<close>

definition in_use :: "v2_env \<Rightarrow> v2_dev \<Rightarrow> bool" where
  "in_use env s \<longleftrightarrow> (\<exists>io. io_queue s = Some io \<and>
     run_log (log s) = Some (spec_init\<lparr>dev_cqid := Some (iq_qid io), dev_sqid := Some (iq_qid io)\<rparr>) \<and>
     NVME_REG_DBS env + (unat (iq_qid io) + 1) * 8 \<le> bar_mapped_size s) \<and> submit_thread s \<and> complete_thread s"

lemma use_io_queue_rel:
  assumes rel: "adm_rel A s" and A: "A = spec_init\<lparr>dev_cqid := Some qid, dev_sqid := Some qid\<rparr>"
    and q: "admin_queue s \<noteq> None" "io_queue s \<noteq> None" and b: "NVME_REG_DBS env + (unat qid + 1) * 8 \<le> bar_mapped_size s"
    and r: "use_io_queue env qid s = (r, s')"
  shows "(\<exists>A'. adm_rel A' s' \<and> (r = OK \<longrightarrow> in_use env s' \<and> pend A' = None \<and> protocol_poisoned s' = protocol_poisoned s) \<and>
     (r \<noteq> OK \<longrightarrow> settled A' s')) \<and> admin_queue s' \<noteq> None"
proof -
  obtain io where io: "io_queue s = Some io" using q by auto
  define io1 where "io1 = io\<lparr>iq_qid := qid, iq_ring := configure_queue (q2_depth (iq_ring io)),
                iq_common := (iq_common io)\<lparr>lv_health := MX_LIVENESS_ALIVE, lv_progress_jiffies := now_jiffies env\<rparr>\<rparr>"
  obtain r1 s1 where st: "mx_start_io_queue env (s\<lparr>io_queue := Some io1\<rparr>) = (r1, s1)" by (rule prod.exhaust)
  have res: "(r, s') = (case r1 of Inl e \<Rightarrow> out_delete env e s1 | Inr _ \<Rightarrow> (OK, s1))"
    using r io st by (cases r1) (auto simp: use_io_queue_def Let_def io1_def [symmetric])
  have rel1: "adm_rel A s1" "admin_queue s1 \<noteq> None" "io_queue s1 = Some io1" "log s1 = log s" "bar_mapped_size s1 = bar_mapped_size s"
      "protocol_poisoned s1 = protocol_poisoned s"
    using st rel q io by (auto simp: mx_start_io_queue_def adm_rel_def io_rel_def io1_def split: sum.split_asm)
  show ?thesis
  proof (cases r1)
    case (Inl e)
    then show ?thesis using out_delete_rel [OF rel1(1) _ rel1(2), of env e r s'] rel1(3) A res by (auto simp: settled_def)
  next
    case (Inr u)
    have "submit_thread s1" "complete_thread s1"
      using st Inr by (auto simp: mx_start_io_queue_def split: sum.split_asm)
    moreover have "run_log (log s) = Some A" using rel by (simp add: adm_rel_def)
    ultimately show ?thesis using res Inr rel1 b A by (auto simp: in_use_def io1_def)
  qed
qed

lemma configure_io_rel:
  assumes rel: "adm_rel spec_init s" and q: "admin_queue s \<noteq> None" "io_queue s = None" "queue_dma_programmed s"
    and r: "configure_io_queue env s = (r, s')"
  shows "(\<exists>A'. adm_rel A' s' \<and> (r = OK \<longrightarrow> in_use env s' \<and> pend A' = None \<and> protocol_poisoned s' = protocol_poisoned s) \<and>
     (r \<noteq> OK \<longrightarrow> settled A' s')) \<and> admin_queue s' \<noteq> None"
proof (cases "ra_queue (io_alloc env) \<and> ra_cq (io_alloc env) \<and> ra_sq (io_alloc env)")
  case False
  then have "s' = s" "r \<noteq> OK" using r by (auto simp: configure_io_queue_def alloc_queue_def split: if_split_asm)
  then show ?thesis using rel q by (auto simp: settled_def)
next
  case True
  define io0 where "io0 = \<lparr>iq_common = (mx_queue_common_init 0)\<lparr>lv_health := MX_LIVENESS_UNKNOWN\<rparr>, iq_ring = configure_queue 256, iq_qid = 0,
      iq_sq_dma = ra_sq_dma (io_alloc env), iq_cq_dma = ra_cq_dma (io_alloc env),
      hw_cq_created = False, hw_sq_created = False, hw_cq_id = 0, hw_sq_id = 0\<rparr>"
  let ?s0 = "s\<lparr>io_queue := Some io0\<rparr>"
  define c1 where "c1 = command_v2_zero\<lparr>c2_opcode := ADMIN_OPCODE_CREATE_IO_CQ, c2_prp_entry1 := unat (ra_cq_dma (io_alloc env)),
      c2_device_addr := io_queue_info 256 0 0\<rparr>"
  define c2 where "c2 cqi = c1\<lparr>c2_opcode := ADMIN_OPCODE_CREATE_IO_SQ, c2_prp_entry1 := unat (ra_sq_dma (io_alloc env)),
      c2_device_addr := io_queue_info 256 cqi 0\<rparr>" for cqi
  have rel0: "adm_rel spec_init ?s0" "queues_up ?s0" using rel q
    by (auto simp: adm_rel_def io_rel_def queues_up_def io0_def spec_init_def)
  obtain o1 s1 where o1: "submit_sync_command env c1 ?s0 = (o1, s1)" by (rule prod.exhaust)
  have ok1: "cmd_ok spec_init (c2_opcode c1) (c2_device_addr c1)" by (simp add: c1_def cmd_ok_def spec_init_def)
  from rel0 ok1 o1 obtain A1 where A1: "adm_rel A1 s1" "queues_up s1" "bar_mapped_size s1 = bar_mapped_size ?s0"
    "case o1 of Some res \<Rightarrow> pend spec_init = None \<and> A1 = dev_exec (c2_opcode c1) (c2_device_addr c1) res spec_init \<and> protocol_poisoned s1 = protocol_poisoned ?s0
     | None \<Rightarrow> (A1 = spec_init \<and> protocol_poisoned s1 = protocol_poisoned ?s0) \<or> pend A1 \<noteq> None" by (rule submit_up)
  show ?thesis
  proof (cases o1)
    case None
    have "r = Inl EIO" "s' = s1"
      using r o1 True None by (simp_all add: configure_io_queue_def alloc_queue_def io0_def c1_def Let_def)
    then show ?thesis using A1 None by (auto simp: settled_def adm_rel_def queues_up_def)
  next
    case (Some r1)
    define cqi :: u16 where "cqi = ucast r1"
    have e1: "A1 = spec_init\<lparr>dev_cqid := Some cqi\<rparr>" "protocol_poisoned s1 = protocol_poisoned s"
      using A1(4) Some by (simp_all add: dev_exec_def c1_def cqi_def)
    obtain o2 s2 where o2: "submit_sync_command env (c2 cqi) s1 = (o2, s2)" by (rule prod.exhaust)
    have ok2: "cmd_ok A1 (c2_opcode (c2 cqi)) (c2_device_addr (c2 cqi))" by (simp add: c2_def cmd_ok_def e1 spec_init_def)
    from A1(1,2) ok2 o2 obtain A2 where A2: "adm_rel A2 s2" "queues_up s2" "bar_mapped_size s2 = bar_mapped_size s1"
      "case o2 of Some res \<Rightarrow> pend A1 = None \<and> A2 = dev_exec (c2_opcode (c2 cqi)) (c2_device_addr (c2 cqi)) res A1 \<and> protocol_poisoned s2 = protocol_poisoned s1
       | None \<Rightarrow> (A2 = A1 \<and> protocol_poisoned s2 = protocol_poisoned s1) \<or> pend A2 \<noteq> None" by (rule submit_up)
    have up2: "admin_queue s2 \<noteq> None" "io_queue s2 \<noteq> None" using A2(2) by (simp_all add: queues_up_def)
    have res: "(r, s') = (case o2 of
        None \<Rightarrow> (if (case admin_queue s2 of None \<Rightarrow> False | Some q \<Rightarrow> admin_desynced q) then (Inl EIO, s2) else out_delete env EIO s2)
      | Some r2 \<Rightarrow> if cqi \<noteq> ucast r2 then out_delete env EINVAL s2
          else if bar_mapped_size s2 < NVME_REG_DBS env + (unat cqi + 1) * 8 then out_delete env EIO s2
          else use_io_queue env cqi s2)"
      using r o1 o2 True Some
      by (cases o2) (simp_all add: configure_io_queue_def alloc_queue_def Let_def io0_def [symmetric] c1_def [symmetric]
          c2_def [symmetric] cqi_def [symmetric])
    have od: "(\<exists>A'. adm_rel A' s' \<and> (r = OK \<longrightarrow> in_use env s' \<and> pend A' = None \<and> protocol_poisoned s' = protocol_poisoned s) \<and>
       (r \<noteq> OK \<longrightarrow> settled A' s')) \<and> admin_queue s' \<noteq> None" if "(r, s') = out_delete env e s2" "pend A2 = None" for e
      using out_delete_rel [OF A2(1) that(2) up2, of env e r s'] that(1) by (auto simp: settled_def)
    show ?thesis
    proof (cases o2)
      case None
      show ?thesis
      proof (cases "pend A2 = None")
        case True
        moreover have "\<not> (case admin_queue s2 of None \<Rightarrow> False | Some q \<Rightarrow> admin_desynced q)"
          using A2(1) True by (auto simp: adm_rel_def q_rel_def split: option.split_asm)
        ultimately show ?thesis using od [of EIO] res None by simp
      next
        case False
        moreover have "(case admin_queue s2 of None \<Rightarrow> False | Some q \<Rightarrow> admin_desynced q)"
          using A2(1) False up2 by (auto simp: adm_rel_def q_rel_def split: option.split_asm)
        moreover have "protocol_poisoned s2" using A2(1) False by (simp add: adm_rel_def)
        ultimately show ?thesis using res None A2(1) up2 by (auto simp: settled_def)
      qed
    next
      case (Some r2)
      have p2: "pend A2 = None" and e2: "A2 = spec_init\<lparr>dev_cqid := Some cqi, dev_sqid := Some (ucast r2)\<rparr>"
        and po: "protocol_poisoned s2 = protocol_poisoned s"
        using A2(4) Some e1 by (simp_all add: dev_exec_def c2_def spec_init_def)
      consider (diff) "cqi \<noteq> ucast r2" | (out) "cqi = ucast r2" "bar_mapped_size s2 < NVME_REG_DBS env + (unat cqi + 1) * 8"
        | (fine) "cqi = ucast r2" "\<not> bar_mapped_size s2 < NVME_REG_DBS env + (unat cqi + 1) * 8" by blast
      then show ?thesis
      proof cases
        case diff
        then show ?thesis using od [of EINVAL] res Some p2 by simp
      next
        case out
        then show ?thesis using od [of EIO] res Some p2 by simp
      next
        case fine
        then have "use_io_queue env cqi s2 = (r, s')" using res Some by simp
        from use_io_queue_rel [OF A2(1) _ up2 _ this] fine e2 po show ?thesis by simp
      qed
    qed
  qed
qed

section \<open>Reachable devices\<close>

text \<open>
  The calls of \<open>init.c\<close> on the queues of one device, in any order that respects the one precondition of
  \<open>release_queue\<close>: it is not called on a poisoned device.
\<close>

inductive v2_reach :: "v2_env \<Rightarrow> v2_dev \<Rightarrow> bool" for env where
  start: "fresh s \<Longrightarrow> v2_reach env s"
| init: "\<lbrakk> fresh s; init_mx_queue env s = (r, s') \<rbrakk> \<Longrightarrow> v2_reach env s'"
| recover: "\<lbrakk> v2_reach env s; recover_mx_queue env fuel s = Some (r, s') \<rbrakk> \<Longrightarrow> v2_reach env s'"
| release: "\<lbrakk> v2_reach env s; \<not> protocol_poisoned s; release_mx_queue env s = (r, s') \<rbrakk> \<Longrightarrow> v2_reach env s'"
| poison: "v2_reach env s \<Longrightarrow> v2_reach env (s\<lparr>protocol_poisoned := True\<rparr>)"
| stop: "v2_reach env s \<Longrightarrow> v2_reach env (mx_stop_queue_threads s)"

lemma configure_admin_rel:
  assumes f: "fresh s" and r: "configure_admin_queue env s = (r, s')"
  shows "if r = OK then adm_rel spec_init s' \<and> admin_queue s' \<noteq> None \<and> io_queue s' = None \<and> queue_dma_programmed s' \<and>
     \<not> protocol_poisoned s' \<and> bar_mapped_size s' = bar_mapped_size s else s' = s"
  using r f by (auto simp: configure_admin_queue_def alloc_queue_def Let_def fresh_def adm_rel_def io_rel_def q_rel_def
      mx_queue_common_init_def spec_ok_def spec_init_def split: if_split_asm)

lemma init_rel:
  assumes f: "fresh s" and r: "init_mx_queue env s = (r, s')"
  shows "(\<exists>A'. adm_rel A' s' \<and> (r = OK \<longrightarrow> in_use env s' \<and> pend A' = None \<and> \<not> protocol_poisoned s') \<and> (r \<noteq> OK \<longrightarrow> settled A' s')) \<and>
     (admin_queue s' \<noteq> None \<or> r \<noteq> OK \<and> s' = s)"
proof -
  obtain r1 s1 where c: "configure_admin_queue env s = (r1, s1)" by (rule prod.exhaust)
  note c1 = configure_admin_rel [OF f c]
  show ?thesis
  proof (cases r1)
    case (Inl e)
    then show ?thesis using r c c1 fresh_rel [OF f] by (auto simp: init_mx_queue_def settled_def)
  next
    case (Inr u)
    then have "configure_io_queue env s1 = (r, s')" using r c by (simp add: init_mx_queue_def)
    then show ?thesis using configure_io_rel [of s1 env r s'] c1 Inr by simp
  qed
qed

lemma v2_reach_rel: "v2_reach env s \<Longrightarrow> \<exists>A. adm_rel A s"
proof (induction rule: v2_reach.induct)
  case (start s)
  then show ?case using fresh_rel by blast
next
  case (init s r s')
  then show ?case using init_rel by blast
next
  case (recover s fuel r s')
  then obtain A where A: "adm_rel A s" by blast
  show ?case
  proof (cases "admin_queue s")
    case None
    then show ?thesis using recover(2) A by (auto simp: recover_mx_queue_def)
  next
    case (Some q)
    then show ?thesis using recover_rel [OF A recover(2)] by blast
  qed
next
  case (release s r s')
  then obtain A where A: "adm_rel A s" by blast
  have p: "pend A = None" using A release(2) unfolding adm_rel_def by blast
  show ?case
  proof (cases "admin_queue s = None \<or> io_queue s = None")
    case True
    then show ?thesis using release(3) A by (auto simp: release_mx_queue_def release_io_queue_def split: option.split_asm)
  next
    case False
    then show ?thesis using release_rel [OF A p release(3)] by blast
  qed
next
  case (poison s)
  then show ?case using poison_rel by blast
next
  case (stop s)
  then show ?case by (auto simp: adm_rel_def mx_stop_queue_threads_def)
qed

section \<open>A device that answers\<close>

text \<open>Rings of two entries; the device answers every command at the first poll, with queue id 5.\<close>

definition cpl :: "u16 \<Rightarrow> u16 \<Rightarrow> mx_completion" where
  "cpl cid st = \<lparr>cq_result = 5, cq_sq_head = cid mod 2, cq_sq_id = 0, cq_command_id = cid, cq_status = st\<rparr>"

definition answer_env :: v2_env where
  "answer_env = \<lparr>dev_cq = (\<lambda>t. if t = 0 then [cpl 1 1, cpl 0 0] else if t = 1 then [cpl 1 1, cpl 2 1]
       else if t = 2 then [cpl 3 0, cpl 2 1] else [cpl 3 0, cpl 4 0]),
     disconnected = (\<lambda>_. False), NVME_AQ_DEPTH = 2, NVME_REG_DBS = 4096,
     admin_alloc = \<lparr>ra_queue = True, ra_cq = True, ra_sq = True, ra_cq_dma = 0x1000, ra_sq_dma = 0x2000\<rparr>,
     io_alloc = \<lparr>ra_queue = True, ra_cq = True, ra_sq = True, ra_cq_dma = 0x3000, ra_sq_dma = 0x4000\<rparr>,
     submit_run = OK, complete_run = OK, now_jiffies = 0\<rparr>"

definition dev0 :: v2_dev where
  "dev0 = \<lparr>clock = 0, admin_queue = None, io_queue = None, queue_dma_programmed = False, protocol_poisoned = False,
     reg_aqa = 0, reg_asq = 0, reg_acq = 0, bar_mapped_size = 0x10000, submit_thread = False, complete_thread = False, log = []\<rparr>"

lemma dev0_fresh: "fresh dev0" by (simp add: fresh_def dev0_def)

lemma configure_queue_depth [simp]: "q2_depth (configure_queue d) = d"
  by (simp add: configure_queue_def)

text \<open>A command that finds room and is answered at the first poll.\<close>

lemma submit_answered:
  assumes "admin_queue s = Some q" "\<not> admin_desynced q" "is_pushable_v2 (aq_ring q)"
    "admin_popable (ring_at env (clock s) (admin_start (c\<lparr>c2_command_id := next_cid q\<rparr>) (next_cid q) (q\<lparr>admin_next_cid := next_cid q\<rparr>)))"
    "admin_pop (ring_at env (clock s) (admin_start (c\<lparr>c2_command_id := next_cid q\<rparr>) (next_cid q) (q\<lparr>admin_next_cid := next_cid q\<rparr>))) = (cm, p)"
    "cq_command_id cm = next_cid q"
  shows "submit_sync_command env c s = (Some (cq_result cm), record_admin_terminal (c2_opcode c) (cq_result cm)
     (s\<lparr>clock := clock s + 1, admin_queue := Some (admin_finish p),
       log := log s @ [Pushed (next_cid q) (c2_opcode c) (c2_device_addr c), Popped (next_cid q) (cq_result cm)]\<rparr>))"
proof -
  have "wait_pushable 500 (aq_ring q) (clock s) = (True, clock s)" using assms(3)
    by (simp only: numeral_eq_Suc wait_pushable.simps if_True)
  moreover have "wait_terminal env (next_cid q) 500 (clock s) (admin_start (c\<lparr>c2_command_id := next_cid q\<rparr>) (next_cid q)
      (q\<lparr>admin_next_cid := next_cid q\<rparr>)) = (Some (cq_result cm), [cm], clock s + 1, p)"
    using assms(4-6) by (simp only: numeral_eq_Suc wait_terminal.simps Let_def if_True prod.case not_True_eq_False if_False simp_thms)
  ultimately show ?thesis using assms(1,2,6) by (simp add: submit_sync_command_def popped_event_def Let_def)
qed

lemmas ring_eval = admin_popable_def is_popable_v2_def expects_completion_def phase_matches_def admin_pop_def pop_mx_completion_def
  update_cq_doorbell_def ring_cq_doorbell_def ring_at_def cpl_def admin_start_def push_mx_command_v2_def update_sq_doorbell_def
  ring_sq_doorbell_def is_pushable_v2_def admin_finish_def record_admin_terminal_def next_cid_def

text \<open>The admin queue between commands.\<close>

definition ring_state :: "mx_command_v2 list \<Rightarrow> mx_completion list \<Rightarrow> u16 \<Rightarrow> u16 \<Rightarrow> mx_queue_v2" where
  "ring_state sqe cqe i ph = \<lparr>sqes = sqe, cqes = cqe, q2_depth = 2, last_sq_tail = i, last_cq_head = i, sq_tail = i, sq_head = i,
     cq_head = i, cq_phase = ph, db_sq = ucast i, db_cq = ucast i\<rparr>"

definition adm_state :: "mx_queue_v2 \<Rightarrow> u16 \<Rightarrow> u8 \<Rightarrow> admin_q" where
  "adm_state ring cid op = \<lparr>aq_common = mx_queue_common_init 0, aq_ring = ring, aq_sq_dma = 0x2000, aq_cq_dma = 0x1000,
     admin_next_cid = cid, admin_pending_cid = cid, admin_pending_opcode = op, admin_pending = False, admin_desynced = False\<rparr>"

lemma answer_step:
  assumes q: "admin_queue s = Some (adm_state (ring_state [a, b] l i ph) cid x)" and i: "i = 0 \<or> i = 1" and ph: "ph = 0 \<or> ph = 1"
    and cid: "cid + 1 \<noteq> 0" "(cid + 1) mod 2 = 1 - i" and ans: "dev_cq env (clock s) ! unat i = cpl (cid + 1) ph"
  shows "submit_sync_command env c s = (Some 5, record_admin_terminal (c2_opcode c) 5 (s\<lparr>clock := clock s + 1,
     admin_queue := Some (adm_state (ring_state ([a, b][unat i := c\<lparr>c2_command_id := cid + 1\<rparr>]) (dev_cq env (clock s)) (1 - i)
       (if i = 0 then ph else 1 - ph)) (cid + 1) (c2_opcode c)),
     log := log s @ [Pushed (cid + 1) (c2_opcode c) (c2_device_addr c), Popped (cid + 1) 5]\<rparr>))"
proof -
  define p where "p = (adm_state (ring_state ([a, b][unat i := c\<lparr>c2_command_id := cid + 1\<rparr>]) (dev_cq env (clock s)) (1 - i)
       (if i = 0 then ph else 1 - ph)) (cid + 1) (c2_opcode c))
     \<lparr>aq_common := (mx_queue_common_init 0)\<lparr>wait_count := 1\<rparr>, admin_pending := True\<rparr>"
  have n: "next_cid (adm_state r cid y) = cid + 1" for r y using cid(1) by (simp add: next_cid_def adm_state_def Let_def)
  show ?thesis
    by (subst submit_answered [OF q, where cm = "cpl (cid + 1) ph" and p = p]; use i ph cid ans in
      \<open>auto simp: n ring_eval p_def adm_state_def ring_state_def mx_queue_common_init_def Let_def\<close>)
qed

definition dev1 :: v2_dev where "dev1 = snd (init_mx_queue answer_env dev0)"

lemma configure_queue_2: "configure_queue 2 = ring_state [command_v2_zero, command_v2_zero] [completion_zero, completion_zero] 0 1"
  by (simp add: configure_queue_def ring_state_def) (simp add: numeral_2_eq_2)

lemma adm0: "configure_admin_queue answer_env dev0 = (OK, dev0\<lparr>
   admin_queue := Some (adm_state (ring_state [command_v2_zero, command_v2_zero] [completion_zero, completion_zero] 0 1) 0 0),
   queue_dma_programmed := True, reg_aqa := 0x10001, reg_asq := 0x2000, reg_acq := 0x1000\<rparr>)"
  by (simp add: configure_admin_queue_def alloc_queue_def answer_env_def configure_queue_2 Let_def adm_state_def)
    (simp add: ring_state_def)

lemma dev1_props:
  "init_mx_queue answer_env dev0 = (OK, dev1)"
  "\<exists>a b l. admin_queue dev1 = Some (adm_state (ring_state [a, b] l 0 0) 2 2)"
  "\<exists>io. io_queue dev1 = Some io \<and> hw_sq_created io \<and> hw_cq_created io \<and> hw_sq_id io = 5 \<and> hw_cq_id io = 5"
  "clock dev1 = 2" "\<not> protocol_poisoned dev1"
proof -
  have one: "\<exists>s'. init_mx_queue answer_env dev0 = (OK, s') \<and> (\<exists>a b l. admin_queue s' = Some (adm_state (ring_state [a, b] l 0 0) 2 2)) \<and>
     (\<exists>io. io_queue s' = Some io \<and> hw_sq_created io \<and> hw_cq_created io \<and> hw_sq_id io = 5 \<and> hw_cq_id io = 5) \<and>
     clock s' = 2 \<and> \<not> protocol_poisoned s'"
    apply (simp add: init_mx_queue_def adm0 configure_io_queue_def alloc_queue_def Let_def answer_step record_admin_terminal_def
        use_io_queue_def mx_start_io_queue_def)
    apply (simp add: answer_env_def dev0_def answer_step record_admin_terminal_def use_io_queue_def mx_start_io_queue_def Let_def)
    apply blast
    done
  then have e: "\<exists>a b l. admin_queue dev1 = Some (adm_state (ring_state [a, b] l 0 0) 2 2)"
    "init_mx_queue answer_env dev0 = (OK, dev1)"
    "\<exists>io. io_queue dev1 = Some io \<and> hw_sq_created io \<and> hw_cq_created io \<and> hw_sq_id io = 5 \<and> hw_cq_id io = 5"
    "clock dev1 = 2 \<and> \<not> protocol_poisoned dev1"
    unfolding dev1_def by (elim exE conjE; simp only: snd_conv; blast)+
  show "init_mx_queue answer_env dev0 = (OK, dev1)"
  "\<exists>a b l. admin_queue dev1 = Some (adm_state (ring_state [a, b] l 0 0) 2 2)"
  "\<exists>io. io_queue dev1 = Some io \<and> hw_sq_created io \<and> hw_cq_created io \<and> hw_sq_id io = 5 \<and> hw_cq_id io = 5"
  "clock dev1 = 2" "\<not> protocol_poisoned dev1"
    using e by blast+
qed

lemma dev1_released: "\<exists>s'. release_mx_queue answer_env dev1 = (OK, s')"
proof -
  obtain a b l where q: "admin_queue dev1 = Some (adm_state (ring_state [a, b] l 0 0) 2 2)" using dev1_props(2) by blast
  obtain io where io: "io_queue dev1 = Some io" "hw_sq_created io" "hw_cq_created io" using dev1_props(3) by blast
  have dq: "dev_cq answer_env 2 = [cpl 3 0, cpl 2 1]" "dev_cq answer_env 3 = [cpl 3 0, cpl 4 0]" by (simp_all add: answer_env_def)
  show ?thesis
    by (simp add: release_mx_queue_def release_io_queue_def q io delete_rings_def delete_sq_if_created_def delete_cq_if_created_def
        delete_io_sq_def delete_io_cq_def mx_stop_queue_threads_def answer_step dev1_props(4) dq record_admin_terminal_def)
qed

section \<open>Properties\<close>

text \<open>C19. The driver's record of the rings is the device's state: in every state that creation, recovery and release
  can reach, with any device on the other side of the admin queue, replay all that passed on that queue, each completion
  with the command id it really carried: at most one command is outstanding at a time, and the rings the device has
  then created and not deleted are exactly those the driver has recorded, under the ids it recorded. Completions that answer something else, whenever
  and however many the device posts, never count as an answer. A submission ring never outlives its completion
  ring, and a command without an answer has poisoned the device.\<close>

theorem admin_record_exact:
  assumes "v2_reach env s"
  shows "\<exists>A. run_log (log s) = Some A \<and>
     (case io_queue s of None \<Rightarrow> A = spec_init
      | Some io \<Rightarrow> dev_cqid A = (if hw_cq_created io then Some (hw_cq_id io) else None) \<and>
                  dev_sqid A = (if hw_sq_created io then Some (hw_sq_id io) else None) \<and>
                  (hw_sq_created io \<longrightarrow> hw_cq_created io)) \<and>
     (pend A \<noteq> None \<longrightarrow> protocol_poisoned s) \<and> (A \<noteq> spec_init \<longrightarrow> queue_dma_programmed s)"
proof -
  obtain A where "adm_rel A s" using v2_reach_rel [OF assms] by blast
  then show ?thesis
    by (intro exI [of _ A]) (auto simp: adm_rel_def io_rel_def spec_ok_def split: option.split_asm option.split if_split_asm)
qed

theorem admin_record_exact_witness:
  "\<exists>A io. run_log (log dev1) = Some A \<and> io_queue dev1 = Some io \<and> dev_sqid A = Some 5 \<and> hw_sq_id io = 5"
  using admin_record_exact [OF v2_reach.init [OF dev0_fresh dev1_props(1)]] dev1_props(3) by auto

text \<open>C20. The rings are given back only when the device has given them up: when recovery succeeds, or the release of a
  device that is not poisoned does, no admin command is outstanding, the device has deleted both rings, and the
  three registers that told it host addresses are zero. A recovery that fails leaves the device poisoned.\<close>

theorem rings_given_up:
  assumes "v2_reach env s" "admin_queue s \<noteq> None"
  shows "(recover_mx_queue env fuel s = Some (r, s') \<longrightarrow> (if r = OK then quiet s' \<and> \<not> protocol_poisoned s' else protocol_poisoned s')) \<and>
     (\<not> protocol_poisoned s \<and> io_queue s \<noteq> None \<and> release_mx_queue env s = (OK, s'') \<longrightarrow> quiet s'' \<and> \<not> protocol_poisoned s'')"
proof -
  obtain A where A: "adm_rel A s" using v2_reach_rel [OF assms(1)] by blast
  obtain q where q: "admin_queue s = Some q" using assms(2) by auto
  have "if r = OK then quiet s' \<and> \<not> protocol_poisoned s' else protocol_poisoned s'" if "recover_mx_queue env fuel s = Some (r, s')"
    by (rule recover_rel [OF A that q]) auto
  moreover have "quiet s'' \<and> \<not> protocol_poisoned s''"
    if "\<not> protocol_poisoned s" "io_queue s \<noteq> None" "release_mx_queue env s = (OK, s'')"
  proof -
    have "pend A = None" using A that(1) unfolding adm_rel_def by blast
    then show ?thesis by (rule release_rel [OF A _ that(3) assms(2) that(2)]) (use that(1) in auto)
  qed
  ultimately show ?thesis by blast
qed

theorem rings_given_up_witness: "\<exists>s'. release_mx_queue answer_env dev1 = (OK, s') \<and> quiet s'"
  using rings_given_up [OF v2_reach.init [OF dev0_fresh dev1_props(1)]] dev1_released dev1_props(2,3,5) by auto

text \<open>Creating the queues either succeeds or leaves nothing unclear: on success both rings exist under one id, whose
  doorbell lies inside the mapped BAR, both handler threads run and no command is outstanding; on failure of a
  device that is not poisoned the device has no ring and no command outstanding.\<close>

theorem init_all_or_nothing:
  assumes "fresh s" "init_mx_queue env s = (r, s')"
  shows "if r = OK then in_use env s' \<and> \<not> protocol_poisoned s'
     else protocol_poisoned s' \<or> run_log (log s') = Some spec_init"
  using init_rel [OF assms] by (auto simp: settled_def adm_rel_def)

theorem init_all_or_nothing_witness: "in_use answer_env dev1 \<and> \<not> protocol_poisoned dev1"
  using init_all_or_nothing [OF dev0_fresh dev1_props(1)] by simp

lemma drain_loop_ends:
  "\<lbrakk> clock s \<le> t; disconnected env t; t - clock s + 2 \<le> fuel \<rbrakk> \<Longrightarrow> drain_loop env fuel q s \<noteq> None"
proof (induction fuel arbitrary: q s)
  case (Suc fuel)
  have clk: "clock (record_admin_terminal op r s) = clock s" for op r s
    by (simp add: record_admin_terminal_def split: option.split)
  have now: "clock s \<noteq> t" if "\<not> disconnected env (clock s)" using that Suc.prems(2) by blast
  show ?case
    using Suc.prems now Suc.IH
    by (auto simp: Let_def clk split: prod.split)
qed simp

text \<open>Draining an ambiguous admin command ends when the device answers or goes away: it returns within as many
  polls as pass until the function is disconnected, and when the answer to the outstanding command is at the head
  of the completion ring of a connected device, the drain takes it at once and succeeds.\<close>

theorem drain_ends:
  assumes "admin_queue s = Some q" "admin_desynced q = admin_pending q"
  shows "(clock s \<le> t \<and> disconnected env t \<longrightarrow> drain_pending_admin env (t - clock s + 2) s \<noteq> None) \<and>
     (admin_pending q \<and> \<not> disconnected env (clock s) \<and> admin_popable (ring_at env (clock s) q) \<and>
        cq_command_id (fst (admin_pop (ring_at env (clock s) q))) = admin_pending_cid q \<longrightarrow>
      (\<exists>s'. drain_pending_admin env 2 s = Some (OK, s')))"
proof (intro conjI impI)
  assume "clock s \<le> t \<and> disconnected env t"
  then show "drain_pending_admin env (t - clock s + 2) s \<noteq> None"
    using drain_loop_ends [of s t env "t - clock s + 2" q] assms by (simp add: drain_pending_admin_def)
next
  assume a: "admin_pending q \<and> \<not> disconnected env (clock s) \<and> admin_popable (ring_at env (clock s) q) \<and>
        cq_command_id (fst (admin_pop (ring_at env (clock s) q))) = admin_pending_cid q"
  obtain cm p where p: "admin_pop (ring_at env (clock s) q) = (cm, p)" by (rule prod.exhaust)
  show "\<exists>s'. drain_pending_admin env 2 s = Some (OK, s')"
    using a p admin_pop_fields [OF p] assms
    by (simp add: drain_pending_admin_def numeral_2_eq_2 Let_def admin_finish_def)
qed

theorem drain_ends_witness:
  "drain_pending_admin (answer_env\<lparr>disconnected := (\<lambda>t. 4 \<le> t)\<rparr>) 4 dev1 \<noteq> None"
proof -
  obtain a b l where q: "admin_queue dev1 = Some (adm_state (ring_state [a, b] l 0 0) 2 2)" using dev1_props(2) by blast
  from drain_ends [OF q, of 4 "answer_env\<lparr>disconnected := (\<lambda>t. 4 \<le> t)\<rparr>"] show ?thesis
    by (simp add: dev1_props(4) adm_state_def)
qed

end
