(* ===== verification/Xfer.thy ===== *)
theory Xfer
  imports Liveness
begin

text \<open>
  The life of a transfer: \<open>helper.c\<close> (ids), the queueing, waiting, recovery and zombie handling of
  \<open>transfer.c\<close>, and the transfer side of the handlers of \<open>core_common.c\<close>.  Transfers are numbered (the
  address of the slab object); a freed one is \<open>None\<close>.  \<open>inflight\<close> is the device's view: the transfers
  whose command it was given and whose completion the driver has not consumed.  Each definition is one
  critical section of the code, and \<open>xfer_reachable\<close> interleaves them.  The id table is that of the transfers
  of one queue; the code shares one table among all devices, which only takes more ids away.
\<close>

section \<open>State\<close>

record mx_transfer =
  x_id :: nat
  x_no_completion :: bool
  x_claimed :: bool          \<comment> \<open>\<open>wait_claimed\<close>\<close>
  x_zombie :: bool           \<comment> \<open>\<open>is_zombie\<close>\<close>
  x_done :: bool             \<comment> \<open>the completion was signalled\<close>
  x_result :: u64
  x_status :: u8

record xfer_sys =
  xq :: "nat mx_queue"
  xheap :: "nat \<Rightarrow> mx_transfer option"
  idr :: "nat \<Rightarrow> nat option"
  idr_next :: nat
  zombie_list :: "nat list"
  inflight :: "nat set"

section \<open>Identifiers\<close>

text \<open>\<open>idr_alloc_cyclic\<close> over \<open>[0, MX_PING_ID)\<close>: the first free id from the cursor on, then from the start.\<close>

definition transfer_id_alloc :: "xfer_sys \<Rightarrow> nat \<Rightarrow> (nat \<times> xfer_sys) option" where
  "transfer_id_alloc s t =
     (case List.find (\<lambda>i. idr s i = None) ([idr_next s..<MX_PING_ID] @ [0..<min (idr_next s) MX_PING_ID]) of
        None \<Rightarrow> None
      | Some i \<Rightarrow> Some (i, s\<lparr>idr := (idr s)(i := Some t), idr_next := i + 1\<rparr>))"

definition transfer_id_free :: "xfer_sys \<Rightarrow> nat \<Rightarrow> xfer_sys" where
  "transfer_id_free s t =
     (case xheap s t of
        None \<Rightarrow> s
      | Some x \<Rightarrow> if idr s (x_id x) = Some t then s\<lparr>idr := (idr s)(x_id x := None)\<rparr> else s)"

definition set_xfer :: "xfer_sys \<Rightarrow> nat \<Rightarrow> mx_transfer \<Rightarrow> xfer_sys" where
  "set_xfer s t x = s\<lparr>xheap := (xheap s)(t := Some x)\<rparr>"

text \<open>The transfer with this id, claimed and out of the table; \<open>None\<close> when there is none to claim.\<close>

definition transfer_id_claim_completion :: "xfer_sys \<Rightarrow> nat \<Rightarrow> (nat \<times> mx_transfer \<times> xfer_sys) option" where
  "transfer_id_claim_completion s i =
     (case idr s i of
        None \<Rightarrow> None
      | Some t \<Rightarrow>
          (case xheap s t of
             None \<Rightarrow> None
           | Some x \<Rightarrow>
               if x_claimed x then None
               else Some (t, x\<lparr>x_claimed := True\<rparr>,
                      (set_xfer s t (x\<lparr>x_claimed := True\<rparr>))\<lparr>idr := (idr s)(i := None)\<rparr>)))"

section \<open>Allocation, queueing and release\<close>

definition alloc_mx_transfer :: "xfer_sys \<Rightarrow> nat option \<Rightarrow> bool \<Rightarrow> (nat \<times> xfer_sys) option" where
  "alloc_mx_transfer s new no_completion =
     (case new of
        None \<Rightarrow> None
      | Some t \<Rightarrow>
          (case transfer_id_alloc s t of
             None \<Rightarrow> None
           | Some (i, s) \<Rightarrow>
               Some (t, set_xfer s t \<lparr>x_id = i, x_no_completion = no_completion, x_claimed = False,
                        x_zombie = False, x_done = False, x_result = 0, x_status = 0\<rparr>)))"

text \<open>\<open>release_mx_transfer\<close>, as far as the table and the slab go (the shared mapping and the lease have
  their own theories).\<close>

definition release_mx_transfer :: "xfer_sys \<Rightarrow> nat \<Rightarrow> xfer_sys" where
  "release_mx_transfer s t = (let s = transfer_id_free s t in s\<lparr>xheap := (xheap s)(t := None)\<rparr>)"

definition mx_transfer_queue :: "xfer_sys \<Rightarrow> nat \<Rightarrow> xfer_sys" where
  "mx_transfer_queue s t = s\<lparr>xq := (xq s)\<lparr>sq_list := sq_list (xq s) @ [t]\<rparr>\<rparr>"

definition mx_transfer_queue_parallel :: "xfer_sys \<Rightarrow> nat list \<Rightarrow> xfer_sys" where
  "mx_transfer_queue_parallel s ts = s\<lparr>xq := (xq s)\<lparr>sq_list := sq_list (xq s) @ ts\<rparr>\<rparr>"

definition mx_transfer_remove_from_sq :: "xfer_sys \<Rightarrow> nat \<Rightarrow> bool \<times> xfer_sys" where
  "mx_transfer_remove_from_sq s t =
     (if t \<in> set (sq_list (xq s)) then (True, s\<lparr>xq := (xq s)\<lparr>sq_list := remove1 t (sq_list (xq s))\<rparr>\<rparr>)
      else (False, s))"

section \<open>The handlers\<close>

text \<open>One iteration of the submit loop for the transfer at the head of the list, once the queue has room.\<close>

definition submit_one :: "u64 \<Rightarrow> xfer_sys \<Rightarrow> xfer_sys option" where
  "submit_one now s =
     (case sq_list (xq s) of
        [] \<Rightarrow> None
      | t # ts \<Rightarrow>
          (case xheap s t of
             None \<Rightarrow> None
           | Some x \<Rightarrow>
               let s = s\<lparr>xq := submit_account (x_no_completion x) now ((xq s)\<lparr>sq_list := ts\<rparr>)\<rparr>
               in Some (if x_no_completion x then set_xfer s t (x\<lparr>x_done := True\<rparr>)
                        else s\<lparr>inflight := insert t (inflight s)\<rparr>)))"

text \<open>One completion: the transfer it was for, if it was claimed; \<open>t\<close> is the transfer the device completed.\<close>

definition complete_one :: "u64 \<Rightarrow> u64 \<Rightarrow> mx_completion_info \<Rightarrow> xfer_sys \<Rightarrow> nat option \<times> xfer_sys" where
  "complete_one now now_ns info s =
     (let s = s\<lparr>xq := complete_liveness now now_ns (info_id info) (xq s)\<rparr> in
      if info_id info = int MX_PING_ID then (None, s)
      else case transfer_id_claim_completion s (nat (info_id info)) of
             None \<Rightarrow> (None, s)
           | Some (t, x, s) \<Rightarrow>
               let s = s\<lparr>xq := (xq s)\<lparr>wait_count := wait_count (xq s) - 1\<rparr>\<rparr>
               in (Some t, if x_zombie x then s
                           else set_xfer s t (x\<lparr>x_result := info_result info, x_status := info_status info, x_done := True\<rparr>)))"

section \<open>Waiting\<close>

text \<open>
  The first wait of \<open>mx_transfer_wait\<close>: with the watchdog on it waits in chunks up to a deadline, and a
  dead transport ends it.  \<open>to_jiffies\<close> is \<open>msecs_to_jiffies\<close>; an element of the list is one chunk: what the
  wait returned, the transport verdict and \<open>jiffies\<close> after it.  \<open>None\<close>: still waiting after these chunks.
\<close>

definition wait_mult :: "bool \<Rightarrow> nat \<Rightarrow> nat" where
  "wait_mult lv_on max_mult = (if lv_on then min (max max_mult 1) 1000 else 1)"

definition wait_chunk_ms :: "bool \<Rightarrow> nat \<Rightarrow> nat \<Rightarrow> nat" where
  "wait_chunk_ms lv_on stall_ms timeout_ms = (if lv_on then max (min stall_ms timeout_ms) 50 else timeout_ms)"

definition hard_deadline :: "(nat \<Rightarrow> u64) \<Rightarrow> u64 \<Rightarrow> nat \<Rightarrow> nat \<Rightarrow> u64" where
  "hard_deadline to_jiffies now timeout_ms mul = now + to_jiffies timeout_ms * of_nat mul"

fun wait_loop :: "bool \<Rightarrow> u64 \<Rightarrow> (int \<times> mx_liveness_health \<times> u64) list \<Rightarrow> int option" where
  "wait_loop lv_on deadline [] = None"
| "wait_loop lv_on deadline ((left_time, health, now) # chunks) =
     (if left_time \<noteq> 0 then Some left_time
      else if \<not> lv_on then Some left_time
      else if health = MX_LIVENESS_DEAD then Some left_time
      else if sint (now - deadline) < 0 then wait_loop lv_on deadline chunks
      else Some left_time)"

text \<open>The three ends of \<open>mx_transfer_wait\<close>.\<close>

definition park_zombie :: "xfer_sys \<Rightarrow> nat \<Rightarrow> xfer_sys" where
  "park_zombie s t =
     (case xheap s t of
        None \<Rightarrow> s
      | Some x \<Rightarrow>
          (set_xfer s t (x\<lparr>x_zombie := True\<rparr>))\<lparr>xq := (xq s)\<lparr>zombie_wait_count := zombie_wait_count (xq s) + 1\<rparr>,
             zombie_list := zombie_list s @ [t]\<rparr>)"

datatype wait_state = MX_DMA_WAIT_COMPLETED | MX_DMA_WAIT_RECOVERED | MX_DMA_WAIT_LATE_COMPLETED | MX_DMA_WAIT_ZOMBIE

text \<open>
  \<open>mx_transfer_wait\<close> after its first wait returned \<open>left_time\<close>: \<open>dead\<close> is the transport verdict, \<open>late\<close>
  whether the second wait succeeds.  The answer is the size or the error, and how the transfer ended.
\<close>

definition mx_transfer_wait :: "xfer_sys \<Rightarrow> nat \<Rightarrow> nat \<Rightarrow> int \<Rightarrow> bool \<Rightarrow> bool \<Rightarrow> nat result \<times> wait_state \<times> xfer_sys" where
  "mx_transfer_wait s t xsize left_time dead late =
     (if 0 < left_time then (Inr xsize, MX_DMA_WAIT_COMPLETED, release_mx_transfer s t)
      else
        let fail_ret = (if dead then EIO else if left_time = 0 then ETIMEDOUT else EINTR) in
        case mx_transfer_remove_from_sq s t of
          (True, s) \<Rightarrow> (Inl fail_ret, MX_DMA_WAIT_RECOVERED, release_mx_transfer s t)
        | (False, s) \<Rightarrow>
            if \<not> dead \<and> late then (Inr xsize, MX_DMA_WAIT_LATE_COMPLETED, release_mx_transfer s t)
            else (Inl fail_ret, MX_DMA_WAIT_ZOMBIE, park_zombie s t))"

text \<open>
  The waits of \<open>submit_passthru_command\<close>: without a completion the push itself signals \<open>done\<close>.
\<close>

definition passthru_wait :: "xfer_sys \<Rightarrow> nat \<Rightarrow> bool \<Rightarrow> int \<Rightarrow> unit result \<times> xfer_sys" where
  "passthru_wait s t no_completion left_time =
     (let err = (if left_time = 0 then ETIMEDOUT else EINTR) in
      if no_completion then
        (if left_time \<le> 0 then (Inl err, release_mx_transfer (snd (mx_transfer_remove_from_sq s t)) t)
         else (OK, release_mx_transfer s t))
      else if left_time \<le> 0 then
        (case mx_transfer_remove_from_sq s t of
           (True, s) \<Rightarrow> (Inl err, release_mx_transfer s t)
         | (False, s) \<Rightarrow> (Inl err, park_zombie s t))
      else (OK, release_mx_transfer s t))"

section \<open>Zombies\<close>

text \<open>One element of \<open>drain_zombie_list\<close>; it has been taken off the zombie list.\<close>

definition drain_one :: "xfer_sys \<Rightarrow> nat \<Rightarrow> xfer_sys" where
  "drain_one s t =
     (case xheap s t of
        None \<Rightarrow> s
      | Some x \<Rightarrow>
          let q = (xq s)\<lparr>wait_count := (if x_claimed x then wait_count (xq s) else wait_count (xq s) - 1),
                         zombie_wait_count := zombie_wait_count (xq s) - 1\<rparr>
          in release_mx_transfer (s\<lparr>xq := q\<rparr>) t)"

definition drain_zombie_list :: "xfer_sys \<Rightarrow> nat list \<Rightarrow> xfer_sys" where
  "drain_zombie_list = foldl drain_one"

definition hw_done :: "xfer_sys \<Rightarrow> nat \<Rightarrow> bool" where
  "hw_done s t = (case xheap s t of None \<Rightarrow> False | Some x \<Rightarrow> x_claimed x)"

text \<open>One round of the cleaner, and its final drain.\<close>

definition zombie_cleanup_round :: "xfer_sys \<Rightarrow> xfer_sys" where
  "zombie_cleanup_round s =
     drain_zombie_list (s\<lparr>zombie_list := filter (\<lambda>t. \<not> hw_done s t) (zombie_list s)\<rparr>) (filter (hw_done s) (zombie_list s))"

definition zombie_cleanup_final :: "bool \<Rightarrow> xfer_sys \<Rightarrow> xfer_sys" where
  "zombie_cleanup_final dma_reclaim_safe s =
     (if \<not> dma_reclaim_safe then s else drain_zombie_list (s\<lparr>zombie_list := []\<rparr>) (zombie_list s))"

end
