(* ===== verification/Xfer_Inv.thy ===== *)
theory Xfer_Inv
  imports Xfer
begin

text \<open>
  All interleavings of submitters, the submit and complete handlers, the device and the zombie cleaner
  over one queue, and the invariant that ties counters, id table, lists and the device's view together.
\<close>

section \<open>Steps\<close>

record xfer_world =
  xs :: xfer_sys
  own :: "nat set"      \<comment> \<open>transfers whose submitter still waits\<close>
  staged :: "nat set"   \<comment> \<open>of these, the ones not queued yet\<close>

definition xfer_init :: "u64 \<Rightarrow> xfer_world" where
  "xfer_init now = \<lparr>xs = \<lparr>xq = mx_queue_common_init now, xheap = (\<lambda>_. None), idr = (\<lambda>_. None), idr_next = 0,
     zombie_list = [], inflight = {}\<rparr>, own = {}, staged = {}\<rparr>"

abbreviation (input) queued :: "xfer_world \<Rightarrow> nat set" where "queued W \<equiv> set (sq_list (xq (xs W)))"

abbreviation (input) signalled :: "xfer_sys \<Rightarrow> nat \<Rightarrow> bool" where
  "signalled s t \<equiv> (\<exists>x. xheap s t = Some x \<and> x_done x)"

text \<open>
  A wait returns a positive time only for a signalled transfer; a submitter of a command without
  completion that finds it gone from the list waits for the signal of the push.
\<close>

inductive xfer_reachable :: "xfer_world \<Rightarrow> bool" where
  init: "xfer_reachable (xfer_init now)"
| alloc: "\<lbrakk> xfer_reachable W; xheap (xs W) t = None; alloc_mx_transfer (xs W) (Some t) nc = Some (t', s) \<rbrakk>
    \<Longrightarrow> xfer_reachable (W\<lparr>xs := s, own := insert t (own W), staged := insert t (staged W)\<rparr>)"
| init_failed: "\<lbrakk> xfer_reachable W; t \<in> staged W \<rbrakk>
    \<Longrightarrow> xfer_reachable (W\<lparr>xs := release_mx_transfer (xs W) t, own := own W - {t}, staged := staged W - {t}\<rparr>)"
| enqueue: "\<lbrakk> xfer_reachable W; set ts \<subseteq> staged W; distinct ts \<rbrakk>
    \<Longrightarrow> xfer_reachable (W\<lparr>xs := mx_transfer_queue_parallel (xs W) ts, staged := staged W - set ts\<rparr>)"
| push: "\<lbrakk> xfer_reachable W; submit_one now (xs W) = Some s \<rbrakk> \<Longrightarrow> xfer_reachable (W\<lparr>xs := s\<rparr>)"
| completion: "\<lbrakk> xfer_reachable W; t \<in> inflight (xs W); xheap (xs W) t = Some x; info_id info = int (x_id x);
      complete_one now now_ns info (xs W) = (r, s) \<rbrakk>
    \<Longrightarrow> xfer_reachable (W\<lparr>xs := s\<lparr>inflight := inflight s - {t}\<rparr>\<rparr>)"
| pong: "\<lbrakk> xfer_reachable W; info_id info = int MX_PING_ID; complete_one now now_ns info (xs W) = (r, s) \<rbrakk>
    \<Longrightarrow> xfer_reachable (W\<lparr>xs := s\<rparr>)"
| wait: "\<lbrakk> xfer_reachable W; t \<in> own W - staged W; xheap (xs W) t = Some x; \<not> x_no_completion x;
      0 < left \<longrightarrow> x_done x; late \<longrightarrow> x_done x \<or> t \<in> queued W;
      mx_transfer_wait (xs W) t n left dead late = (r, st, s) \<rbrakk>
    \<Longrightarrow> xfer_reachable (W\<lparr>xs := s, own := own W - {t}\<rparr>)"
| passthru: "\<lbrakk> xfer_reachable W; t \<in> own W - staged W; xheap (xs W) t = Some x; nc = x_no_completion x;
      0 < left \<longrightarrow> x_done x; nc \<longrightarrow> x_done x \<or> t \<in> queued W;
      passthru_wait (xs W) t nc left = (rp, s) \<rbrakk>
    \<Longrightarrow> xfer_reachable (W\<lparr>xs := s, own := own W - {t}\<rparr>)"
| cleanup: "xfer_reachable W \<Longrightarrow> xfer_reachable (W\<lparr>xs := zombie_cleanup_round (xs W)\<rparr>)"

section \<open>The invariant\<close>

definition lists_inv :: "xfer_world \<Rightarrow> bool" where
  "lists_inv W \<longleftrightarrow>
     distinct (sq_list (xq (xs W))) \<and> distinct (zombie_list (xs W)) \<and> staged W \<union> queued W \<subseteq> own W \<and>
     staged W \<inter> queued W = {} \<and> own W \<inter> set (zombie_list (xs W)) = {} \<and>
     dom (xheap (xs W)) = own W \<union> set (zombie_list (xs W)) \<and> finite (own W)"

definition xfer_ok :: "xfer_world \<Rightarrow> nat \<Rightarrow> mx_transfer \<Rightarrow> bool" where
  "xfer_ok W t x \<longleftrightarrow>
     (t \<in> inflight (xs W) \<longleftrightarrow> t \<notin> staged W \<union> queued W \<and> \<not> x_no_completion x \<and> \<not> x_claimed x) \<and>
     (t \<in> staged W \<union> queued W \<longrightarrow> \<not> x_claimed x \<and> \<not> x_done x) \<and>
     (x_done x \<longrightarrow> x_claimed x \<or> x_no_completion x) \<and>
     (x_zombie x \<longleftrightarrow> t \<in> set (zombie_list (xs W))) \<and>
     (x_no_completion x \<longrightarrow> \<not> x_claimed x \<and> \<not> x_zombie x) \<and>
     x_id x < MX_PING_ID \<and> (idr (xs W) (x_id x) = Some t \<longleftrightarrow> \<not> x_claimed x)"

definition table_inv :: "xfer_world \<Rightarrow> bool" where
  "table_inv W \<longleftrightarrow>
     (\<forall>t x. xheap (xs W) t = Some x \<longrightarrow> xfer_ok W t x) \<and>
     (\<forall>i t. idr (xs W) i = Some t \<longrightarrow> (\<exists>x. xheap (xs W) t = Some x \<and> x_id x = i)) \<and>
     inflight (xs W) \<subseteq> dom (xheap (xs W))"

definition count_inv :: "xfer_world \<Rightarrow> bool" where
  "count_inv W \<longleftrightarrow>
     wait_count (xq (xs W)) = int (card (inflight (xs W))) \<and>
     zombie_wait_count (xq (xs W)) = int (length (zombie_list (xs W)))"

definition xfer_inv :: "xfer_world \<Rightarrow> bool" where
  "xfer_inv W \<longleftrightarrow> lists_inv W \<and> table_inv W \<and> count_inv W"

lemma xfer_invD:
  assumes "xfer_inv W"
  shows "distinct (sq_list (xq (xs W)))" "distinct (zombie_list (xs W))" "staged W \<union> queued W \<subseteq> own W"
    "staged W \<inter> queued W = {}" "own W \<inter> set (zombie_list (xs W)) = {}"
    "dom (xheap (xs W)) = own W \<union> set (zombie_list (xs W))" "finite (own W)"
    "xheap (xs W) t = Some x \<Longrightarrow> xfer_ok W t x"
    "idr (xs W) i = Some t \<Longrightarrow> \<exists>x. xheap (xs W) t = Some x \<and> x_id x = i"
    "inflight (xs W) \<subseteq> dom (xheap (xs W))"
    "wait_count (xq (xs W)) = int (card (inflight (xs W)))"
    "zombie_wait_count (xq (xs W)) = int (length (zombie_list (xs W)))"
  using assms unfolding xfer_inv_def lists_inv_def table_inv_def count_inv_def by blast+

lemma xfer_invI:
  assumes "distinct (sq_list (xq (xs W)))" "distinct (zombie_list (xs W))" "staged W \<union> queued W \<subseteq> own W"
    "staged W \<inter> queued W = {}" "own W \<inter> set (zombie_list (xs W)) = {}"
    "dom (xheap (xs W)) = own W \<union> set (zombie_list (xs W))" "finite (own W)"
    "\<And>t x. xheap (xs W) t = Some x \<Longrightarrow> xfer_ok W t x"
    "\<And>i t. idr (xs W) i = Some t \<Longrightarrow> \<exists>x. xheap (xs W) t = Some x \<and> x_id x = i"
    "inflight (xs W) \<subseteq> dom (xheap (xs W))"
    "wait_count (xq (xs W)) = int (card (inflight (xs W)))"
    "zombie_wait_count (xq (xs W)) = int (length (zombie_list (xs W)))"
  shows "xfer_inv W"
  unfolding xfer_inv_def lists_inv_def table_inv_def count_inv_def using assms by blast

lemma inflight_finite: "xfer_inv W \<Longrightarrow> finite (inflight (xs W))"
  by (rule finite_subset [of _ "own W \<union> set (zombie_list (xs W))"])
    (use xfer_invD(6,7,10) [of W] in auto)

lemma xfer_init_inv: "xfer_inv (xfer_init now)"
  by (rule xfer_invI) (simp_all add: xfer_init_def mx_queue_common_init_def)

section \<open>Preservation\<close>

lemma release_fields [simp]:
  "xq (release_mx_transfer s t) = xq s" "zombie_list (release_mx_transfer s t) = zombie_list s"
  "inflight (release_mx_transfer s t) = inflight s" "xheap (release_mx_transfer s t) = (xheap s)(t := None)"
  by (simp_all add: release_mx_transfer_def transfer_id_free_def Let_def split: option.split)

text \<open>
  Freeing a transfer that the device does not hold and that is on no list any more.
\<close>

lemma release_inv:
  assumes inv: "xfer_inv W" and x: "xheap (xs W) t = Some x"
    and free: "t \<notin> inflight (xs W)" "t \<notin> queued W" "t \<notin> set (zombie_list (xs W))"
  shows "xfer_inv (W\<lparr>xs := release_mx_transfer (xs W) t, own := own W - {t}, staged := staged W - {t}\<rparr>)"
proof -
  note i = xfer_invD [OF inv]
  have idr: "idr (release_mx_transfer (xs W) t) = (\<lambda>k. if idr (xs W) k = Some t then None else idr (xs W) k)"
  proof (rule ext)
    fix k
    have "idr (xs W) k = Some t \<Longrightarrow> k = x_id x" using i(9) [of k t] x by auto
    then show "idr (release_mx_transfer (xs W) t) k = (if idr (xs W) k = Some t then None else idr (xs W) k)"
      using x by (cases "k = x_id x") (auto simp: release_mx_transfer_def transfer_id_free_def Let_def)
  qed
  show ?thesis
  proof (rule xfer_invI)
    fix u y assume y: "xheap (xs (W\<lparr>xs := release_mx_transfer (xs W) t, own := own W - {t}, staged := staged W - {t}\<rparr>)) u = Some y"
    then have "u \<noteq> t" "xheap (xs W) u = Some y" by (auto split: if_split_asm)
    with i(8) [of u y] show "xfer_ok (W\<lparr>xs := release_mx_transfer (xs W) t, own := own W - {t}, staged := staged W - {t}\<rparr>) u y"
      by (auto simp: xfer_ok_def idr)
  qed (use i free x in \<open>auto simp: idr split: if_split_asm\<close>)
qed

lemma complete_liveness_fields [simp]:
  "sq_list (complete_liveness a b c q) = sq_list q" "wait_count (complete_liveness a b c q) = wait_count q"
  "zombie_wait_count (complete_liveness a b c q) = zombie_wait_count q"
  by (simp_all add: complete_liveness_def Let_def)

lemma submit_account_fields [simp]: "sq_list (submit_account n now q) = sq_list q"
  by (simp add: submit_account_def Let_def)

lemma id_alloc_free:
  assumes "transfer_id_alloc s t = Some (i, s')"
  shows "idr s i = None" "i < MX_PING_ID" "s' = s\<lparr>idr := (idr s)(i := Some t), idr_next := i + 1\<rparr>"
proof -
  have f: "List.find (\<lambda>i. idr s i = None) ([idr_next s..<MX_PING_ID] @ [0..<min (idr_next s) MX_PING_ID]) = Some i"
    and s': "s' = s\<lparr>idr := (idr s)(i := Some t), idr_next := i + 1\<rparr>"
    using assms by (auto simp: transfer_id_alloc_def simp del: upt.simps upt_Suc split: option.split_asm)
  from f obtain k where k: "k < length ([idr_next s..<MX_PING_ID] @ [0..<min (idr_next s) MX_PING_ID])"
      "idr s i = None" "i = ([idr_next s..<MX_PING_ID] @ [0..<min (idr_next s) MX_PING_ID]) ! k"
    unfolding find_Some_iff by blast
  have "i \<in> set ([idr_next s..<MX_PING_ID] @ [0..<min (idr_next s) MX_PING_ID])"
    unfolding k(3) using k(1) by (rule nth_mem)
  then show "i < MX_PING_ID" by auto
  show "idr s i = None" "s' = s\<lparr>idr := (idr s)(i := Some t), idr_next := i + 1\<rparr>" by (fact k(2), fact s')
qed

lemma alloc_inv:
  assumes inv: "xfer_inv W" and n: "xheap (xs W) t = None" and a: "alloc_mx_transfer (xs W) (Some t) nc = Some (t', s)"
  shows "xfer_inv (W\<lparr>xs := s, own := insert t (own W), staged := insert t (staged W)\<rparr>)" (is "xfer_inv ?W")
proof -
  note i = xfer_invD [OF inv]
  obtain k s1 where k: "transfer_id_alloc (xs W) t = Some (k, s1)"
    "s = set_xfer s1 t \<lparr>x_id = k, x_no_completion = nc, x_claimed = False, x_zombie = False, x_done = False,
       x_result = 0, x_status = 0\<rparr>"
    using a by (auto simp: alloc_mx_transfer_def split: option.split_asm)
  note f = id_alloc_free [OF k(1)]
  have nt: "t \<notin> own W" "t \<notin> set (zombie_list (xs W))" "t \<notin> inflight (xs W)" using i(6,10) n by auto
  have old: "x_id y \<noteq> k \<or> x_claimed y" if "xheap (xs W) u = Some y" for u y
    using i(8) [OF that] f(1) by (auto simp: xfer_ok_def)
  have ns: "t \<notin> queued W" using i(3) nt by auto
  show ?thesis
  proof (rule xfer_invI)
    fix u y assume y: "xheap (xs ?W) u = Some y"
    show "xfer_ok ?W u y"
    proof (cases "u = t")
      case True
      then show ?thesis using y f(2) nt ns by (auto simp: xfer_ok_def k(2) f(3) set_xfer_def)
    next
      case False
      then have "xheap (xs W) u = Some y" using y by (simp add: k(2) f(3) set_xfer_def)
      then show ?thesis using i(8) [of u y] old [of u y] False f(1) by (auto simp: xfer_ok_def k(2) f(3) set_xfer_def)
    qed
  next
    fix j u assume "idr (xs ?W) j = Some u"
    then show "\<exists>x. xheap (xs ?W) u = Some x \<and> x_id x = j"
      using i(9) [of j u] n by (auto simp: k(2) f(3) set_xfer_def split: if_split_asm)
  qed (use i nt ns in \<open>auto simp: k(2) f(3) set_xfer_def\<close>)
qed

lemma enqueue_inv:
  assumes inv: "xfer_inv W" and ts: "set ts \<subseteq> staged W" "distinct ts"
  shows "xfer_inv (W\<lparr>xs := mx_transfer_queue_parallel (xs W) ts, staged := staged W - set ts\<rparr>)" (is "xfer_inv ?W")
proof -
  note i = xfer_invD [OF inv]
  show ?thesis
  proof (rule xfer_invI)
    fix u y assume "xheap (xs ?W) u = Some y"
    then show "xfer_ok ?W u y" using i(8) [of u y] ts by (auto simp: xfer_ok_def mx_transfer_queue_parallel_def)
  qed (use i ts in \<open>auto simp: mx_transfer_queue_parallel_def\<close>)
qed

lemma xpush_inv:
  assumes inv: "xfer_inv W" and p: "submit_one now (xs W) = Some s"
  shows "xfer_inv (W\<lparr>xs := s\<rparr>)" (is "xfer_inv ?W")
proof -
  note i = xfer_invD [OF inv]
  obtain t ts x where h: "sq_list (xq (xs W)) = t # ts" "xheap (xs W) t = Some x"
    using p by (auto simp: submit_one_def split: list.split_asm option.split_asm)
  let ?q = "submit_account (x_no_completion x) now ((xq (xs W))\<lparr>sq_list := ts\<rparr>)"
  have s: "s = (if x_no_completion x then set_xfer ((xs W)\<lparr>xq := ?q\<rparr>) t (x\<lparr>x_done := True\<rparr>)
      else (xs W)\<lparr>xq := ?q, inflight := insert t (inflight (xs W))\<rparr>)"
    using p h by (cases "x_no_completion x") (auto simp: submit_one_def Let_def)
  have nt: "t \<notin> set ts" "t \<notin> inflight (xs W)" "t \<notin> staged W" using i(1,4,8) h by (auto simp: xfer_ok_def)
  have fin: "finite (inflight (xs W))" by (rule inflight_finite [OF inv])
  show ?thesis
  proof (rule xfer_invI)
    fix u y assume "xheap (xs ?W) u = Some y"
    then show "xfer_ok ?W u y"
      using i(8) [of u] i(8) [OF h(2)] h nt
      by (cases "u = t") (auto simp: xfer_ok_def s set_xfer_def split: if_split_asm)
  next
    fix j u assume "idr (xs ?W) j = Some u"
    then show "\<exists>x. xheap (xs ?W) u = Some x \<and> x_id x = j"
      using i(9) [of j u] h by (auto simp: s set_xfer_def split: if_split_asm)
  qed (use i h nt fin in \<open>auto simp: s set_xfer_def submit_account_count split: if_split_asm\<close>)
qed

text \<open>A completion of an in-flight command claims exactly the transfer it was for.\<close>

lemma complete_claims:
  assumes inv: "xfer_inv W" and fl: "t \<in> inflight (xs W)" and x: "xheap (xs W) t = Some x"
    and e: "info_id info = int (x_id x)"
  defines "x1 \<equiv> x\<lparr>x_claimed := True\<rparr>"
  defines "x2 \<equiv> (if x_zombie x then x1
      else x1\<lparr>x_result := info_result info, x_status := info_status info, x_done := True\<rparr>)"
  shows "complete_one now now_ns info (xs W) = (Some t, (xs W)\<lparr>
      xq := (complete_liveness now now_ns (info_id info) (xq (xs W)))\<lparr>wait_count := wait_count (xq (xs W)) - 1\<rparr>,
      xheap := (xheap (xs W))(t := Some x2), idr := (idr (xs W))(x_id x := None)\<rparr>)"
proof -
  have ok: "\<not> x_claimed x" "x_id x < MX_PING_ID" "idr (xs W) (x_id x) = Some t"
    using xfer_invD(8) [OF inv x] fl by (auto simp: xfer_ok_def)
  have "info_id info \<noteq> int MX_PING_ID" using e ok(2) by simp
  then show ?thesis using ok x e
    by (cases "xs W")
      (simp add: complete_one_def transfer_id_claim_completion_def set_xfer_def Let_def x1_def x2_def)
qed

lemma completion_inv:
  assumes inv: "xfer_inv W" and fl: "t \<in> inflight (xs W)" and x: "xheap (xs W) t = Some x"
    and e: "info_id info = int (x_id x)" and c: "complete_one now now_ns info (xs W) = (r, s)"
  shows "xfer_inv (W\<lparr>xs := s\<lparr>inflight := inflight s - {t}\<rparr>\<rparr>)" (is "xfer_inv ?W")
proof -
  note i = xfer_invD [OF inv]
  define x2 where "x2 = (if x_zombie x then x\<lparr>x_claimed := True\<rparr>
      else x\<lparr>x_claimed := True, x_result := info_result info, x_status := info_status info, x_done := True\<rparr>)"
  have s: "s = (xs W)\<lparr>xq := (complete_liveness now now_ns (info_id info) (xq (xs W)))\<lparr>wait_count := wait_count (xq (xs W)) - 1\<rparr>,
      xheap := (xheap (xs W))(t := Some x2), idr := (idr (xs W))(x_id x := None)\<rparr>"
    using c complete_claims [OF inv fl x e, of now now_ns] by (simp add: x2_def cong: if_cong)
  have x2: "x_claimed x2" "x_no_completion x2 = x_no_completion x" "x_zombie x2 = x_zombie x" "x_id x2 = x_id x"
    by (simp_all add: x2_def)
  have fin: "finite (inflight (xs W))" by (rule inflight_finite [OF inv])
  have ok: "idr (xs W) (x_id x) = Some t" "t \<notin> staged W" "t \<notin> queued W" "\<not> x_no_completion x" "x_id x < MX_PING_ID"
      "x_zombie x \<longleftrightarrow> t \<in> set (zombie_list (xs W))"
    using i(8) [OF x] fl by (auto simp: xfer_ok_def)
  have cd: "int (card (inflight (xs W) - {t})) = int (card (inflight (xs W))) - 1"
    unfolding card_Suc_Diff1 [OF fin fl, symmetric] by simp
  show ?thesis
  proof (rule xfer_invI)
    fix u y assume y: "xheap (xs ?W) u = Some y"
    show "xfer_ok ?W u y"
    proof (cases "u = t")
      case True
      then have "y = x2" using y by (simp add: s)
      then show ?thesis using True ok x2 by (auto simp: xfer_ok_def s)
    next
      case False
      then have "xheap (xs W) u = Some y" using y by (simp add: s)
      then show ?thesis using i(8) [of u y] False ok(1) by (auto simp: xfer_ok_def s)
    qed
  next
    fix j u assume "idr (xs ?W) j = Some u"
    then show "\<exists>x. xheap (xs ?W) u = Some x \<and> x_id x = j"
      using i(9) [of j u] x2(4) x by (auto simp: s split: if_split_asm)
  qed (use i x cd in \<open>auto simp: s\<close>)
qed

lemma pong_inv:
  assumes inv: "xfer_inv W" and e: "info_id info = int MX_PING_ID" and c: "complete_one now now_ns info (xs W) = (r, s)"
  shows "xfer_inv (W\<lparr>xs := s\<rparr>)"
proof -
  note i = xfer_invD [OF inv]
  have s: "s = (xs W)\<lparr>xq := complete_liveness now now_ns (info_id info) (xq (xs W))\<rparr>"
    using c e by (simp add: complete_one_def Let_def)
  show ?thesis
  proof (rule xfer_invI)
    fix u y assume "xheap (xs (W\<lparr>xs := s\<rparr>)) u = Some y"
    then show "xfer_ok (W\<lparr>xs := s\<rparr>) u y" using i(8) [of u y] by (auto simp: xfer_ok_def s)
  qed (use i in \<open>simp_all add: s\<close>)
qed

lemma park_inv:
  assumes inv: "xfer_inv W" and t: "t \<in> own W" "t \<notin> staged W" "t \<notin> queued W" and x: "xheap (xs W) t = Some x"
    and nc: "\<not> x_no_completion x"
  shows "xfer_inv (W\<lparr>xs := park_zombie (xs W) t, own := own W - {t}\<rparr>)" (is "xfer_inv ?W")
proof -
  note i = xfer_invD [OF inv]
  have s: "park_zombie (xs W) t = (xs W)\<lparr>xheap := (xheap (xs W))(t := Some (x\<lparr>x_zombie := True\<rparr>)),
      xq := (xq (xs W))\<lparr>zombie_wait_count := zombie_wait_count (xq (xs W)) + 1\<rparr>, zombie_list := zombie_list (xs W) @ [t]\<rparr>"
    using x by (simp add: park_zombie_def set_xfer_def)
  have nz: "t \<notin> set (zombie_list (xs W))" using i(5) t(1) by auto
  show ?thesis
  proof (rule xfer_invI)
    fix u y assume y: "xheap (xs ?W) u = Some y"
    show "xfer_ok ?W u y"
    proof (cases "u = t")
      case True
      then have "y = x\<lparr>x_zombie := True\<rparr>" using y by (simp add: s)
      then show ?thesis using True i(8) [OF x] nc t by (auto simp: xfer_ok_def s)
    next
      case False
      then have "xheap (xs W) u = Some y" using y by (simp add: s)
      then show ?thesis using i(8) [of u y] False by (auto simp: xfer_ok_def s)
    qed
  next
    fix j u assume "idr (xs ?W) j = Some u"
    then show "\<exists>x. xheap (xs ?W) u = Some x \<and> x_id x = j"
      using i(9) [of j u] x by (auto simp: s)
  qed (use i t x nz in \<open>auto simp: s\<close>)
qed

lemma recover_inv:
  assumes inv: "xfer_inv W" and t: "t \<in> queued W" and x: "xheap (xs W) t = Some x"
  shows "xfer_inv (W\<lparr>xs := release_mx_transfer ((xs W)\<lparr>xq := (xq (xs W))\<lparr>sq_list := remove1 t (sq_list (xq (xs W)))\<rparr>\<rparr>) t,
     own := own W - {t}\<rparr>)"
proof -
  note i = xfer_invD [OF inv]
  let ?s = "(xs W)\<lparr>xq := (xq (xs W))\<lparr>sq_list := remove1 t (sq_list (xq (xs W)))\<rparr>\<rparr>"
  let ?W = "W\<lparr>xs := ?s, staged := insert t (staged W)\<rparr>"
  have nt: "t \<notin> set (remove1 t (sq_list (xq (xs W))))" using i(1) by simp
  have fl: "t \<notin> inflight (xs W)" "t \<notin> set (zombie_list (xs W))" "t \<notin> staged W"
    using i(8) [OF x] i(3-5) t by (auto simp: xfer_ok_def)
  have "xfer_inv ?W"
  proof (rule xfer_invI)
    fix u y assume "xheap (xs ?W) u = Some y"
    then show "xfer_ok ?W u y" using i(1) i(8) [of u y] t by (auto simp: xfer_ok_def)
  qed (use i t nt in \<open>auto simp: distinct_remove1\<close>)
  from release_inv [OF this, of t x] x fl nt show ?thesis by (simp add: insert_absorb Diff_insert0)
qed


lemma own_release_inv:
  assumes inv: "xfer_inv W" and t: "t \<in> own W" "t \<notin> staged W" "t \<notin> queued W" and x: "xheap (xs W) t = Some x" "x_done x"
  shows "xfer_inv (W\<lparr>xs := release_mx_transfer (xs W) t, own := own W - {t}\<rparr>)"
proof -
  have "t \<notin> inflight (xs W)" "t \<notin> set (zombie_list (xs W))"
    using xfer_invD(5,8) [OF inv] x t by (auto simp: xfer_ok_def)
  from release_inv [OF inv x(1) this(1) t(3) this(2)] t(2) show ?thesis by simp
qed

lemma done_not_queued: "\<lbrakk> xfer_inv W; xheap (xs W) t = Some x; x_done x \<rbrakk> \<Longrightarrow> t \<notin> queued W"
  using xfer_invD(8) [of W t x] by (auto simp: xfer_ok_def)

lemma wait_inv:
  assumes inv: "xfer_inv W" and t: "t \<in> own W - staged W" and x: "xheap (xs W) t = Some x" and nc: "\<not> x_no_completion x"
    and left: "0 < left \<longrightarrow> x_done x" and late: "late \<longrightarrow> x_done x \<or> t \<in> queued W"
    and w: "mx_transfer_wait (xs W) t n left dead late = (r, st, s)"
  shows "xfer_inv (W\<lparr>xs := s, own := own W - {t}\<rparr>)"
proof -
  have t': "t \<in> own W" "t \<notin> staged W" using t by auto
  note q = done_not_queued [OF inv x]
  consider (completed) "x_done x" "s = release_mx_transfer (xs W) t"
    | (recovered) "t \<in> queued W"
        "s = release_mx_transfer ((xs W)\<lparr>xq := (xq (xs W))\<lparr>sq_list := remove1 t (sq_list (xq (xs W)))\<rparr>\<rparr>) t"
    | (zombie) "t \<notin> queued W" "s = park_zombie (xs W) t"
    using w left late
    by (auto simp: mx_transfer_wait_def mx_transfer_remove_from_sq_def Let_def split: if_split_asm)
  then show ?thesis
  proof cases
    case completed
    then show ?thesis using own_release_inv [OF inv t' q x] by simp
  next
    case recovered
    then show ?thesis using recover_inv [OF inv _ x] by simp
  next
    case zombie
    then show ?thesis using park_inv [OF inv t' _ x nc] by simp
  qed
qed

lemma passthru_inv:
  assumes inv: "xfer_inv W" and t: "t \<in> own W - staged W" and x: "xheap (xs W) t = Some x" and nc: "nc = x_no_completion x"
    and left: "0 < left \<longrightarrow> x_done x" and late: "nc \<longrightarrow> x_done x \<or> t \<in> queued W"
    and w: "passthru_wait (xs W) t nc left = (r, s)"
  shows "xfer_inv (W\<lparr>xs := s, own := own W - {t}\<rparr>)"
proof -
  have t': "t \<in> own W" "t \<notin> staged W" using t by auto
  note q = done_not_queued [OF inv x]
  consider (completed) "x_done x" "s = release_mx_transfer (xs W) t"
    | (recovered) "t \<in> queued W"
        "s = release_mx_transfer ((xs W)\<lparr>xq := (xq (xs W))\<lparr>sq_list := remove1 t (sq_list (xq (xs W)))\<rparr>\<rparr>) t"
    | (zombie) "t \<notin> queued W" "\<not> x_no_completion x" "s = park_zombie (xs W) t"
    using w left late nc
    by (auto simp: passthru_wait_def mx_transfer_remove_from_sq_def Let_def split: if_split_asm)
  then show ?thesis
  proof cases
    case completed
    then show ?thesis using own_release_inv [OF inv t' q x] by simp
  next
    case recovered
    then show ?thesis using recover_inv [OF inv _ x] by simp
  next
    case zombie
    then show ?thesis using park_inv [OF inv t' _ x] by simp
  qed
qed

text \<open>Draining one claimed zombie, wherever it stands on the zombie list.\<close>

lemma drain_one_inv:
  assumes inv: "xfer_inv W" and z: "t \<in> set (zombie_list (xs W))" and h: "hw_done (xs W) t"
  shows "xfer_inv (W\<lparr>xs := drain_one ((xs W)\<lparr>zombie_list := remove1 t (zombie_list (xs W))\<rparr>) t\<rparr>)"
proof -
  note i = xfer_invD [OF inv]
  obtain x where x: "xheap (xs W) t = Some x" "x_claimed x" using h by (auto simp: hw_done_def split: option.split_asm)
  have nt: "t \<notin> own W" "t \<notin> staged W" "t \<notin> queued W" "t \<notin> inflight (xs W)" using i(3,5) i(8) [OF x(1)] z x(2)
    by (auto simp: xfer_ok_def)
  let ?s = "(xs W)\<lparr>xheap := (xheap (xs W))(t := Some (x\<lparr>x_zombie := False\<rparr>)), zombie_list := remove1 t (zombie_list (xs W)),
     xq := (xq (xs W))\<lparr>zombie_wait_count := zombie_wait_count (xq (xs W)) - 1\<rparr>\<rparr>"
  let ?W = "W\<lparr>xs := ?s, own := insert t (own W)\<rparr>"
  have len: "int (length (remove1 t (zombie_list (xs W)))) = int (length (zombie_list (xs W))) - 1"
    using length_pos_if_in_set [OF z] by (simp only: length_remove1 z if_True of_nat_diff Suc_leI One_nat_def of_nat_Suc of_nat_0 add_0_right)
  have w: "xfer_inv ?W"
  proof (rule xfer_invI)
    fix u y assume y: "xheap (xs ?W) u = Some y"
    show "xfer_ok ?W u y"
    proof (cases "u = t")
      case True
      then have "y = x\<lparr>x_zombie := False\<rparr>" using y by simp
      then show ?thesis using True i(8) [OF x(1)] i(2) by (auto simp: xfer_ok_def)
    next
      case False
      then show ?thesis using y i(8) [of u y] i(2) by (auto simp: xfer_ok_def)
    qed
  next
    fix j u assume "idr (xs ?W) j = Some u"
    then show "\<exists>x. xheap (xs ?W) u = Some x \<and> x_id x = j" using i(9) [of j u] x by auto
  qed (use i nt z x len in \<open>auto simp: distinct_remove1\<close>)
  have "xfer_inv (?W\<lparr>xs := release_mx_transfer ?s t, own := own ?W - {t}, staged := staged ?W - {t}\<rparr>)"
    using release_inv [OF w, of t "x\<lparr>x_zombie := False\<rparr>"] nt i(2) by simp
  moreover have "drain_one ((xs W)\<lparr>zombie_list := remove1 t (zombie_list (xs W))\<rparr>) t = release_mx_transfer ?s t"
    using x by (simp add: drain_one_def release_mx_transfer_def transfer_id_free_def Let_def)
  ultimately show ?thesis using nt by simp
qed

lemma drain_one_fields [simp]:
  "sq_list (xq (drain_one s t)) = sq_list (xq s)" "inflight (drain_one s t) = inflight s"
  "zombie_list (drain_one s t) = zombie_list s" "xheap (drain_one s t) = (xheap s)(t := None)"
  by (auto simp: drain_one_def Let_def split: option.split)

lemma drain_one_zombies: "drain_one (s\<lparr>zombie_list := l\<rparr>) t = (drain_one s t)\<lparr>zombie_list := l\<rparr>"
  by (simp add: drain_one_def release_mx_transfer_def transfer_id_free_def Let_def split: option.split)

lemma drain_zombies: "drain_zombie_list (s\<lparr>zombie_list := l\<rparr>) ts = (drain_zombie_list s ts)\<lparr>zombie_list := l\<rparr>"
  by (induction ts arbitrary: s) (simp_all add: drain_zombie_list_def drain_one_zombies)

lemma drain_list_inv:
  "\<lbrakk> xfer_inv W; set ts \<subseteq> set (zombie_list (xs W)); distinct ts; \<forall>t\<in>set ts. hw_done (xs W) t \<rbrakk>
   \<Longrightarrow> xfer_inv (W\<lparr>xs := drain_zombie_list ((xs W)\<lparr>zombie_list := filter (\<lambda>t. t \<notin> set ts) (zombie_list (xs W))\<rparr>) ts\<rparr>)"
proof (induction ts arbitrary: W)
  case Nil
  then show ?case by (simp add: drain_zombie_list_def)
next
  case (Cons t ts)
  let ?l = "remove1 t (zombie_list (xs W))"
  let ?W = "W\<lparr>xs := drain_one ((xs W)\<lparr>zombie_list := ?l\<rparr>) t\<rparr>"
  have d: "distinct (zombie_list (xs W))" by (rule xfer_invD(2) [OF Cons.prems(1)])
  have inv: "xfer_inv ?W" using drain_one_inv [OF Cons.prems(1), of t] Cons.prems by simp
  have f: "filter (\<lambda>u. u \<notin> set ts) ?l = filter (\<lambda>u. u \<notin> set (t # ts)) (zombie_list (xs W))"
    by (auto simp: distinct_remove1_removeAll [OF d] removeAll_filter_not_eq intro: filter_cong)
  have "xfer_inv (?W\<lparr>xs := drain_zombie_list ((xs ?W)\<lparr>zombie_list := filter (\<lambda>u. u \<notin> set ts) (zombie_list (xs ?W))\<rparr>) ts\<rparr>)"
  proof (rule Cons.IH [OF inv])
    show "set ts \<subseteq> set (zombie_list (xs ?W))" using Cons.prems d by auto
    show "\<forall>t\<in>set ts. hw_done (xs ?W) t" using Cons.prems by (auto simp: hw_done_def)
  qed (use Cons.prems in simp)
  moreover have "drain_zombie_list ((xs ?W)\<lparr>zombie_list := filter (\<lambda>u. u \<notin> set ts) (zombie_list (xs ?W))\<rparr>) ts =
      drain_zombie_list ((xs W)\<lparr>zombie_list := filter (\<lambda>u. u \<notin> set (t # ts)) (zombie_list (xs W))\<rparr>) (t # ts)"
    using f by (simp add: drain_zombie_list_def drain_one_zombies)
  ultimately show ?case by simp
qed

lemma cleanup_inv:
  assumes inv: "xfer_inv W"
  shows "xfer_inv (W\<lparr>xs := zombie_cleanup_round (xs W)\<rparr>)"
proof -
  let ?ts = "filter (hw_done (xs W)) (zombie_list (xs W))"
  have f: "filter (\<lambda>t. t \<notin> set ?ts) (zombie_list (xs W)) = filter (\<lambda>t. \<not> hw_done (xs W) t) (zombie_list (xs W))"
    by (rule filter_cong) auto
  have "xfer_inv (W\<lparr>xs := drain_zombie_list ((xs W)\<lparr>zombie_list := filter (\<lambda>t. t \<notin> set ?ts) (zombie_list (xs W))\<rparr>) ?ts\<rparr>)"
    by (rule drain_list_inv [OF inv]) (use xfer_invD(2) [OF inv] in auto)
  then show ?thesis by (simp only: f zombie_cleanup_round_def)
qed

lemma xfer_reachable_inv: "xfer_reachable W \<Longrightarrow> xfer_inv W"
proof (induction rule: xfer_reachable.induct)
  case (init now)
  show ?case by (rule xfer_init_inv)
next
  case (alloc W t nc t' s)
  then show ?case by (intro alloc_inv)
next
  case (init_failed W t)
  note i = xfer_invD [OF init_failed.IH]
  have "t \<in> own W" "t \<notin> set (zombie_list (xs W))" "t \<notin> queued W" using init_failed(2) i(3-5) by auto
  moreover from this(1) obtain x where x: "xheap (xs W) t = Some x" using i(6) by auto
  moreover have "t \<notin> inflight (xs W)" using i(8) [OF x] init_failed(2) by (auto simp: xfer_ok_def)
  ultimately show ?case using release_inv [OF init_failed.IH x] by simp
next
  case (enqueue W ts)
  then show ?case by (intro enqueue_inv)
next
  case (push W now s)
  then show ?case by (intro xpush_inv)
next
  case (completion W t x info now now_ns r s)
  then show ?case by (intro completion_inv)
next
  case (pong W info now now_ns r s)
  then show ?case by (intro pong_inv)
next
  case (wait W t x left late n dead r st s)
  then show ?case by (intro wait_inv)
next
  case (passthru W t x nc left rp s)
  then show ?case by (intro passthru_inv)
next
  case (cleanup W)
  then show ?case by (intro cleanup_inv)
qed

end
