(* ===== verification/Xfer_Correct.thy ===== *)
theory Xfer_Correct
  imports Xfer_Inv
begin

text \<open>
  What the invariant gives: no transfer the device may still touch is freed, a completion reaches the
  transfer it is for exactly once, finished zombies are reclaimed, and a wait ends.
\<close>

section \<open>A run\<close>

text \<open>Two transfers: the first is pushed and parked as a zombie, the second is pushed, the first completes.\<close>

lemma id_alloc_next:
  assumes "idr s (idr_next s) = None" "idr_next s < MX_PING_ID"
  shows "transfer_id_alloc s t = Some (idr_next s, s\<lparr>idr := (idr s)(idr_next s := Some t), idr_next := idr_next s + 1\<rparr>)"
  unfolding transfer_id_alloc_def upt_conv_Cons [OF assms(2)] using assms(1) by simp

definition xfer0 :: mx_transfer where
  "xfer0 = \<lparr>x_id = 0, x_no_completion = False, x_claimed = False, x_zombie = False, x_done = False, x_result = 0, x_status = 0\<rparr>"

definition qst :: "nat list \<Rightarrow> int \<Rightarrow> int \<Rightarrow> nat mx_queue" where
  "qst l w z = \<lparr>sq_list = l, wait_count = w, zombie_wait_count = z, lv_health = MX_LIVENESS_ALIVE, lv_inflight = False,
     lv_sent_ns = 0, lv_progress_jiffies = 0, lv_rtt_ns = 0\<rparr>"

definition wst :: "nat mx_queue \<Rightarrow> (nat \<Rightarrow> mx_transfer option) \<Rightarrow> (nat \<Rightarrow> nat option) \<Rightarrow> nat \<Rightarrow> nat list \<Rightarrow> nat set \<Rightarrow>
    nat set \<Rightarrow> nat set \<Rightarrow> xfer_world" where
  "wst q h d n z f ow st = \<lparr>xs = \<lparr>xq = q, xheap = h, idr = d, idr_next = n, zombie_list = z, inflight = f\<rparr>, own = ow, staged = st\<rparr>"

definition heap2 :: "bool \<Rightarrow> bool \<Rightarrow> nat \<Rightarrow> mx_transfer option" where
  "heap2 cl zo = [7 \<mapsto> xfer0\<lparr>x_claimed := cl, x_zombie := zo\<rparr>, 8 \<mapsto> xfer0\<lparr>x_id := 1\<rparr>]"

abbreviation (input) "idr2 \<equiv> (\<lambda>_. None)(0 := Some (7::nat), Suc 0 := Some 8)"

lemma run_staged: "xfer_reachable (wst (qst [] 0 0) (heap2 False False) idr2 2 [] {} {7, 8} {7, 8})"
proof -
  have i: "wst (qst [] 0 0) (\<lambda>_. None) (\<lambda>_. None) 0 [] {} {} {} = xfer_init 0"
    by (simp add: wst_def qst_def xfer_init_def mx_queue_common_init_def)
  have r0: "xfer_reachable (wst (qst [] 0 0) (\<lambda>_. None) (\<lambda>_. None) 0 [] {} {} {})" unfolding i by (rule xfer_reachable.init)
  note r1 = xfer_reachable.alloc [OF r0, of 7 False]
  have r1': "xfer_reachable (wst (qst [] 0 0) [7 \<mapsto> xfer0] ((\<lambda>_. None)(0 := Some 7)) (Suc 0) [] {} {7} {7})"
    using r1 by (simp add: alloc_mx_transfer_def id_alloc_next set_xfer_def wst_def xfer0_def)
  note r2 = xfer_reachable.alloc [OF r1', of 8 False]
  have "xfer_reachable (wst (qst [] 0 0) (heap2 False False) idr2 2 [] {} {8, 7} {8, 7})"
    using r2 by (simp add: alloc_mx_transfer_def id_alloc_next set_xfer_def wst_def xfer0_def heap2_def numeral_2_eq_2)
  then show ?thesis by (simp only: insert_commute)
qed

lemma run_both_pushed: "xfer_reachable (wst (qst [] 2 0) (heap2 False False) idr2 2 [] {7, 8} {7, 8} {})"
proof -
  note r1 = xfer_reachable.enqueue [OF run_staged, of "[7, 8]"]
  have r1': "xfer_reachable (wst (qst [7, 8] 0 0) (heap2 False False) idr2 2 [] {} {7, 8} {})"
    using r1 by (simp add: mx_transfer_queue_parallel_def wst_def qst_def)
  note r2 = xfer_reachable.push [OF r1', of 0]
  have r2': "xfer_reachable (wst (qst [8] 1 0) (heap2 False False) idr2 2 [] {7} {7, 8} {})"
    using r2 by (simp add: submit_one_def wst_def qst_def heap2_def xfer0_def submit_account_def mx_queue_common_init_def Let_def)
  note r3 = xfer_reachable.push [OF r2', of 0]
  have r3': "xfer_reachable (wst (qst [] 2 0) (heap2 False False) idr2 2 [] {8, 7} {7, 8} {})"
    using r3 by (simp add: submit_one_def wst_def qst_def heap2_def xfer0_def submit_account_def mx_queue_common_init_def Let_def)
  then show ?thesis by (simp only: insert_commute)
qed


definition completion7 :: mx_completion_info where "completion7 = \<lparr>info_id = 0, info_result = 5, info_status = 0\<rparr>"

text \<open>The submitter of the first transfer gives up; later its completion arrives.\<close>

lemma run_zombie: "xfer_reachable (wst (qst [] 2 1) (heap2 False True) idr2 2 [7] {7, 8} {8} {})"
  using xfer_reachable.wait [OF run_both_pushed, of 7 xfer0 0 False 4096 True "Inl EIO" MX_DMA_WAIT_ZOMBIE]
  by (simp add: mx_transfer_wait_def mx_transfer_remove_from_sq_def park_zombie_def wst_def qst_def heap2_def xfer0_def
      set_xfer_def Let_def fun_upd_twist)

lemma run_late: "xfer_reachable (wst (qst [] 1 1) (heap2 True True) ((\<lambda>_. None)(Suc 0 := Some 8)) 2 [7] {8} {8} {})"
  using xfer_reachable.completion [OF run_zombie, of 7 "xfer0\<lparr>x_zombie := True\<rparr>" completion7 0 0]
  by (simp add: complete_one_def complete_liveness_def transfer_id_claim_completion_def completion7_def wst_def qst_def
      heap2_def xfer0_def set_xfer_def Let_def fun_upd_twist)


section \<open>Properties\<close>

text \<open>C21. No transfer the device may still touch is freed: in every interleaving of submitters, handlers,
  time-outs and the zombie cleaner, each command the device holds belongs to an allocated transfer that
  the id table still finds under its id, that is on no submission list, and whose submitter either still
  waits or has parked it on the zombie list. The wait count is the number of such commands and the
  zombie count the length of the zombie list.\<close>

theorem no_free_in_flight:
  assumes "xfer_reachable W"
  shows "(\<forall>t. t \<in> inflight (xs W) \<longrightarrow>
       (\<exists>x. xheap (xs W) t = Some x \<and> idr (xs W) (x_id x) = Some t \<and> t \<notin> set (sq_list (xq (xs W))) \<and>
            (if x_zombie x then t \<in> set (zombie_list (xs W)) else t \<in> own W))) \<and>
     wait_count (xq (xs W)) = int (card (inflight (xs W))) \<and>
     zombie_wait_count (xq (xs W)) = int (length (zombie_list (xs W)))"
proof -
  note i = xfer_invD [OF xfer_reachable_inv [OF assms]]
  have "\<exists>x. xheap (xs W) t = Some x \<and> idr (xs W) (x_id x) = Some t \<and> t \<notin> set (sq_list (xq (xs W))) \<and>
            (if x_zombie x then t \<in> set (zombie_list (xs W)) else t \<in> own W)" if t: "t \<in> inflight (xs W)" for t
  proof -
    obtain x where x: "xheap (xs W) t = Some x" using i(10) t by auto
    have "t \<in> own W \<union> set (zombie_list (xs W))" using i(6) x by auto
    with i(8) [OF x] x t show ?thesis by (auto simp: xfer_ok_def)
  qed
  with i(11,12) show ?thesis by blast
qed

theorem no_free_in_flight_witness:
  "heap2 False True 7 \<noteq> None \<and> (7::nat) \<in> set [7] \<and> wait_count (qst [] 2 1) = int (card {7::nat, 8})"
  using no_free_in_flight [OF run_zombie] by (simp add: wst_def heap2_def xfer0_def)

text \<open>C22. A completion reaches exactly the transfer it is for, once: consuming the completion of a command in
  flight claims that transfer, leaves every other one alone and takes the id out of the table; a
  submitter that still waits is signalled with the device's result and status, a zombie is only marked as
  finished; a second completion with the same id claims nothing.\<close>

theorem completion_exactly_once:
  assumes "xfer_reachable W" "t \<in> inflight (xs W)" "xheap (xs W) t = Some x" "info_id info = int (x_id x)"
  shows "case complete_one now now_ns info (xs W) of (r, s) \<Rightarrow>
     r = Some t \<and> wait_count (xq s) = wait_count (xq (xs W)) - 1 \<and>
     (\<forall>u. u \<noteq> t \<longrightarrow> xheap s u = xheap (xs W) u) \<and>
     (\<exists>y. xheap s t = Some y \<and> x_claimed y \<and>
        (if x_zombie x then x_done y = x_done x
         else x_done y \<and> x_result y = info_result info \<and> x_status y = info_status info)) \<and>
     fst (complete_one now2 now_ns2 info s) = None"
proof -
  note inv = xfer_reachable_inv [OF assms(1)]
  have "x_id x < MX_PING_ID" using xfer_invD(8) [OF inv assms(3)] by (simp add: xfer_ok_def)
  then have p: "info_id info \<noteq> int MX_PING_ID" using assms(4) by simp
  show ?thesis
    using p by (simp add: complete_claims [OF inv assms(2-4)])
      (simp add: complete_one_def transfer_id_claim_completion_def assms(4) Let_def)
qed

theorem completion_exactly_once_witness:
  "fst (complete_one 0 0 completion7 (xs (wst (qst [] 2 1) (heap2 False True) idr2 2 [7] {7, 8} {8} {}))) = Some 7"
  using completion_exactly_once [OF run_zombie, where t = 7 and x = "xfer0\<lparr>x_zombie := True\<rparr>" and info = completion7
      and now = 0 and now_ns = 0 and ?now2.0 = 0 and ?now_ns2.0 = 0]
  by (simp add: wst_def heap2_def xfer0_def completion7_def split: prod.split_asm)

text \<open>A round of the cleaner frees the claimed zombies and nothing else.\<close>

lemma drain_heap: "xheap (drain_zombie_list s ts) t = (if t \<in> set ts then None else xheap s t)"
  by (induction ts arbitrary: s) (auto simp: drain_zombie_list_def)

lemma drain_keeps:
  "zombie_list (drain_zombie_list s ts) = zombie_list s" "inflight (drain_zombie_list s ts) = inflight s"
  by (induction ts arbitrary: s) (simp_all add: drain_zombie_list_def)

text \<open>C23. Zombies are reclaimed, and only when it is safe: one round of the cleaner frees exactly the zombies
  whose completion has arrived, keeps every other transfer with its list and the device's commands
  untouched, and the counters and id table stay exact. The final drain frees every zombie when the
  teardown has established that the device can no longer touch them, and nothing otherwise.\<close>

theorem zombies_reclaimed:
  assumes "xfer_reachable W"
  shows "(\<forall>t. xheap (zombie_cleanup_round (xs W)) t =
        (if t \<in> set (zombie_list (xs W)) \<and> hw_done (xs W) t then None else xheap (xs W) t)) \<and>
     inflight (zombie_cleanup_round (xs W)) = inflight (xs W) \<and>
     xfer_inv (W\<lparr>xs := zombie_cleanup_round (xs W)\<rparr>) \<and>
     (\<forall>t. xheap (zombie_cleanup_final safe (xs W)) t =
        (if safe \<and> t \<in> set (zombie_list (xs W)) then None else xheap (xs W) t)) \<and>
     zombie_list (zombie_cleanup_final safe (xs W)) = (if safe then [] else zombie_list (xs W))"
  using cleanup_inv [OF xfer_reachable_inv [OF assms]]
  by (auto simp: zombie_cleanup_round_def zombie_cleanup_final_def drain_heap drain_keeps)

theorem zombies_reclaimed_witness:
  "xheap (zombie_cleanup_round (xs (wst (qst [] 1 1) (heap2 True True) ((\<lambda>_. None)(Suc 0 := Some 8)) 2 [7] {8} {8} {}))) 7 = None"
  using zombies_reclaimed [OF run_late] by (simp add: wst_def heap2_def hw_done_def xfer0_def)

text \<open>C29. A completed zombie hides a live command from the watchdog until the cleaner runs: there is a
  reachable state in which a submitter waits for a command the device holds, while the wait count minus
  the zombie count, which is how the watchdog and the complete handler count live commands, is
  zero, so that the watchdog without a probe in flight does nothing, however long ago the last
  completion was.\<close>

theorem watchdog_blind_to_live_command:
  "\<exists>W t. xfer_reachable W \<and> t \<in> own W \<and> t \<in> inflight (xs W) \<and>
     wait_count (xq (xs W)) - zombie_wait_count (xq (xs W)) = 0 \<and>
     (\<forall>to_msecs dead_cfg stall_cfg now_ns send_ns j1 j2 pushable push ping hw.
        mx_liveness_watchdog to_msecs dead_cfg stall_cfg now_ns send_ns j1 j2 pushable push ping hw (xq (xs W)) =
          (hw, xq (xs W)))"
  by (rule exI, rule exI [of _ 8], intro conjI, rule run_late)
    (simp_all add: wst_def qst_def mx_liveness_watchdog_def)

section \<open>The wait ends\<close>

text \<open>Readings of the 64-bit clock less than half its range apart compare like the times they stand for.\<close>

lemma time_before_nat:
  assumes "a < 2 ^ 62" "d < 2 ^ 62"
  shows "sint ((t + of_nat a) - (t + of_nat d) :: u64) < 0 \<longleftrightarrow> a < d"
proof -
  have "(t + of_nat a) - (t + of_nat d) = (of_int (int a - int d) :: u64)" by simp
  moreover have "sint (of_int (int a - int d) :: u64) = int a - int d"
    using assms by (simp add: signed_of_int signed_take_bit_int_eq_self del: of_int_diff)
  ultimately show ?thesis by simp
qed

lemma wait_loop_ends:
  assumes "n < length chunks" "\<And>l h j. chunks ! n = (l, h, j) \<Longrightarrow> \<not> sint (j - deadline) < 0"
  shows "wait_loop lv_on deadline (take (Suc n) chunks) \<noteq> None"
  using assms
proof (induction n arbitrary: chunks)
  case 0
  then obtain c r where "chunks = c # r" by (cases chunks) auto
  then show ?case using "0.prems"(2) by (cases c) auto
next
  case (Suc n)
  then obtain l h j r where c: "chunks = (l, h, j) # r" by (cases chunks) auto
  have "wait_loop lv_on deadline (take (Suc n) r) \<noteq> None" by (rule Suc.IH) (use Suc.prems c in auto)
  then show ?case using c by auto
qed

lemma wait_loop_gives_up:
  "wait_loop True deadline chunks = Some 0 \<Longrightarrow>
     \<exists>h j. (0, h, j) \<in> set chunks \<and> (h = MX_LIVENESS_DEAD \<or> \<not> sint (j - deadline) < 0)"
  by (induction True deadline chunks rule: wait_loop.induct) (auto split: if_split_asm)

text \<open>C27. The wait for a transfer ends, and not too early: when every chunk lasts at least c clock ticks, at most
  D / c + 1 chunks are waited for, where D is the time-out times the clamped multiplier (at most 1000);
  and with the watchdog on the wait gives up without an interruption only when the transport
  was found dead or the whole of D has passed.\<close>

theorem wait_ends:
  fixes el :: "nat \<Rightarrow> nat"
  assumes "to_jiffies timeout_ms * of_nat (wait_mult lv_on max_mult) = of_nat D" "D < 2 ^ 62" "0 < c"
    and "\<forall>k. (k + 1) * c \<le> el k \<and> (k < length chunks \<longrightarrow> el k < 2 ^ 62 \<and> (\<exists>l h. chunks ! k = (l, h, now + of_nat (el k))))"
    and "D div c < length chunks"
  shows "wait_loop lv_on (hard_deadline to_jiffies now timeout_ms (wait_mult lv_on max_mult)) (take (D div c + 1) chunks) \<noteq> None \<and>
    (lv_on \<and> wait_loop lv_on (hard_deadline to_jiffies now timeout_ms (wait_mult lv_on max_mult)) chunks = Some 0 \<longrightarrow>
      (\<exists>k. k < length chunks \<and> fst (chunks ! k) = 0 \<and> (fst (snd (chunks ! k)) = MX_LIVENESS_DEAD \<or> D \<le> el k)))"
    (is "wait_loop _ ?dl _ \<noteq> None \<and> _")
proof
  have dl: "?dl = now + of_nat D" using assms(1) by (simp add: hard_deadline_def)
  note ch = assms(4) [rule_format]
  have cmp: "sint (now + of_nat (el k) - ?dl) < 0 \<longleftrightarrow> el k < D" if "k < length chunks" for k
    unfolding dl using ch [of k] that assms(2) by (intro time_before_nat) auto
  have "D \<le> (D div c + 1) * c" using assms(3) dividend_less_div_times [of c D] by (simp add: add.commute)
  then have late: "\<not> el (D div c) < D" using ch [of "D div c"] by (meson leD order_trans)
  show "wait_loop lv_on ?dl (take (D div c + 1) chunks) \<noteq> None"
    unfolding Suc_eq_plus1 [symmetric]
  proof (rule wait_loop_ends [OF assms(5)])
    fix l h j assume "chunks ! (D div c) = (l, h, j)"
    then have "j = now + of_nat (el (D div c))" using ch [of "D div c"] assms(5) by auto
    then show "\<not> sint (j - ?dl) < 0" using cmp [OF assms(5)] late by simp
  qed
  show "lv_on \<and> wait_loop lv_on ?dl chunks = Some 0 \<longrightarrow>
      (\<exists>k. k < length chunks \<and> fst (chunks ! k) = 0 \<and> (fst (snd (chunks ! k)) = MX_LIVENESS_DEAD \<or> D \<le> el k))"
  proof
    assume w: "lv_on \<and> wait_loop lv_on ?dl chunks = Some 0"
    then obtain h j k where k: "k < length chunks" "chunks ! k = (0, h, j)"
        "h = MX_LIVENESS_DEAD \<or> \<not> sint (j - ?dl) < 0"
      using wait_loop_gives_up [of ?dl chunks] by (auto simp: in_set_conv_nth)
    then show "\<exists>k. k < length chunks \<and> fst (chunks ! k) = 0 \<and> (fst (snd (chunks ! k)) = MX_LIVENESS_DEAD \<or> D \<le> el k)"
      using cmp [OF k(1)] ch [of k] by (intro exI [of _ k]) auto
  qed
qed

definition chunks3 :: "(int \<times> mx_liveness_health \<times> u64) list" where
  "chunks3 = map (\<lambda>k. (0, MX_LIVENESS_ALIVE, of_nat (10 * (k + 1)))) [0..<7]"

theorem wait_ends_witness:
  "wait_loop True (hard_deadline of_nat 0 20 (wait_mult True 3)) (take 7 chunks3) \<noteq> None"
proof -
  have "(\<forall>k. (k + 1) * 10 \<le> 10 * (k + 1) \<and> (k < length chunks3 \<longrightarrow> 10 * (k + 1) < (2::nat) ^ 62 \<and>
      (\<exists>l h. chunks3 ! k = (l, h, 0 + of_nat (10 * (k + 1))))))"
    by (simp add: chunks3_def)
  from wait_ends [OF _ _ _ this, of of_nat 20 True 3 60] show ?thesis by (simp add: wait_mult_def chunks3_def)
qed

end
