(* ===== verification/Pci_Setup.thy ===== *)
theory Pci_Setup
  imports Mx_Prelude
begin

text \<open>
  Taking over a PCI function and giving it back: \<open>dev_map\<close>, \<open>pci_device_init\<close>, \<open>set_dma_addressing\<close> of \<open>init.c\<close> and
  what undoes them.  \<open>pci_fn\<close> is the state of the function in the kernel, \<open>pci_state\<close> adds the driver's record of
  what it changed.  The outcomes of the kernel's calls are inputs; \<open>wo_cxl\<close> is the build option \<open>CONFIG_WO_CXL\<close>.
\<close>

section \<open>State\<close>

record pci_fn =
  fn_enabled :: bool
  is_busmaster :: bool
  msi_enabled :: bool
  irq_handler :: bool
  fn_readrq :: nat
  fn_dma_mask :: u64
  fn_coherent_dma_mask :: u64
  fn_max_seg_size :: nat
  fn_min_align_mask :: u32
  fn_region_owned :: bool
  fn_iomapped :: bool

record pci_state =
  fn :: pci_fn
  irq_requested :: bool
  msi_enabled_by_driver :: bool
  readrq_changed :: bool
  min_align_mask_changed :: bool
  max_seg_size_changed :: bool
  coherent_dma_mask_changed :: bool
  dma_mask_changed :: bool
  bus_master_enabled_by_driver :: bool
  pci_enabled_by_driver :: bool
  bar_region_requested :: bool
  bar_present :: bool
  saved_readrq :: nat
  saved_dma_mask :: u64
  saved_coherent_dma_mask :: u64
  saved_max_seg_size :: nat
  saved_min_align_mask :: u32
  bar_size :: nat

text \<open>What the kernel answers; \<open>dma_set_max_seg_size\<close> cannot fail on kernels where it returns nothing.\<close>

record pci_calls =
  call_request_region :: "unit result"
  call_iomap :: bool
  call_enable_device :: "unit result"
  call_get_readrq :: "unit result"
  call_set_readrq :: "unit result"
  call_enable_msi :: "unit result"
  call_irq_vector :: bool
  call_request_irq :: "unit result"
  call_mask48 :: bool
  call_mask32 :: bool
  call_coherent :: bool
  call_max_seg :: "unit result"
  resource_len :: nat

abbreviation (input) DMA_BIT_MASK :: "nat \<Rightarrow> u64" where "DMA_BIT_MASK n \<equiv> mask n"
abbreviation (input) SZ_1G :: nat where "SZ_1G \<equiv> 2 ^ 30"
abbreviation (input) PAGE_SIZE_BYTES :: nat where "PAGE_SIZE_BYTES \<equiv> 4096"

section \<open>The BAR\<close>

definition dev_map :: "pci_calls \<Rightarrow> pci_state \<Rightarrow> unit result \<times> pci_state" where
  "dev_map k p =
     (case call_request_region k of
        Inl e \<Rightarrow> (Inl e, p)
      | Inr _ \<Rightarrow>
          if call_iomap k then
            (OK, p\<lparr>fn := (fn p)\<lparr>fn_region_owned := True, fn_iomapped := True\<rparr>, bar_region_requested := True, bar_present := True,
                  bar_size := resource_len k\<rparr>)
          else (Inl ENOMEM, p\<lparr>bar_region_requested := False\<rparr>))"

definition undo_iomap :: "pci_state \<Rightarrow> pci_state" where
  "undo_iomap p = (if bar_present p then p\<lparr>fn := (fn p)\<lparr>fn_iomapped := False\<rparr>, bar_present := False\<rparr> else p)"

definition undo_region :: "pci_state \<Rightarrow> pci_state" where
  "undo_region p =
     (if bar_region_requested p then p\<lparr>fn := (fn p)\<lparr>fn_region_owned := False\<rparr>, bar_region_requested := False\<rparr> else p)"

definition dev_unmap :: "pci_state \<Rightarrow> pci_state" where
  "dev_unmap p = undo_region (undo_iomap p)"

section \<open>The function\<close>

text \<open>The steps of \<open>pci_device_init\<close>, each of which may end it.\<close>

definition init_enable :: "bool \<Rightarrow> pci_calls \<Rightarrow> pci_state \<Rightarrow> unit result \<times> pci_state" where
  "init_enable wo_cxl k p =
     (if fn_enabled (fn p) then (OK, p)
      else if \<not> wo_cxl then (Inl ENODEV, p)
      else case call_enable_device k of
             Inl e \<Rightarrow> (Inl e, p)
           | Inr _ \<Rightarrow> (OK, p\<lparr>fn := (fn p)\<lparr>fn_enabled := True\<rparr>, pci_enabled_by_driver := True\<rparr>))"

definition init_readrq :: "pci_calls \<Rightarrow> pci_state \<Rightarrow> unit result \<times> pci_state" where
  "init_readrq k p =
     (case call_get_readrq k of
        Inl e \<Rightarrow> (Inl e, p)
      | Inr _ \<Rightarrow>
          let p = p\<lparr>saved_readrq := fn_readrq (fn p)\<rparr> in
          if saved_readrq p = PAGE_SIZE_BYTES then (OK, p)
          else case call_set_readrq k of
                 Inl e \<Rightarrow> (Inl e, p)
               | Inr _ \<Rightarrow> (OK, p\<lparr>fn := (fn p)\<lparr>fn_readrq := PAGE_SIZE_BYTES\<rparr>, readrq_changed := True\<rparr>))"

definition init_master :: "bool \<Rightarrow> pci_state \<Rightarrow> unit result \<times> pci_state" where
  "init_master wo_cxl p =
     (if is_busmaster (fn p) then (OK, p)
      else if \<not> wo_cxl then (Inl ENODEV, p)
      else (OK, p\<lparr>fn := (fn p)\<lparr>is_busmaster := True\<rparr>, bus_master_enabled_by_driver := True\<rparr>))"

definition init_msi :: "pci_calls \<Rightarrow> pci_state \<Rightarrow> unit result \<times> pci_state" where
  "init_msi k p =
     (if msi_enabled (fn p) then (OK, p)
      else case call_enable_msi k of
             Inl e \<Rightarrow> (Inl e, p)
           | Inr _ \<Rightarrow> (OK, p\<lparr>fn := (fn p)\<lparr>msi_enabled := True\<rparr>, msi_enabled_by_driver := True\<rparr>))"

definition init_irq :: "pci_calls \<Rightarrow> pci_state \<Rightarrow> unit result \<times> pci_state" where
  "init_irq k p =
     (if \<not> call_irq_vector k then (Inl ENODEV, p)
      else case call_request_irq k of
             Inl e \<Rightarrow> (Inl e, p)
           | Inr _ \<Rightarrow> (OK, p\<lparr>fn := (fn p)\<lparr>irq_handler := True\<rparr>, irq_requested := True\<rparr>))"

text \<open>One step after another, up to the first error.\<close>

fun steps :: "('a \<Rightarrow> unit result \<times> 'a) list \<Rightarrow> 'a \<Rightarrow> unit result \<times> 'a" where
  "steps [] p = (OK, p)"
| "steps (f # fs) p = (case f p of (Inl e, p) \<Rightarrow> (Inl e, p) | (Inr _, p) \<Rightarrow> steps fs p)"

definition pci_device_init :: "bool \<Rightarrow> pci_calls \<Rightarrow> pci_state \<Rightarrow> unit result \<times> pci_state" where
  "pci_device_init wo_cxl k = steps [init_enable wo_cxl k, init_readrq k, init_master wo_cxl, init_msi k, init_irq k]"

section \<open>DMA addressing\<close>

text \<open>The width that \<open>dma_set_mask\<close> accepts.\<close>

definition select_mask :: "pci_calls \<Rightarrow> u64 option" where
  "select_mask k = (if call_mask48 k then Some (DMA_BIT_MASK 48) else if call_mask32 k then Some (DMA_BIT_MASK 32) else None)"

definition dma_masks_cxl :: "pci_calls \<Rightarrow> pci_state \<Rightarrow> unit result \<times> pci_state" where
  "dma_masks_cxl k p =
     (if fn_dma_mask (fn p) = 0 then (Inl EINVAL, p)
      else let p = p\<lparr>saved_dma_mask := fn_dma_mask (fn p), saved_coherent_dma_mask := fn_coherent_dma_mask (fn p)\<rparr> in
           case select_mask k of
             None \<Rightarrow> (Inl EINVAL, p)
           | Some m \<Rightarrow>
               let p = p\<lparr>fn := (fn p)\<lparr>fn_dma_mask := m\<rparr>, dma_mask_changed := (m \<noteq> saved_dma_mask p)\<rparr> in
               if \<not> call_coherent k then (Inl EINVAL, p)
               else (OK, p\<lparr>fn := (fn p)\<lparr>fn_coherent_dma_mask := m\<rparr>, coherent_dma_mask_changed := (m \<noteq> saved_coherent_dma_mask p)\<rparr>))"

definition dma_max_seg_cxl :: "pci_calls \<Rightarrow> pci_state \<Rightarrow> unit result \<times> pci_state" where
  "dma_max_seg_cxl k p =
     (let p = p\<lparr>saved_max_seg_size := fn_max_seg_size (fn p)\<rparr> in
      if saved_max_seg_size p \<le> SZ_1G then (OK, p)
      else case call_max_seg k of
             Inl e \<Rightarrow> (Inl e, p)
           | Inr _ \<Rightarrow> (OK, p\<lparr>fn := (fn p)\<lparr>fn_max_seg_size := SZ_1G\<rparr>, max_seg_size_changed := True\<rparr>))"

definition dma_align_cxl :: "pci_state \<Rightarrow> unit result \<times> pci_state" where
  "dma_align_cxl p =
     (let p = p\<lparr>saved_min_align_mask := fn_min_align_mask (fn p)\<rparr>;
          required = saved_min_align_mask p OR of_nat (PAGE_SIZE_BYTES - 1)
      in if required = saved_min_align_mask p then (OK, p)
         else (OK, p\<lparr>fn := (fn p)\<lparr>fn_min_align_mask := required\<rparr>, min_align_mask_changed := True\<rparr>))"

definition set_dma_addressing_wo :: "pci_calls \<Rightarrow> pci_state \<Rightarrow> unit result \<times> pci_state" where
  "set_dma_addressing_wo k p =
     (case select_mask k of
        None \<Rightarrow> (Inl EINVAL, p)
      | Some m \<Rightarrow>
          let p = p\<lparr>fn := (fn p)\<lparr>fn_dma_mask := m\<rparr>\<rparr> in
          if \<not> call_coherent k then (Inl EINVAL, p)
          else (OK, p\<lparr>fn := (fn p)\<lparr>fn_coherent_dma_mask := m, fn_max_seg_size := SZ_1G,
                    fn_min_align_mask := of_nat (PAGE_SIZE_BYTES - 1)\<rparr>\<rparr>))"

definition set_dma_addressing :: "bool \<Rightarrow> pci_calls \<Rightarrow> pci_state \<Rightarrow> unit result \<times> pci_state" where
  "set_dma_addressing wo_cxl k =
     (if wo_cxl then set_dma_addressing_wo k else steps [dma_masks_cxl k, dma_max_seg_cxl k, dma_align_cxl])"

section \<open>Giving back\<close>

text \<open>The calls that restore a parameter only warn when they fail; these are those that succeed.\<close>

record restore_calls =
  restore_readrq :: bool
  restore_max_seg :: bool
  restore_coherent :: bool
  restore_mask :: bool

definition undo_irq :: "pci_state \<Rightarrow> pci_state" where
  "undo_irq p = (if irq_requested p then p\<lparr>fn := (fn p)\<lparr>irq_handler := False\<rparr>, irq_requested := False\<rparr> else p)"

definition undo_msi :: "pci_state \<Rightarrow> pci_state" where
  "undo_msi p = (if msi_enabled_by_driver p then p\<lparr>fn := (fn p)\<lparr>msi_enabled := False\<rparr>, msi_enabled_by_driver := False\<rparr> else p)"

definition undo_readrq :: "restore_calls \<Rightarrow> pci_state \<Rightarrow> pci_state" where
  "undo_readrq rc p =
     (if readrq_changed p
      then p\<lparr>fn := (if restore_readrq rc then (fn p)\<lparr>fn_readrq := saved_readrq p\<rparr> else fn p), readrq_changed := False\<rparr> else p)"

definition undo_align :: "pci_state \<Rightarrow> pci_state" where
  "undo_align p =
     (if min_align_mask_changed p
      then p\<lparr>fn := (fn p)\<lparr>fn_min_align_mask := saved_min_align_mask p\<rparr>, min_align_mask_changed := False\<rparr> else p)"

definition undo_max_seg :: "restore_calls \<Rightarrow> pci_state \<Rightarrow> pci_state" where
  "undo_max_seg rc p =
     (if max_seg_size_changed p
      then p\<lparr>fn := (if restore_max_seg rc then (fn p)\<lparr>fn_max_seg_size := saved_max_seg_size p\<rparr> else fn p), max_seg_size_changed := False\<rparr> else p)"

definition undo_coherent :: "restore_calls \<Rightarrow> pci_state \<Rightarrow> pci_state" where
  "undo_coherent rc p =
     (if coherent_dma_mask_changed p
      then p\<lparr>fn := (if restore_coherent rc then (fn p)\<lparr>fn_coherent_dma_mask := saved_coherent_dma_mask p\<rparr> else fn p),
             coherent_dma_mask_changed := False\<rparr> else p)"

definition undo_mask :: "restore_calls \<Rightarrow> pci_state \<Rightarrow> pci_state" where
  "undo_mask rc p =
     (if dma_mask_changed p
      then p\<lparr>fn := (if restore_mask rc then (fn p)\<lparr>fn_dma_mask := saved_dma_mask p\<rparr> else fn p), dma_mask_changed := False\<rparr> else p)"

definition undo_master :: "pci_state \<Rightarrow> pci_state" where
  "undo_master p =
     (if bus_master_enabled_by_driver p
      then p\<lparr>fn := (fn p)\<lparr>is_busmaster := False\<rparr>, bus_master_enabled_by_driver := False\<rparr> else p)"

definition undo_enable :: "pci_state \<Rightarrow> pci_state" where
  "undo_enable p =
     (if pci_enabled_by_driver p then p\<lparr>fn := (fn p)\<lparr>fn_enabled := False\<rparr>, pci_enabled_by_driver := False\<rparr> else p)"

definition pci_device_exit :: "restore_calls \<Rightarrow> pci_state \<Rightarrow> pci_state" where
  "pci_device_exit rc p =
     undo_enable (undo_master (undo_mask rc (undo_coherent rc (undo_max_seg rc (undo_align (undo_readrq rc (undo_msi (undo_irq p))))))))"

text \<open>The order of \<open>create_mx_pdev\<close>.\<close>

definition pci_setup :: "bool \<Rightarrow> pci_calls \<Rightarrow> pci_state \<Rightarrow> unit result \<times> pci_state" where
  "pci_setup wo_cxl k = steps [dev_map k, pci_device_init wo_cxl k, set_dma_addressing wo_cxl k]"

section \<open>Nothing is left changed\<close>

text \<open>What the record and the function's state say the original was.\<close>

definition orig :: "pci_state \<Rightarrow> pci_fn" where
  "orig p = (fn p)\<lparr>
     irq_handler := irq_handler (fn p) \<and> \<not> irq_requested p,
     msi_enabled := msi_enabled (fn p) \<and> \<not> msi_enabled_by_driver p,
     fn_readrq := (if readrq_changed p then saved_readrq p else fn_readrq (fn p)),
     fn_min_align_mask := (if min_align_mask_changed p then saved_min_align_mask p else fn_min_align_mask (fn p)),
     fn_max_seg_size := (if max_seg_size_changed p then saved_max_seg_size p else fn_max_seg_size (fn p)),
     fn_coherent_dma_mask := (if coherent_dma_mask_changed p then saved_coherent_dma_mask p else fn_coherent_dma_mask (fn p)),
     fn_dma_mask := (if dma_mask_changed p then saved_dma_mask p else fn_dma_mask (fn p)),
     is_busmaster := is_busmaster (fn p) \<and> \<not> bus_master_enabled_by_driver p,
     fn_enabled := fn_enabled (fn p) \<and> \<not> pci_enabled_by_driver p,
     fn_iomapped := fn_iomapped (fn p) \<and> \<not> bar_present p,
     fn_region_owned := fn_region_owned (fn p) \<and> \<not> bar_region_requested p\<rparr>"


definition changed :: "pci_state \<Rightarrow> bool list" where
  "changed p = [bar_present p, bar_region_requested p, pci_enabled_by_driver p, readrq_changed p, bus_master_enabled_by_driver p,
     msi_enabled_by_driver p, irq_requested p, dma_mask_changed p, coherent_dma_mask_changed p, max_seg_size_changed p, min_align_mask_changed p]"

lemmas undo_defs = undo_iomap_def undo_region_def undo_irq_def undo_msi_def undo_readrq_def undo_align_def undo_max_seg_def
  undo_coherent_def undo_mask_def undo_master_def undo_enable_def

text \<open>Every undo clears one entry of the record and agrees with it.\<close>

lemma undo_changed:
  "changed (undo_iomap p) = (changed p)[0 := False]" "changed (undo_region p) = (changed p)[1 := False]"
  "changed (undo_enable p) = (changed p)[2 := False]" "changed (undo_readrq rc p) = (changed p)[3 := False]"
  "changed (undo_master p) = (changed p)[4 := False]" "changed (undo_msi p) = (changed p)[5 := False]"
  "changed (undo_irq p) = (changed p)[6 := False]" "changed (undo_mask rc p) = (changed p)[7 := False]"
  "changed (undo_coherent rc p) = (changed p)[8 := False]" "changed (undo_max_seg rc p) = (changed p)[9 := False]"
  "changed (undo_align p) = (changed p)[10 := False]"
  by (simp_all add: changed_def undo_defs)

lemma undo_orig:
  "orig (undo_iomap p) = orig p" "orig (undo_region p) = orig p" "orig (undo_enable p) = orig p" "orig (undo_master p) = orig p"
  "orig (undo_msi p) = orig p" "orig (undo_irq p) = orig p" "orig (undo_align p) = orig p"
  "restore_readrq rc \<Longrightarrow> orig (undo_readrq rc p) = orig p" "restore_mask rc \<Longrightarrow> orig (undo_mask rc p) = orig p"
  "restore_coherent rc \<Longrightarrow> orig (undo_coherent rc p) = orig p" "restore_max_seg rc \<Longrightarrow> orig (undo_max_seg rc p) = orig p"
  by (simp_all add: orig_def undo_defs)

lemma unchanged_orig: "changed p = replicate 11 False \<Longrightarrow> fn p = orig p"
  by (cases "fn p") (simp add: changed_def orig_def numeral_eq_Suc)

lemma exit_changed: "changed (pci_device_exit rc (dev_unmap p)) = replicate 11 False"
  unfolding pci_device_exit_def dev_unmap_def undo_changed by (simp add: changed_def numeral_eq_Suc)

lemma exit_restores:
  assumes "restore_readrq rc" "restore_mask rc" "restore_coherent rc" "restore_max_seg rc"
  shows "fn (pci_device_exit rc (dev_unmap p)) = orig p \<and> changed (pci_device_exit rc (dev_unmap p)) = replicate 11 False"
proof -
  let ?p = "pci_device_exit rc (dev_unmap p)"
  note c = exit_changed [of rc p]
  moreover have "orig ?p = orig p" unfolding pci_device_exit_def dev_unmap_def using assms by (simp add: undo_orig)
  ultimately show ?thesis using unchanged_orig [OF c] by simp
qed

text \<open>What the steps from the \<open>n\<close>th on change has not been touched before.\<close>

definition untouched :: "nat \<Rightarrow> pci_state \<Rightarrow> bool" where
  "untouched n p \<longleftrightarrow>
     (n \<le> 0 \<longrightarrow> \<not> bar_present p \<and> \<not> bar_region_requested p \<and> \<not> fn_region_owned (fn p) \<and> \<not> fn_iomapped (fn p)) \<and>
     (n \<le> 1 \<longrightarrow> \<not> pci_enabled_by_driver p) \<and> (n \<le> 2 \<longrightarrow> \<not> readrq_changed p) \<and> (n \<le> 3 \<longrightarrow> \<not> bus_master_enabled_by_driver p) \<and>
     (n \<le> 4 \<longrightarrow> \<not> msi_enabled_by_driver p) \<and> (n \<le> 5 \<longrightarrow> \<not> irq_requested p \<and> \<not> irq_handler (fn p)) \<and>
     (n \<le> 6 \<longrightarrow> \<not> dma_mask_changed p \<and> \<not> coherent_dma_mask_changed p) \<and> (n \<le> 7 \<longrightarrow> \<not> max_seg_size_changed p) \<and>
     (n \<le> 8 \<longrightarrow> \<not> min_align_mask_changed p)"

definition keeps :: "(pci_state \<Rightarrow> pci_fn) \<Rightarrow> nat \<Rightarrow> nat \<Rightarrow> (pci_state \<Rightarrow> unit result \<times> pci_state) \<Rightarrow> bool" where
  "keeps g m n f \<longleftrightarrow> (\<forall>p r p'. untouched m p \<longrightarrow> f p = (r, p') \<longrightarrow> g p' = g p \<and> (r = OK \<longrightarrow> untouched n p'))"

lemma keeps_Nil: "keeps g n n (steps [])"
  by (simp add: keeps_def)

lemma keeps_Cons: "\<lbrakk> keeps g m k f; keeps g k n (steps fs) \<rbrakk> \<Longrightarrow> keeps g m n (steps (f # fs))"
  unfolding keeps_def by (auto split: prod.split_asm sum.split_asm)


lemma keepsI: "(\<And>p. untouched m p \<Longrightarrow> g (snd (f p)) = g p \<and> (fst (f p) = OK \<longrightarrow> untouched n (snd (f p)))) \<Longrightarrow> keeps g m n f"
  by (auto simp: keeps_def) (metis fst_conv snd_conv)+

lemma keeps_dev_map: "keeps orig 0 1 (dev_map k)"
  by (rule keepsI) (simp add: untouched_def orig_def dev_map_def Let_def split: sum.split option.split)

lemma keeps_enable: "keeps orig 1 2 (init_enable w k)"
  by (rule keepsI) (simp add: untouched_def orig_def init_enable_def Let_def split: sum.split option.split)

lemma keeps_readrq: "keeps orig 2 3 (init_readrq k)"
  by (rule keepsI) (simp add: untouched_def orig_def init_readrq_def Let_def split: sum.split option.split)

lemma keeps_master: "keeps orig 3 4 (init_master w)"
  by (rule keepsI) (simp add: untouched_def orig_def init_master_def Let_def split: sum.split option.split)

lemma keeps_msi: "keeps orig 4 5 (init_msi k)"
  by (rule keepsI) (simp add: untouched_def orig_def init_msi_def Let_def split: sum.split option.split)

lemma keeps_irq: "keeps orig 5 6 (init_irq k)"
  by (rule keepsI) (simp add: untouched_def orig_def init_irq_def Let_def split: sum.split option.split)

lemma keeps_masks: "keeps orig 6 7 (dma_masks_cxl k)"
  by (rule keepsI) (simp add: untouched_def orig_def dma_masks_cxl_def Let_def split: sum.split option.split)

lemma keeps_max_seg: "keeps orig 7 8 (dma_max_seg_cxl k)"
  by (rule keepsI) (simp add: untouched_def orig_def dma_max_seg_cxl_def Let_def split: sum.split option.split)

lemma keeps_align: "keeps orig 8 9 dma_align_cxl"
  by (rule keepsI) (simp add: untouched_def orig_def dma_align_cxl_def Let_def split: sum.split option.split)

lemma keeps_init: "keeps orig 1 6 (pci_device_init w k)"
  unfolding pci_device_init_def
  by (rule keeps_Cons [OF keeps_enable keeps_Cons [OF keeps_readrq keeps_Cons [OF keeps_master keeps_Cons [OF keeps_msi
      keeps_Cons [OF keeps_irq keeps_Nil]]]]])

lemma keeps_dma: "keeps orig 6 9 (set_dma_addressing False k)"
  unfolding set_dma_addressing_def if_False
  by (rule keeps_Cons [OF keeps_masks keeps_Cons [OF keeps_max_seg keeps_Cons [OF keeps_align keeps_Nil]]])

text \<open>In the standalone build the DMA parameters belong to the driver and are left as they are.\<close>

definition but_dma :: "pci_fn \<Rightarrow> pci_fn" where
  "but_dma f = f\<lparr>fn_dma_mask := 0, fn_coherent_dma_mask := 0, fn_max_seg_size := 0, fn_min_align_mask := 0\<rparr>"

lemma keeps_but_dma: "keeps orig m n f \<Longrightarrow> keeps (but_dma \<circ> orig) m n f"
  by (auto simp: keeps_def)

lemma keeps_dma_wo: "keeps (but_dma \<circ> orig) 6 9 (set_dma_addressing True k)"
  by (rule keepsI) (simp add: set_dma_addressing_def set_dma_addressing_wo_def untouched_def orig_def but_dma_def Let_def split: option.split)

lemma setup_keeps: "keeps orig 0 9 (pci_setup False k)"
  unfolding pci_setup_def by (rule keeps_Cons [OF keeps_dev_map keeps_Cons [OF keeps_init keeps_Cons [OF keeps_dma keeps_Nil]]])

lemma setup_keeps_wo: "keeps (but_dma \<circ> orig) 0 9 (pci_setup True k)"
  unfolding pci_setup_def
  by (rule keeps_Cons [OF keeps_but_dma [OF keeps_dev_map] keeps_Cons [OF keeps_but_dma [OF keeps_init] keeps_Cons [OF keeps_dma_wo keeps_Nil]]])

text \<open>A PCI function that the driver gives up is as it was before: whatever prefix of mapping the BAR, enabling the function, read
  request size, bus mastering, MSI, interrupt and DMA parameters succeeded before the first error, unmapping and exit
  undo exactly what was changed, provided the kernel accepts the old values. The standalone build leaves the DMA
  masks, segment size and alignment as it set them; the build on top of the CXL driver restores these too.\<close>

theorem pci_setup_undone:
  assumes "untouched 0 p" "pci_setup wo_cxl k p = (r, p')"
    "restore_readrq rc" "restore_mask rc" "restore_coherent rc" "restore_max_seg rc"
  shows "(if wo_cxl then but_dma (fn (pci_device_exit rc (dev_unmap p'))) = but_dma (fn p)
      else fn (pci_device_exit rc (dev_unmap p')) = fn p) \<and>
    changed (pci_device_exit rc (dev_unmap p')) = replicate 11 False"
proof -
  note e = exit_restores [OF assms(3-6), of p']
  have "changed p = replicate 11 False" using assms(1) by (simp add: untouched_def changed_def numeral_eq_Suc)
  then have o: "orig p = fn p" by (rule unchanged_orig [symmetric])
  show ?thesis
  proof (cases wo_cxl)
    case True
    then have "but_dma (orig p') = but_dma (orig p)" using setup_keeps_wo [of k] assms(1,2) by (auto simp: keeps_def)
    then show ?thesis using True e o by simp
  next
    case False
    then have "orig p' = orig p" using setup_keeps [of k] assms(1,2) by (auto simp: keeps_def)
    then show ?thesis using False e o by simp
  qed
qed

definition pci0 :: pci_state where
  "pci0 = \<lparr>fn = \<lparr>fn_enabled = True, is_busmaster = True, msi_enabled = False, irq_handler = False, fn_readrq = 512, fn_dma_mask = mask 64,
     fn_coherent_dma_mask = mask 32, fn_max_seg_size = 2 ^ 32 - 1, fn_min_align_mask = 0, fn_region_owned = False, fn_iomapped = False\<rparr>,
     irq_requested = False, msi_enabled_by_driver = False, readrq_changed = False, min_align_mask_changed = False, max_seg_size_changed = False,
     coherent_dma_mask_changed = False, dma_mask_changed = False, bus_master_enabled_by_driver = False, pci_enabled_by_driver = False,
     bar_region_requested = False, bar_present = False, saved_readrq = 0, saved_dma_mask = 0, saved_coherent_dma_mask = 0,
     saved_max_seg_size = 0, saved_min_align_mask = 0, bar_size = 0\<rparr>"

definition calls_ok :: pci_calls where
  "calls_ok = \<lparr>call_request_region = OK, call_iomap = True, call_enable_device = OK, call_get_readrq = OK, call_set_readrq = OK,
     call_enable_msi = OK, call_irq_vector = True, call_request_irq = OK, call_mask48 = True, call_mask32 = True, call_coherent = True,
     call_max_seg = OK, resource_len = 0x10000\<rparr>"

theorem pci_setup_undone_witness:
  "fst (pci_setup False (calls_ok\<lparr>call_enable_msi := Inl ENOMEM\<rparr>) pci0) = Inl ENOMEM \<and>
   fn (pci_device_exit \<lparr>restore_readrq = True, restore_max_seg = True, restore_coherent = True, restore_mask = True\<rparr>
     (dev_unmap (snd (pci_setup False (calls_ok\<lparr>call_enable_msi := Inl ENOMEM\<rparr>) pci0)))) = fn pci0"
proof
  have u: "untouched 0 pci0" by (simp add: untouched_def pci0_def)
  have s: "pci_setup False (calls_ok\<lparr>call_enable_msi := Inl ENOMEM\<rparr>) pci0 =
      (fst (pci_setup False (calls_ok\<lparr>call_enable_msi := Inl ENOMEM\<rparr>) pci0), snd (pci_setup False (calls_ok\<lparr>call_enable_msi := Inl ENOMEM\<rparr>) pci0))"
    by simp
  show "fn (pci_device_exit \<lparr>restore_readrq = True, restore_max_seg = True, restore_coherent = True, restore_mask = True\<rparr>
     (dev_unmap (snd (pci_setup False (calls_ok\<lparr>call_enable_msi := Inl ENOMEM\<rparr>) pci0)))) = fn pci0"
    using pci_setup_undone [OF u s, of "\<lparr>restore_readrq = True, restore_max_seg = True, restore_coherent = True, restore_mask = True\<rparr>"] by simp
  show "fst (pci_setup False (calls_ok\<lparr>call_enable_msi := Inl ENOMEM\<rparr>) pci0) = Inl ENOMEM"
    by (simp add: pci_setup_def dev_map_def pci_device_init_def init_enable_def init_readrq_def init_master_def init_msi_def
        pci0_def calls_ok_def Let_def)
qed

end
