(* ===== verification/Teardown.thy ===== *)
theory Teardown
  imports Admin_Correct Xfer_Correct Pci_Setup
begin

text \<open>
  Stopping a device: the second half of \<open>init.c\<close>.  Every wait of the code has no bound; \<open>None\<close> means it
  still waits after \<open>fuel\<close> rounds.  What other threads and the device do meanwhile is in \<open>td_env\<close>: the
  common part of the I/O queue at each moment (the handlers and the waiters of \<open>Xfer\<close> change it), whether
  the last user of \<open>io_ref\<close> has left, and whether PCI transactions are still pending.
\<close>

section \<open>State\<close>

text \<open>\<open>struct mx_operations\<close>: the queue operations of one hardware version.\<close>

record mx_operations =
  op_init_queue :: "v2_dev \<Rightarrow> unit result \<times> v2_dev"
  op_release_queue :: "v2_dev \<Rightarrow> unit result \<times> v2_dev"
  op_recover_queue :: "(nat \<Rightarrow> v2_dev \<Rightarrow> (unit result \<times> v2_dev) option) option"
  op_free_queue :: "v2_dev \<Rightarrow> v2_dev"

definition register_mx_ops_v2 :: "v2_env \<Rightarrow> mx_operations" where
  "register_mx_ops_v2 env = \<lparr>op_init_queue = init_mx_queue env, op_release_queue = release_mx_queue env,
     op_recover_queue = Some (recover_mx_queue env), op_free_queue = free_mx_queue\<rparr>"

definition release_mx_queue_v1 :: "v2_dev \<Rightarrow> unit result \<times> v2_dev" where
  "release_mx_queue_v1 s = (OK, mx_stop_queue_threads s)"

definition free_mx_queue_v1 :: "v2_dev \<Rightarrow> v2_dev" where
  "free_mx_queue_v1 s = s\<lparr>io_queue := None\<rparr>"

text \<open>The version-1 queue itself is modelled in \<open>Hw_Queue\<close>; here only whether its creation succeeds matters.\<close>

definition init_io_queue_v1 :: "v2_env \<Rightarrow> io_q result \<Rightarrow> v2_dev \<Rightarrow> unit result \<times> v2_dev" where
  "init_io_queue_v1 env made s =
     (case made of Inl e \<Rightarrow> (Inl e, s)
      | Inr io \<Rightarrow> (case mx_start_io_queue env s of
          (Inl e, s) \<Rightarrow> (Inl e, s)
        | (Inr _, s) \<Rightarrow> (OK, s\<lparr>io_queue := Some io\<rparr>)))"

definition register_mx_ops_v1 :: "v2_env \<Rightarrow> io_q result \<Rightarrow> mx_operations" where
  "register_mx_ops_v1 env made = \<lparr>op_init_queue = init_io_queue_v1 env made, op_release_queue = release_mx_queue_v1,
     op_recover_queue = None, op_free_queue = free_mx_queue_v1\<rparr>"

record td_env =
  io_at :: "nat \<Rightarrow> nat mx_queue"
  gone_at :: "nat \<Rightarrow> bool"
  io_ref_zero :: "nat \<Rightarrow> bool"
  pci_pending :: "nat \<Rightarrow> bool"
  restores :: restore_calls

record tdev =
  qs :: v2_dev
  teardown_started :: bool
  lease_removed :: bool
  td_enabled :: bool
  io_ref_dying :: bool
  cdevs :: nat
  bar_mappings_live :: bool
  qos_active :: bool
  async_wq :: bool
  queues_initialized :: bool
  dma_reclaim_safe :: bool
  zombie_thread :: bool
  chrdev_region_allocated :: bool
  mboxes :: bool
  page_pool :: bool
  pci :: pci_state
  has_pdev :: bool
  attach_error :: "errno option"

abbreviation (input) tick :: "v2_dev \<Rightarrow> v2_dev" where "tick s \<equiv> s\<lparr>clock := clock s + 1\<rparr>"

section \<open>Waiting for the protocol\<close>

definition queue_idle :: "nat mx_queue \<Rightarrow> bool" where
  "queue_idle q = (sq_list q = [] \<and> wait_count q = 0 \<and> zombie_wait_count q = 0)"

definition mxdma_io_queue_idle :: "td_env \<Rightarrow> v2_dev \<Rightarrow> bool" where
  "mxdma_io_queue_idle te s = (case io_queue s of None \<Rightarrow> True | Some _ \<Rightarrow> queue_idle (io_at te (clock s)))"

definition mxdma_pci_permanently_gone :: "td_env \<Rightarrow> v2_dev \<Rightarrow> bool" where
  "mxdma_pci_permanently_gone te s = gone_at te (clock s)"

primrec mxdma_drain_device_protocol :: "td_env \<Rightarrow> nat \<Rightarrow> v2_dev \<Rightarrow> v2_dev option" where
  "mxdma_drain_device_protocol te 0 s = None"
| "mxdma_drain_device_protocol te (Suc fuel) s =
     (if mxdma_io_queue_idle te s then Some s
      else if mxdma_pci_permanently_gone te s then Some s
      else mxdma_drain_device_protocol te fuel (tick s))"

primrec mxdma_wait_io_quiesced :: "td_env \<Rightarrow> nat \<Rightarrow> v2_dev \<Rightarrow> v2_dev option" where
  "mxdma_wait_io_quiesced te 0 s = None"
| "mxdma_wait_io_quiesced te (Suc fuel) s =
     (if io_ref_zero te (clock s) then Some s else mxdma_wait_io_quiesced te fuel (tick s))"

text \<open>\<open>ops.recover_queue ? ops.recover_queue(mx_pdev) : -EOPNOTSUPP\<close>\<close>

definition try_recover :: "mx_operations \<Rightarrow> nat \<Rightarrow> v2_dev \<Rightarrow> (unit result \<times> v2_dev) option" where
  "try_recover ops fuel s =
     (case op_recover_queue ops of None \<Rightarrow> Some (Inl EOPNOTSUPP, s) | Some f \<Rightarrow> f fuel s)"

text \<open>A loop ends because the function is gone, or with the last result.\<close>

datatype loop_end = Gone | Ret "unit result"

primrec recover_while_poisoned :: "td_env \<Rightarrow> mx_operations \<Rightarrow> nat \<Rightarrow> unit result \<Rightarrow> v2_dev \<Rightarrow> (loop_end \<times> v2_dev) option" where
  "recover_while_poisoned te ops 0 r s = None"
| "recover_while_poisoned te ops (Suc fuel) r s =
     (if \<not> protocol_poisoned s then Some (Ret r, s)
      else if mxdma_pci_permanently_gone te s then Some (Gone, mx_stop_queue_threads s)
      else case try_recover ops fuel s of
             None \<Rightarrow> None
           | Some (Inr _, s) \<Rightarrow> Some (Ret OK, s)
           | Some (Inl e, s) \<Rightarrow> recover_while_poisoned te ops fuel (Inl e) (tick s))"

text \<open>The two \<open>while (ret)\<close> loops; they differ in when they sleep.\<close>

primrec recover_until_ok :: "td_env \<Rightarrow> mx_operations \<Rightarrow> bool \<Rightarrow> nat \<Rightarrow> unit result \<Rightarrow> v2_dev \<Rightarrow> (loop_end \<times> v2_dev) option" where
  "recover_until_ok te ops sleep_first 0 r s = None"
| "recover_until_ok te ops sleep_first (Suc fuel) r s =
     (if r = OK then Some (Ret OK, s)
      else if mxdma_pci_permanently_gone te s then Some (Gone, s)
      else case try_recover ops fuel (if sleep_first then tick s else s) of
             None \<Rightarrow> None
           | Some (r, s) \<Rightarrow> recover_until_ok te ops sleep_first fuel r (if sleep_first \<or> r = OK then s else tick s))"

section \<open>\<open>mxdma_stop_device_protocol\<close>\<close>

text \<open>Its last part: release the queues that were set up, or stop the threads.\<close>

definition stop_release :: "td_env \<Rightarrow> mx_operations \<Rightarrow> bool \<Rightarrow> nat \<Rightarrow> unit result \<Rightarrow> tdev \<Rightarrow> (unit result \<times> tdev) option" where
  "stop_release te ops actual fuel r d =
     (let verdict = (\<lambda>r d. (if protocol_poisoned (qs d) then Inl EIO else r, d)) in
      if queues_initialized d then
        (case op_release_queue ops (qs d) of
           (Inr _, s) \<Rightarrow> Some (verdict OK (d\<lparr>qs := s, queues_initialized := False\<rparr>))
         | (Inl e, s) \<Rightarrow>
             let s = s\<lparr>protocol_poisoned := True\<rparr> in
             if \<not> actual then Some (Inl e, d\<lparr>qs := s\<rparr>)
             else (case recover_until_ok te ops False fuel (Inl e) s of
                     None \<Rightarrow> None
                   | Some (Gone, s) \<Rightarrow> Some (OK, d\<lparr>qs := s\<rparr>)
                   | Some (Ret r, s) \<Rightarrow> Some (verdict r (d\<lparr>qs := s, queues_initialized := (r \<noteq> OK)\<rparr>))))
      else Some (verdict r (d\<lparr>qs := mx_stop_queue_threads (qs d)\<rparr>)))"

text \<open>The middle part: an admin queue that was programmed while the queues were never completed.\<close>

definition stop_partial :: "td_env \<Rightarrow> mx_operations \<Rightarrow> bool \<Rightarrow> nat \<Rightarrow> unit result \<Rightarrow> tdev \<Rightarrow> (unit result \<times> tdev) option" where
  "stop_partial te ops actual fuel r d =
     (if \<not> queues_initialized d \<and> queue_dma_programmed (qs d) then
        (case try_recover ops fuel (qs d) of
           None \<Rightarrow> None
         | Some (r, s) \<Rightarrow>
             if r \<noteq> OK \<and> \<not> actual then Some (r, d\<lparr>qs := s\<lparr>protocol_poisoned := True\<rparr>\<rparr>)
             else (case recover_until_ok te ops True fuel r s of
                     None \<Rightarrow> None
                   | Some (Gone, s) \<Rightarrow> Some (OK, d\<lparr>qs := s\<rparr>)
                   | Some (Ret r, s) \<Rightarrow> stop_release te ops actual fuel r (d\<lparr>qs := s\<rparr>)))
      else stop_release te ops actual fuel r d)"

definition mxdma_stop_device_protocol :: "td_env \<Rightarrow> mx_operations \<Rightarrow> bool \<Rightarrow> nat \<Rightarrow> tdev \<Rightarrow> (unit result \<times> tdev) option" where
  "mxdma_stop_device_protocol te ops actual fuel d =
     (let d = d\<lparr>async_wq := False\<rparr> in
      if actual then
        (case mxdma_drain_device_protocol te fuel (qs d) of
           None \<Rightarrow> None
         | Some s \<Rightarrow>
             if mxdma_pci_permanently_gone te s then Some (OK, d\<lparr>qs := mx_stop_queue_threads s\<rparr>)
             else (case recover_while_poisoned te ops fuel OK s of
                     None \<Rightarrow> None
                   | Some (Gone, s) \<Rightarrow> Some (OK, d\<lparr>qs := s\<rparr>)
                   | Some (Ret r, s) \<Rightarrow> stop_partial te ops actual fuel r (d\<lparr>qs := s\<rparr>)))
      else if \<not> mxdma_io_queue_idle te (qs d) then
        Some (Inl EBUSY, d\<lparr>qs := mx_stop_queue_threads ((qs d)\<lparr>protocol_poisoned := True\<rparr>)\<rparr>)
      else if protocol_poisoned (qs d) then Some (Inl EUCLEAN, d\<lparr>qs := mx_stop_queue_threads (qs d)\<rparr>)
      else stop_partial te ops actual fuel OK d)"

section \<open>\<open>destroy_mx_pdev\<close>\<close>

primrec mxdma_fence_pci_unbind :: "td_env \<Rightarrow> nat \<Rightarrow> v2_dev \<Rightarrow> v2_dev option" where
  "mxdma_fence_pci_unbind te 0 s = None"
| "mxdma_fence_pci_unbind te (Suc fuel) s =
     (if \<not> pci_pending te (clock s) then Some s
      else if mxdma_pci_permanently_gone te s then Some s
      else mxdma_fence_pci_unbind te fuel (tick s))"

definition pci_clear_master :: "pci_state \<Rightarrow> pci_state" where
  "pci_clear_master p = p\<lparr>fn := (fn p)\<lparr>is_busmaster := False\<rparr>\<rparr>"

text \<open>From \<open>stop_protocol\<close> on.\<close>

definition destroy_stop :: "td_env \<Rightarrow> mx_operations \<Rightarrow> bool \<Rightarrow> nat \<Rightarrow> tdev \<Rightarrow> (bool \<times> tdev) option" where
  "destroy_stop te ops actual fuel d =
     (case mxdma_stop_device_protocol te ops actual fuel d of
        None \<Rightarrow> None
      | Some (r, d) \<Rightarrow>
          let safe = (r = OK) in
          (case (if safe \<and> actual then mxdma_fence_pci_unbind te fuel (qs d) else Some (qs d)) of
             None \<Rightarrow> None
           | Some s \<Rightarrow>
               let d = d\<lparr>qs := s, pci := (if safe \<and> actual then pci_clear_master (pci d) else pci d), dma_reclaim_safe := safe,
                     zombie_thread := (if safe then False else zombie_thread d), chrdev_region_allocated := False\<rparr> in
               if \<not> safe then Some (False, d\<lparr>attach_error := Some EUCLEAN\<rparr>)
               else Some (True, d\<lparr>mboxes := False, page_pool := False, qs := op_free_queue ops (qs d),
                      pci := pci_device_exit (restores te) (dev_unmap (pci d)), has_pdev := False\<rparr>)))"

definition destroy_mx_pdev :: "td_env \<Rightarrow> mx_operations \<Rightarrow> bool \<Rightarrow> nat \<Rightarrow> tdev \<Rightarrow> (bool \<times> tdev) option" where
  "destroy_mx_pdev te ops actual fuel d =
     (if teardown_started d then
        (if \<not> protocol_poisoned (qs d) then Some (True, d)
         else if \<not> actual then Some (False, d)
         else (case mxdma_drain_device_protocol te fuel (qs d) of
                 None \<Rightarrow> None
               | Some s \<Rightarrow>
                   (case mxdma_wait_io_quiesced te fuel s of
                      None \<Rightarrow> None
                    | Some s \<Rightarrow> destroy_stop te ops actual fuel (d\<lparr>qs := s\<rparr>))))
      else
        let d = d\<lparr>teardown_started := True, lease_removed := True, td_enabled := False, io_ref_dying := True\<rparr> in
        (case (if actual then mxdma_drain_device_protocol te fuel (qs d) else Some (qs d)) of
           None \<Rightarrow> None
         | Some s \<Rightarrow>
             (case mxdma_wait_io_quiesced te fuel s of
                None \<Rightarrow> None
              | Some s \<Rightarrow>
                  destroy_stop te ops actual fuel
                    (d\<lparr>qs := s, cdevs := 0, bar_mappings_live := False, qos_active := False\<rparr>))))"

end
