(* ===== verification/Teardown_Correct.thy ===== *)
theory Teardown_Correct
  imports Teardown
begin

text \<open>
  Teardown over any hardware version that keeps the contract of \<open>queue_teardown\<close>, and the contract for both versions.  Moments are
  values of \<open>clock\<close>, which never runs backwards, so that what was seen of the device lies between the start of the teardown and the
  moment its memory is freed.
\<close>

section \<open>Time only moves on\<close>

text \<open>While the admin queue is worked on time passes, and handler threads that were stopped stay stopped.\<close>

definition stopped :: "v2_dev \<Rightarrow> bool" where
  "stopped s \<longleftrightarrow> \<not> submit_thread s \<and> \<not> complete_thread s"

definition later :: "v2_dev \<Rightarrow> v2_dev \<Rightarrow> bool" where
  "later s s' \<longleftrightarrow> clock s \<le> clock s' \<and> (stopped s \<longrightarrow> stopped s')"

lemma later_refl [simp]: "later s s"
  by (simp add: later_def)

lemma later_trans: "\<lbrakk> later s s1; later s1 s2 \<rbrakk> \<Longrightarrow> later s s2"
  by (auto simp: later_def)

lemma later_clock: "later s s' \<Longrightarrow> clock s \<le> clock s'"
  by (simp add: later_def)

lemma stopped_simps [simp]:
  "stopped (mx_stop_queue_threads s)" "stopped (s\<lparr>clock := t\<rparr>) = stopped s" "stopped (s\<lparr>protocol_poisoned := p\<rparr>) = stopped s"
  "stopped (s\<lparr>admin_queue := a\<rparr>) = stopped s" "stopped (s\<lparr>io_queue := i\<rparr>) = stopped s" "stopped (s\<lparr>log := l\<rparr>) = stopped s"
  "stopped (disable_admin_queue s) = stopped s" "stopped (record_admin_terminal op r s) = stopped s"
  by (simp_all add: stopped_def mx_stop_queue_threads_def disable_admin_queue_def record_admin_terminal_def split: option.split)

lemma later_simps [simp]:
  "later s (s'\<lparr>protocol_poisoned := p\<rparr>) = later s s'" "later (s\<lparr>protocol_poisoned := p\<rparr>) s' = later s s'"
  "later s (disable_admin_queue s') = later s s'"
  by (simp_all add: later_def disable_admin_queue_def stopped_def)

lemma stop_threads_clock [simp]: "clock (mx_stop_queue_threads s) = clock s"
  by (simp add: mx_stop_queue_threads_def)

lemma record_clock [simp]: "clock (record_admin_terminal op r s) = clock s"
  by (simp add: record_admin_terminal_def split: option.split)

lemma wait_pushable_clock: "t \<le> snd (wait_pushable n ring t)"
  by (induction n arbitrary: t) (auto intro: Suc_leD)

lemma wait_terminal_clock: "t \<le> fst (snd (snd (wait_terminal env cid n t q)))"
proof (induction n arbitrary: t q)
  case (Suc n)
  have le: "t \<le> fst (snd (snd (wait_terminal env cid n (t + 1) p)))" for p using Suc.IH [of "t + 1" p] by simp
  have "t \<le> t'" if "wait_terminal env cid n (t + 1) p = (r, cs, t', q')" for p r cs t' q' using le [of p] that by simp
  with le show ?case by (auto simp: Let_def split: prod.split)
qed simp

lemma submit_later: "later s (snd (submit_sync_command env c s))"
proof (cases "admin_queue s")
  case (Some q)
  have p: "t \<le> t'" if "wait_pushable n ring t = (b, t')" for n ring t b t'
    using wait_pushable_clock [of t n ring] that by simp
  have w: "t \<le> t'" if "wait_terminal env cid n t q = (x, cs, t', q')" for cid n t q x cs t' q'
    using wait_terminal_clock [of t env cid n q] that by simp
  show ?thesis using Some
    by (auto simp: later_def submit_sync_command_def Let_def split: prod.split option.split bool.split dest!: p w)
qed (simp add: submit_sync_command_def)

lemma delete_later: "later s (snd (delete_sq_if_created env s))" "later s (snd (delete_cq_if_created env s))"
  using submit_later [of s env]
  by (auto simp: delete_sq_if_created_def delete_cq_if_created_def delete_io_sq_def delete_io_cq_def split: option.split prod.split)
    (metis snd_conv)+

lemma delete_rings_later: "later s (snd (delete_rings env s))"
  using delete_later(1) [of s env] delete_later(2) [of "snd (delete_sq_if_created env s)" env]
  by (auto simp: delete_rings_def split: prod.split bool.split intro: later_trans)

lemma drain_loop_later: "drain_loop env fuel q s = Some (r, s') \<Longrightarrow> later s s'"
proof (induction fuel arbitrary: q s)
  case (Suc fuel)
  have step: "later s s'" if "drain_loop env fuel q2 s2 = Some (r, s')" "clock s2 = clock s + 1" "stopped s2 = stopped s" for q2 s2
    using Suc.IH [OF that(1)] that(2,3) by (simp add: later_def)
  show ?case using Suc.prems by (auto simp: Let_def later_def [of s "s\<lparr>admin_queue := a\<rparr>" for a] split: if_split_asm prod.split_asm dest: step)
qed simp

lemma drain_later: "drain_pending_admin env fuel s = Some (r, s') \<Longrightarrow> later s s'"
  by (auto simp: drain_pending_admin_def split: option.split_asm if_split_asm dest: drain_loop_later)

lemma recover_later:
  assumes "recover_mx_queue env fuel s = Some (r, s')"
  shows "later s s'"
proof (cases "admin_queue s")
  case (Some q)
  then obtain r1 s1 where d: "drain_pending_admin env fuel s = Some (r1, s1)" using assms by (auto simp: recover_mx_queue_def split: option.split_asm)
  note l = drain_later [OF d]
  have "later s (snd (delete_rings env (s1\<lparr>protocol_poisoned := False\<rparr>)))"
    using later_trans [OF l] delete_rings_later [of "s1\<lparr>protocol_poisoned := False\<rparr>" env] by simp
  then show ?thesis using assms Some d l
    by (auto simp: recover_mx_queue_def Let_def split: option.split_asm sum.split_asm prod.split_asm bool.split_asm)
qed (use assms in \<open>simp add: recover_mx_queue_def\<close>)

lemma release_clock: "clock s \<le> clock (snd (release_mx_queue env s))"
  using delete_rings_later [of "mx_stop_queue_threads s" env]
  by (auto simp: later_def release_mx_queue_def release_io_queue_def disable_admin_queue_def split: option.split prod.split bool.split)

lemma release_stopped: "\<lbrakk> admin_queue s \<noteq> None; io_queue s \<noteq> None \<rbrakk> \<Longrightarrow> stopped (snd (release_mx_queue env s))"
  using delete_rings_later [of "mx_stop_queue_threads s" env]
  by (auto simp: later_def release_mx_queue_def release_io_queue_def split: option.split prod.split bool.split)

text \<open>The function was seen gone at some moment of an interval.\<close>

definition gone_between :: "td_env \<Rightarrow> nat \<Rightarrow> nat \<Rightarrow> bool" where
  "gone_between te t0 t1 \<longleftrightarrow> (\<exists>t. t0 \<le> t \<and> t \<le> t1 \<and> gone_at te t)"

lemma gone_wider: "\<lbrakk> gone_between te t0 t1; t0' \<le> t0; t1 \<le> t1' \<rbrakk> \<Longrightarrow> gone_between te t0' t1'"
  unfolding gone_between_def by (meson le_trans)

lemma gone_now: "mxdma_pci_permanently_gone te s \<Longrightarrow> gone_between te (clock s) (clock s)"
  by (auto simp: gone_between_def mxdma_pci_permanently_gone_def)

text \<open>The I/O queue of a device was seen idle since, or the function gone.\<close>

definition idle_seen :: "td_env \<Rightarrow> v2_dev \<Rightarrow> nat \<Rightarrow> bool" where
  "idle_seen te s t1 \<longleftrightarrow> gone_between te (clock s) t1 \<or> io_queue s = None \<or> (\<exists>t. clock s \<le> t \<and> t \<le> t1 \<and> queue_idle (io_at te t))"

lemma idle_seen_now: "\<lbrakk> mxdma_io_queue_idle te (s\<lparr>clock := t\<rparr>) \<or> gone_at te t; clock s \<le> t; t \<le> t1 \<rbrakk> \<Longrightarrow> idle_seen te s t1"
  by (auto simp: idle_seen_def gone_between_def mxdma_io_queue_idle_def split: option.split_asm)

section \<open>The contract of the queue operations\<close>

locale queue_teardown =
  fixes ops :: mx_operations
    and inv :: "v2_dev \<Rightarrow> bool"      \<comment> \<open>the driver's record is consistent\<close>
    and safe :: "v2_dev \<Rightarrow> bool"     \<comment> \<open>the device knows no host memory any more\<close>
    and up :: "v2_dev \<Rightarrow> bool"       \<comment> \<open>the queues were set up\<close>
  assumes release_law: "\<lbrakk> inv s; up s; \<not> protocol_poisoned s; op_release_queue ops s = (r, s') \<rbrakk>
      \<Longrightarrow> inv s' \<and> up s' \<and> inv (s'\<lparr>protocol_poisoned := True\<rparr>) \<and> (r = OK \<longrightarrow> safe s' \<and> \<not> protocol_poisoned s') \<and>
        clock s \<le> clock s' \<and> stopped s'"
    and recover_law: "\<lbrakk> inv s; try_recover ops fuel s = Some (r, s') \<rbrakk>
      \<Longrightarrow> inv s' \<and> (up s \<longrightarrow> up s') \<and> (r = OK \<longrightarrow> safe s' \<and> \<not> protocol_poisoned s') \<and> (r \<noteq> OK \<longrightarrow> protocol_poisoned s' \<or> s' = s) \<and>
        later s s'"
    and idle_law: "\<lbrakk> inv s; \<not> queue_dma_programmed s \<rbrakk> \<Longrightarrow> safe s"
    and poison_law: "\<lbrakk> inv s; io_queue s \<noteq> None \<or> queue_dma_programmed s \<rbrakk> \<Longrightarrow> inv (s\<lparr>protocol_poisoned := True\<rparr>)"
    and frame_law: "inv s \<Longrightarrow> inv (s\<lparr>clock := t\<rparr>) \<and> inv (mx_stop_queue_threads s)"
      "safe s \<Longrightarrow> safe (s\<lparr>clock := t\<rparr>) \<and> safe (mx_stop_queue_threads s)"
      "up s \<Longrightarrow> up (s\<lparr>clock := t\<rparr>) \<and> up (mx_stop_queue_threads s) \<and> up (s\<lparr>protocol_poisoned := True\<rparr>)"
    and free_law: "clock (op_free_queue ops s) = clock s \<and> stopped (op_free_queue ops s) = stopped s"
begin

definition td_inv :: "tdev \<Rightarrow> bool" where
  "td_inv d \<longleftrightarrow> inv (qs d) \<and> (if queues_initialized d then up (qs d) else stopped (qs d))"

text \<open>What stopping a device since \<open>t0\<close> has achieved.\<close>

definition sound :: "td_env \<Rightarrow> nat \<Rightarrow> bool \<Rightarrow> unit result \<Rightarrow> tdev \<Rightarrow> bool" where
  "sound te t0 actual r d \<longleftrightarrow> td_inv d \<and> t0 \<le> clock (qs d) \<and>
     (r = OK \<longrightarrow> stopped (qs d) \<and> (gone_between te t0 (clock (qs d)) \<or> safe (qs d) \<and> \<not> protocol_poisoned (qs d))) \<and>
     (r \<noteq> OK \<longrightarrow> protocol_poisoned (qs d) \<and> \<not> actual)"

lemma sound_earlier: "\<lbrakk> sound te t1 actual r d; t0 \<le> t1 \<rbrakk> \<Longrightarrow> sound te t0 actual r d"
  unfolding sound_def using gone_wider by fastforce

lemma stop_threads_poisoned [simp]: "protocol_poisoned (mx_stop_queue_threads s) = protocol_poisoned s"
  by (simp add: mx_stop_queue_threads_def)

lemma while_poisoned_ok:
  "\<lbrakk> recover_while_poisoned te ops fuel r s = Some (e, s'); inv s; r = OK \<or> protocol_poisoned s \<rbrakk> \<Longrightarrow>
     inv s' \<and> (up s \<longrightarrow> up s') \<and> later s s' \<and>
     (case e of Gone \<Rightarrow> gone_between te (clock s) (clock s') \<and> stopped s' | Ret r' \<Rightarrow> r' = OK \<and> \<not> protocol_poisoned s')"
proof (induction fuel arbitrary: r s)
  case (Suc fuel)
  show ?case
  proof (cases "\<not> protocol_poisoned s \<or> mxdma_pci_permanently_gone te s")
    case True
    then show ?thesis using Suc.prems frame_law gone_now [of te s] by (auto simp: later_def split: if_split_asm)
  next
    case False
    then obtain r1 s1 where t: "try_recover ops fuel s = Some (r1, s1)" using Suc.prems(1) by (auto split: option.split_asm)
    note law = recover_law [OF Suc.prems(2) t]
    show ?thesis
    proof (cases r1)
      case (Inl x)
      have "later s s1" using law by blast
      then have l: "later s (tick s1)" by (simp add: later_def)
      have "recover_while_poisoned te ops fuel (Inl x) (tick s1) = Some (e, s')" using Suc.prems(1) False t Inl by simp
      from Suc.IH [OF this] have ih: "inv s' \<and> (up (tick s1) \<longrightarrow> up s') \<and> later (tick s1) s' \<and>
          (case e of Gone \<Rightarrow> gone_between te (clock (tick s1)) (clock s') \<and> stopped s' | Ret r' \<Rightarrow> r' = OK \<and> \<not> protocol_poisoned s')"
        using law Inl False frame_law(1) by auto
      have "gone_between te (clock s) (clock s')" if "gone_between te (clock (tick s1)) (clock s')"
        by (rule gone_wider [OF that]) (use later_clock [OF l] in simp_all)
      then show ?thesis using ih law frame_law(3) later_trans [OF l] by (auto split: loop_end.split)
    next
      case (Inr u)
      then show ?thesis using Suc.prems(1) False t law by auto
    qed
  qed
qed simp

lemma until_ok_ok:
  "\<lbrakk> recover_until_ok te ops b fuel r s = Some (e, s'); inv s; r = OK \<longrightarrow> safe s \<and> \<not> protocol_poisoned s \<rbrakk> \<Longrightarrow>
     inv s' \<and> (up s \<longrightarrow> up s') \<and> later s s' \<and>
     (case e of Gone \<Rightarrow> gone_between te (clock s) (clock s') | Ret r' \<Rightarrow> r' = OK \<and> safe s' \<and> \<not> protocol_poisoned s')"
proof (induction fuel arbitrary: r s)
  case (Suc fuel)
  show ?case
  proof (cases "r = OK \<or> mxdma_pci_permanently_gone te s")
    case True
    then show ?thesis using Suc.prems gone_now [of te s] by (auto split: if_split_asm)
  next
    case False
    let ?s = "if b then tick s else s"
    have i: "inv ?s" "up s \<longrightarrow> up ?s" using Suc.prems(2) frame_law by simp_all
    obtain r1 s1 where t: "try_recover ops fuel ?s = Some (r1, s1)"
        "recover_until_ok te ops b fuel r1 (if b \<or> r1 = OK then s1 else tick s1) = Some (e, s')"
      using Suc.prems(1) False by (auto split: option.split_asm)
    let ?s1 = "if b \<or> r1 = OK then s1 else tick s1"
    note law = recover_law [OF i(1) t(1)]
    have "later ?s s1" using law by blast
    then have l: "later s ?s1" by (auto simp: later_def split: if_split_asm)
    have ih: "inv s' \<and> (up ?s1 \<longrightarrow> up s') \<and> later ?s1 s' \<and>
        (case e of Gone \<Rightarrow> gone_between te (clock ?s1) (clock s') | Ret r' \<Rightarrow> r' = OK \<and> safe s' \<and> \<not> protocol_poisoned s')"
      by (rule Suc.IH [OF t(2)]) (use law frame_law in auto)
    have "gone_between te (clock s) (clock s')" if "gone_between te (clock ?s1) (clock s')"
      by (rule gone_wider [OF that]) (use later_clock [OF l] in simp_all)
    moreover have "up s \<longrightarrow> up ?s1" using law i(2) frame_law(3) by auto
    ultimately show ?thesis using ih later_trans [OF l] by (auto split: loop_end.split_asm)
  qed
qed simp

lemma drain_frame:
  "mxdma_drain_device_protocol te fuel s = Some s' \<Longrightarrow>
     \<exists>t. s' = s\<lparr>clock := t\<rparr> \<and> clock s \<le> t \<and> (mxdma_io_queue_idle te s' \<or> gone_at te t)"
proof (induction fuel arbitrary: s)
  case (Suc fuel)
  show ?case
  proof (cases "mxdma_io_queue_idle te s \<or> mxdma_pci_permanently_gone te s")
    case True
    then show ?thesis using Suc.prems
      by (intro exI [of _ "clock s"]) (auto simp: mxdma_pci_permanently_gone_def split: if_split_asm)
  next
    case False
    then show ?thesis using Suc.prems Suc.IH [of "tick s"] by auto
  qed
qed simp

lemma stop_release_ok:
  assumes "stop_release te ops actual fuel r d = Some (r', d')" "td_inv d" "r = OK" "\<not> protocol_poisoned (qs d)"
    "\<not> queues_initialized d \<longrightarrow> safe (qs d)"
  shows "sound te (clock (qs d)) actual r' d'"
proof (cases "queues_initialized d")
  case False
  then show ?thesis using assms frame_law by (auto simp: stop_release_def sound_def td_inv_def Let_def)
next
  case True
  obtain r1 s1 where rl: "op_release_queue ops (qs d) = (r1, s1)" by (rule prod.exhaust)
  have "inv (qs d)" "up (qs d)" using assms(2) True by (simp_all add: td_inv_def)
  note law = release_law [OF this assms(4) rl]
  show ?thesis
  proof (cases r1)
    case (Inr u)
    then show ?thesis using assms(1) True rl law by (auto simp: stop_release_def sound_def td_inv_def Let_def)
  next
    case (Inl e)
    let ?s = "s1\<lparr>protocol_poisoned := True\<rparr>"
    have up: "up ?s" using law frame_law(3) by simp
    show ?thesis
    proof (cases actual)
      case False
      then show ?thesis using assms(1) True rl Inl law up by (auto simp: stop_release_def sound_def td_inv_def Let_def)
    next
      case act: True
      then obtain e2 s2 where u: "recover_until_ok te ops False fuel (Inl e) ?s = Some (e2, s2)"
        using assms(1) True rl Inl by (auto simp: stop_release_def Let_def split: option.split_asm)
      have u2: "inv s2 \<and> (up ?s \<longrightarrow> up s2) \<and> later ?s s2 \<and>
          (case e2 of Gone \<Rightarrow> gone_between te (clock ?s) (clock s2) | Ret r' \<Rightarrow> r' = OK \<and> safe s2 \<and> \<not> protocol_poisoned s2)"
        by (rule until_ok_ok [OF u]) (use law in simp_all)
      then have "stopped s2" "clock (qs d) \<le> clock s2" using law by (auto simp: later_def)
      moreover have "gone_between te (clock (qs d)) (clock s2)" if "gone_between te (clock ?s) (clock s2)"
        by (rule gone_wider [OF that]) (use law in simp_all)
      ultimately show ?thesis using assms(1) True rl Inl act u u2 up
        by (auto simp: stop_release_def sound_def td_inv_def Let_def split: loop_end.split_asm)
    qed
  qed
qed

lemma stop_partial_ok:
  assumes "stop_partial te ops actual fuel r d = Some (r', d')" "td_inv d" "r = OK" "\<not> protocol_poisoned (qs d)"
  shows "sound te (clock (qs d)) actual r' d'"
proof (cases "\<not> queues_initialized d \<and> queue_dma_programmed (qs d)")
  case False
  then have "stop_release te ops actual fuel r d = Some (r', d')" using assms(1) by (simp only: stop_partial_def if_False)
  then show ?thesis by (rule stop_release_ok) (use assms False idle_law in \<open>auto simp: td_inv_def\<close>)
next
  case True
  then obtain r1 s1 where t: "try_recover ops fuel (qs d) = Some (r1, s1)"
    using assms(1) by (auto simp: stop_partial_def split: option.split_asm)
  have i: "inv (qs d)" "stopped (qs d)" using assms(2) True by (simp_all add: td_inv_def)
  note law = recover_law [OF i(1) t]
  have st: "stopped s1" "clock (qs d) \<le> clock s1" using law i(2) by (auto simp: later_def)
  show ?thesis
  proof (cases "r1 \<noteq> OK \<and> \<not> actual")
    case bad: True
    have "inv (s1\<lparr>protocol_poisoned := True\<rparr>)"
    proof (cases "protocol_poisoned s1")
      case True
      then have "s1\<lparr>protocol_poisoned := True\<rparr> = s1" by (cases s1) simp
      then show ?thesis using law by simp
    next
      case False
      then show ?thesis using law bad poison_law [OF i(1)] True by auto
    qed
    then show ?thesis using assms(1) True t bad st by (auto simp: stop_partial_def sound_def td_inv_def)
  next
    case False
    then obtain e2 s2 where u: "recover_until_ok te ops True fuel r1 s1 = Some (e2, s2)"
      using assms(1) True t by (auto simp: stop_partial_def split: option.split_asm)
    have u2: "inv s2 \<and> (up s1 \<longrightarrow> up s2) \<and> later s1 s2 \<and>
        (case e2 of Gone \<Rightarrow> gone_between te (clock s1) (clock s2) | Ret r' \<Rightarrow> r' = OK \<and> safe s2 \<and> \<not> protocol_poisoned s2)"
      by (rule until_ok_ok [OF u]) (use law in auto)
    have s2: "stopped s2" "clock (qs d) \<le> clock s2" using u2 st by (auto simp: later_def)
    show ?thesis
    proof (cases e2)
      case Gone
      then have "gone_between te (clock (qs d)) (clock s2)" using u2 st(2) gone_wider [of te "clock s1" "clock s2"] by auto
      then show ?thesis using assms(1) True t False u u2 Gone s2 by (auto simp: stop_partial_def sound_def td_inv_def)
    next
      case (Ret r2)
      then have "stop_release te ops actual fuel r2 (d\<lparr>qs := s2\<rparr>) = Some (r', d')"
        using assms(1) True t False u by (auto simp: stop_partial_def)
      then have "sound te (clock (qs (d\<lparr>qs := s2\<rparr>))) actual r' d'"
        by (rule stop_release_ok) (use u2 Ret True s2 in \<open>auto simp: td_inv_def\<close>)
      then show ?thesis by (rule sound_earlier) (use s2 in simp)
    qed
  qed
qed

lemma stop_ok:
  assumes "mxdma_stop_device_protocol te ops actual fuel d = Some (r, d')" "td_inv d"
  shows "sound te (clock (qs d)) actual r d' \<and> (r = OK \<longrightarrow> idle_seen te (qs d) (clock (qs d')))"
proof (cases actual)
  case True
  let ?d = "d\<lparr>async_wq := False\<rparr>"
  obtain s1 where dr: "mxdma_drain_device_protocol te fuel (qs d) = Some s1"
    using assms(1) True by (auto simp: mxdma_stop_device_protocol_def Let_def split: option.split_asm)
  then obtain t where s1: "s1 = (qs d)\<lparr>clock := t\<rparr>" "clock (qs d) \<le> t" "mxdma_io_queue_idle te s1 \<or> gone_at te t"
    using drain_frame by blast
  have i: "inv s1" "if queues_initialized d then up s1 else stopped s1" using assms(2) s1 frame_law by (auto simp: td_inv_def split: if_split_asm)
  have seen: "idle_seen te (qs d) (clock (qs d'))" if "t \<le> clock (qs d')" using idle_seen_now [OF _ s1(2) that] s1 by simp
  have "sound te t actual r d'"
  proof (cases "mxdma_pci_permanently_gone te s1")
    case gone: True
    then show ?thesis using assms(1) True dr i frame_law gone_now [OF gone] s1
      by (auto simp: mxdma_stop_device_protocol_def Let_def sound_def td_inv_def)
  next
    case False
    then obtain e2 s2 where w: "recover_while_poisoned te ops fuel OK s1 = Some (e2, s2)"
      using assms(1) True dr by (auto simp: mxdma_stop_device_protocol_def Let_def split: option.split_asm)
    have w2: "inv s2 \<and> (up s1 \<longrightarrow> up s2) \<and> later s1 s2 \<and>
        (case e2 of Gone \<Rightarrow> gone_between te (clock s1) (clock s2) \<and> stopped s2 | Ret r' \<Rightarrow> r' = OK \<and> \<not> protocol_poisoned s2)"
      by (rule while_poisoned_ok [OF w i(1)]) simp
    have i2: "if queues_initialized d then up s2 else stopped s2" "t \<le> clock s2" using w2 i(2) s1(1) by (auto simp: later_def split: if_split_asm)
    show ?thesis
    proof (cases e2)
      case Gone
      then show ?thesis using assms(1) True dr False w w2 i2 s1(1)
        by (auto simp: mxdma_stop_device_protocol_def Let_def sound_def td_inv_def)
    next
      case (Ret r2)
      then have "stop_partial te ops actual fuel r2 (?d\<lparr>qs := s2\<rparr>) = Some (r, d')"
        using assms(1) True dr False w by (simp add: mxdma_stop_device_protocol_def Let_def)
      then have "sound te (clock (qs (?d\<lparr>qs := s2\<rparr>))) actual r d'"
        by (rule stop_partial_ok) (use w2 Ret i2 in \<open>auto simp: td_inv_def\<close>)
      then show ?thesis by (rule sound_earlier) (use i2 in simp)
    qed
  qed
  moreover from this have "t \<le> clock (qs d')" by (simp add: sound_def)
  ultimately show ?thesis using seen sound_earlier s1(2) by blast
next
  case False
  let ?d = "d\<lparr>async_wq := False\<rparr>"
  have i: "inv (qs d)" "if queues_initialized d then up (qs d) else stopped (qs d)" using assms(2) by (simp_all add: td_inv_def)
  consider (busy) "\<not> mxdma_io_queue_idle te (qs d)" | (poisoned) "mxdma_io_queue_idle te (qs d)" "protocol_poisoned (qs d)"
    | (clean) "mxdma_io_queue_idle te (qs d)" "\<not> protocol_poisoned (qs d)" by blast
  then show ?thesis
  proof cases
    case busy
    then have "io_queue (qs d) \<noteq> None" by (auto simp: mxdma_io_queue_idle_def split: option.split_asm)
    then have "inv ((qs d)\<lparr>protocol_poisoned := True\<rparr>)" using poison_law [OF i(1)] by blast
    then show ?thesis using assms(1) False busy i frame_law
      by (auto simp: mxdma_stop_device_protocol_def Let_def sound_def td_inv_def)
  next
    case poisoned
    then show ?thesis using assms(1) False i frame_law
      by (auto simp: mxdma_stop_device_protocol_def Let_def sound_def td_inv_def)
  next
    case clean
    then have "stop_partial te ops actual fuel OK ?d = Some (r, d')"
      using assms(1) False by (simp add: mxdma_stop_device_protocol_def Let_def)
    then have so: "sound te (clock (qs ?d)) actual r d'" by (rule stop_partial_ok) (use clean i in \<open>auto simp: td_inv_def\<close>)
    have "idle_seen te (qs d) (clock (qs d'))"
      by (rule idle_seen_now [where t = "clock (qs d)"]) (use clean so in \<open>auto simp: sound_def\<close>)
    then show ?thesis using so by simp
  qed
qed

text \<open>
  Freed: the threads that use the queues are stopped, and since the moment of \<open>s0\<close> the I/O queue was seen idle and the device
  gave up the memory, or the function was seen gone. Or kept as it was for a later unbind.
\<close>

definition released :: "td_env \<Rightarrow> bool \<Rightarrow> v2_dev \<Rightarrow> tdev \<Rightarrow> bool" where
  "released te actual s0 d' \<longleftrightarrow> dma_reclaim_safe d' \<and> \<not> has_pdev d' \<and> \<not> page_pool d' \<and> \<not> async_wq d' \<and> stopped (qs d') \<and>
     clock s0 \<le> clock (qs d') \<and> idle_seen te s0 (clock (qs d')) \<and> (actual \<longrightarrow> \<not> pci_pending te (clock (qs d')) \<or> gone_at te (clock (qs d'))) \<and>
     (gone_between te (clock s0) (clock (qs d')) \<or> (\<exists>s. safe s \<and> \<not> protocol_poisoned s \<and> qs d' = op_free_queue ops s))"

definition retained :: "tdev \<Rightarrow> tdev \<Rightarrow> bool" where
  "retained d d' \<longleftrightarrow> \<not> dma_reclaim_safe d' \<and> protocol_poisoned (qs d') \<and> td_inv d' \<and> attach_error d' = Some EUCLEAN \<and>
     page_pool d' = page_pool d \<and> mboxes d' = mboxes d \<and> pci d' = pci d \<and>
     zombie_thread d' = zombie_thread d \<and> has_pdev d' = has_pdev d"

lemma fence_frame:
  "mxdma_fence_pci_unbind te fuel s = Some s' \<Longrightarrow> \<exists>t. s' = s\<lparr>clock := t\<rparr> \<and> clock s \<le> t \<and> (\<not> pci_pending te t \<or> gone_at te t)"
proof (induction fuel arbitrary: s)
  case (Suc fuel)
  then show ?case using Suc.IH [of "tick s"] by (cases s) (force simp: mxdma_pci_permanently_gone_def split: if_split_asm)
qed simp

lemma quiesced_frame: "mxdma_wait_io_quiesced te fuel s = Some s' \<Longrightarrow> \<exists>t. s' = s\<lparr>clock := t\<rparr> \<and> clock s \<le> t \<and> io_ref_zero te t"
proof (induction fuel arbitrary: s)
  case (Suc fuel)
  then show ?case using Suc.IH [of "tick s"] by (cases s) (force split: if_split_asm)
qed simp

lemma stop_release_frame:
  "stop_release te ops actual fuel r d = Some (r', d') \<Longrightarrow> \<exists>s b. d' = d\<lparr>qs := s, queues_initialized := b\<rparr>"
  by (cases d) (auto simp: stop_release_def Let_def split: if_split_asm prod.split_asm sum.split_asm option.split_asm loop_end.split_asm)

lemma stop_partial_frame:
  "stop_partial te ops actual fuel r d = Some (r', d') \<Longrightarrow> \<exists>s b. d' = d\<lparr>qs := s, queues_initialized := b\<rparr>"
  by (cases d) (auto simp: stop_partial_def dest!: stop_release_frame
      split: if_split_asm prod.split_asm sum.split_asm option.split_asm loop_end.split_asm)

lemma stop_frame:
  "mxdma_stop_device_protocol te ops actual fuel d = Some (r', d') \<Longrightarrow>
     \<exists>s b. d' = d\<lparr>qs := s, async_wq := False, queues_initialized := b\<rparr>"
  by (cases d) (auto simp: mxdma_stop_device_protocol_def Let_def dest!: stop_partial_frame
      split: if_split_asm prod.split_asm sum.split_asm option.split_asm loop_end.split_asm)

lemma destroy_stop_ok:
  assumes "destroy_stop te ops actual fuel d = Some (b, d')" "td_inv d"
  shows "if b then released te actual (qs d) d' else retained d d' \<and> \<not> actual"
proof -
  obtain r d1 where st: "mxdma_stop_device_protocol te ops actual fuel d = Some (r, d1)"
    using assms(1) by (auto simp: destroy_stop_def split: option.split_asm)
  note ok = stop_ok [OF st assms(2)]
  obtain s1 b1 where d1: "d1 = d\<lparr>qs := s1, async_wq := False, queues_initialized := b1\<rparr>" using stop_frame [OF st] by blast
  show ?thesis
  proof (cases "r = OK")
    case False
    then show ?thesis using assms(1) st ok d1
      by (auto simp: destroy_stop_def Let_def sound_def retained_def td_inv_def)
  next
    case True
    obtain s2 t where f: "(if actual then mxdma_fence_pci_unbind te fuel (qs d1) else Some (qs d1)) = Some s2" "s2 = (qs d1)\<lparr>clock := t\<rparr>"
        "clock (qs d1) \<le> t" "actual \<longrightarrow> \<not> pci_pending te t \<or> gone_at te t"
    proof (cases actual)
      case act: True
      then obtain s2 where "mxdma_fence_pci_unbind te fuel (qs d1) = Some s2"
        using assms(1) st True by (auto simp: destroy_stop_def Let_def split: option.split_asm)
      then show thesis using that [of s2] fence_frame act by force
    next
      case False
      then show thesis using that [of "qs d1" "clock (qs d1)"] by simp
    qed
    have d': "b" "dma_reclaim_safe d'" "\<not> has_pdev d'" "\<not> page_pool d'" "\<not> async_wq d'" "qs d' = op_free_queue ops s2"
      using assms(1) st True f(1) d1 by (cases actual; auto simp: destroy_stop_def Let_def)+
    have c: "clock (qs d') = t" "stopped (qs d')" "clock (qs d) \<le> t" using d'(6) f(2,3) free_law [of s2] ok True by (simp_all add: sound_def)
    have "idle_seen te (qs d) t" using ok True f(3) gone_wider [of te "clock (qs d)" "clock (qs d1)" "clock (qs d)" t]
      unfolding idle_seen_def by (auto intro: le_trans)
    moreover have "gone_between te (clock (qs d)) t \<or> safe s2 \<and> \<not> protocol_poisoned s2"
      using ok True f(2,3) frame_law(2) [of "qs d1" t] gone_wider [of te "clock (qs d)" "clock (qs d1)" "clock (qs d)" t]
      by (auto simp: sound_def)
    ultimately show ?thesis using d' c f(4) unfolding released_def by auto
  qed
qed

text \<open>The last user had left before.\<close>

lemma destroy_ok:
  assumes "destroy_mx_pdev te ops actual fuel d = Some (b, d')" "td_inv d" "teardown_started d \<longrightarrow> protocol_poisoned (qs d)"
    "teardown_started d \<longrightarrow> actual"
  shows "if b then \<exists>t0. clock (qs d) \<le> t0 \<and> io_ref_zero te t0 \<and> released te actual ((qs d)\<lparr>clock := t0\<rparr>) d'
    else retained d d' \<and> \<not> actual"
proof -
  have t: "td_inv (d\<lparr>qs := (qs d)\<lparr>clock := t\<rparr>\<rparr>)" for t using assms(2) frame_law by (auto simp: td_inv_def)
  show ?thesis
  proof (cases "teardown_started d")
    case True
    then obtain s1 s2 where s: "mxdma_drain_device_protocol te fuel (qs d) = Some s1" "mxdma_wait_io_quiesced te fuel s1 = Some s2"
        "destroy_stop te ops actual fuel (d\<lparr>qs := s2\<rparr>) = Some (b, d')"
      using assms by (auto simp: destroy_mx_pdev_def split: option.split_asm)
    obtain t2 where "s2 = (qs d)\<lparr>clock := t2\<rparr>" "clock (qs d) \<le> t2" "io_ref_zero te t2"
      using drain_frame [OF s(1)] quiesced_frame [OF s(2)] by auto
    then show ?thesis using destroy_stop_ok [OF s(3)] t [of t2] by (auto simp: retained_def split: if_split_asm)
  next
    case False
    let ?d = "d\<lparr>teardown_started := True, lease_removed := True, td_enabled := False, io_ref_dying := True\<rparr>"
    obtain s1 s2 where s: "(if actual then mxdma_drain_device_protocol te fuel (qs d) else Some (qs d)) = Some s1"
        "mxdma_wait_io_quiesced te fuel s1 = Some s2"
        "destroy_stop te ops actual fuel (?d\<lparr>qs := s2, cdevs := 0, bar_mappings_live := False, qos_active := False\<rparr>) = Some (b, d')"
      using assms(1) False by (cases actual) (auto simp: destroy_mx_pdev_def Let_def split: option.split_asm)
    obtain t1 where "s1 = (qs d)\<lparr>clock := t1\<rparr>" "clock (qs d) \<le> t1"
      using s(1) drain_frame [of te fuel "qs d" s1] by (cases "qs d"; cases actual) auto
    then obtain t2 where "s2 = (qs d)\<lparr>clock := t2\<rparr>" "clock (qs d) \<le> t2" "io_ref_zero te t2"
      using quiesced_frame [OF s(2)] by auto
    then show ?thesis using destroy_stop_ok [OF s(3)] t [of t2] by (auto simp: retained_def td_inv_def split: if_split_asm)
  qed
qed

lemma destroy_stop_pci:
  assumes "destroy_stop te ops actual fuel d = Some (True, d')"
  shows "pci d' = pci_device_exit (restores te) (dev_unmap (if actual then pci_clear_master (pci d) else pci d))"
proof -
  obtain r d1 where st: "mxdma_stop_device_protocol te ops actual fuel d = Some (r, d1)"
    using assms by (auto simp: destroy_stop_def split: option.split_asm)
  have "pci d1 = pci d" using stop_frame [OF st] by auto
  then show ?thesis using assms st by (auto simp: destroy_stop_def Let_def split: option.split_asm if_split_asm)
qed

lemma destroy_pci:
  assumes "destroy_mx_pdev te ops actual fuel d = Some (True, d')" "teardown_started d \<longrightarrow> protocol_poisoned (qs d)"
  shows "pci d' = pci_device_exit (restores te) (dev_unmap (if actual then pci_clear_master (pci d) else pci d))"
  using assms by (auto simp: destroy_mx_pdev_def Let_def dest!: destroy_stop_pci split: option.split_asm if_split_asm)

end

section \<open>Both hardware versions keep the contract\<close>

definition v2_td_inv :: "v2_dev \<Rightarrow> bool" where
  "v2_td_inv s \<longleftrightarrow> (\<exists>A. adm_rel A s) \<and>
     (admin_queue s = None \<longrightarrow> \<not> queue_dma_programmed s \<and> \<not> protocol_poisoned s \<and> io_queue s = None)"

text \<open>The device was told of no host memory, or has given up all of it, and owes no answer.\<close>

definition v2_safe :: "v2_dev \<Rightarrow> bool" where
  "v2_safe s \<longleftrightarrow> run_log (log s) = Some spec_init \<and> \<not> queue_dma_programmed s"

definition v2_up :: "v2_dev \<Rightarrow> bool" where
  "v2_up s \<longleftrightarrow> admin_queue s \<noteq> None \<and> io_queue s \<noteq> None"

lemma quiet_safe: "quiet s \<Longrightarrow> v2_safe s"
  by (simp add: quiet_def v2_safe_def)

lemma adm_rel_frame:
  "adm_rel A s \<Longrightarrow> adm_rel A (s\<lparr>clock := t\<rparr>)" "adm_rel A s \<Longrightarrow> adm_rel A (mx_stop_queue_threads s)"
  by (simp_all add: adm_rel_def mx_stop_queue_threads_def)

interpretation v2_td: queue_teardown "register_mx_ops_v2 env" v2_td_inv v2_safe v2_up for env
proof
  fix s r s' assume "v2_td_inv s" and up: "v2_up s" and p: "\<not> protocol_poisoned s" and "op_release_queue (register_mx_ops_v2 env) s = (r, s')"
  then obtain A where A: "adm_rel A s" and rl: "release_mx_queue env s = (r, s')" by (auto simp: v2_td_inv_def register_mx_ops_v2_def)
  have "pend A = None" using A p unfolding adm_rel_def by blast
  from release_rel [OF A this rl] up obtain A' where A': "adm_rel A' s'" "r = OK \<longrightarrow> A' = spec_init \<and> quiet s' \<and> protocol_poisoned s' = protocol_poisoned s"
    "admin_queue s' \<noteq> None" "io_queue s' \<noteq> None" by (auto simp: v2_up_def)
  moreover have "clock s \<le> clock s' \<and> stopped s'"
    using release_clock [of s env] release_stopped [of s env] up rl by (simp add: v2_up_def)
  ultimately show "v2_td_inv s' \<and> v2_up s' \<and> v2_td_inv (s'\<lparr>protocol_poisoned := True\<rparr>) \<and> (r = OK \<longrightarrow> v2_safe s' \<and> \<not> protocol_poisoned s') \<and>
      clock s \<le> clock s' \<and> stopped s'"
    using p poison_rel [OF A'(1)] quiet_safe by (auto simp: v2_td_inv_def v2_up_def)
next
  fix s fuel r s' assume i: "v2_td_inv s" and t: "try_recover (register_mx_ops_v2 env) fuel s = Some (r, s')"
  then have rc: "recover_mx_queue env fuel s = Some (r, s')" by (simp add: try_recover_def register_mx_ops_v2_def)
  show "v2_td_inv s' \<and> (v2_up s \<longrightarrow> v2_up s') \<and> (r = OK \<longrightarrow> v2_safe s' \<and> \<not> protocol_poisoned s') \<and> (r \<noteq> OK \<longrightarrow> protocol_poisoned s' \<or> s' = s) \<and>
      later s s'"
  proof (cases "admin_queue s")
    case None
    then show ?thesis using i rc by (auto simp: recover_mx_queue_def v2_td_inv_def v2_safe_def adm_rel_def v2_up_def)
  next
    case (Some q)
    obtain A where A: "adm_rel A s" using i by (auto simp: v2_td_inv_def)
    from recover_rel [OF A rc Some] obtain A' where "adm_rel A' s'" "r = OK \<longrightarrow> A' = spec_init \<and> quiet s' \<and> \<not> protocol_poisoned s'"
      "r \<noteq> OK \<longrightarrow> protocol_poisoned s'" "admin_queue s' \<noteq> None" "(io_queue s' = None) = (io_queue s = None)" by metis
    then show ?thesis using quiet_safe recover_later [OF rc] by (auto simp: v2_td_inv_def v2_up_def)
  qed
next
  fix s assume "v2_td_inv s" "\<not> queue_dma_programmed s"
  then show "v2_safe s" by (auto simp: v2_td_inv_def v2_safe_def adm_rel_def)
next
  fix s assume "v2_td_inv s" "io_queue s \<noteq> None \<or> queue_dma_programmed s"
  then show "v2_td_inv (s\<lparr>protocol_poisoned := True\<rparr>)" by (auto simp: v2_td_inv_def dest: poison_rel)
next
  fix s t assume "v2_td_inv s"
  then show "v2_td_inv (s\<lparr>clock := t\<rparr>) \<and> v2_td_inv (mx_stop_queue_threads s)"
    unfolding v2_td_inv_def using adm_rel_frame by (fastforce simp: mx_stop_queue_threads_def)
next
  fix s t assume "v2_safe s"
  then show "v2_safe (s\<lparr>clock := t\<rparr>) \<and> v2_safe (mx_stop_queue_threads s)" by (simp add: v2_safe_def mx_stop_queue_threads_def)
next
  fix s t assume "v2_up s"
  then show "v2_up (s\<lparr>clock := t\<rparr>) \<and> v2_up (mx_stop_queue_threads s) \<and> v2_up (s\<lparr>protocol_poisoned := True\<rparr>)"
    by (simp add: v2_up_def mx_stop_queue_threads_def)
next
  fix s show "clock (op_free_queue (register_mx_ops_v2 env) s) = clock s \<and> stopped (op_free_queue (register_mx_ops_v2 env) s) = stopped s"
    by (simp add: register_mx_ops_v2_def free_mx_queue_def stopped_def)
qed

text \<open>Version 1 keeps its queues in device memory: it is never told a host address of a ring.\<close>

definition v1_never_programmed :: "v2_dev \<Rightarrow> bool" where
  "v1_never_programmed s \<longleftrightarrow> \<not> queue_dma_programmed s \<and> admin_queue s = None"

interpretation v1_td: queue_teardown "register_mx_ops_v1 env made" v1_never_programmed v1_never_programmed "\<lambda>_. True" for env made
  by unfold_locales (auto simp: register_mx_ops_v1_def release_mx_queue_v1_def v1_never_programmed_def mx_stop_queue_threads_def
      try_recover_def free_mx_queue_v1_def stopped_def)

lemma v2_free: "op_free_queue (register_mx_ops_v2 env) = free_mx_queue"
  by (simp add: register_mx_ops_v2_def)

end
