(* ===== verification/Attach.thy ===== *)
theory Attach
  imports Teardown_Correct
begin

text \<open>
  Attaching and detaching PCI functions: \<open>create_mx_pdev\<close>, \<open>mxdma_attach_device\<close>, \<open>mxdma_detach_device\<close>, the bus
  notifier and the two module entry points of \<open>init.c\<close>.  Each call takes the environment it runs in: what the
  kernel answers, and the device as in \<open>Admin_V2\<close> and \<open>Teardown\<close>.  A PCI function is a number, and \<open>fns\<close> is the state of
  the functions that are not attached.
\<close>

section \<open>Creating a device\<close>

record attach_env =
  hw :: v2_env
  v1_queue :: "io_q result"
  tdenv :: td_env
  pcik :: pci_calls
  wo_cxl :: bool
  pci_revision :: nat
  call_kzalloc :: bool
  call_percpu_ref :: "unit result"
  call_bar_map :: bool
  call_chrdev :: "unit result"
  call_workqueue :: bool
  call_zombie_thread :: "unit result"
  call_page_pool :: bool
  call_cdev :: "nat \<Rightarrow> unit result"
  memdev_id :: "int result"      \<comment> \<open>\<open>get_cxl_memdev_id\<close>\<close>
  call_try_module_get :: bool

text \<open>\<open>register_mx_ops\<close> by \<open>pdev->revision\<close>.\<close>

definition ops_of :: "attach_env \<Rightarrow> nat \<Rightarrow> mx_operations" where
  "ops_of e v = (if v = 1 then register_mx_ops_v1 (hw e) (v1_queue e) else register_mx_ops_v2 (hw e))"

text \<open>The zeroed object, with what is set before the first step that can fail.\<close>

definition new_qs :: v2_dev where
  "new_qs = \<lparr>clock = 0, admin_queue = None, io_queue = None, queue_dma_programmed = False, protocol_poisoned = False, reg_aqa = 0,
     reg_asq = 0, reg_acq = 0, bar_mapped_size = 0, submit_thread = False, complete_thread = False, log = []\<rparr>"

definition new_pci :: "pci_fn \<Rightarrow> pci_state" where
  "new_pci f = \<lparr>fn = f, irq_requested = False, msi_enabled_by_driver = False, readrq_changed = False, min_align_mask_changed = False,
     max_seg_size_changed = False, coherent_dma_mask_changed = False, dma_mask_changed = False, bus_master_enabled_by_driver = False,
     pci_enabled_by_driver = False, bar_region_requested = False, bar_present = False, saved_readrq = 0, saved_dma_mask = 0,
     saved_coherent_dma_mask = 0, saved_max_seg_size = 0, saved_min_align_mask = 0, bar_size = 0\<rparr>"

definition new_tdev :: "pci_fn \<Rightarrow> tdev" where
  "new_tdev f = \<lparr>qs = new_qs, teardown_started = False, lease_removed = False, td_enabled = False, io_ref_dying = False, cdevs = 0,
     bar_mappings_live = False, qos_active = True, async_wq = False, queues_initialized = False, dma_reclaim_safe = False,
     zombie_thread = False, chrdev_region_allocated = False, mboxes = False, page_pool = False, pci = new_pci f, has_pdev = True,
     attach_error = None\<rparr>"

definition create_chrdev :: "attach_env \<Rightarrow> tdev \<Rightarrow> unit result \<times> tdev" where
  "create_chrdev e d = (case call_chrdev e of Inl x \<Rightarrow> (Inl x, d) | Inr _ \<Rightarrow> (OK, d\<lparr>chrdev_region_allocated := True\<rparr>))"

text \<open>\<open>dev_map\<close>, \<open>pci_device_init\<close>, \<open>set_dma_addressing\<close>; the size of the mapping is what the queues check doorbells against.\<close>

definition create_pci :: "attach_env \<Rightarrow> tdev \<Rightarrow> unit result \<times> tdev" where
  "create_pci e d = (case pci_setup (wo_cxl e) (pcik e) (pci d) of
     (r, p) \<Rightarrow> (r, d\<lparr>pci := p, qs := (qs d)\<lparr>bar_mapped_size := bar_size p\<rparr>\<rparr>))"

definition create_queues :: "mx_operations \<Rightarrow> tdev \<Rightarrow> unit result \<times> tdev" where
  "create_queues ops d = (case op_init_queue ops (qs d) of
     (Inl x, s) \<Rightarrow> (Inl x, d\<lparr>qs := s\<rparr>)
   | (Inr _, s) \<Rightarrow> (OK, d\<lparr>qs := s, queues_initialized := True\<rparr>))"

definition create_wq :: "attach_env \<Rightarrow> tdev \<Rightarrow> unit result \<times> tdev" where
  "create_wq e d = (if call_workqueue e then (OK, d\<lparr>async_wq := True\<rparr>) else (Inl ENOMEM, d))"

definition create_zombie :: "attach_env \<Rightarrow> tdev \<Rightarrow> unit result \<times> tdev" where
  "create_zombie e d = (case call_zombie_thread e of Inl x \<Rightarrow> (Inl x, d\<lparr>zombie_thread := False\<rparr>) | Inr _ \<Rightarrow> (OK, d\<lparr>zombie_thread := True\<rparr>))"

definition create_pool :: "attach_env \<Rightarrow> tdev \<Rightarrow> unit result \<times> tdev" where
  "create_pool e d = (if call_page_pool e then (OK, d\<lparr>page_pool := True\<rparr>) else (Inl ENOMEM, d))"

definition create_cdev :: "attach_env \<Rightarrow> nat \<Rightarrow> tdev \<Rightarrow> unit result \<times> tdev" where
  "create_cdev e type d = (case call_cdev e type of Inl x \<Rightarrow> (Inl x, d) | Inr _ \<Rightarrow> (OK, d\<lparr>cdevs := cdevs d + 1\<rparr>))"

definition mxdma_device_online :: "tdev \<Rightarrow> unit result \<times> tdev" where
  "mxdma_device_online d = (OK, d\<lparr>td_enabled := True\<rparr>)"

abbreviation (input) NUM_OF_MX_CDEV :: nat where "NUM_OF_MX_CDEV \<equiv> 3"

definition create_steps :: "attach_env \<Rightarrow> mx_operations \<Rightarrow> (tdev \<Rightarrow> unit result \<times> tdev) list" where
  "create_steps e ops =
     [create_chrdev e, create_pci e, create_queues ops, create_wq e, create_zombie e, create_pool e] @
     map (create_cdev e) [0..<NUM_OF_MX_CDEV] @ [mxdma_device_online]"

text \<open>The result, and the object in \<open>*out_pdev\<close>.\<close>

definition create_mx_pdev :: "attach_env \<Rightarrow> pci_fn \<Rightarrow> unit result \<times> tdev option" where
  "create_mx_pdev e f =
     (if pci_revision e \<noteq> 1 \<and> pci_revision e \<noteq> 2 then (Inl EINVAL, None)
      else if \<not> call_kzalloc e then (Inl ENOMEM, None)
      else case call_percpu_ref e of
             Inl x \<Rightarrow> (Inl x, None)
           | Inr _ \<Rightarrow>
               if \<not> call_bar_map e then (Inl ENOMEM, None)
               else (case steps (create_steps e (ops_of e (pci_revision e))) (new_tdev f) of (r, d) \<Rightarrow> (r, Some d)))"

section \<open>The registry\<close>

record attachment =
  at_pdev :: nat
  at_rev :: nat
  at_dev :: tdev
  module_ref_held :: bool
  pci_ref_held :: bool

text \<open>
  \<open>owner_refs\<close> counts the references \<open>kref_init\<close> handed to the registry; \<open>claimed\<close> holds what a detach has taken out of
  the list and not finished.
\<close>

record registry =
  accepting :: bool
  module_coming :: bool
  devices :: "attachment list"
  claimed :: "attachment list"
  module_refs :: nat
  pci_refs :: "nat \<Rightarrow> nat"
  owner_refs :: nat
  fns :: "nat \<Rightarrow> pci_fn"

definition mxdma_find_device_locked :: "nat \<Rightarrow> registry \<Rightarrow> attachment option" where
  "mxdma_find_device_locked p g = find (\<lambda>a. at_pdev a = p) (devices g)"

definition pci_dev_get :: "nat \<Rightarrow> registry \<Rightarrow> registry" where
  "pci_dev_get p g = g\<lparr>pci_refs := (pci_refs g)(p := pci_refs g p + 1)\<rparr>"

definition pci_dev_put :: "nat \<Rightarrow> registry \<Rightarrow> registry" where
  "pci_dev_put p g = g\<lparr>pci_refs := (pci_refs g)(p := pci_refs g p - 1)\<rparr>"

text \<open>The flags are read before they are cleared.\<close>

definition mxdma_drop_attachment :: "attachment \<Rightarrow> registry \<Rightarrow> registry" where
  "mxdma_drop_attachment a g =
     (let g = g\<lparr>owner_refs := owner_refs g - 1\<rparr>;
          g = (if pci_ref_held a then pci_dev_put (at_pdev a) g else g)
      in if module_ref_held a then g\<lparr>module_refs := module_refs g - 1\<rparr> else g)"

text \<open>After \<open>create_mx_pdev\<close>: \<open>None\<close> when the teardown of a failed attach still waits.\<close>

definition attach_created :: "attach_env \<Rightarrow> nat \<Rightarrow> nat \<Rightarrow> unit result \<Rightarrow> tdev \<Rightarrow> registry \<Rightarrow> (unit result \<times> registry) option" where
  "attach_created e fuel p r d g =
     (let a = \<lparr>at_pdev = p, at_rev = pci_revision e, at_dev = d, module_ref_held = \<not> wo_cxl e, pci_ref_held = True\<rparr> in
      case r of
        Inr _ \<Rightarrow> Some (OK, g\<lparr>devices := devices g @ [a]\<rparr>)
      | Inl x \<Rightarrow>
          (case destroy_mx_pdev (tdenv e) (ops_of e (pci_revision e)) False fuel (d\<lparr>attach_error := Some x\<rparr>) of
             None \<Rightarrow> None
           | Some (True, d) \<Rightarrow>
               Some (Inl x, mxdma_drop_attachment (a\<lparr>at_dev := d\<rparr>) (g\<lparr>fns := (fns g)(p := fn (pci d))\<rparr>))
           | Some (False, d) \<Rightarrow>
               Some (if wo_cxl e then OK else Inl x, g\<lparr>devices := devices g @ [a\<lparr>at_dev := d\<rparr>]\<rparr>)))"

definition module_get :: "attach_env \<Rightarrow> registry \<Rightarrow> registry" where
  "module_get e g = (if wo_cxl e then g else g\<lparr>module_refs := module_refs g + 1\<rparr>)"

definition module_put :: "attach_env \<Rightarrow> registry \<Rightarrow> registry" where
  "module_put e g = (if wo_cxl e then g else g\<lparr>module_refs := module_refs g - 1\<rparr>)"

definition mxdma_attach_device :: "attach_env \<Rightarrow> nat \<Rightarrow> nat \<Rightarrow> registry \<Rightarrow> (unit result \<times> registry) option" where
  "mxdma_attach_device e fuel p g =
     (if \<not> accepting g then Some (Inl ESHUTDOWN, g)
      else case mxdma_find_device_locked p g of
        Some a \<Rightarrow> Some (if protocol_poisoned (qs (at_dev a)) then Inl EUCLEAN else OK, g)
      | None \<Rightarrow>
          (case memdev_id e of
             Inl x \<Rightarrow> Some (Inl x, g)
           | Inr _ \<Rightarrow>
               if \<not> wo_cxl e \<and> \<not> module_coming g \<and> \<not> call_try_module_get e then Some (Inl ENODEV, g)
               else
                 (let g1 = pci_dev_get p (module_get e g) in
                  case create_mx_pdev e (fns g p) of
                    (r, None) \<Rightarrow> Some (r, module_put e (pci_dev_put p g1))
                  | (r, Some d) \<Rightarrow> attach_created e fuel p r d (g1\<lparr>owner_refs := owner_refs g1 + 1\<rparr>))))"

text \<open>\<open>mxdma_detach_device\<close> in two parts: the claim under the registry lock, and the teardown.\<close>

definition detach_claim :: "nat \<Rightarrow> registry \<Rightarrow> registry" where
  "detach_claim p g =
     (case mxdma_find_device_locked p g of
        None \<Rightarrow> g
      | Some a \<Rightarrow> g\<lparr>devices := remove1 a (devices g), claimed := claimed g @ [a]\<rparr>)"

definition detach_finish :: "attach_env \<Rightarrow> nat \<Rightarrow> attachment \<Rightarrow> registry \<Rightarrow> registry option" where
  "detach_finish e fuel a g =
     (let g = g\<lparr>claimed := remove1 a (claimed g)\<rparr> in
      case destroy_mx_pdev (tdenv e) (ops_of e (at_rev a)) True fuel (at_dev a) of
        None \<Rightarrow> None
      | Some (False, d) \<Rightarrow> Some (g\<lparr>devices := devices g @ [a\<lparr>at_dev := d\<rparr>]\<rparr>)
      | Some (True, d) \<Rightarrow> Some (mxdma_drop_attachment (a\<lparr>at_dev := d\<rparr>) (g\<lparr>fns := (fns g)(at_pdev a := fn (pci d))\<rparr>)))"

definition mxdma_detach_device :: "attach_env \<Rightarrow> nat \<Rightarrow> nat \<Rightarrow> registry \<Rightarrow> registry option" where
  "mxdma_detach_device e fuel p g =
     (case mxdma_find_device_locked p g of
        None \<Rightarrow> Some g
      | Some a \<Rightarrow> detach_finish e fuel a (detach_claim p g))"

section \<open>The notifier and the module\<close>

datatype bus_action = BUS_NOTIFY_BOUND_DRIVER | BUS_NOTIFY_UNBIND_DRIVER | BUS_NOTIFY_OTHER

definition mxdma_pci_notify :: "attach_env \<Rightarrow> nat \<Rightarrow> bool \<Rightarrow> bool \<Rightarrow> bus_action \<Rightarrow> nat \<Rightarrow> registry \<Rightarrow> registry option" where
  "mxdma_pci_notify e fuel vendor_xcena bound_cxl_pci action p g =
     (if \<not> vendor_xcena then Some g
      else case action of
        BUS_NOTIFY_BOUND_DRIVER \<Rightarrow> if bound_cxl_pci then map_option snd (mxdma_attach_device e fuel p g) else Some g
      | BUS_NOTIFY_UNBIND_DRIVER \<Rightarrow> if bound_cxl_pci then mxdma_detach_device e fuel p g else Some g
      | BUS_NOTIFY_OTHER \<Rightarrow> Some g)"

text \<open>The functions present when the module is loaded: vendor, bound to \<open>cxl_pci\<close>, number.\<close>

fun mxdma_enumerate_bound_devices :: "(bool \<times> bool \<times> nat \<times> attach_env) list \<Rightarrow> nat \<Rightarrow> registry \<Rightarrow> registry option" where
  "mxdma_enumerate_bound_devices [] fuel g = Some g"
| "mxdma_enumerate_bound_devices ((vendor_xcena, bound, p, e) # ps) fuel g =
     (if vendor_xcena \<and> bound then
        (case mxdma_attach_device e fuel p g of
           None \<Rightarrow> None
         | Some (_, g) \<Rightarrow> mxdma_enumerate_bound_devices ps fuel g)
      else mxdma_enumerate_bound_devices ps fuel g)"

record module_env =
  dev_mode :: nat
  gid_valid :: bool
  call_class_create :: "unit result"
  call_cache_create :: bool
  call_register :: "unit result"      \<comment> \<open>\<open>bus_register_notifier\<close>, or \<open>pci_register_driver\<close>\<close>
  standalone :: bool      \<comment> \<open>\<open>CONFIG_WO_CXL\<close>\<close>
  present :: "(bool \<times> bool \<times> nat \<times> attach_env) list"

record module_state =
  mxdma_class :: bool
  mx_transfer_cache :: bool
  registered :: bool
  reg :: registry

abbreviation (input) close_registry :: "registry \<Rightarrow> registry" where
  "close_registry g \<equiv> g\<lparr>accepting := False, module_coming := False\<rparr>"

definition mxdma_init :: "module_env \<Rightarrow> nat \<Rightarrow> module_state \<Rightarrow> (unit result \<times> module_state) option" where
  "mxdma_init e fuel m =
     (if dev_mode e = 0 \<or> dev_mode e > 511 \<or> \<not> gid_valid e then Some (Inl EINVAL, m)
      else case call_class_create e of
        Inl x \<Rightarrow> Some (Inl x, m)
      | Inr _ \<Rightarrow>
          if \<not> call_cache_create e then Some (Inl ENOMEM, m)
          else
            let g = (reg m)\<lparr>accepting := True, module_coming := (if standalone e then module_coming (reg m) else True)\<rparr> in
            (case call_register e of
               Inl x \<Rightarrow> Some (Inl x, m\<lparr>mxdma_class := False, mx_transfer_cache := False, reg := close_registry g\<rparr>)
             | Inr _ \<Rightarrow>
                 let m = m\<lparr>mxdma_class := True, mx_transfer_cache := True, registered := True\<rparr> in
                 if standalone e then Some (OK, m\<lparr>reg := g\<rparr>)
                 else (case mxdma_enumerate_bound_devices (present e) fuel g of
                         None \<Rightarrow> None
                       | Some g \<Rightarrow> Some (OK, m\<lparr>reg := g\<lparr>module_coming := False\<rparr>\<rparr>))))"

text \<open>The build on top of the CXL driver: unregistering the notifier detaches nothing. The flag is the \<open>WARN_ON\<close>.\<close>

definition mxdma_exit :: "module_state \<Rightarrow> bool \<times> module_state" where
  "mxdma_exit m =
     (devices (reg m) \<noteq> [],
      m\<lparr>mxdma_class := False, mx_transfer_cache := False, registered := False, reg := close_registry (reg m)\<rparr>)"

end
