(* ===== verification/Attach_Correct.thy ===== *)
theory Attach_Correct
  imports Attach
begin

text \<open>
  What every registered device satisfies, however attaches, detaches and I/O follow each other, and the reference
  counts of the registry.
\<close>

section \<open>Creating a device\<close>

text \<open>What the driver holds on its record lets it put the function back as it was.\<close>

definition restorable :: "bool \<Rightarrow> pci_fn \<Rightarrow> pci_state \<Rightarrow> bool" where
  "restorable w f p \<longleftrightarrow> (if w then but_dma (orig p) = but_dma f else orig p = f)"

definition bare :: "pci_fn \<Rightarrow> bool" where
  "bare f \<longleftrightarrow> \<not> irq_handler f \<and> \<not> fn_region_owned f \<and> \<not> fn_iomapped f"

text \<open>A device, whatever state its creation or teardown left it in.\<close>

definition dev_inv :: "bool \<Rightarrow> nat \<Rightarrow> pci_fn \<Rightarrow> tdev \<Rightarrow> bool" where
  "dev_inv w v f d \<longleftrightarrow>
     (if v = 1 then v1_never_programmed (qs d) else v2_td_inv (qs d) \<and> (queues_initialized d \<longrightarrow> v2_up (qs d))) \<and>
     (\<not> queues_initialized d \<longrightarrow> stopped (qs d)) \<and> (teardown_started d \<longrightarrow> protocol_poisoned (qs d)) \<and> restorable w f (pci d) \<and> has_pdev d"

text \<open>The stages of \<open>create_mx_pdev\<close>.\<close>

definition started :: "bool \<Rightarrow> nat \<Rightarrow> pci_fn \<Rightarrow> tdev \<Rightarrow> bool" where
  "started w v f d \<longleftrightarrow> dev_inv w v f d \<and> \<not> teardown_started d"

definition before_queues :: "bool \<Rightarrow> nat \<Rightarrow> pci_fn \<Rightarrow> bool \<Rightarrow> tdev \<Rightarrow> bool" where
  "before_queues w v f u d \<longleftrightarrow> started w v f d \<and> fresh (qs d) \<and> \<not> queues_initialized d \<and> cdevs d = 0 \<and> (u \<longrightarrow> untouched 0 (pci d))"

definition after_queues :: "attach_env \<Rightarrow> nat \<Rightarrow> pci_fn \<Rightarrow> nat \<Rightarrow> tdev \<Rightarrow> bool" where
  "after_queues e v f n d \<longleftrightarrow> started (wo_cxl e) v f d \<and> queues_initialized d \<and>
     (v = 2 \<longrightarrow> in_use (hw e) (qs d)) \<and> \<not> protocol_poisoned (qs d) \<and>
     (1 \<le> n \<longrightarrow> async_wq d) \<and> (2 \<le> n \<longrightarrow> zombie_thread d) \<and> (3 \<le> n \<longrightarrow> page_pool d) \<and> cdevs d = min (n - 3) NUM_OF_MX_CDEV \<and>
     (7 \<le> n \<longrightarrow> td_enabled d)"

definition stage :: "('a \<Rightarrow> bool) \<Rightarrow> ('a \<Rightarrow> bool) \<Rightarrow> ('a \<Rightarrow> unit result \<times> 'a) \<Rightarrow> ('a \<Rightarrow> bool) \<Rightarrow> bool" where
  "stage I P f Q \<longleftrightarrow> (\<forall>d r d'. P d \<longrightarrow> f d = (r, d') \<longrightarrow> (r = OK \<longrightarrow> Q d') \<and> (r \<noteq> OK \<longrightarrow> I d'))"

lemma stageI: "(\<And>d r d'. \<lbrakk> P d; f d = (r, d') \<rbrakk> \<Longrightarrow> (r = OK \<longrightarrow> Q d') \<and> (r \<noteq> OK \<longrightarrow> I d')) \<Longrightarrow> stage I P f Q"
  by (simp add: stage_def)

lemma stage_Nil: "stage I P (steps []) P"
  by (simp add: stage_def)

lemma stage_Cons: "\<lbrakk> stage I P f Q; stage I Q (steps fs) R \<rbrakk> \<Longrightarrow> stage I P (steps (f # fs)) R"
  unfolding stage_def by (auto split: prod.split_asm sum.split_asm)

lemma bare_untouched: "bare f \<Longrightarrow> untouched 0 (new_pci f)"
  by (simp add: bare_def untouched_def new_pci_def)

lemma orig_new [simp]: "orig (new_pci f) = f"
  by (simp add: orig_def new_pci_def)

lemma fresh_inv: "fresh s \<Longrightarrow> v1_never_programmed s \<and> v2_td_inv s \<and> stopped s"
  using fresh_rel by (auto simp: fresh_def v1_never_programmed_def v2_td_inv_def stopped_def)

lemma stage_chrdev: "stage (started w v f) (before_queues w v f True) (create_chrdev e) (before_queues w v f True)"
  by (rule stageI) (auto simp: create_chrdev_def before_queues_def started_def dev_inv_def split: sum.split_asm)

lemma setup_restorable: "\<lbrakk> untouched 0 p; restorable w f p; pci_setup w k p = (r, p') \<rbrakk> \<Longrightarrow> restorable w f p'"
  using setup_keeps [of k] setup_keeps_wo [of k] by (cases w) (auto simp: keeps_def restorable_def)

lemma fresh_size: "fresh s \<Longrightarrow> fresh (s\<lparr>bar_mapped_size := n\<rparr>)"
  by (simp add: fresh_def)

lemma stage_pci:
  "stage (started (wo_cxl e) v f) (before_queues (wo_cxl e) v f True) (create_pci e) (before_queues (wo_cxl e) v f False)"
proof (rule stageI)
  fix d r d' let ?w = "wo_cxl e"
  assume b: "before_queues ?w v f True d" and c: "create_pci e d = (r, d')"
  obtain r1 p where "pci_setup ?w (pcik e) (pci d) = (r1, p)" by (rule prod.exhaust)
  then have p: "pci_setup ?w (pcik e) (pci d) = (r, p)" "d' = d\<lparr>pci := p, qs := (qs d)\<lparr>bar_mapped_size := bar_size p\<rparr>\<rparr>"
    using c by (simp_all add: create_pci_def)
  have "restorable ?w f p"
    by (rule setup_restorable [OF _ _ p(1)]) (use b in \<open>auto simp: before_queues_def started_def dev_inv_def\<close>)
  moreover have "fresh (qs d')" using b p(2) fresh_size by (auto simp: before_queues_def)
  ultimately show "(r = OK \<longrightarrow> before_queues ?w v f False d') \<and> (r \<noteq> OK \<longrightarrow> started ?w v f d')"
    using b p(2) fresh_inv [of "qs d'"] by (auto simp: before_queues_def started_def dev_inv_def)
qed

lemma init_v1_inv:
  "\<lbrakk> fresh s; init_io_queue_v1 env made s = (r, s') \<rbrakk> \<Longrightarrow> v1_never_programmed s' \<and> \<not> protocol_poisoned s' \<and> (r \<noteq> OK \<longrightarrow> stopped s')"
  by (auto simp: init_io_queue_v1_def mx_start_io_queue_def fresh_def v1_never_programmed_def stopped_def split: sum.split_asm)

text \<open>Queues that could not be set up leave no handler thread behind.\<close>

lemma out_delete_later: "later s (snd (out_delete env e s))"
  using delete_rings_later [of s env] by (auto simp: out_delete_def split: prod.split bool.split)

lemma use_io_stopped:
  assumes "use_io_queue env qid s = (r, s')" "stopped s" "r \<noteq> OK"
  shows "stopped s'"
proof (cases "io_queue s")
  case (Some io)
  have out: "stopped s'" if "out_delete env e s1 = (r, s')" "stopped s1" for e s1
    using out_delete_later [of s1 env e] that by (simp add: later_def)
  show ?thesis using assms Some
    by (auto simp: use_io_queue_def mx_start_io_queue_def Let_def stopped_def split: sum.split_asm
        dest!: out [unfolded stopped_def])
qed (use assms in \<open>simp add: use_io_queue_def\<close>)

lemma configure_io_stopped:
  assumes "configure_io_queue env s = (r, s')" "stopped s" "r \<noteq> OK"
  shows "stopped s'"
proof -
  have sub: "stopped s2" if "submit_sync_command env c s1 = (x, s2)" "stopped s1" for c s1 x s2
    using submit_later [of s1 env c] that by (simp add: later_def)
  have out: "stopped s'" if "out_delete env e s1 = (r, s')" "stopped s1" for e s1
    using out_delete_later [of s1 env e] that by (simp add: later_def)
  show ?thesis using assms
    by (auto simp: configure_io_queue_def Let_def split: if_split_asm sum.split_asm option.split_asm prod.split_asm
        dest!: sub dest: out use_io_stopped)
qed

lemma init_v2_stopped: "\<lbrakk> init_mx_queue env s = (r, s'); stopped s; r \<noteq> OK \<rbrakk> \<Longrightarrow> stopped s'"
  by (auto simp: init_mx_queue_def configure_admin_queue_def Let_def stopped_def split: if_split_asm sum.split_asm prod.split_asm
      dest: configure_io_stopped [unfolded stopped_def])

lemma init_v2_inv:
  assumes "fresh s" "init_mx_queue env s = (r, s')"
  shows "v2_td_inv s' \<and> (r = OK \<longrightarrow> in_use env s' \<and> v2_up s' \<and> \<not> protocol_poisoned s') \<and> (r \<noteq> OK \<longrightarrow> stopped s')"
proof -
  have i: "v2_td_inv s" "stopped s" using fresh_inv assms(1) by blast+
  from init_rel [OF assms] show ?thesis using i init_v2_stopped [OF assms(2)] by (auto simp: v2_td_inv_def v2_up_def in_use_def)
qed

lemma stage_queues:
  "stage (started (wo_cxl e) v f) (before_queues (wo_cxl e) v f False) (create_queues (ops_of e v)) (after_queues e v f 0)"
proof (rule stageI)
  fix d r d' assume b: "before_queues (wo_cxl e) v f False d" and c: "create_queues (ops_of e v) d = (r, d')"
  obtain s where s: "op_init_queue (ops_of e v) (qs d) = (r, s)" "d' = d\<lparr>qs := s, queues_initialized := (r = OK)\<rparr>"
  proof (cases "op_init_queue (ops_of e v) (qs d)")
    case (Pair r1 s1)
    then show thesis using c b that [of s1] by (cases d) (auto simp: create_queues_def before_queues_def split: sum.split_asm)
  qed
  have fr: "fresh (qs d)" using b by (simp add: before_queues_def)
  show "(r = OK \<longrightarrow> after_queues e v f 0 d') \<and> (r \<noteq> OK \<longrightarrow> started (wo_cxl e) v f d')"
  proof (cases "v = 1")
    case True
    then have "init_io_queue_v1 (hw e) (v1_queue e) (qs d) = (r, s)" using s(1) by (simp add: ops_of_def register_mx_ops_v1_def)
    from init_v1_inv [OF fr this] show ?thesis using True b s(2) by (auto simp: after_queues_def before_queues_def started_def dev_inv_def)
  next
    case False
    then have "init_mx_queue (hw e) (qs d) = (r, s)" using s(1) by (simp add: ops_of_def register_mx_ops_v2_def)
    from init_v2_inv [OF fr this] show ?thesis using False b s(2) by (auto simp: after_queues_def before_queues_def started_def dev_inv_def)
  qed
qed

lemma stage_rest:
  "stage (started (wo_cxl e) v f) (after_queues e v f 0) (create_wq e) (after_queues e v f 1)"
  "stage (started (wo_cxl e) v f) (after_queues e v f 1) (create_zombie e) (after_queues e v f 2)"
  "stage (started (wo_cxl e) v f) (after_queues e v f 2) (create_pool e) (after_queues e v f 3)"
  "stage (started (wo_cxl e) v f) (after_queues e v f 3) (create_cdev e 0) (after_queues e v f 4)"
  "stage (started (wo_cxl e) v f) (after_queues e v f 4) (create_cdev e 1) (after_queues e v f 5)"
  "stage (started (wo_cxl e) v f) (after_queues e v f 5) (create_cdev e 2) (after_queues e v f 6)"
  "stage (started (wo_cxl e) v f) (after_queues e v f 6) mxdma_device_online (after_queues e v f 7)"
  by (rule stageI; auto simp: create_wq_def create_zombie_def create_pool_def create_cdev_def mxdma_device_online_def
      after_queues_def started_def dev_inv_def split: sum.split_asm if_split_asm)+

lemma stage_create:
  "stage (started (wo_cxl e) v f) (before_queues (wo_cxl e) v f True) (steps (create_steps e (ops_of e v))) (after_queues e v f 7)"
proof -
  have u: "[0..<NUM_OF_MX_CDEV] = [0, 1, 2]" by (simp add: upt_rec)
  show ?thesis
    unfolding create_steps_def u list.map append.simps
    by (rule stage_Cons, rule stage_chrdev, rule stage_Cons, rule stage_pci, rule stage_Cons, rule stage_queues)
      (rule stage_Cons, rule stage_rest | rule stage_Nil)+
qed

lemma create_ok:
  assumes "create_mx_pdev e f = (r, Some d)" "bare f"
  shows "(pci_revision e = 1 \<or> pci_revision e = 2) \<and> started (wo_cxl e) (pci_revision e) f d \<and>
    (r = OK \<longrightarrow> after_queues e (pci_revision e) f 7 d)"
proof -
  let ?v = "pci_revision e"
  have v: "?v = 1 \<or> ?v = 2" and st: "steps (create_steps e (ops_of e ?v)) (new_tdev f) = (r, d)"
    using assms(1) by (auto simp: create_mx_pdev_def split: if_split_asm sum.split_asm prod.split_asm)
  have "fresh new_qs" by (simp add: fresh_def new_qs_def)
  then have "before_queues (wo_cxl e) ?v f True (new_tdev f)"
    using fresh_inv bare_untouched [OF assms(2)] by (auto simp: before_queues_def started_def dev_inv_def new_tdev_def restorable_def)
  then have "(r = OK \<longrightarrow> after_queues e ?v f 7 d) \<and> (r \<noteq> OK \<longrightarrow> started (wo_cxl e) ?v f d)"
    using stage_create [of e ?v f] st unfolding stage_def by blast
  then show ?thesis using v by (auto simp: after_queues_def)
qed

section \<open>Tearing it down\<close>

text \<open>
  What a successful teardown of \<open>d\<close> has established before it freed the rings: workers and handlers are stopped; and after the
  last user had left, the I/O queue was idle and the device had given up the rings, or the function was gone.
\<close>

definition given_up :: "td_env \<Rightarrow> nat \<Rightarrow> bool \<Rightarrow> tdev \<Rightarrow> tdev \<Rightarrow> bool" where
  "given_up te v actual d d' \<longleftrightarrow> dma_reclaim_safe d' \<and> \<not> has_pdev d' \<and> \<not> page_pool d' \<and> \<not> async_wq d' \<and> stopped (qs d') \<and>
     (actual \<longrightarrow> \<not> pci_pending te (clock (qs d')) \<or> gone_at te (clock (qs d'))) \<and>
     (\<exists>t0 t. clock (qs d) \<le> t0 \<and> io_ref_zero te t0 \<and> t0 \<le> t \<and> t \<le> clock (qs d') \<and>
       (gone_at te t \<or>
        (io_queue (qs d) = None \<or> queue_idle (io_at te t)) \<and>
        (v \<noteq> 1 \<longrightarrow> (\<exists>s. run_log (log s) = Some spec_init \<and> \<not> queue_dma_programmed s \<and> qs d' = free_mx_queue s))))"

lemma given_upI:
  assumes "dma_reclaim_safe d' \<and> \<not> has_pdev d' \<and> \<not> page_pool d' \<and> \<not> async_wq d' \<and> stopped (qs d')"
    "actual \<longrightarrow> \<not> pci_pending te (clock (qs d')) \<or> gone_at te (clock (qs d'))"
    "clock (qs d) \<le> tq" "io_ref_zero te tq" "idle_seen te ((qs d)\<lparr>clock := tq\<rparr>) (clock (qs d'))"
    "tq \<le> clock (qs d')"
    "gone_between te tq (clock (qs d')) \<or>
      (v \<noteq> 1 \<longrightarrow> (\<exists>s. run_log (log s) = Some spec_init \<and> \<not> queue_dma_programmed s \<and> qs d' = free_mx_queue s))"
  shows "given_up te v actual d d'"
proof (cases "gone_between te tq (clock (qs d'))")
  case True
  then obtain t where "tq \<le> t" "t \<le> clock (qs d')" "gone_at te t" by (auto simp: gone_between_def)
  then show ?thesis using assms unfolding given_up_def by blast
next
  case False
  then obtain t where "tq \<le> t" "t \<le> clock (qs d')" "io_queue (qs d) = None \<or> queue_idle (io_at te t)"
    using assms(5,6) by (auto simp: idle_seen_def)
  then show ?thesis using assms False unfolding given_up_def by blast
qed

lemma exit_bare: "bare (fn (pci_device_exit rc (dev_unmap p))) = bare (orig p)"
proof -
  have un: "bare (orig (undo_readrq rc p)) = bare (orig p)" "bare (orig (undo_mask rc p)) = bare (orig p)"
    "bare (orig (undo_coherent rc p)) = bare (orig p)" "bare (orig (undo_max_seg rc p)) = bare (orig p)" for p
    by (simp_all add: bare_def orig_def undo_defs)
  show ?thesis using unchanged_orig [OF exit_changed] by (simp add: pci_device_exit_def dev_unmap_def un undo_orig)
qed

lemma bare_but_dma: "bare (but_dma f) = bare f"
  by (simp add: bare_def but_dma_def)

lemma restorable_bare: "\<lbrakk> restorable w f p; bare f \<rbrakk> \<Longrightarrow> bare (orig p)"
  by (metis restorable_def bare_but_dma)

lemma orig_clear_master: "orig (pci_clear_master p) = (orig p)\<lparr>is_busmaster := False\<rparr>"
  by (simp add: orig_def pci_clear_master_def)

lemma bare_clear [simp]: "bare (f\<lparr>is_busmaster := b\<rparr>) = bare f"
  by (simp add: bare_def)

lemma v1_free: "op_free_queue (register_mx_ops_v1 env made) = free_mx_queue_v1"
  by (simp add: register_mx_ops_v1_def)

lemma destroy_dev:
  assumes inv: "dev_inv w v f d" "v = 1 \<or> v = 2" "bare f" and act: "teardown_started d \<longrightarrow> actual"
    and de: "destroy_mx_pdev te (ops_of e v) actual fuel d = Some (b, d')"
  shows "if b then given_up te v actual d d' \<and> bare (fn (pci d')) else dev_inv w v f d' \<and> \<not> actual \<and> protocol_poisoned (qs d') \<and>
      \<not> dma_reclaim_safe d' \<and> page_pool d' = page_pool d \<and> mboxes d' = mboxes d \<and> pci d' = pci d \<and> zombie_thread d' = zombie_thread d"
proof -
  have st: "teardown_started d \<longrightarrow> protocol_poisoned (qs d)" using inv(1) by (simp add: dev_inv_def)
  have pci: "b \<Longrightarrow> bare (fn (pci d'))"
    using v2_td.destroy_pci [of te _ actual fuel d d'] v1_td.destroy_pci [of te _ _ actual fuel d d'] de st inv(1,3) restorable_bare [of w f "pci d"]
    by (auto simp: ops_of_def exit_bare orig_clear_master dev_inv_def split: if_split_asm)
  show ?thesis
  proof (cases "v = 1")
    case True
    then have "v1_td.td_inv d" using inv(1) by (simp add: v1_td.td_inv_def dev_inv_def)
    note ok = v1_td.destroy_ok [OF de [unfolded True ops_of_def, simplified] this st act]
    show ?thesis
    proof (cases b)
      case b: True
      then obtain t0 where "clock (qs d) \<le> t0" "io_ref_zero te t0"
          "v1_td.released (hw e) (v1_queue e) te actual ((qs d)\<lparr>clock := t0\<rparr>) d'" using ok by auto
      then have "given_up te v actual d d'" by (intro given_upI [where tq = t0]) (simp_all add: v1_td.released_def True)
      then show ?thesis using b pci by simp
    next
      case False
      then show ?thesis using ok True inv(1) by (auto simp: v1_td.retained_def v1_td.td_inv_def dev_inv_def)
    qed
  next
    case False
    then have "v2_td.td_inv d" using inv(1) by (simp add: v2_td.td_inv_def dev_inv_def)
    have "destroy_mx_pdev te (register_mx_ops_v2 (hw e)) actual fuel d = Some (b, d')" using de False by (simp add: ops_of_def)
    note ok = v2_td.destroy_ok [OF this \<open>v2_td.td_inv d\<close> st act]
    show ?thesis
    proof (cases b)
      case b: True
      then obtain t0 where "clock (qs d) \<le> t0" "io_ref_zero te t0" and r: "v2_td.released (hw e) te actual ((qs d)\<lparr>clock := t0\<rparr>) d'"
        using ok by auto
      moreover have "gone_between te t0 (clock (qs d')) \<or> (\<exists>s. run_log (log s) = Some spec_init \<and> \<not> queue_dma_programmed s \<and> qs d' = free_mx_queue s)"
        using r by (auto simp: v2_td.released_def v2_free v2_safe_def)
      ultimately have "given_up te v actual d d'" by (intro given_upI [where tq = t0]) (simp_all add: v2_td.released_def)
      then show ?thesis using b pci by simp
    next
      case f: False
      then show ?thesis using ok False inv(1) by (auto simp: v2_td.retained_def v2_td.td_inv_def dev_inv_def split: if_split_asm)
    qed
  qed
qed

section \<open>The registry\<close>

definition att_inv :: "bool \<Rightarrow> (nat \<Rightarrow> pci_fn) \<Rightarrow> attachment \<Rightarrow> bool" where
  "att_inv w fs a \<longleftrightarrow> (at_rev a = 1 \<or> at_rev a = 2) \<and> dev_inv w (at_rev a) (fs (at_pdev a)) (at_dev a) \<and>
     module_ref_held a = (\<not> w) \<and> pci_ref_held a"

text \<open>The attachments and what they hold: one object, one PCI reference and, on top of the CXL driver, one module reference each.\<close>

definition reg_ok :: "bool \<Rightarrow> attachment list \<Rightarrow> (nat \<Rightarrow> pci_fn) \<Rightarrow> nat \<Rightarrow> (nat \<Rightarrow> nat) \<Rightarrow> nat \<Rightarrow> bool" where
  "reg_ok w L fs m pr k \<longleftrightarrow> distinct (map at_pdev L) \<and> (\<forall>a \<in> set L. att_inv w fs a) \<and> m = (if w then 0 else length L) \<and> k = length L \<and>
     (\<forall>p. pr p = (if p \<in> at_pdev ` set L then 1 else 0)) \<and> (\<forall>p. bare (fs p))"

definition reg_inv :: "bool \<Rightarrow> registry \<Rightarrow> bool" where
  "reg_inv w g \<longleftrightarrow> reg_ok w (devices g @ claimed g) (fns g) (module_refs g) (pci_refs g) (owner_refs g)"

lemma reg_ok_perm: "\<lbrakk> mset L = mset L'; reg_ok w L fs m pr k \<rbrakk> \<Longrightarrow> reg_ok w L' fs m pr k"
  unfolding reg_ok_def
  using mset_eq_length [of L L'] mset_eq_setD [of L L'] mset_eq_imp_distinct_iff [of "map at_pdev L" "map at_pdev L'"] by simp

lemma reg_ok_add:
  "\<lbrakk> reg_ok w L fs m pr k; at_pdev a \<notin> at_pdev ` set L; att_inv w fs a \<rbrakk> \<Longrightarrow>
     reg_ok w (a # L) fs (if w then m else m + 1) (pr(at_pdev a := pr (at_pdev a) + 1)) (k + 1)"
  by (auto simp: reg_ok_def)

lemma reg_ok_drop:
  assumes "reg_ok w (a # L) fs m pr k" "bare f"
  shows "reg_ok w L (fs(at_pdev a := f)) (if w then m else m - 1) (pr(at_pdev a := pr (at_pdev a) - 1)) (k - 1)"
proof -
  have "att_inv w (fs(at_pdev a := f)) b" if "b \<in> set L" for b
  proof -
    have "at_pdev b \<noteq> at_pdev a" using assms(1) that by (auto simp: reg_ok_def) (metis imageI)
    then show ?thesis using assms(1) that by (simp add: reg_ok_def att_inv_def)
  qed
  then show ?thesis using assms by (auto simp: reg_ok_def)
qed

lemma reg_ok_swap:
  "\<lbrakk> reg_ok w (a # L) fs m pr k; att_inv w fs b; at_pdev b = at_pdev a \<rbrakk> \<Longrightarrow> reg_ok w (b # L) fs m pr k"
  by (auto simp: reg_ok_def)

text \<open>An attachment in the registry is dropped with its references, whatever the order of the others.\<close>

lemma drop_inv:
  assumes "reg_ok w (a # devices g @ claimed g) fs (module_refs g) (pci_refs g) (owner_refs g)" "bare f" "fns g = fs(at_pdev a := f)"
  shows "reg_inv w (mxdma_drop_attachment (a\<lparr>at_dev := d\<rparr>) g)"
proof -
  have h: "pci_ref_held a" "module_ref_held a = (\<not> w)" using assms(1) by (auto simp: reg_ok_def att_inv_def)
  show ?thesis using reg_ok_drop [OF assms(1,2)] assms(3) h
    by (cases w) (simp_all add: reg_inv_def mxdma_drop_attachment_def pci_dev_put_def Let_def)
qed

text \<open>The registry while \<open>create_mx_pdev\<close> runs: references taken, nothing in the list.\<close>

lemma listed_inv:
  "reg_ok w (a # devices g @ claimed g) (fns g) (module_refs g) (pci_refs g) (owner_refs g) \<Longrightarrow> reg_inv w (g\<lparr>devices := devices g @ [a]\<rparr>)"
  unfolding reg_inv_def by (rule reg_ok_perm [of "a # devices g @ claimed g"]) simp_all

lemma attach_created_inv:
  assumes inv: "reg_inv (wo_cxl e) g" and p: "p \<notin> at_pdev ` set (devices g @ claimed g)"
    and cr: "create_mx_pdev e (fns g p) = (r, Some d)"
    and g1: "g1 = (pci_dev_get p (module_get e g))\<lparr>owner_refs := owner_refs g + 1\<rparr>"
    and at: "attach_created e fuel p r d g1 = Some (r', g')"
  shows "reg_inv (wo_cxl e) g'"
proof -
  let ?w = "wo_cxl e" and ?v = "pci_revision e" and ?f = "fns g p"
  let ?a = "\<lambda>d. \<lparr>at_pdev = p, at_rev = ?v, at_dev = d, module_ref_held = \<not> ?w, pci_ref_held = True\<rparr>"
  have bare: "bare ?f" using inv by (simp add: reg_inv_def reg_ok_def)
  note c = create_ok [OF cr bare]
  have g1s: "devices g1 = devices g" "claimed g1 = claimed g" "fns g1 = fns g" using g1 by (simp_all add: pci_dev_get_def module_get_def)
  have add: "reg_ok ?w (?a x # devices g1 @ claimed g1) (fns g) (module_refs g1) (pci_refs g1) (owner_refs g1)" if "dev_inv ?w ?v ?f x" for x
    using reg_ok_add [OF inv [unfolded reg_inv_def], of "?a x"] p c that
    by (cases ?w) (simp_all add: att_inv_def g1 pci_dev_get_def module_get_def)
  show ?thesis
  proof (cases r)
    case (Inr u)
    have "dev_inv ?w ?v ?f d" using c by (simp add: started_def)
    from listed_inv [OF add [OF this, folded g1s(3)]] show ?thesis using at Inr by (simp add: attach_created_def Let_def)
  next
    case (Inl x)
    let ?d = "d\<lparr>attach_error := Some x\<rparr>"
    have i: "dev_inv ?w ?v ?f ?d" "\<not> teardown_started ?d" using c by (auto simp: started_def dev_inv_def)
    obtain b d2 where de: "destroy_mx_pdev (tdenv e) (ops_of e ?v) False fuel ?d = Some (b, d2)"
      using at Inl by (auto simp: attach_created_def Let_def split: option.split_asm)
    note ok = destroy_dev [OF i(1) _ bare _ de]
    show ?thesis
    proof (cases b)
      case True
      have "reg_inv ?w (mxdma_drop_attachment ((?a d)\<lparr>at_dev := d2\<rparr>) (g1\<lparr>fns := (fns g1)(p := fn (pci d2))\<rparr>))"
        by (rule drop_inv [where fs = "fns g" and f = "fn (pci d2)"]) (use add [of d] c ok i True g1s in \<open>auto simp: started_def\<close>)
      then show ?thesis using at Inl de True by (simp add: attach_created_def Let_def)
    next
      case False
      then have "dev_inv ?w ?v ?f d2" using ok c i by auto
      from listed_inv [OF add [OF this, folded g1s(3)]] show ?thesis using at Inl de False by (simp add: attach_created_def Let_def)
    qed
  qed
qed

lemma refs_put [simp]: "module_put e (pci_dev_put p (pci_dev_get p (module_get e g))) = g"
  by (cases g) (simp add: module_put_def module_get_def pci_dev_put_def pci_dev_get_def)

lemma refs_owner [simp]: "owner_refs (pci_dev_get p (module_get e g)) = owner_refs g"
  by (simp add: module_get_def pci_dev_get_def)

lemma create_none: "create_mx_pdev e f = (r, None) \<Longrightarrow> r \<noteq> OK"
  by (auto simp: create_mx_pdev_def split: if_split_asm sum.split_asm prod.split_asm)

text \<open>An attach changes nothing, or creates an object.\<close>

lemma attach_cases:
  assumes "mxdma_attach_device e fuel p g = Some (r, g')"
  obtains (same) "g' = g" "mxdma_find_device_locked p g = None \<longrightarrow> r \<noteq> OK"
  | (created) r1 d where "accepting g" "mxdma_find_device_locked p g = None" "create_mx_pdev e (fns g p) = (r1, Some d)"
      "attach_created e fuel p r1 d ((pci_dev_get p (module_get e g))\<lparr>owner_refs := owner_refs g + 1\<rparr>) = Some (r, g')"
  using assms
  by (auto simp: mxdma_attach_device_def Let_def dest: create_none split: if_split_asm option.split_asm sum.split_asm prod.split_asm)

lemma attach_inv:
  assumes inv: "reg_inv (wo_cxl e) g" and p: "p \<notin> at_pdev ` set (claimed g)" and at: "mxdma_attach_device e fuel p g = Some (r, g')"
  shows "reg_inv (wo_cxl e) g'"
  using at
proof (cases rule: attach_cases)
  case (created r1 d)
  then have "p \<notin> at_pdev ` set (devices g @ claimed g)" using p by (auto simp: mxdma_find_device_locked_def find_None_iff)
  from attach_created_inv [OF inv this created(3) refl created(4)] show ?thesis .
qed (simp add: inv)

lemma find_device: "mxdma_find_device_locked p g = Some a \<Longrightarrow> a \<in> set (devices g) \<and> at_pdev a = p"
  by (auto simp: mxdma_find_device_locked_def find_Some_iff)

lemma claim_inv: "reg_inv w g \<Longrightarrow> reg_inv w (detach_claim p g)"
proof (cases "mxdma_find_device_locked p g")
  case (Some a)
  then have "mset (devices g @ claimed g) = mset (remove1 a (devices g) @ claimed g @ [a])" using find_device [OF Some] by simp
  from reg_ok_perm [OF this] show "reg_inv w g \<Longrightarrow> ?thesis" using Some by (simp add: reg_inv_def detach_claim_def)
qed (simp add: detach_claim_def)

lemma finish_inv:
  assumes inv: "reg_inv w g" and a: "a \<in> set (claimed g)" and fi: "detach_finish e fuel a g = Some g'"
  shows "reg_inv w g'" "\<exists>d. destroy_mx_pdev (tdenv e) (ops_of e (at_rev a)) True fuel (at_dev a) = Some (True, d) \<and> given_up (tdenv e) (at_rev a) True (at_dev a) d \<and>
     g' = mxdma_drop_attachment (a\<lparr>at_dev := d\<rparr>) (g\<lparr>claimed := remove1 a (claimed g), fns := (fns g)(at_pdev a := fn (pci d))\<rparr>)"
proof -
  have ai: "att_inv w (fns g) a" "bare (fns g (at_pdev a))" using inv a by (auto simp: reg_inv_def reg_ok_def)
  obtain b d where de: "destroy_mx_pdev (tdenv e) (ops_of e (at_rev a)) True fuel (at_dev a) = Some (b, d)"
    using fi by (auto simp: detach_finish_def Let_def split: option.split_asm)
  have "if b then given_up (tdenv e) (at_rev a) True (at_dev a) d \<and> bare (fn (pci d)) else False"
    using destroy_dev [OF _ _ ai(2) _ de, of w] ai(1) by (auto simp: att_inv_def split: if_split_asm)
  then have b: "b" "given_up (tdenv e) (at_rev a) True (at_dev a) d" "bare (fn (pci d))" by (auto split: if_split_asm)
  have g': "g' = mxdma_drop_attachment (a\<lparr>at_dev := d\<rparr>) (g\<lparr>claimed := remove1 a (claimed g), fns := (fns g)(at_pdev a := fn (pci d))\<rparr>)"
    using fi de b(1) by (simp add: detach_finish_def Let_def)
  show "\<exists>d. destroy_mx_pdev (tdenv e) (ops_of e (at_rev a)) True fuel (at_dev a) = Some (True, d) \<and> given_up (tdenv e) (at_rev a) True (at_dev a) d \<and>
     g' = mxdma_drop_attachment (a\<lparr>at_dev := d\<rparr>) (g\<lparr>claimed := remove1 a (claimed g), fns := (fns g)(at_pdev a := fn (pci d))\<rparr>)"
    using de b(1,2) g' by (intro exI [of _ d]) simp
  have "mset (devices g @ claimed g) = mset (a # devices g @ remove1 a (claimed g))" using a by simp
  from reg_ok_perm [OF this inv [unfolded reg_inv_def]] show "reg_inv w g'"
    unfolding g' by (intro drop_inv [where fs = "fns g" and f = "fn (pci d)"]) (use b(3) in simp_all)
qed

section \<open>Everything that can happen\<close>

text \<open>
  Attach and unbind of one function exclude each other (both run under its device lock), functions are independent.
  \<open>work\<close> is what I/O changes of a device that is attached.
\<close>

inductive reg_reach :: "bool \<Rightarrow> registry \<Rightarrow> bool" for w where
  load: "\<lbrakk> devices g = []; claimed g = []; module_refs g = 0; pci_refs g = (\<lambda>_. 0); owner_refs g = 0; \<forall>p. bare (fns g p) \<rbrakk> \<Longrightarrow> reg_reach w g"
| flags: "reg_reach w g \<Longrightarrow> reg_reach w (g\<lparr>accepting := b, module_coming := c\<rparr>)"
| attach: "\<lbrakk> reg_reach w g; wo_cxl e = w; p \<notin> at_pdev ` set (claimed g); mxdma_attach_device e fuel p g = Some (r, g') \<rbrakk> \<Longrightarrow> reg_reach w g'"
| work: "\<lbrakk> reg_reach w g; i < length (devices g); d = at_dev (devices g ! i);
     d' = d\<lparr>mboxes := b, bar_mappings_live := c, qs := (qs d)\<lparr>clock := t\<rparr>\<rparr> \<rbrakk> \<Longrightarrow>
     reg_reach w (g\<lparr>devices := (devices g)[i := (devices g ! i)\<lparr>at_dev := d'\<rparr>]\<rparr>)"
| claim: "reg_reach w g \<Longrightarrow> reg_reach w (detach_claim p g)"
| finish: "\<lbrakk> reg_reach w g; a \<in> set (claimed g); detach_finish e fuel a g = Some g' \<rbrakk> \<Longrightarrow> reg_reach w g'"

lemma work_inv:
  assumes "dev_inv w v f d" "d' = d\<lparr>mboxes := b, bar_mappings_live := c, qs := (qs d)\<lparr>clock := t\<rparr>\<rparr>"
  shows "dev_inv w v f d'"
  using assms v2_td.frame_law(1) [of "qs d" t] by (auto simp: dev_inv_def v1_never_programmed_def v2_up_def)

lemma update_inv:
  assumes "reg_ok w (D @ C) fs m pr k" "i < length D" "att_inv w fs b" "at_pdev b = at_pdev (D ! i)"
  shows "reg_ok w (D[i := b] @ C) fs m pr k"
proof -
  have "map at_pdev (D[i := b]) = map at_pdev D" using assms(2,4) by (metis map_update list_update_id nth_map)
  then have "map at_pdev (D[i := b] @ C) = map at_pdev (D @ C)" "length (D[i := b] @ C) = length (D @ C)" by simp_all
  moreover have "at_pdev ` set (D[i := b] @ C) = at_pdev ` set (D @ C)" using calculation(1) by (metis list.set_map)
  moreover have "\<forall>a \<in> set (D[i := b] @ C). att_inv w fs a"
    using assms(1,3) set_update_subset_insert [of D i b] by (auto simp: reg_ok_def)
  ultimately show ?thesis using assms(1) unfolding reg_ok_def by metis
qed

lemma reach_inv: "reg_reach w g \<Longrightarrow> reg_inv w g"
proof (induction rule: reg_reach.induct)
  case (work g i d d' b c t)
  let ?a = "devices g ! i"
  have "att_inv w (fns g) ?a" using work by (auto simp: reg_inv_def reg_ok_def)
  then have "att_inv w (fns g) (?a\<lparr>at_dev := d'\<rparr>)" using work_inv [OF _ work(4)] work(3) by (auto simp: att_inv_def)
  then show ?case using update_inv [OF work.IH [unfolded reg_inv_def] work(2)] by (simp add: reg_inv_def)
next
  case (attach g e p fuel r g')
  then show ?case using attach_inv by blast
next
  case (finish g a e fuel g')
  then show ?case using finish_inv by blast
next
  case (claim g p)
  then show ?case by (intro claim_inv)
qed (simp_all add: reg_inv_def reg_ok_def)

end
