(* ===== verification/Teardown_Live.thy ===== *)
theory Teardown_Live
  imports Attach_Correct
begin

text \<open>
  None of the waits of an unbind has a bound, and none needs one when the function goes away: progress of every loop
  of \<open>destroy_mx_pdev\<close>, over the contract \<open>recover_progress\<close> that both hardware versions keep.
\<close>

section \<open>Progress\<close>

locale recover_progress =
  fixes ops :: mx_operations
    and disc :: "nat \<Rightarrow> bool"      \<comment> \<open>the function is disconnected\<close>
  assumes recover_mono: "try_recover ops fuel s = Some (r, s') \<Longrightarrow> clock s \<le> clock s'"
    and release_mono: "clock s \<le> clock (snd (op_release_queue ops s))"
    and recover_ends: "\<lbrakk> \<forall>t \<ge> T. disc t; T - clock s + 2 \<le> fuel \<rbrakk> \<Longrightarrow> try_recover ops fuel s \<noteq> None"
begin

lemma while_ends:
  "\<lbrakk> \<forall>t \<ge> T. disc t; gone_at te = disc; T - clock s + 3 \<le> fuel \<rbrakk> \<Longrightarrow>
     \<exists>e s'. recover_while_poisoned te ops fuel r s = Some (e, s') \<and> clock s \<le> clock s'"
proof (induction fuel arbitrary: r s)
  case (Suc fuel)
  show ?case
  proof (cases "\<not> protocol_poisoned s \<or> mxdma_pci_permanently_gone te s")
    case True
    then show ?thesis by (auto simp: mx_stop_queue_threads_def)
  next
    case False
    then have lt: "clock s < T" using Suc.prems(1,2) by (auto simp: mxdma_pci_permanently_gone_def not_le [symmetric])
    have "try_recover ops fuel s \<noteq> None" by (rule recover_ends [OF Suc.prems(1)]) (use Suc.prems(3) in simp)
    then obtain r1 s1 where t: "try_recover ops fuel s = Some (r1, s1)" by auto
    have m: "clock s \<le> clock s1" by (rule recover_mono [OF t])
    have "T - clock (tick s1) + 3 \<le> fuel" using Suc.prems(3) lt m by (simp; arith)
    from Suc.IH [OF Suc.prems(1,2) this] obtain e s' where "recover_while_poisoned te ops fuel r1 (tick s1) = Some (e, s')" "clock (tick s1) \<le> clock s'"
      by blast
    then show ?thesis using False t m by (cases r1) auto
  qed
qed simp

lemma until_ends:
  "\<lbrakk> \<forall>t \<ge> T. disc t; gone_at te = disc; T - clock s + 3 \<le> fuel \<or> r = OK \<and> 0 < fuel \<rbrakk> \<Longrightarrow>
     \<exists>e s'. recover_until_ok te ops b fuel r s = Some (e, s') \<and> clock s \<le> clock s'"
proof (induction fuel arbitrary: r s)
  case (Suc fuel)
  show ?case
  proof (cases "r = OK \<or> mxdma_pci_permanently_gone te s")
    case True
    then show ?thesis by auto
  next
    case False
    then have lt: "clock s < T" using Suc.prems(1,2) by (auto simp: mxdma_pci_permanently_gone_def not_le [symmetric])
    let ?s = "if b then tick s else s"
    have "try_recover ops fuel ?s \<noteq> None" by (rule recover_ends [OF Suc.prems(1)]) (use Suc.prems(3) False in auto)
    then obtain r1 s1 where t: "try_recover ops fuel ?s = Some (r1, s1)" by auto
    let ?s1 = "if b \<or> r1 = OK then s1 else tick s1"
    have m: "clock ?s \<le> clock s1" by (rule recover_mono [OF t])
    have "T - clock ?s1 + 3 \<le> fuel \<or> r1 = OK \<and> 0 < fuel" using Suc.prems(3) lt m False by (auto split: if_split_asm)
    then obtain e s' where "recover_until_ok te ops b fuel r1 ?s1 = Some (e, s')" "clock ?s1 \<le> clock s'"
      using Suc.IH [OF Suc.prems(1,2)] by blast
    then show ?thesis using False t m by (auto split: if_split_asm)
  qed
qed simp

lemma drain_device_ends:
  "\<lbrakk> \<forall>t \<ge> T. gone_at te t; T - clock s + 1 \<le> fuel \<rbrakk> \<Longrightarrow> \<exists>s'. mxdma_drain_device_protocol te fuel s = Some s' \<and> clock s \<le> clock s'"
proof (induction fuel arbitrary: s)
  case (Suc fuel)
  have "clock s < T" if "\<not> mxdma_pci_permanently_gone te s"
    using that Suc.prems(1) by (auto simp: mxdma_pci_permanently_gone_def not_le [symmetric])
  moreover have "T - clock (tick s) + 1 \<le> fuel" if "clock s < T" using that Suc.prems(2) by (simp; arith)
  ultimately show ?case using Suc.IH [OF Suc.prems(1), of "tick s"] by force
qed simp

lemma quiesced_ends:
  "\<lbrakk> \<forall>t \<ge> T. io_ref_zero te t; T - clock s + 1 \<le> fuel \<rbrakk> \<Longrightarrow> \<exists>s'. mxdma_wait_io_quiesced te fuel s = Some s' \<and> clock s \<le> clock s'"
proof (induction fuel arbitrary: s)
  case (Suc fuel)
  have "clock s < T" if "\<not> io_ref_zero te (clock s)" using that Suc.prems(1) by (auto simp: not_le [symmetric])
  moreover have "T - clock (tick s) + 1 \<le> fuel" if "clock s < T" using that Suc.prems(2) by (simp; arith)
  ultimately show ?case using Suc.IH [OF Suc.prems(1), of "tick s"] by force
qed simp

lemma fence_ends: "\<lbrakk> \<forall>t \<ge> T. gone_at te t; T - clock s + 1 \<le> fuel \<rbrakk> \<Longrightarrow> mxdma_fence_pci_unbind te fuel s \<noteq> None"
proof (induction fuel arbitrary: s)
  case (Suc fuel)
  have "clock s < T" if "\<not> mxdma_pci_permanently_gone te s"
    using that Suc.prems(1) by (auto simp: mxdma_pci_permanently_gone_def not_le [symmetric])
  moreover have "T - clock (tick s) + 1 \<le> fuel" if "clock s < T" using that Suc.prems(2) by (simp; arith)
  ultimately show ?case using Suc.IH [OF Suc.prems(1), of "tick s"] by force
qed simp

lemma stop_release_ends:
  assumes "\<forall>t \<ge> T. disc t" "gone_at te = disc" "T - clock (qs d) + 3 \<le> fuel"
  shows "\<exists>r' d'. stop_release te ops actual fuel r d = Some (r', d') \<and> clock (qs d) \<le> clock (qs d')"
proof (cases "queues_initialized d")
  case True
  obtain r1 s1 where rl: "op_release_queue ops (qs d) = (r1, s1)" by (rule prod.exhaust)
  have m: "clock (qs d) \<le> clock s1" using release_mono [of "qs d"] rl by simp
  show ?thesis
  proof (cases r1)
    case (Inl x)
    let ?s = "s1\<lparr>protocol_poisoned := True\<rparr>"
    have "T - clock ?s + 3 \<le> fuel \<or> Inl x = OK \<and> 0 < fuel" using assms(3) m by simp
    then obtain e2 s2 where "recover_until_ok te ops False fuel (Inl x) ?s = Some (e2, s2)" "clock ?s \<le> clock s2"
      using until_ends [OF assms(1,2), of ?s fuel "Inl x" False] by blast
    then show ?thesis using True rl Inl m by (cases e2) (auto simp: stop_release_def Let_def)
  qed (use True rl m in \<open>auto simp: stop_release_def Let_def\<close>)
qed (auto simp: stop_release_def Let_def mx_stop_queue_threads_def)

lemma stop_partial_ends:
  assumes "\<forall>t \<ge> T. disc t" "gone_at te = disc" "T - clock (qs d) + 3 \<le> fuel"
  shows "\<exists>r' d'. stop_partial te ops actual fuel r d = Some (r', d') \<and> clock (qs d) \<le> clock (qs d')"
proof (cases "\<not> queues_initialized d \<and> queue_dma_programmed (qs d)")
  case False
  then show ?thesis using stop_release_ends [OF assms] unfolding stop_partial_def by (simp only: if_False)
next
  case True
  have "try_recover ops fuel (qs d) \<noteq> None" by (rule recover_ends [OF assms(1)]) (use assms(3) in simp)
  then obtain r1 s1 where t: "try_recover ops fuel (qs d) = Some (r1, s1)" by auto
  have m: "clock (qs d) \<le> clock s1" by (rule recover_mono [OF t])
  have "T - clock s1 + 3 \<le> fuel \<or> r1 = OK \<and> 0 < fuel" using assms(3) m by linarith
  then obtain e2 s2 where u: "recover_until_ok te ops True fuel r1 s1 = Some (e2, s2)" "clock s1 \<le> clock s2"
    using until_ends [OF assms(1,2), of s1 fuel r1 True] by blast
  have "T - clock (qs (d\<lparr>qs := s2\<rparr>)) + 3 \<le> fuel" using assms(3) m u(2) by simp
  note rl = stop_release_ends [OF assms(1,2) this]
  show ?thesis
  proof (cases e2)
    case (Ret r2)
    obtain r3 d3 where "stop_release te ops actual fuel r2 (d\<lparr>qs := s2\<rparr>) = Some (r3, d3)" "clock (qs d) \<le> clock (qs d3)"
      using rl [of actual r2] m u(2) by auto
    then show ?thesis using True t u m Ret by (auto simp: stop_partial_def)
  qed (use True t u m in \<open>auto simp: stop_partial_def\<close>)
qed

lemma stop_ends:
  assumes "\<forall>t \<ge> T. disc t" "gone_at te = disc" "T - clock (qs d) + 3 \<le> fuel"
  shows "\<exists>r' d'. mxdma_stop_device_protocol te ops True fuel d = Some (r', d') \<and> clock (qs d) \<le> clock (qs d')"
proof -
  obtain s1 where dr: "mxdma_drain_device_protocol te fuel (qs d) = Some s1" "clock (qs d) \<le> clock s1"
    using drain_device_ends [of T te "qs d" fuel] assms by auto
  obtain e2 s2 where w: "recover_while_poisoned te ops fuel OK s1 = Some (e2, s2)" "clock s1 \<le> clock s2"
    using while_ends [OF assms(1,2) le_trans [OF _ assms(3)]] dr(2) by (meson add_le_mono1 diff_le_mono2)
  have "T - clock (qs (d\<lparr>async_wq := False, qs := s2\<rparr>)) + 3 \<le> fuel" using assms(3) dr(2) w(2) by simp
  note pa = stop_partial_ends [OF assms(1,2) this]
  show ?thesis
  proof (cases e2)
    case (Ret r2)
    obtain r3 d3 where "stop_partial te ops True fuel r2 (d\<lparr>async_wq := False, qs := s2\<rparr>) = Some (r3, d3)" "clock (qs d) \<le> clock (qs d3)"
      using pa [of True r2] dr(2) w(2) by auto
    then show ?thesis using dr w Ret by (auto simp: mxdma_stop_device_protocol_def Let_def mx_stop_queue_threads_def)
  qed (use dr w in \<open>auto simp: mxdma_stop_device_protocol_def Let_def mx_stop_queue_threads_def\<close>)
qed

lemma destroy_stop_ends:
  assumes "\<forall>t \<ge> T. disc t" "gone_at te = disc" "T - clock (qs d) + 3 \<le> fuel"
  shows "destroy_stop te ops True fuel d \<noteq> None"
proof -
  obtain r d1 where st: "mxdma_stop_device_protocol te ops True fuel d = Some (r, d1)" "clock (qs d) \<le> clock (qs d1)"
    using stop_ends [OF assms] by blast
  have "mxdma_fence_pci_unbind te fuel (qs d1) \<noteq> None" using fence_ends [of T te "qs d1" fuel] assms st(2) by simp
  then show ?thesis using st(1) by (auto simp: destroy_stop_def Let_def)
qed

lemma destroy_ends:
  assumes "\<forall>t \<ge> T. disc t" "gone_at te = disc" "\<forall>t \<ge> T. io_ref_zero te t" "T - clock (qs d) + 3 \<le> fuel"
  shows "destroy_mx_pdev te ops True fuel d \<noteq> None"
proof -
  obtain s1 where dr: "mxdma_drain_device_protocol te fuel (qs d) = Some s1" "clock (qs d) \<le> clock s1"
    using drain_device_ends [of T te "qs d" fuel] assms by auto
  obtain s2 where qi: "mxdma_wait_io_quiesced te fuel s1 = Some s2" "clock s1 \<le> clock s2"
    using quiesced_ends [OF assms(3), of s1 fuel] assms(4) dr(2) by (meson add_le_mono diff_le_mono2 le_trans one_le_numeral)
  have "destroy_stop te ops True fuel d2 \<noteq> None" if "qs d2 = s2" for d2
    using destroy_stop_ends [OF assms(1,2), of d2 fuel] that assms(4) dr(2) qi(2) by simp
  then show ?thesis using dr(1) qi(1) by (auto simp: destroy_mx_pdev_def Let_def simp del: not_None_eq)
qed

end

interpretation v2_pr: recover_progress "register_mx_ops_v2 env" "disconnected env" for env
proof
  fix fuel s r s' assume "try_recover (register_mx_ops_v2 env) fuel s = Some (r, s')"
  then show "clock s \<le> clock s'" by (auto simp: try_recover_def register_mx_ops_v2_def dest: recover_later later_clock)
next
  fix s show "clock s \<le> clock (snd (op_release_queue (register_mx_ops_v2 env) s))" by (simp add: register_mx_ops_v2_def release_clock)
next
  fix T fuel and s :: v2_dev assume d: "\<forall>t \<ge> T. disconnected env t" and f: "T - clock s + 2 \<le> fuel"
  have "drain_loop env fuel q s \<noteq> None" for q
    by (rule drain_loop_ends [where t = "max T (clock s)"]) (use d f in auto)
  then have "drain_pending_admin env fuel s \<noteq> None" by (auto simp: drain_pending_admin_def split: option.split)
  then show "try_recover (register_mx_ops_v2 env) fuel s \<noteq> None"
    by (auto simp: try_recover_def register_mx_ops_v2_def recover_mx_queue_def Let_def split: option.split sum.split prod.split bool.split)
qed

interpretation v1_pr: recover_progress "register_mx_ops_v1 env made" disc for env made disc
  by unfold_locales (auto simp: try_recover_def register_mx_ops_v1_def release_mx_queue_v1_def mx_stop_queue_threads_def)


end
