(* ===== verification/Attach_Props.thy ===== *)
theory Attach_Props
  imports Teardown_Live
begin

text \<open>
  The properties of attaching, detaching and tearing down devices, over every registry that can arise.
\<close>

section \<open>Consequences of the invariant\<close>

definition restores_ok :: "td_env \<Rightarrow> bool" where
  "restores_ok te \<longleftrightarrow> restore_readrq (restores te) \<and> restore_mask (restores te) \<and> restore_coherent (restores te) \<and> restore_max_seg (restores te)"

definition usable :: "attach_env \<Rightarrow> tdev \<Rightarrow> bool" where
  "usable e d \<longleftrightarrow> queues_initialized d \<and> (pci_revision e = 2 \<longrightarrow> in_use (hw e) (qs d)) \<and> \<not> protocol_poisoned (qs d) \<and> async_wq d \<and>
     zombie_thread d \<and> page_pool d \<and> cdevs d = NUM_OF_MX_CDEV \<and> td_enabled d \<and> \<not> teardown_started d"

lemma after_usable: "after_queues e (pci_revision e) f 7 d \<Longrightarrow> usable e d"
  by (simp add: after_queues_def usable_def started_def)

lemma exit_fn:
  "restores_ok te \<Longrightarrow> fn (pci_device_exit (restores te) (dev_unmap p)) = orig p"
  using exit_restores [of "restores te" p] by (simp add: restores_ok_def)

lemma destroy_pci_ops:
  assumes "destroy_mx_pdev te (ops_of e v) actual fuel d = Some (True, d')" "teardown_started d \<longrightarrow> protocol_poisoned (qs d)"
  shows "pci d' = pci_device_exit (restores te) (dev_unmap (if actual then pci_clear_master (pci d) else pci d))"
  using assms v2_td.destroy_pci [of te _ actual fuel d d'] v1_td.destroy_pci [of te _ _ actual fuel d d']
  by (auto simp: ops_of_def split: if_split_asm)

lemma but_dma_master: "but_dma (f\<lparr>is_busmaster := b\<rparr>) = (but_dma f)\<lparr>is_busmaster := b\<rparr>"
  by (simp add: but_dma_def)

text \<open>The function after a successful teardown.\<close>

lemma destroy_fn:
  assumes "destroy_mx_pdev te (ops_of e v) actual fuel d = Some (True, d')" "dev_inv w v f d" "restores_ok te"
  shows "let f' = if actual then f\<lparr>is_busmaster := False\<rparr> else f in if w then but_dma (fn (pci d')) = but_dma f' else fn (pci d') = f'"
proof -
  have "pci d' = pci_device_exit (restores te) (dev_unmap (if actual then pci_clear_master (pci d) else pci d))"
    by (rule destroy_pci_ops [OF assms(1)]) (use assms(2) in \<open>simp add: dev_inv_def\<close>)
  then have "fn (pci d') = (if actual then (orig (pci d))\<lparr>is_busmaster := False\<rparr> else orig (pci d))"
    using exit_fn [OF assms(3)] by (simp add: orig_clear_master)
  then show ?thesis using assms(2) by (auto simp: dev_inv_def restorable_def but_dma_master Let_def)
qed

lemma drop_fields [simp]:
  "devices (mxdma_drop_attachment a g) = devices g" "claimed (mxdma_drop_attachment a g) = claimed g" "fns (mxdma_drop_attachment a g) = fns g"
  by (simp_all add: mxdma_drop_attachment_def pci_dev_put_def Let_def)

section \<open>A registry with one device\<close>

definition te_ok :: "(nat \<Rightarrow> bool) \<Rightarrow> td_env" where
  "te_ok gone = \<lparr>io_at = (\<lambda>_. mx_queue_common_init 0), gone_at = gone, io_ref_zero = (\<lambda>_. True), pci_pending = (\<lambda>_. False),
     restores = \<lparr>restore_readrq = True, restore_max_seg = True, restore_coherent = True, restore_mask = True\<rparr>\<rparr>"

definition att_ok :: attach_env where
  "att_ok = \<lparr>hw = answer_env, v1_queue = Inl ENOMEM, tdenv = te_ok (\<lambda>_. False), pcik = calls_ok, wo_cxl = False, pci_revision = 2,
     call_kzalloc = True, call_percpu_ref = OK, call_bar_map = True, call_chrdev = OK, call_workqueue = True, call_zombie_thread = OK,
     call_page_pool = True, call_cdev = (\<lambda>_. OK), memdev_id = Inr 0, call_try_module_get = True\<rparr>"

definition reg0 :: registry where
  "reg0 = \<lparr>accepting = True, module_coming = False, devices = [], claimed = [], module_refs = 0, pci_refs = (\<lambda>_. 0), owner_refs = 0,
     fns = (\<lambda>_. fn pci0)\<rparr>"

definition att1 :: attachment where
  "att1 = \<lparr>at_pdev = 7, at_rev = 2, at_dev = the (snd (create_mx_pdev att_ok (fn pci0))), module_ref_held = True, pci_ref_held = True\<rparr>"

definition reg1 :: registry where
  "reg1 = reg0\<lparr>module_refs := 1, pci_refs := (\<lambda>_. 0)(7 := 1), owner_refs := 1, devices := [att1]\<rparr>"

lemma reg0_reach: "reg_reach w reg0"
  by (rule reg_reach.load) (simp_all add: reg0_def bare_def pci0_def)

lemma setup_ok: "\<exists>p. pci_setup False calls_ok (new_pci (fn pci0)) = (OK, p) \<and> bar_size p = 0x10000"
  by (simp add: pci_setup_def dev_map_def pci_device_init_def init_enable_def init_readrq_def init_master_def init_msi_def init_irq_def
      set_dma_addressing_def dma_masks_cxl_def select_mask_def dma_max_seg_cxl_def dma_align_cxl_def pci0_def calls_ok_def new_pci_def Let_def)

lemma dev0_new: "new_qs\<lparr>bar_mapped_size := 0x10000\<rparr> = dev0"
  by (simp add: new_qs_def dev0_def)

lemma create_att1:
  "create_mx_pdev att_ok (fn pci0) = (OK, Some (at_dev att1)) \<and> qs (at_dev att1) = dev1 \<and>
   queues_initialized (at_dev att1) \<and> \<not> teardown_started (at_dev att1)"
proof -
  obtain p where p: "pci_setup False calls_ok (new_pci (fn pci0)) = (OK, p)" "bar_size p = 0x10000" using setup_ok by blast
  have u: "[0..<NUM_OF_MX_CDEV] = [0, 1, 2]" by (simp add: upt_rec)
  have "\<exists>d. create_mx_pdev att_ok (fn pci0) = (OK, Some d) \<and> qs d = dev1 \<and> queues_initialized d \<and> \<not> teardown_started d"
    using p dev1_props(1) dev0_new
    by (simp add: create_mx_pdev_def att_ok_def create_steps_def u create_chrdev_def create_pci_def new_tdev_def create_queues_def ops_of_def
        register_mx_ops_v2_def create_wq_def create_zombie_def create_pool_def create_cdev_def mxdma_device_online_def)
  then show ?thesis using dev1_props(4) by (auto simp: att1_def)
qed

lemma reg1_attach: "mxdma_attach_device att_ok fuel 7 reg0 = Some (OK, reg1)"
proof -
  have e: "wo_cxl att_ok = False" "pci_revision att_ok = 2" "memdev_id att_ok = Inr 0" "call_try_module_get att_ok" by (simp_all add: att_ok_def)
  have a: "\<lparr>at_pdev = 7, at_rev = 2, at_dev = at_dev att1, module_ref_held = True, pci_ref_held = True\<rparr> = att1" by (simp add: att1_def)
  show ?thesis using create_att1
    by (simp add: mxdma_attach_device_def reg0_def mxdma_find_device_locked_def e pci_dev_get_def module_get_def attach_created_def
        reg1_def a Let_def)
qed

lemma reg1_reach: "reg_reach False reg1"
  by (rule reg_reach.attach [OF reg0_reach _ _ reg1_attach]) (simp_all add: att_ok_def reg0_def)

definition att_gone :: attach_env where
  "att_gone = att_ok\<lparr>hw := answer_env\<lparr>disconnected := (\<lambda>t. 10 \<le> t)\<rparr>, tdenv := te_ok (\<lambda>t. 10 \<le> t)\<rparr>"

lemma att1_fields [simp]: "at_pdev att1 = 7" "at_rev att1 = 2"
  by (simp_all add: att1_def)

lemma att1_destroyed: "\<exists>b d. destroy_mx_pdev (tdenv att_gone) (ops_of att_gone 2) True 11 (at_dev att1) = Some (b, d)"
  using v2_pr.destroy_ends [of 10 "hw att_gone" "tdenv att_gone" "at_dev att1" 11] create_att1 dev1_props(4)
  by (simp add: ops_of_def att_gone_def te_ok_def)

text \<open>The device is there, answers, and gives up its rings.\<close>

lemma att1_unbound: "\<exists>d. destroy_mx_pdev (tdenv att_ok) (ops_of att_ok 2) True 3 (at_dev att1) = Some (True, d)"
proof -
  obtain s' where rl: "release_mx_queue answer_env dev1 = (OK, s')" using dev1_released by blast
  have "v2_td_inv dev1" "v2_up dev1"
    using v2_reach_rel [OF v2_reach.init [OF dev0_fresh dev1_props(1)]] dev1_props(2,3) by (auto simp: v2_td_inv_def v2_up_def)
  then have np: "\<not> protocol_poisoned s'"
    using v2_td.release_law [of dev1 answer_env OK s'] dev1_props(5) rl by (simp add: register_mx_ops_v2_def)
  show ?thesis using create_att1 dev1_props(5) rl np
    by (simp add: destroy_mx_pdev_def destroy_stop_def mxdma_stop_device_protocol_def stop_partial_def stop_release_def numeral_3_eq_3
        mxdma_io_queue_idle_def mxdma_pci_permanently_gone_def queue_idle_def mx_queue_common_init_def te_ok_def att_ok_def ops_of_def
        register_mx_ops_v2_def Let_def split: option.split)
qed

section \<open>Properties\<close>

text \<open>C16. The registry counts exactly: however attaches, I/O and detaches of any functions follow each other, a PCI function
  has at most one device object, each object holds one reference on its PCI function and, on top of the CXL driver, one on
  the module, and nothing else holds any. So the module cannot be unloaded while a device is registered or being torn
  down, and \<open>mxdma_exit\<close> finds the list empty.\<close>

theorem registry_exact:
  assumes "reg_reach w g"
  shows "distinct (map at_pdev (devices g @ claimed g)) \<and>
    (\<forall>p. pci_refs g p = (if p \<in> at_pdev ` set (devices g @ claimed g) then 1 else 0)) \<and>
    owner_refs g = length (devices g @ claimed g) \<and> module_refs g = (if w then 0 else length (devices g @ claimed g)) \<and>
    (\<not> w \<and> module_refs g = 0 \<and> reg m = g \<longrightarrow> \<not> fst (mxdma_exit m) \<and> claimed g = [])"
  using reach_inv [OF assms] by (auto simp: reg_inv_def reg_ok_def mxdma_exit_def)

theorem registry_exact_witness: "pci_refs reg1 7 = 1 \<and> module_refs reg1 = 1 \<and> at_pdev att1 = 7"
  using registry_exact [OF reg1_reach] by (simp add: reg1_def reg0_def)

text \<open>C11. Memory the device may write to is freed only when it is safe: whenever the teardown of a registered device, of
  either hardware version, reports success, the workers and both handler threads are stopped, and there is a moment of this
  teardown, after the last user of the device had left and before the memory is freed, at which either the PCI function was
  gone for good, or the I/O queue was idle (nothing queued, in flight or abandoned, C13) and, for version 2, the device gave
  up the rings: by what passed on the admin queue, with the command ids the device put into its answers, both
  rings are deleted, no command is outstanding and no host address is programmed. A real unbind frees only with no PCI
  transaction pending on a function that is there. Otherwise everything is kept: pool, mailboxes, BAR and PCI setup, the zombie
  cleaner, and the device stays poisoned. A real unbind that returns always succeeds.\<close>

theorem teardown_frees_safely:
  assumes "reg_reach w g" "a \<in> set (devices g @ claimed g)" "actual \<or> \<not> teardown_started (at_dev a)"
    "destroy_mx_pdev te (ops_of e (at_rev a)) actual fuel (at_dev a) = Some (b, d')"
  shows "if b then dma_reclaim_safe d' \<and> \<not> page_pool d' \<and> \<not> async_wq d' \<and> \<not> submit_thread (qs d') \<and> \<not> complete_thread (qs d') \<and>
       (\<exists>t0 t. clock (qs (at_dev a)) \<le> t0 \<and> io_ref_zero te t0 \<and> t0 \<le> t \<and> t \<le> clock (qs d') \<and>
         (gone_at te t \<or>
          (io_queue (qs (at_dev a)) = None \<or> queue_idle (io_at te t)) \<and>
          (at_rev a = 2 \<longrightarrow> (\<exists>s. run_log (log s) = Some spec_init \<and> \<not> queue_dma_programmed s \<and> qs d' = free_mx_queue s)))) \<and>
       (actual \<longrightarrow> \<not> pci_pending te (clock (qs d')) \<or> gone_at te (clock (qs d')))
     else \<not> actual \<and> \<not> dma_reclaim_safe d' \<and> protocol_poisoned (qs d') \<and> page_pool d' = page_pool (at_dev a) \<and>
       mboxes d' = mboxes (at_dev a) \<and> pci d' = pci (at_dev a) \<and> zombie_thread d' = zombie_thread (at_dev a)"
proof -
  have i: "att_inv w (fns g) a" "bare (fns g (at_pdev a))" using reach_inv [OF assms(1)] assms(2) by (auto simp: reg_inv_def reg_ok_def)
  then have "dev_inv w (at_rev a) (fns g (at_pdev a)) (at_dev a)" "at_rev a = 1 \<or> at_rev a = 2" by (simp_all add: att_inv_def)
  from destroy_dev [OF this i(2) _ assms(4)] assms(3) have ok: "if b then given_up te (at_rev a) actual (at_dev a) d' else
      \<not> actual \<and> protocol_poisoned (qs d') \<and> \<not> dma_reclaim_safe d' \<and> page_pool d' = page_pool (at_dev a) \<and>
      mboxes d' = mboxes (at_dev a) \<and> pci d' = pci (at_dev a) \<and> zombie_thread d' = zombie_thread (at_dev a)"
    by (auto split: if_split_asm)
  show ?thesis
  proof (cases b)
    case True
    have "at_rev a = 2 \<longrightarrow> at_rev a \<noteq> 1" by simp
    then show ?thesis using ok True unfolding given_up_def stopped_def by (simp only: if_True) blast
  qed (use ok in simp)
qed

text \<open>C12. An unbind does not hang on a function that is gone: once the function is disconnected for good and the last
  system call has left, tearing it down returns within as many rounds as passed until then, whatever the queues, an
  ambiguous admin command or the PCI transactions are doing. Both hardware versions.\<close>

theorem unbind_ends:
  assumes "\<forall>t \<ge> T. disconnected (hw e) t" "gone_at (tdenv e) = disconnected (hw e)" "\<forall>t \<ge> T. io_ref_zero (tdenv e) t"
    "T - clock (qs (at_dev a)) + 3 \<le> fuel"
  shows "\<exists>g'. detach_finish e fuel a g = Some g'"
proof -
  have "destroy_mx_pdev (tdenv e) (ops_of e (at_rev a)) True fuel (at_dev a) \<noteq> None"
    using v2_pr.destroy_ends [OF assms] v1_pr.destroy_ends [OF assms, of "hw e" "v1_queue e"] by (simp add: ops_of_def)
  then show ?thesis by (auto simp: detach_finish_def Let_def split: option.split bool.split)
qed

theorem unbind_ends_witness: "\<exists>g'. detach_finish att_gone 11 att1 (detach_claim 7 reg1) = Some g'"
  by (rule unbind_ends [where T = 10]) (simp_all add: att_gone_def te_ok_def create_att1 dev1_props(4))

theorem teardown_frees_safely_witness:
  "\<exists>d' s. destroy_mx_pdev (tdenv att_ok) (ops_of att_ok 2) True 3 (at_dev att1) = Some (True, d') \<and> dma_reclaim_safe d' \<and>
     \<not> submit_thread (qs d') \<and> run_log (log s) = Some spec_init \<and> qs d' = free_mx_queue s"
proof -
  obtain d' where d: "destroy_mx_pdev (tdenv att_ok) (ops_of att_ok 2) True 3 (at_dev att1) = Some (True, d')"
    using att1_unbound by blast
  have r: "at_rev att1 = 2" "att1 \<in> set (devices reg1 @ claimed reg1)" by (simp_all add: reg1_def)
  have "\<not> gone_at (tdenv att_ok) t" for t by (simp add: att_ok_def te_ok_def)
  with teardown_frees_safely [OF reg1_reach r(2), of True "tdenv att_ok" att_ok 3 True d'] d r(1) show ?thesis by auto
qed

lemma drop_get:
  "mxdma_drop_attachment \<lparr>at_pdev = p, at_rev = v, at_dev = d, module_ref_held = \<not> wo_cxl e, pci_ref_held = True\<rparr>
     ((pci_dev_get p (module_get e g))\<lparr>owner_refs := owner_refs g + 1, fns := F\<rparr>) = g\<lparr>fns := F\<rparr>"
  by (cases g) (simp add: mxdma_drop_attachment_def pci_dev_put_def pci_dev_get_def module_get_def Let_def)

text \<open>What an attach that fails leaves behind: nothing, or a poisoned device that stays registered.\<close>

lemma attach_created_cases:
  assumes "create_mx_pdev e (fns g p) = (r1, Some d)" "bare (fns g p)" "g1 = (pci_dev_get p (module_get e g))\<lparr>owner_refs := owner_refs g + 1\<rparr>"
    "attach_created e fuel p r1 d g1 = Some (r, g')"
  shows "(\<exists>a. devices g' = devices g @ [a] \<and> at_pdev a = p \<and>
       (r = OK \<and> usable e (at_dev a) \<or> (r = OK \<longrightarrow> wo_cxl e) \<and> protocol_poisoned (qs (at_dev a)) \<and> \<not> dma_reclaim_safe (at_dev a))) \<or>
     (r \<noteq> OK \<and> (\<exists>f. g' = g\<lparr>fns := (fns g)(p := f)\<rparr> \<and>
       (restores_ok (tdenv e) \<longrightarrow> (if wo_cxl e then but_dma f = but_dma (fns g p) else f = fns g p))))"
proof -
  have g1: "devices g1 = devices g" using assms(3) by (simp add: pci_dev_get_def module_get_def)
  note c = create_ok [OF assms(1,2)]
  show ?thesis
  proof (cases r1)
    case (Inr u)
    then show ?thesis using assms(4) c after_usable g1 by (auto simp: attach_created_def Let_def)
  next
    case (Inl x)
    let ?d = "d\<lparr>attach_error := Some x\<rparr>" and ?v = "pci_revision e"
    have i: "dev_inv (wo_cxl e) ?v (fns g p) ?d" "\<not> teardown_started ?d" using c by (auto simp: started_def dev_inv_def)
    obtain b d2 where de: "destroy_mx_pdev (tdenv e) (ops_of e ?v) False fuel ?d = Some (b, d2)"
      using assms(4) Inl by (auto simp: attach_created_def Let_def split: option.split_asm)
    show ?thesis
    proof (cases b)
      case True
      have "fns g1 = fns g" using assms(3) by (simp add: pci_dev_get_def module_get_def)
      then have "g' = g\<lparr>fns := (fns g)(p := fn (pci d2))\<rparr> \<and> r = Inl x" using assms(4) Inl de True drop_get [of p ?v d2 e _ g]
        unfolding assms(3) by (simp add: attach_created_def Let_def)
      moreover have "destroy_mx_pdev (tdenv e) (ops_of e ?v) False fuel ?d = Some (True, d2)" using de True by simp
      ultimately show ?thesis using destroy_fn [OF _ i(1)] by (auto simp: Let_def)
    next
      case False
      have "protocol_poisoned (qs d2) \<and> \<not> dma_reclaim_safe d2" using destroy_dev [OF i(1) _ assms(2) _ de] c i(2) False by simp
      then show ?thesis using assms(4) Inl de False g1 by (auto simp: attach_created_def Let_def)
    qed
  qed
qed

text \<open>C17. An attach that fails leaves nothing behind it cannot account for: a new device is registered ready for use,
  with its rings, workers, pool and all nodes in place; or the error is reported with every reference dropped and the PCI
  function as it was; or, when the hardware's state is unclear, the device stays registered, poisoned and with
  its memory, so that a later unbind can finish.\<close>

theorem attach_outcome:
  assumes "reg_reach (wo_cxl e) g" "p \<notin> at_pdev ` set (claimed g)" "mxdma_find_device_locked p g = None"
    "mxdma_attach_device e fuel p g = Some (r, g')"
  shows "(\<exists>a. devices g' = devices g @ [a] \<and> at_pdev a = p \<and>
       (r = OK \<and> usable e (at_dev a) \<or> (r = OK \<longrightarrow> wo_cxl e) \<and> protocol_poisoned (qs (at_dev a)) \<and> \<not> dma_reclaim_safe (at_dev a))) \<or>
     (r \<noteq> OK \<and> (\<exists>f. g' = g\<lparr>fns := (fns g)(p := f)\<rparr> \<and>
       (restores_ok (tdenv e) \<longrightarrow> (if wo_cxl e then but_dma f = but_dma (fns g p) else f = fns g p))))"
proof -
  have b: "bare (fns g p)" using reach_inv [OF assms(1)] by (simp add: reg_inv_def reg_ok_def)
  from assms(4) show ?thesis
  proof (cases rule: attach_cases)
    case same
    then show ?thesis using assms(3) by (cases g) (auto intro: exI [of _ "fns g p"])
  next
    case (created r1 d)
    then show ?thesis using attach_created_cases [OF created(3) b refl] by blast
  qed
qed

theorem attach_outcome_witness: "usable att_ok (at_dev att1)"
proof -
  have "reg_reach (wo_cxl att_ok) reg0" by (rule reg0_reach)
  from attach_outcome [OF this _ _ reg1_attach] show ?thesis
    by (simp add: reg0_def reg1_def mxdma_find_device_locked_def att_ok_def)
qed

text \<open>C18. A detach that returns has given everything back: the function is no longer registered, its references are dropped,
  and the function itself is as the attach found it, except that it is no longer bus master; the build without
  the CXL driver leaves the DMA parameters as it set them.\<close>

theorem detach_gives_back:
  assumes "reg_reach w g" "a \<in> set (claimed g)" "detach_finish e fuel a g = Some g'"
  shows "at_pdev a \<notin> at_pdev ` set (devices g' @ claimed g') \<and> pci_refs g' (at_pdev a) = 0 \<and>
    module_refs g' = (if w then 0 else module_refs g - 1) \<and> owner_refs g' = owner_refs g - 1 \<and>
    (restores_ok (tdenv e) \<longrightarrow>
      (if w then but_dma (fns g' (at_pdev a)) = but_dma ((fns g (at_pdev a))\<lparr>is_busmaster := False\<rparr>)
       else fns g' (at_pdev a) = (fns g (at_pdev a))\<lparr>is_busmaster := False\<rparr>))"
proof -
  note inv = reach_inv [OF assms(1)]
  obtain d where d: "destroy_mx_pdev (tdenv e) (ops_of e (at_rev a)) True fuel (at_dev a) = Some (True, d)"
    and g': "g' = mxdma_drop_attachment (a\<lparr>at_dev := d\<rparr>) (g\<lparr>claimed := remove1 a (claimed g), fns := (fns g)(at_pdev a := fn (pci d))\<rparr>)"
    using finish_inv(2) [OF inv assms(2,3)] by blast
  have ai: "att_inv w (fns g) a" using inv assms(2) by (auto simp: reg_inv_def reg_ok_def)
  have m: "mset (devices g @ claimed g) = mset (a # devices g @ remove1 a (claimed g))" using assms(2) by simp
  from reg_ok_perm [OF m inv [unfolded reg_inv_def]] have out: "at_pdev a \<notin> at_pdev ` set (devices g' @ claimed g')"
    by (auto simp: g' reg_ok_def)
  have inv': "reg_inv w g'" by (rule finish_inv(1) [OF inv assms(2,3)])
  have len: "length (devices g' @ claimed g') = length (devices g @ claimed g) - 1" using mset_eq_length [OF m] by (simp add: g')
  have dev: "dev_inv w (at_rev a) (fns g (at_pdev a)) (at_dev a)" using ai by (simp add: att_inv_def)
  have refs: "pci_refs g' (at_pdev a) = 0" "module_refs g' = (if w then 0 else module_refs g - 1)" "owner_refs g' = owner_refs g - 1"
    using inv inv' len out unfolding reg_inv_def reg_ok_def by simp_all
  have "fns g' (at_pdev a) = fn (pci d)" by (simp add: g')
  then show ?thesis using out refs destroy_fn [OF d dev] by (simp add: Let_def)
qed

theorem detach_gives_back_witness:
  "\<exists>g'. detach_finish att_gone 11 att1 (detach_claim 7 reg1) = Some g' \<and> pci_refs g' 7 = 0 \<and> fns g' 7 = (fn pci0)\<lparr>is_busmaster := False\<rparr>"
proof -
  have cl: "detach_claim 7 reg1 = reg1\<lparr>devices := [], claimed := [att1]\<rparr>"
    by (simp add: detach_claim_def mxdma_find_device_locked_def reg1_def reg0_def)
  obtain b d where "destroy_mx_pdev (tdenv att_gone) (ops_of att_gone 2) True 11 (at_dev att1) = Some (b, d)" using att1_destroyed by blast
  then have "detach_finish att_gone 11 att1 (detach_claim 7 reg1) \<noteq> None" by (cases b) (simp_all add: detach_finish_def Let_def)
  then obtain g' where g': "detach_finish att_gone 11 att1 (detach_claim 7 reg1) = Some g'" by blast
  have "att1 \<in> set (claimed (detach_claim 7 reg1))" by (simp add: cl)
  note b = detach_gives_back [OF reg_reach.claim [OF reg1_reach] this g']
  have "restores_ok (tdenv att_gone)" "fns (detach_claim 7 reg1) 7 = fn pci0"
    by (simp_all add: att_gone_def te_ok_def restores_ok_def cl) (simp add: reg1_def reg0_def)
  then show ?thesis using b g' by simp
qed

end
