(* ===== verification/Handlers.thy ===== *)
theory Handlers
  imports Xfer_Correct
begin

text \<open>
  One round of each handler thread of \<open>core_common.c\<close>: the submit handler with the watchdog, the doorbell and the backoff, and
  the complete handler, whose loop polls the queue with the counters as the completions it has just handled left them.
  The contracts \<open>submit_ops\<close> and \<open>complete_ops\<close> are extended by what the handlers do at the end of a round.
\<close>

section \<open>Rounds\<close>

text \<open>What a round reads: the switch and the parameters of the watchdog, the clocks, and the built ping.\<close>

record 'c round_env =
  lv_on :: bool
  to_msecs :: "u64 \<Rightarrow> nat"
  dead_cfg :: nat
  stall_cfg :: nat
  ns_now :: u64
  ns_send :: u64
  jif_submit :: u64
  jif_1 :: u64
  jif_2 :: u64
  lv_ping_cmd :: 'c

text \<open>After the wait for work; the last component is the idle count with the sleep, if any.\<close>

definition mx_submit_round ::
  "'c round_env \<Rightarrow> ('q \<Rightarrow> bool \<times> 'q) \<Rightarrow> ('q \<Rightarrow> 'c \<Rightarrow> 'q) \<Rightarrow> ('q \<Rightarrow> 'q) \<Rightarrow> nat \<Rightarrow> 'q \<Rightarrow> 'c sq_entry mx_queue \<Rightarrow>
     'q \<times> 'c sq_entry mx_queue \<times> 'c sq_entry list \<times> (nat \<times> (nat \<times> nat) option)" where
  "mx_submit_round e pushable push post idle hw q =
     (case submit_loop pushable push (lv_on e) (jif_submit e) (sq_list q) hw q of
        (hw, q, ps) \<Rightarrow>
          (case (if lv_on e
                 then mx_liveness_watchdog (to_msecs e) (dead_cfg e) (stall_cfg e) (ns_now e) (ns_send e) (jif_1 e) (jif_2 e)
                        pushable push (lv_ping_cmd e) hw q
                 else (hw, q)) of
             (hw, q) \<Rightarrow> (post hw, q, ps, if ps \<noteq> [] then (0, None) else poll_backoff idle)))"

text \<open>\<open>zombie_only\<close> chooses how long, in jiffies, the complete handler waits before it looks at the queue.\<close>

definition POLLING_INTERVAL_MSEC :: nat where "POLLING_INTERVAL_MSEC = 4"
definition ZOMBIE_POLL_INTERVAL_MSEC :: nat where "ZOMBIE_POLL_INTERVAL_MSEC = 1000"

definition complete_wait :: "'e mx_queue \<Rightarrow> nat" where
  "complete_wait q = (if 0 < wait_count q \<and> zombie_wait_count q = wait_count q then ZOMBIE_POLL_INTERVAL_MSEC else POLLING_INTERVAL_MSEC)"

text \<open>\<open>ready\<close> is \<open>is_popable\<close> of the queue; \<open>clk\<close> gives the two clocks at each iteration.\<close>

primrec complete_loop ::
  "(nat mx_queue \<Rightarrow> 'q \<Rightarrow> bool \<times> 'q) \<Rightarrow> ('q \<Rightarrow> mx_completion_info \<times> 'q) \<Rightarrow> (nat \<Rightarrow> u64 \<times> u64) \<Rightarrow> nat \<Rightarrow> 'q \<Rightarrow> xfer_sys \<Rightarrow>
     (mx_completion_info list \<times> 'q \<times> xfer_sys) option" where
  "complete_loop ready pop clk 0 hw s = None"
| "complete_loop ready pop clk (Suc fuel) hw s =
     (case ready (xq s) hw of
        (False, hw) \<Rightarrow> Some ([], hw, s)
      | (True, hw) \<Rightarrow>
          (case pop hw of
             (info, hw) \<Rightarrow>
               (case complete_loop ready pop clk fuel hw (snd (complete_one (fst (clk fuel)) (snd (clk fuel)) info s)) of
                  None \<Rightarrow> None
                | Some (infos, hw, s) \<Rightarrow> Some (info # infos, hw, s))))"

definition mx_complete_round ::
  "(nat mx_queue \<Rightarrow> 'q \<Rightarrow> bool \<times> 'q) \<Rightarrow> ('q \<Rightarrow> mx_completion_info \<times> 'q) \<Rightarrow> ('q \<Rightarrow> 'q) \<Rightarrow> (nat \<Rightarrow> u64 \<times> u64) \<Rightarrow> nat \<Rightarrow> nat \<Rightarrow> 'q \<Rightarrow>
     xfer_sys \<Rightarrow> (mx_completion_info list \<times> 'q \<times> xfer_sys \<times> (nat \<times> (nat \<times> nat) option)) option" where
  "mx_complete_round ready pop post clk fuel idle hw s =
     (case complete_loop ready pop clk fuel hw s of
        None \<Rightarrow> None
      | Some (infos, hw, s) \<Rightarrow> Some (infos, post hw, s, if infos \<noteq> [] then (0, None) else poll_backoff idle))"

section \<open>The submit handler\<close>

text \<open>\<open>announced\<close> is the part of \<open>pending\<close> that the device has been told about.\<close>

locale submit_handler = submit_ops +
  fixes post :: "'a \<Rightarrow> 'a" and announced :: "'a \<Rightarrow> 'c list"
  assumes post_announced: "inv q \<Longrightarrow> inv (post q) \<and> announced (post q) = pending q"
begin

lemma submit_round:
  assumes "inv hw" "mx_submit_round e pushable push post idle hw q = (hw', q', ps, next)"
  obtains pings h where "inv h" "hw' = post h" "sq_list q = ps @ sq_list q'" "pings \<in> {[], image (lv_ping_cmd e)}"
    "announced hw' = pending hw @ concat (map (image o se_command) ps) @ pings" "pings \<noteq> [] \<longrightarrow> lv_on e \<and> lv_inflight q'"
    "wait_count q' = wait_count q + int (cnt (\<lambda>t. \<not> se_no_completion t) ps)"
proof -
  obtain h1 q1 where l: "submit_loop pushable push (lv_on e) (jif_submit e) (sq_list q) hw q = (h1, q1, ps)"
    and h2: "\<exists>h2. hw' = post h2 \<and> (if lv_on e
         then mx_liveness_watchdog (to_msecs e) (dead_cfg e) (stall_cfg e) (ns_now e) (ns_send e) (jif_1 e) (jif_2 e)
                pushable push (lv_ping_cmd e) h1 q1 = (h2, q') else h2 = h1 \<and> q' = q1)"
    using assms(2) by (auto simp: mx_submit_round_def split: prod.split_asm if_split_asm)
  note f = submit_loop_fifo [OF assms(1) l] submit_loop_count [OF l]
  from h2 obtain h2 where h: "hw' = post h2" and w: "if lv_on e
         then mx_liveness_watchdog (to_msecs e) (dead_cfg e) (stall_cfg e) (ns_now e) (ns_send e) (jif_1 e) (jif_2 e)
                pushable push (lv_ping_cmd e) h1 q1 = (h2, q') else h2 = h1 \<and> q' = q1" by blast
  have q: "wait_count q' = wait_count q1" "sq_list q' = sq_list q1"
    using w watchdog_hw(3,4) by (auto split: if_split_asm)
  obtain pings where p: "inv h2" "pings \<in> {[], image (lv_ping_cmd e)}" "pending h2 = pending h1 @ pings"
    "pings \<noteq> [] \<longrightarrow> lv_on e \<and> lv_inflight q'"
  proof -
    have i: "inv h1" using f by blast
    obtain b h where pu: "pushable h1 = (b, h)" by fastforce
    consider "h2 = h1" | "h2 = h" | "lv_on e" "b" "h2 = push h (lv_ping_cmd e)" "lv_inflight q'"
      using w watchdog_hw(1) pu by (auto split: if_split_asm) fastforce
    then show ?thesis
    proof cases
      case 1
      then show ?thesis using that [of "[]"] i by simp
    next
      case 2
      then show ?thesis using that [of "[]"] check_inv [OF i] check_pending [OF i] pu by simp
    next
      case 3
      then show ?thesis using that [of "image (lv_ping_cmd e)"] push_inv [OF i, of h] push_pending [OF i, of h] pu by simp
    qed
  qed
  show ?thesis
    by (rule that [of h2 pings]) (use p f q h post_announced in auto)
qed

text \<open>With work on the list, room in the queue and no probe outstanding a round submits something.\<close>

lemma submit_round_progress:
  assumes "mx_submit_round e pushable push post idle hw q = (hw', q', ps, next)"
    "sq_list q \<noteq> []" "fst (pushable hw)" "\<not> (lv_on e \<and> lv_inflight q)"
  shows "ps \<noteq> []"
  using assms by (cases "sq_list q"; cases "pushable hw")
    (auto simp: mx_submit_round_def Let_def split: prod.split_asm if_split_asm)

end


section \<open>The complete handler\<close>

text \<open>The answer to a ping (\<open>None\<close>), or to the command of the transfer \<open>t\<close>.\<close>

fun answers :: "xfer_sys \<Rightarrow> nat option \<Rightarrow> mx_completion_info \<Rightarrow> bool" where
  "answers s None info \<longleftrightarrow> info_id info = int MX_PING_ID"
| "answers s (Some t) info \<longleftrightarrow> (\<exists>x. xheap s t = Some x \<and> info_id info = int (x_id x))"

abbreviation (input) answered :: "nat option list \<Rightarrow> nat set" where
  "answered os \<equiv> {t. Some t \<in> set os}"

lemma complete_one_ghost:
  "snd (complete_one n m info (s\<lparr>inflight := F\<rparr>)) = (snd (complete_one n m info s))\<lparr>inflight := F\<rparr>"
  by (cases s; cases "idr s (nat (info_id info))"; cases "xheap s (the (idr s (nat (info_id info))))")
    (auto simp: complete_one_def transfer_id_claim_completion_def set_xfer_def Let_def)

lemma complete_one_heap:
  "xheap s t = Some x \<Longrightarrow> \<exists>y. xheap (snd (complete_one n m info s)) t = Some y \<and> x_id y = x_id x \<and> (x_claimed x \<longrightarrow> x_claimed y)"
  by (cases "idr s (nat (info_id info))"; cases "xheap s (the (idr s (nat (info_id info))))")
    (auto simp: complete_one_def transfer_id_claim_completion_def set_xfer_def Let_def)

lemma complete_one_answers: "answers s a i \<Longrightarrow> answers (snd (complete_one n m info s)) a i"
  using complete_one_heap by (cases a) fastforce+

lemma complete_one_inflight [simp]: "inflight (snd (complete_one n m info s)) = inflight s"
  by (cases "idr s (nat (info_id info))"; cases "xheap s (the (idr s (nat (info_id info))))")
    (auto simp: complete_one_def transfer_id_claim_completion_def set_xfer_def Let_def)

text \<open>One completion in a reachable world.\<close>

lemma completion_step:
  assumes "xfer_reachable W" "answers (xs W) a info" "set_option a \<subseteq> inflight (xs W)" "complete_one n m info (xs W) = (r, s)"
  shows "xfer_reachable (W\<lparr>xs := s\<lparr>inflight := inflight (xs W) - set_option a\<rparr>\<rparr>)"
    "\<forall>t \<in> set_option a. \<exists>y. xheap s t = Some y \<and> x_claimed y"
proof -
  have f: "inflight s = inflight (xs W)" using complete_one_inflight [of n m info "xs W"] assms(4) by simp
  have "xfer_reachable (W\<lparr>xs := s\<lparr>inflight := inflight (xs W) - set_option a\<rparr>\<rparr>) \<and> (\<forall>t \<in> set_option a. \<exists>y. xheap s t = Some y \<and> x_claimed y)"
  proof (cases a)
    case None
    then show ?thesis using xfer_reachable.pong [OF assms(1) _ assms(4)] assms(2) by (simp flip: f)
  next
    case (Some t)
    then obtain x where x: "t \<in> inflight (xs W)" "xheap (xs W) t = Some x" "info_id info = int (x_id x)" using assms(2,3) by auto
    have "\<exists>y. xheap s t = Some y \<and> x_claimed y"
      using complete_claims [OF xfer_reachable_inv [OF assms(1)] x, of n m] assms(4) by auto
    then show ?thesis using xfer_reachable.completion [OF assms(1) x assms(4)] Some by (simp flip: f)
  qed
  then show "xfer_reachable (W\<lparr>xs := s\<lparr>inflight := inflight (xs W) - set_option a\<rparr>\<rparr>)"
    "\<forall>t \<in> set_option a. \<exists>y. xheap s t = Some y \<and> x_claimed y" by blast+
qed

lemma answered_expected:
  assumes "xfer_reachable W" "answered as \<subseteq> inflight (xs W)" "answered as \<noteq> {}"
  shows "expects_completion (xq (xs W))"
proof -
  note inv = xfer_reachable_inv [OF assms(1)]
  have "0 < card (inflight (xs W))" using assms(2,3) inflight_finite [OF inv] by (auto simp: card_gt_0_iff)
  then show ?thesis using xfer_invD(11) [OF inv] by (simp add: expects_completion_def)
qed

locale complete_handler = complete_ops inv arrived popable pop
  for inv :: "'q \<Rightarrow> bool" and arrived :: "'q \<Rightarrow> mx_completion_info list" and popable :: "'q \<Rightarrow> bool \<times> 'q"
    and pop :: "'q \<Rightarrow> mx_completion_info \<times> 'q" +
  fixes ready :: "nat mx_queue \<Rightarrow> 'q \<Rightarrow> bool \<times> 'q" and post :: "'q \<Rightarrow> 'q"
  assumes ready: "ready q hw = (if expects_completion q then popable hw else (False, hw))"
    and post_keeps: "inv hw \<Longrightarrow> inv (post hw) \<and> arrived (post hw) = arrived hw"
begin

text \<open>Answers of the device to commands it holds are all consumed; only pongs that nobody waits for may stay.\<close>

lemma complete_loop_delivers:
  assumes "inv hw" "length (arrived hw) < fuel" "xfer_reachable W" "list_all2 (answers (xs W)) as (arrived hw)"
    "distinct (filter (\<lambda>a. a \<noteq> None) as)" "answered as \<subseteq> inflight (xs W)"
  shows "\<exists>infos hw' s'. complete_loop ready pop clk fuel hw ((xs W)\<lparr>inflight := F\<rparr>) = Some (infos, hw', s') \<and> inv hw' \<and>
    arrived hw = infos @ arrived hw' \<and> (\<forall>i \<in> set (arrived hw'). info_id i = int MX_PING_ID) \<and>
    xfer_reachable (W\<lparr>xs := s'\<lparr>inflight := inflight (xs W) - answered as\<rparr>\<rparr>) \<and>
    (\<forall>t. (\<exists>x. xheap (xs W) t = Some x \<and> x_claimed x) \<or> t \<in> answered as \<longrightarrow> (\<exists>y. xheap s' t = Some y \<and> x_claimed y))"
  using assms
proof (induction fuel arbitrary: hw W as)
  case (Suc fuel)
  let ?s = "(xs W)\<lparr>inflight := F\<rparr>"
  obtain b hw1 where p: "popable hw = (b, hw1)" by fastforce
  note pl = poll [OF Suc.prems(1) p]
  show ?case
  proof (cases "expects_completion (xq (xs W)) \<and> b")
    case False
    have n: "answered as = {}"
    proof (rule ccontr)
      assume a: "answered as \<noteq> {}"
      then have "arrived hw \<noteq> []" using Suc.prems(4) by auto
      then show False using False pl answered_expected [OF Suc.prems(3,6) a] by simp
    qed
    have "\<forall>i \<in> set (arrived hw). info_id i = int MX_PING_ID"
    proof
      fix i assume "i \<in> set (arrived hw)"
      then obtain a where "a \<in> set as" "answers (xs W) a i" using Suc.prems(4)
        by (metis list_all2_conv_all_nth in_set_conv_nth)
      moreover from this(1) n have "a = None" by (cases a rule: option.exhaust) auto
      ultimately show "info_id i = int MX_PING_ID" by simp
    qed
    moreover obtain hw2 where "ready (xq ?s) hw = (False, hw2)" "inv hw2" "arrived hw2 = arrived hw"
      using False p pl Suc.prems(1) by (cases "expects_completion (xq (xs W))") (auto simp: ready)
    ultimately show ?thesis using n Suc.prems(3) by simp
  next
    case True
    obtain info hw2 where i: "pop hw1 = (info, hw2)" by fastforce
    have ne: "arrived hw \<noteq> []" using pl True by simp
    have "popable hw = (True, hw1)" using p True by simp
    note pp = pop [OF Suc.prems(1) this i]
    then have ar: "arrived hw = info # arrived hw2" using ne by (cases "arrived hw") auto
    then obtain a as' where as: "as = a # as'" "answers (xs W) a info" "list_all2 (answers (xs W)) as' (arrived hw2)"
      using Suc.prems(4) by (auto simp: list_all2_Cons2)
    let ?s1 = "snd (complete_one (fst (clk fuel)) (snd (clk fuel)) info (xs W))"
    have c1: "complete_one (fst (clk fuel)) (snd (clk fuel)) info (xs W) = (fst (complete_one (fst (clk fuel)) (snd (clk fuel)) info (xs W)), ?s1)" by simp
    let ?W = "W\<lparr>xs := ?s1\<lparr>inflight := inflight (xs W) - set_option a\<rparr>\<rparr>"
    have sub: "set_option a \<subseteq> inflight (xs W)" using Suc.prems(6) as(1) by (cases a) auto
    note st = completion_step [OF Suc.prems(3) as(2) sub c1]
    have a2: "list_all2 (answers (xs ?W)) as' (arrived hw2)"
    proof (rule list_all2_mono [OF as(3)])
      fix b j assume "answers (xs W) b j"
      from complete_one_answers [OF this] show "answers (xs ?W) b j" by (cases b) auto
    qed
    have d: "distinct (filter (\<lambda>a. a \<noteq> None) as')" "answered as' \<inter> set_option a = {}"
      using Suc.prems(5) as(1) by (cases a; auto)+
    have s2: "answered as' \<subseteq> inflight (xs ?W)" using Suc.prems(6) as(1) d(2) by auto
    have "length (arrived hw2) < fuel" using ar Suc.prems(2) by simp
    from Suc.IH [OF conjunct1 [OF pp] this st(1) a2 d(1) s2]
    obtain infos hw' s' where r: "complete_loop ready pop clk fuel hw2 ((xs ?W)\<lparr>inflight := F\<rparr>) = Some (infos, hw', s')" "inv hw'"
      "arrived hw2 = infos @ arrived hw'" "\<forall>i \<in> set (arrived hw'). info_id i = int MX_PING_ID"
      "xfer_reachable (?W\<lparr>xs := s'\<lparr>inflight := inflight (xs ?W) - answered as'\<rparr>\<rparr>)"
      "\<forall>t. (\<exists>x. xheap (xs ?W) t = Some x \<and> x_claimed x) \<or> t \<in> answered as' \<longrightarrow> (\<exists>y. xheap s' t = Some y \<and> x_claimed y)"
      by (elim exE conjE)
    have an: "answered as = set_option a \<union> answered as'" using as(1) by (cases a) auto
    have "complete_loop ready pop clk (Suc fuel) hw ?s = Some (info # infos, hw', s')"
      using True p i r(1) by (simp add: ready complete_one_ghost)
    moreover have "xfer_reachable (W\<lparr>xs := s'\<lparr>inflight := inflight (xs W) - answered as\<rparr>\<rparr>)"
      using r(5) by (simp add: an Diff_eq Compl_Un Int_assoc)
    moreover have "\<exists>y. xheap s' t = Some y \<and> x_claimed y" if "(\<exists>x. xheap (xs W) t = Some x \<and> x_claimed x) \<or> t \<in> answered as" for t
    proof -
      have "(\<exists>x. xheap ?s1 t = Some x \<and> x_claimed x) \<or> t \<in> answered as'"
        using that st(2) complete_one_heap [of "xs W" t] unfolding an by blast
      then show ?thesis using r(6) by auto
    qed
    ultimately show ?thesis using r(2-4) ar by auto
  qed
qed simp

end


section \<open>Both hardware versions\<close>

text \<open>The commands behind the submission doorbell.\<close>

definition v2_announced :: "v2_sys \<Rightarrow> mx_command_v2 list" where
  "v2_announced S = map (\<lambda>i. sqes (hq S) ! (i mod dpt S)) [length (taken S)..<rung S]"

interpretation v2_sh: submit_handler v2_inv "\<lambda>c. [c]" v2_pending "\<lambda>S. (is_pushable_v2 (hq S), S)" v2_push v2_ring_sq v2_announced
proof unfold_locales
  fix S assume "v2_inv S"
  then have "v2_inv (v2_ring_sq S)" by (rule ring_sq_inv)
  moreover have "v2_announced (v2_ring_sq S) = v2_pending S"
    by (simp add: v2_announced_def v2_pending_def v2_ring_sq_def ring_sq_doorbell_def)
  ultimately show "v2_inv (v2_ring_sq S) \<and> v2_announced (v2_ring_sq S) = v2_pending S" ..
qed

text \<open>Version 1 has no doorbell: a push publishes the context word at once, and the device reads the tail from it.\<close>

interpretation v1_sh: submit_handler v1_inv command_v1_words v1_pending v1_pushable v1_push id v1_announced
  by unfold_locales (simp add: v1_announced_all)

definition v1_ready :: "'e mx_queue \<Rightarrow> v1_sys \<Rightarrow> bool \<times> v1_sys" where
  "v1_ready q S = (case is_popable_v1 q (q1 S) (v1_reg (cq_mbox (q1 S)) (v1_head S) (enc (2 ^ cqk S) (cqT S))) of (b, q) \<Rightarrow> (b, S\<lparr>q1 := q\<rparr>))"

interpretation v2_ch: complete_handler v2_inv v2_arrived "\<lambda>S. (phase_matches (hq S), S)" v2_pop
  "\<lambda>q S. (is_popable_v2 q (hq S), S)" v2_ring_cq
  by unfold_locales (simp_all add: is_popable_v2_def ring_cq_inv v2_arrived_def)

interpretation v1_ch: complete_handler v1_inv v1_arrived v1_poll v1_pop v1_ready id
proof unfold_locales
  fix q :: "nat mx_queue" and S
  show "v1_ready q S = (if expects_completion q then v1_poll S else (False, S))"
    by (simp add: v1_ready_def v1_poll_def is_popable_v1_def expects_completion_def)
qed simp

lemma v2_doorbell_at_tail:
  assumes "v2_inv S" shows "unat (db_sq (hq (v2_ring_sq S))) = unat (sq_tail (hq (v2_ring_sq S)))"
  using sq_invD(4,6) [of "v2_ring_sq S"] ring_sq_inv [OF assms] by (simp add: v2_inv_def v2_ring_sq_def)

section \<open>Properties\<close>

text \<open>The sleep of a round, whatever the queue.\<close>

lemma submit_round_sleep:
  assumes "mx_submit_round e pushable push post idle hw q = (hw', q', ps, k, sleep)" "idle \<le> 255"
  shows "case sleep of None \<Rightarrow> True | Some (lo, hi) \<Rightarrow> ps = [] \<and> hi \<le> 18000"
  using assms(1) backoff_bounds [OF assms(2)]
  by (auto simp: mx_submit_round_def split: prod.split_asm if_split_asm option.split_asm option.split)

lemma at_most_one_ping:
  assumes "pings \<in> {[], p}" "pings \<noteq> [] \<longrightarrow> on"
  shows "\<exists>n \<le> of_bool on. ws @ pings = ws @ concat (replicate n p)"
proof (cases "pings = []")
  case True
  then show ?thesis by (intro exI [of _ 0]) simp
next
  case False
  then have "pings = p" "on" using assms by auto
  then show ?thesis by (intro exI [of _ 1]) simp
qed

text \<open>C25. A round of the submit handler publishes what it takes, on both hardware versions: the entries taken off the list are a prefix of
  it, their commands follow in order those the device had still to fetch, after them comes at most one ping of the watchdog (and then
  further submits are held), and at the end of the round the device knows about all of them. What it knows is read from what the driver wrote to it: for version 2 the
  doorbell is at the tail; for version 1 the words lie in the mailbox memory between the device's own position and the tail it
  decodes from the context word in the mailbox's write register. The wait count grows by the commands that will be answered. With
  work, room and no probe outstanding a round submits something; otherwise the thread yields, or sleeps for at most 18 ms.\<close>

theorem submit_round_publishes:
  assumes "v2_reachable S" and r2: "mx_submit_round e (\<lambda>S. (is_pushable_v2 (hq S), S)) v2_push v2_ring_sq idle S q = (S', q', ps, k, sleep)"
    and "v1_inv R" and r1: "mx_submit_round f v1_pushable v1_push id idle R r = (R', r', qs, k', sleep')" and "idle \<le> 255"
  shows "sq_list q = ps @ sq_list q' \<and> unat (db_sq (hq S')) = unat (sq_tail (hq S')) \<and>
      (\<exists>n \<le> of_bool (lv_on e \<and> lv_inflight q'). v2_announced S' = v2_pending S @ map se_command ps @ replicate n (lv_ping_cmd e)) \<and>
      wait_count q' = wait_count q + int (cnt (\<lambda>t. \<not> se_no_completion t) ps) \<and>
      (sq_list q \<noteq> [] \<and> is_pushable_v2 (hq S) \<and> \<not> (lv_on e \<and> lv_inflight q) \<longrightarrow> ps \<noteq> []) \<and>
      (case sleep of None \<Rightarrow> True | Some (lo, hi) \<Rightarrow> ps = [] \<and> hi \<le> 18000) \<and>
    sq_list r = qs @ sq_list r' \<and> v1_inv R' \<and>
      (\<exists>n \<le> of_bool (lv_on f \<and> lv_inflight r'). v1_announced R' =
         v1_pending R @ concat (map (command_v1_words o se_command) qs) @ concat (replicate n (command_v1_words (lv_ping_cmd f)))) \<and>
      wait_count r' = wait_count r + int (cnt (\<lambda>t. \<not> se_no_completion t) qs) \<and>
      (sq_list r \<noteq> [] \<and> fst (v1_pushable R) \<and> \<not> (lv_on f \<and> lv_inflight r) \<longrightarrow> qs \<noteq> []) \<and>
      (case sleep' of None \<Rightarrow> True | Some (lo, hi) \<Rightarrow> qs = [] \<and> hi \<le> 18000)"
proof -
  have i: "v2_inv S" by (rule v2_reachable_inv [OF assms(1)])
  obtain pings h where p: "v2_inv h" "S' = v2_ring_sq h" "sq_list q = ps @ sq_list q'" "pings \<in> {[], [lv_ping_cmd e]}"
    "v2_announced S' = v2_pending S @ concat (map ((\<lambda>c. [c]) o se_command) ps) @ pings" "pings \<noteq> [] \<longrightarrow> lv_on e \<and> lv_inflight q'"
    "wait_count q' = wait_count q + int (cnt (\<lambda>t. \<not> se_no_completion t) ps)"
    by (rule v2_sh.submit_round [OF i r2])
  obtain pongs g where v: "v1_inv g" "R' = id g" "sq_list r = qs @ sq_list r'" "pongs \<in> {[], command_v1_words (lv_ping_cmd f)}"
    "v1_announced R' = v1_pending R @ concat (map (command_v1_words o se_command) qs) @ pongs" "pongs \<noteq> [] \<longrightarrow> lv_on f \<and> lv_inflight r'"
    "wait_count r' = wait_count r + int (cnt (\<lambda>t. \<not> se_no_completion t) qs)"
    by (rule v1_sh.submit_round [OF assms(3) r1])
  have c: "concat (map ((\<lambda>c. [c]) o se_command) ps) = map se_command ps" by (induction ps) simp_all
  have r: "concat (replicate n [x]) = replicate n x" for n and x :: mx_command_v2 by (induction n) simp_all
  have n: "\<exists>n \<le> of_bool (lv_on e \<and> lv_inflight q'). v2_announced S' = v2_pending S @ map se_command ps @ replicate n (lv_ping_cmd e)"
    using at_most_one_ping [OF p(4,6), of "v2_pending S @ map se_command ps"] unfolding p(5) c r by simp
  have m: "\<exists>n \<le> of_bool (lv_on f \<and> lv_inflight r'). v1_announced R' =
         v1_pending R @ concat (map (command_v1_words o se_command) qs) @ concat (replicate n (command_v1_words (lv_ping_cmd f)))"
    using at_most_one_ping [OF v(4,6), of "v1_pending R @ concat (map (command_v1_words o se_command) qs)"] unfolding v(5) by simp
  have db: "unat (db_sq (hq S')) = unat (sq_tail (hq S'))"
    using v2_doorbell_at_tail [OF p(1)] unfolding p(2) .
  show ?thesis
    using p(3,7) n m db v(1-3,7) submit_round_sleep [OF r2 assms(5)] submit_round_sleep [OF r1 assms(5)]
      v2_sh.submit_round_progress [OF r2] v1_sh.submit_round_progress [OF r1]
    by (intro conjI impI) (simp_all only: id_apply fst_conv simp_thms)
qed


definition round_example :: "'c \<Rightarrow> 'c round_env" where
  "round_example c = \<lparr>lv_on = True, to_msecs = unat, dead_cfg = 5000, stall_cfg = 1000, ns_now = 0, ns_send = 0, jif_submit = 0, jif_1 = 0, jif_2 = 0,
     lv_ping_cmd = c\<rparr>"

text \<open>One entry on each list, room in both queues, the watchdog on.\<close>

theorem submit_round_publishes_witness:
  "\<exists>S' q' k sleep R' r' qs k' sleep' ps n.
     mx_submit_round (round_example build_ping_command_v2) (\<lambda>S. (is_pushable_v2 (hq S), S)) v2_push v2_ring_sq 7 (v2_init 4)
       ((mx_queue_common_init 0)\<lparr>sq_list := submit_example build_ping_command_v2\<rparr>) = (S', q', ps, k, sleep) \<and>
     mx_submit_round (round_example build_ping_command_v1) v1_pushable v1_push id 7 v1_example
       ((mx_queue_common_init 0)\<lparr>sq_list := submit_example build_ping_command_v1\<rparr>) = (R', r', qs, k', sleep') \<and>
     ps \<noteq> [] \<and> n \<le> 1 \<and> v2_announced S' = v2_pending (v2_init 4) @ map se_command ps @ replicate n build_ping_command_v2"
proof -
  let ?q = "(mx_queue_common_init 0)\<lparr>sq_list := submit_example build_ping_command_v2\<rparr>"
  let ?r = "(mx_queue_common_init 0)\<lparr>sq_list := submit_example build_ping_command_v1\<rparr>"
  obtain S' q' ps k sleep where r2: "mx_submit_round (round_example build_ping_command_v2) (\<lambda>S. (is_pushable_v2 (hq S), S)) v2_push v2_ring_sq 7
      (v2_init 4) ?q = (S', q', ps, k, sleep)" by (rule prod_cases5)
  obtain R' r' qs k' sleep' where r1: "mx_submit_round (round_example build_ping_command_v1) v1_pushable v1_push id 7 v1_example ?r =
      (R', r', qs, k', sleep')" by (rule prod_cases5)
  have a: "sq_list ?q \<noteq> []" "\<not> lv_inflight ?q" by (simp_all add: submit_example_def mx_queue_common_init_def)
  have b: "is_pushable_v2 (hq (v2_init 4))" by code_simp
  have r0: "v2_reachable (v2_init 4)" by (rule v2_reachable.init) simp_all
  have c: "lv_ping_cmd (round_example build_ping_command_v2) = build_ping_command_v2" by (simp add: round_example_def)
  have "(7::nat) \<le> 255" by simp
  note pub = submit_round_publishes [OF r0 r2 v1_example_inv r1 this, unfolded c]
  have "sq_list ?q \<noteq> [] \<and> is_pushable_v2 (hq (v2_init 4)) \<and> \<not> (lv_on (round_example build_ping_command_v2) \<and> lv_inflight ?q) \<longrightarrow> ps \<noteq> []"
    using pub by (elim conjE) simp
  then have ps: "ps \<noteq> []" using a b by simp
  have "\<exists>n \<le> of_bool (lv_on (round_example build_ping_command_v2) \<and> lv_inflight q').
      v2_announced S' = v2_pending (v2_init 4) @ map se_command ps @ replicate n build_ping_command_v2"
    using pub by (elim conjE) simp
  then obtain n where n: "n \<le> of_bool (lv_on (round_example build_ping_command_v2) \<and> lv_inflight q')"
    "v2_announced S' = v2_pending (v2_init 4) @ map se_command ps @ replicate n build_ping_command_v2" by blast
  have "n \<le> 1" using n(1) by (rule order_trans) simp
  with n(2) ps r1 r2 show ?thesis by (intro exI conjI)
qed

text \<open>C26. A round of the complete handler delivers: given that the device answers only commands it holds, each once (and pings), the loop
  ends with any fuel above the number of completions in the ring; it has consumed them in order, except possibly pongs that
  nobody waits for any more; every transfer that was answered is claimed and out of the device's hands, the world stays
  consistent, and the doorbell gives all consumed slots back. This is so although the loop looks at the counters that it lowers
  itself: they cannot reach zero while an answer is left.\<close>

theorem complete_round_delivers:
  assumes "v2_reachable S" "length (v2_arrived S) < fuel" "xfer_reachable W" "list_all2 (answers (xs W)) as (v2_arrived S)"
    "distinct (filter (\<lambda>a. a \<noteq> None) as)" "{t. Some t \<in> set as} \<subseteq> inflight (xs W)"
  shows "\<exists>infos S' s' k. mx_complete_round (\<lambda>q S. (is_popable_v2 q (hq S), S)) v2_pop v2_ring_cq clk fuel idle S (xs W) = Some (infos, S', s', k) \<and>
    v2_arrived S = infos @ v2_arrived S' \<and> (\<forall>i \<in> set (v2_arrived S'). info_id i = int MX_PING_ID) \<and>
    xfer_reachable (W\<lparr>xs := s'\<lparr>inflight := inflight (xs W) - {t. Some t \<in> set as}\<rparr>\<rparr>) \<and>
    (\<forall>t. Some t \<in> set as \<longrightarrow> (\<exists>y. xheap s' t = Some y \<and> x_claimed y)) \<and>
    released S' = length (popped S')"
proof -
  from v2_ch.complete_loop_delivers [OF v2_reachable_inv [OF assms(1)] assms(2-6), of clk "inflight (xs W)"]
  obtain infos hw s' where r: "complete_loop (\<lambda>q S. (is_popable_v2 q (hq S), S)) v2_pop clk fuel S (xs W) = Some (infos, hw, s')" "v2_inv hw"
      "v2_arrived S = infos @ v2_arrived hw" "\<forall>i \<in> set (v2_arrived hw). info_id i = int MX_PING_ID"
      "xfer_reachable (W\<lparr>xs := s'\<lparr>inflight := inflight (xs W) - {t. Some t \<in> set as}\<rparr>\<rparr>)"
      "\<forall>t. (\<exists>x. xheap (xs W) t = Some x \<and> x_claimed x) \<or> t \<in> {t. Some t \<in> set as} \<longrightarrow> (\<exists>y. xheap s' t = Some y \<and> x_claimed y)"
    by (auto simp del: complete_loop.simps)
  have "v2_arrived (v2_ring_cq hw) = v2_arrived hw" using v2_ch.post_keeps [OF r(2)] ..
  then show ?thesis using r by (simp add: mx_complete_round_def v2_ring_cq_def)
qed

text \<open>The device has answered the first of two commands it holds.\<close>

definition answered_ring :: v2_sys where
  "answered_ring = dev_post (dev_fetch (v2_ring_sq (v2_push (v2_init 4) build_ping_command_v2))) completion_zero"

lemma answered_ring_reachable: "v2_reachable answered_ring"
proof -
  let ?S1 = "v2_push (v2_init 4) build_ping_command_v2" let ?S3 = "dev_fetch (v2_ring_sq ?S1)"
  note ev = v2_ring_sq_def v2_push_def v2_init_def configure_queue_def push_mx_command_v2_def update_sq_doorbell_def ring_sq_doorbell_def Let_def
  have "v2_reachable (v2_init 4)" by (rule v2_reachable.init) simp_all
  then have "v2_reachable ?S1" by (rule v2_reachable.push) code_simp
  then have "v2_reachable ?S3" by (rule v2_reachable.fetch [OF v2_reachable.ring_sq]) (simp add: ev)
  then show ?thesis unfolding answered_ring_def by (rule v2_reachable.post) (simp add: ev dev_fetch_def)
qed

theorem complete_round_delivers_witness:
  "\<exists>infos S' s' k. mx_complete_round (\<lambda>q S. (is_popable_v2 q (hq S), S)) v2_pop v2_ring_cq (\<lambda>_. (0, 0)) 2 9 answered_ring
      (xs (wst (qst [] 2 0) (heap2 False False) idr2 2 [] {7, 8} {7, 8} {})) = Some (infos, S', s', k) \<and>
     map info_id infos = [0] \<and> (\<exists>y. xheap s' 7 = Some y \<and> x_claimed y)"
proof -
  let ?W = "wst (qst [] 2 0) (heap2 False False) idr2 2 [] {7, 8} {7, 8} {}"
  have ids: "map (cq_command_id o fst) (posted answered_ring) = [0]" "popped answered_ring = []"
    by (simp_all add: answered_ring_def completion_zero_def)
  then obtain c n where c: "posted answered_ring = [(c, n)]" "cq_command_id c = 0" by auto
  then have a: "v2_arrived answered_ring = [\<lparr>info_id = 0, info_result = cq_result c, info_status = 0\<rparr>]"
    using ids(2) by (simp add: v2_arrived_def)
  have h: "list_all2 (answers (xs ?W)) [Some 7] (v2_arrived answered_ring)" "{t. Some t \<in> set [Some 7]} \<subseteq> inflight (xs ?W)"
    by (simp_all add: a wst_def heap2_def xfer0_def)
  have "length (v2_arrived answered_ring) < 2" by (simp add: a)
  from complete_round_delivers [OF answered_ring_reachable this run_both_pushed h(1) _ h(2), of "\<lambda>_. (0, 0)" 9]
  obtain infos S' s' k where r: "mx_complete_round (\<lambda>q S. (is_popable_v2 q (hq S), S)) v2_pop v2_ring_cq (\<lambda>_. (0, 0)) 2 9 answered_ring (xs ?W) =
      Some (infos, S', s', k)" "v2_arrived answered_ring = infos @ v2_arrived S'" "\<forall>i \<in> set (v2_arrived S'). info_id i = int MX_PING_ID"
      "\<exists>y. xheap s' 7 = Some y \<and> x_claimed y"
    by auto
  have "infos @ v2_arrived S' = [\<lparr>info_id = 0, info_result = cq_result c, info_status = 0\<rparr>]" using r(2) a by simp
  then have "map info_id infos = [0]" using r(3) by (auto simp: append_eq_Cons_conv)
  with r(1,4) show ?thesis by (intro exI [of _ infos] exI [of _ S'] exI [of _ s'] exI [of _ k] conjI)
qed

end
