(* ===== verification/Desc_Pool.thy ===== *)
theory Desc_Pool
  imports Prp 
begin

text \<open>
  \<open>desc_list_alloc\<close> and \<open>desc_list_free\<close> of \<open>transfer.c\<close> with what they take from the page pool and from the heap.  A page that could not be
  allocated is a null pointer in the array, and both arrays are null pointers when there is no list; the callers free a list that
  may be there, not there, or half there.
\<close>

section \<open>State\<close>

record desc_list =
  desc_list_cnt :: nat
  desc_list_va :: "nat option list option"
  desc_list_ba :: "nat list option"

text \<open>Pages lent out by the pool, with their bus addresses, and live pointer arrays.\<close>

record desc_mem =
  lent :: "(nat \<times> nat) list"
  arrays :: nat

section \<open>Operations\<close>

fun free_pages :: "nat option list \<Rightarrow> nat list \<Rightarrow> desc_mem \<Rightarrow> desc_mem" where
  "free_pages (Some va # vas) (ba # bas) m = free_pages vas bas (m\<lparr>lent := remove1 (va, ba) (lent m)\<rparr>)"
| "free_pages (None # vas) (ba # bas) m = free_pages vas bas m"
| "free_pages _ _ m = m"

definition desc_list_free :: "desc_list \<times> desc_mem \<Rightarrow> desc_list \<times> desc_mem" where
  "desc_list_free = (\<lambda>(t, m).
     let (t, m) = (case desc_list_va t of
           None \<Rightarrow> (t, m)
         | Some vas \<Rightarrow>
             let m = (case desc_list_ba t of None \<Rightarrow> m | Some bas \<Rightarrow> free_pages (take (desc_list_cnt t) vas) bas m)
             in (t\<lparr>desc_list_va := None\<rparr>, m\<lparr>arrays := arrays m - 1\<rparr>))
     in (case desc_list_ba t of
           None \<Rightarrow> (t, m)
         | Some bas \<Rightarrow> (t\<lparr>desc_list_ba := None\<rparr>, m\<lparr>arrays := arrays m - 1\<rparr>)))"

text \<open>The loop of \<open>desc_list_alloc\<close> from index \<open>i\<close> on; the flag is false when the pool was empty.\<close>

fun fill_list :: "(nat \<Rightarrow> (nat \<times> nat) option) \<Rightarrow> nat \<Rightarrow> nat \<Rightarrow> desc_list \<times> desc_mem \<Rightarrow> bool \<times> desc_list \<times> desc_mem" where
  "fill_list pool i 0 (t, m) = (True, t, m)"
| "fill_list pool i (Suc n) (t, m) =
     (case pool i of
        None \<Rightarrow> (False, t, m)
      | Some (va, ba) \<Rightarrow>
          fill_list pool (i + 1) n
            (t\<lparr>desc_list_va := map_option (\<lambda>vs. vs[i := Some va]) (desc_list_va t),
               desc_list_ba := map_option (\<lambda>bs. bs[i := ba]) (desc_list_ba t)\<rparr>,
             m\<lparr>lent := (va, ba) # lent m\<rparr>))"

definition desc_list_alloc_pool ::
  "bool \<Rightarrow> bool \<Rightarrow> (nat \<Rightarrow> (nat \<times> nat) option) \<Rightarrow> nat \<Rightarrow> desc_list \<times> desc_mem \<Rightarrow> unit result \<times> desc_list \<times> desc_mem" where
  "desc_list_alloc_pool va_ok ba_ok pool list_cnt = (\<lambda>(t, m).
     let t = t\<lparr>desc_list_cnt := list_cnt\<rparr> in
     if \<not> va_ok then (Inl ENOMEM, t\<lparr>desc_list_va := None\<rparr>, m)
     else if \<not> ba_ok then (Inl ENOMEM, t\<lparr>desc_list_va := None, desc_list_ba := None\<rparr>, m)
     else
       let t = t\<lparr>desc_list_va := Some (replicate list_cnt None), desc_list_ba := Some (replicate list_cnt 0)\<rparr>;
           m = m\<lparr>arrays := arrays m + 2\<rparr>
       in (case fill_list pool 0 list_cnt (t, m) of
             (True, t, m) \<Rightarrow> (OK, t, m)
           | (False, t, m) \<Rightarrow> (Inl ENOMEM, desc_list_free (t, m))))"

section \<open>What is freed is what was taken\<close>

text \<open>The pages a pair of arrays holds.\<close>

fun pages_of :: "nat option list \<Rightarrow> nat list \<Rightarrow> (nat \<times> nat) list" where
  "pages_of (Some va # vas) (ba # bas) = (va, ba) # pages_of vas bas"
| "pages_of (None # vas) (ba # bas) = pages_of vas bas"
| "pages_of _ _ = []"

lemma free_pages_lent: "mset (lent (free_pages vas bas m)) = mset (lent m) - mset (pages_of vas bas) \<and> arrays (free_pages vas bas m) = arrays m"
  by (induction vas bas m rule: free_pages.induct) simp_all

lemma pages_of_store:
  "i < length vas \<Longrightarrow> length vas = length bas \<Longrightarrow> vas ! i = None \<Longrightarrow>
     mset (pages_of (vas[i := Some va]) (bas[i := ba])) = add_mset (va, ba) (mset (pages_of vas bas))"
proof (induction vas bas arbitrary: i rule: pages_of.induct)
  case (1 v vs b bs)
  then show ?case by (cases i) auto
next
  case (2 vs b bs)
  then show ?case by (cases i) auto
qed auto

lemma pages_of_empty [simp]: "pages_of (replicate n None) bas = []"
  by (induction n arbitrary: bas) (simp, case_tac bas, simp_all)

text \<open>A list with its first \<open>i\<close> pages in place, on top of the loans \<open>L\<close>.\<close>

definition filled :: "(nat \<Rightarrow> (nat \<times> nat) option) \<Rightarrow> nat \<Rightarrow> nat \<Rightarrow> (nat \<times> nat) multiset \<Rightarrow> nat \<Rightarrow> desc_list \<times> desc_mem \<Rightarrow> bool" where
  "filled pool n i L k = (\<lambda>(t, m). desc_list_cnt t = n \<and> arrays m = k + 2 \<and> i \<le> n \<and>
     (\<exists>vas bas. desc_list_va t = Some vas \<and> desc_list_ba t = Some bas \<and> length vas = n \<and> length bas = n \<and>
        (\<forall>j < i. \<exists>va. vas ! j = Some va \<and> pool j = Some (va, bas ! j)) \<and> (\<forall>j. i \<le> j \<longrightarrow> j < n \<longrightarrow> vas ! j = None) \<and>
        mset (lent m) = L + mset (pages_of vas bas)))"

lemma filled_store:
  assumes "filled pool n i L k (t, m)" "pool i = Some (va, ba)" "i < n"
  shows "filled pool n (i + 1) L k
     (t\<lparr>desc_list_va := map_option (\<lambda>vs. vs[i := Some va]) (desc_list_va t), desc_list_ba := map_option (\<lambda>bs. bs[i := ba]) (desc_list_ba t)\<rparr>,
      m\<lparr>lent := (va, ba) # lent m\<rparr>)"
  using assms by (auto simp: filled_def nth_list_update pages_of_store less_Suc_eq)

lemma fill_list_filled:
  "filled pool n i L k (t, m) \<Longrightarrow> fill_list pool i j (t, m) = (ok, t', m') \<Longrightarrow> i + j = n \<Longrightarrow>
     \<exists>i'. filled pool n i' L k (t', m') \<and> (ok \<longrightarrow> i' = n) \<and> (\<not> ok \<longrightarrow> i' < n \<and> pool i' = None)"
proof (induction pool i j "(t, m)" arbitrary: t m rule: fill_list.induct)
  case (2 pool i j t m)
  show ?case
  proof (cases "pool i")
    case None
    then show ?thesis using 2(2-4) by auto
  next
    case (Some p)
    obtain va ba where p: "p = (va, ba)" by fastforce
    have "i < n" using 2(4) by simp
    from 2(1) [OF Some p [symmetric] filled_store [OF 2(2) Some [unfolded p] this]] show ?thesis using 2(3,4) Some p by simp
  qed
qed auto

lemma filled_free:
  assumes "filled pool n i L k (t, m)"
  shows "case desc_list_free (t, m) of (t', m') \<Rightarrow> desc_list_va t' = None \<and> desc_list_ba t' = None \<and> mset (lent m') = L \<and> arrays m' = k"
  using assms by (auto simp: filled_def desc_list_free_def free_pages_lent)

section \<open>Properties\<close>

text \<open>Freeing a list twice is freeing it once: the second call finds null pointers.\<close>

lemma desc_list_free_idem: "desc_list_free (desc_list_free x) = desc_list_free x"
  by (cases x) (auto simp: desc_list_free_def Let_def split: option.split)

text \<open>Allocating and freeing a descriptor list balance: whichever allocation fails, on return no array is live, the pool has all its
  pages back and a later free does nothing; on success the list holds exactly the pages and bus addresses the pool gave, one per
  list, which is what the abstract allocation of \<open>Prp\<close> returns, and freeing it gives all of them back.\<close>

theorem desc_list_balanced:
  assumes "desc_list_va t = None" "desc_list_ba t = None" "desc_list_alloc_pool va_ok ba_ok pool n (t, m) = (r, t1, m1)"
  shows "case desc_list_free (t1, m1) of (t2, m2) \<Rightarrow>
      desc_list_va t2 = None \<and> desc_list_ba t2 = None \<and> mset (lent m2) = mset (lent m) \<and> arrays m2 = arrays m \<and>
      (r \<noteq> OK \<longrightarrow> (t2, m2) = (t1, m1)) \<and>
      (case desc_list_alloc va_ok ba_ok (\<lambda>i. map_option (map_prod contents id) (pool i)) n of
         Inl e \<Rightarrow> r = Inl e
       | Inr (pages, bas) \<Rightarrow> r = OK \<and> desc_list_ba t1 = Some bas \<and>
           (\<exists>vas. desc_list_va t1 = Some (map Some vas) \<and> pages = map contents vas \<and> length vas = n))"
proof (cases "va_ok \<and> ba_ok")
  case False
  then show ?thesis using assms by (auto simp: desc_list_alloc_pool_def desc_list_alloc_def desc_list_free_def Let_def split: if_split_asm)
next
  case True
  let ?t = "t\<lparr>desc_list_cnt := n, desc_list_va := Some (replicate n None), desc_list_ba := Some (replicate n 0)\<rparr>"
  let ?m = "m\<lparr>arrays := arrays m + 2\<rparr>"
  have f: "filled pool n 0 (mset (lent m)) (arrays m) (?t, ?m)" by (simp add: filled_def)
  obtain ok t' m' where l: "fill_list pool 0 n (?t, ?m) = (ok, t', m')" by (rule prod_cases3)
  obtain i where i: "filled pool n i (mset (lent m)) (arrays m) (t', m')" "ok \<longrightarrow> i = n" "\<not> ok \<longrightarrow> i < n \<and> pool i = None"
    using fill_list_filled [OF f l] by auto
  note fr = filled_free [OF i(1)]
  show ?thesis
  proof (cases ok)
    case False
    then have "(r, t1, m1) = (Inl ENOMEM, desc_list_free (t', m'))" using assms(3) True l by (simp add: desc_list_alloc_pool_def Let_def)
    moreover have "\<not> list_all (\<lambda>i. map_option (map_prod contents id) (pool i) \<noteq> None) [0..<n]" using i(3) False by (auto simp: list_all_iff intro!: bexI [of _ i])
    ultimately show ?thesis using fr True desc_list_free_idem [of "(t', m')"] by (auto simp: desc_list_alloc_def)
  next
    case ok: True
    then have e: "r = OK" "t1 = t'" "m1 = m'" using assms(3) True l by (simp_all add: desc_list_alloc_pool_def Let_def)
    obtain vas bas where v: "desc_list_va t' = Some vas" "desc_list_ba t' = Some bas" "length vas = n" "length bas = n"
      "\<forall>j < n. \<exists>va. vas ! j = Some va \<and> pool j = Some (va, bas ! j)" using i(1,2) ok by (auto simp: filled_def)
    have j: "vas ! j = Some (the (vas ! j)) \<and> pool j = Some (the (vas ! j), bas ! j)" if "j < n" for j using v(5) that by fastforce
    have va: "vas = map Some (map the vas)" by (rule nth_equalityI) (use v(3) j in simp_all)
    have al: "list_all (\<lambda>i. map_option (map_prod contents id) (pool i) \<noteq> None) [0..<n]" using v(5) by (fastforce simp: list_all_iff)
    have pg: "map (\<lambda>i. fst (the (map_option (map_prod contents id) (pool i)))) [0..<n] = map contents (map the vas)"
      "map (\<lambda>i. snd (the (map_option (map_prod contents id) (pool i)))) [0..<n] = bas"
      by (rule nth_equalityI; use v(3,4) j in \<open>auto simp: id_def\<close>)+
    show ?thesis using fr e v(1-3) va pg al True unfolding desc_list_alloc_def by (auto intro!: exI [of _ "map the vas"])
  qed
qed

text \<open>The pool is empty at the third page.\<close>

theorem desc_list_balanced_witness:
  "\<exists>t1 m1. desc_list_alloc_pool True True (\<lambda>i. if i < 2 then Some (i, 8 * i) else None) 3
      (\<lparr>desc_list_cnt = 0, desc_list_va = None, desc_list_ba = None\<rparr>, \<lparr>lent = [(9, 72)], arrays = 0\<rparr>) = (Inl ENOMEM, t1, m1) \<and>
     mset (lent (snd (desc_list_free (t1, m1)))) = {#(9, 72)#}"
proof -
  let ?x = "(\<lparr>desc_list_cnt = 0, desc_list_va = None, desc_list_ba = None\<rparr>, \<lparr>lent = [(9, 72)], arrays = 0\<rparr>)"
  let ?pool = "\<lambda>i::nat. if i < 2 then Some (i, 8 * i) else None"
  obtain r t1 m1 where r: "desc_list_alloc_pool True True ?pool 3 ?x = (r, t1, m1)" by (rule prod_cases3)
  have "fst (desc_list_alloc_pool True True ?pool 3 ?x) = Inl ENOMEM"
    by (simp add: desc_list_alloc_pool_def numeral_3_eq_3 split: prod.split)
  then have "r = Inl ENOMEM" using r by simp
  with r show ?thesis using desc_list_balanced [OF _ _ r, of "\<lambda>_. []"] by (cases "desc_list_free (t1, m1)") simp
qed

end
