(* ===== verification/Split.thy ===== *)
theory Split
  imports Prp
begin

text \<open>
  How \<open>transfer.c\<close> maps a user buffer once and splits it into parallel transfers: the segment
  limit, the shared mapping with its error unwinding, the number of splits, and the slices.
  \<open>PAGE_SIZE\<close> is 4096. User addresses and sizes are naturals (a user buffer never wraps); the module
  parameters keep their 32 bits, because their products and casts can wrap.
\<close>

abbreviation (input) PAGE_SIZE :: nat where "PAGE_SIZE \<equiv> 4096"
abbreviation (input) UINT_MAX :: nat where "UINT_MAX \<equiv> 4294967295"

section \<open>The code\<close>

definition mx_max_sg_segment :: "nat \<Rightarrow> nat \<Rightarrow> nat" where
  "mx_max_sg_segment dma_max_seg_size dma_max_mapping_size =
     (let limit = (if dma_max_mapping_size \<noteq> 0 then min dma_max_seg_size dma_max_mapping_size
                   else dma_max_seg_size);
          limit = min limit UINT_MAX div PAGE_SIZE * PAGE_SIZE
      in if limit = 0 then PAGE_SIZE else limit)"

text \<open>
  \<open>struct mx_sg_context\<close>, reduced to what its release must undo, and the calls made on behalf of
  it. A context is created with one reference.
\<close>

record mx_sg_context =
  sgc_refcount :: nat
  sgc_pages_array :: bool  \<comment> \<open>\<open>ctx->pages\<close> is a separate allocation\<close>
  sgc_pages_nr :: nat
  sgc_table :: bool  \<comment> \<open>\<open>sgt->sgl\<close> is a separate allocation\<close>
  sgc_nents :: nat
  sgc_dir_to_device :: bool

datatype sg_call =
    Alloc_ctx | Free_ctx | Alloc_pages | Free_pages | Pin nat | Dirty nat | Unpin nat
  | Alloc_table | Free_table | Map nat | Unmap

definition mx_sg_context_release :: "mx_sg_context \<Rightarrow> sg_call list" where
  "mx_sg_context_release ctx =
     (if sgc_nents ctx \<noteq> 0 then [Unmap] else []) @
     (if \<not> sgc_dir_to_device ctx then [Dirty (sgc_pages_nr ctx)] else []) @
     (if 0 < sgc_pages_nr ctx then [Unpin (sgc_pages_nr ctx)] else []) @
     (if sgc_table ctx then [Free_table] else []) @
     (if sgc_pages_array ctx then [Free_pages] else []) @ [Free_ctx]"

definition mx_sg_context_get :: "mx_sg_context \<Rightarrow> mx_sg_context" where
  "mx_sg_context_get ctx = ctx\<lparr>sgc_refcount := sgc_refcount ctx + 1\<rparr>"

text \<open>The last reference releases; \<open>None\<close> is the freed context.\<close>

definition mx_sg_context_put :: "mx_sg_context \<Rightarrow> mx_sg_context option \<times> sg_call list" where
  "mx_sg_context_put ctx =
     (if sgc_refcount ctx = 1 then (None, mx_sg_context_release ctx)
      else (Some (ctx\<lparr>sgc_refcount := sgc_refcount ctx - 1\<rparr>), []))"

text \<open>
  The services the creation calls: whether the allocations succeed, the result of
  \<open>pin_user_pages_fast\<close> (an error or the number of pages), of the table allocation, and the number
  of entries \<open>dma_map_sg\<close> returns.
\<close>

record sg_env =
  ctx_alloc_ok :: bool
  pages_alloc_ok :: bool
  pin_result :: "nat result"
  table_result :: "unit result"
  map_nents :: nat

definition mx_sg_context_create ::
  "sg_env \<Rightarrow> nat \<Rightarrow> nat \<Rightarrow> bool \<Rightarrow> mx_sg_context result \<times> sg_call list" where
  "mx_sg_context_create env user_addr total_size to_device =
     (let offset = user_addr mod PAGE_SIZE in
      if total_size = 0 \<or> (INT_MAX div 8) * PAGE_SIZE - offset < total_size then (Inl EINVAL, [])
      else
        let pages_nr = DIV_ROUND_UP (offset + total_size) PAGE_SIZE;
            inline = (pages_nr \<le> 1);
            ctx = \<lparr>sgc_refcount = 1, sgc_pages_array = False, sgc_pages_nr = 0, sgc_table = False,
                   sgc_nents = 0, sgc_dir_to_device = to_device\<rparr>;
            err = (\<lambda>ctx e calls. (Inl e, calls @ snd (mx_sg_context_put ctx)))
        in if \<not> ctx_alloc_ok env then (Inl ENOMEM, [])
           else if \<not> inline \<and> \<not> pages_alloc_ok env then err ctx ENOMEM [Alloc_ctx]
           else
             let ctx = ctx\<lparr>sgc_pages_array := \<not> inline\<rparr>;
                 calls = Alloc_ctx # (if inline then [] else [Alloc_pages])
             in case pin_result env of
                  Inl e \<Rightarrow> err ctx e calls
                | Inr pinned \<Rightarrow>
                    let ctx = ctx\<lparr>sgc_pages_nr := pinned\<rparr>;
                        calls = calls @ (if 0 < pinned then [Pin pinned] else [])
                    in if pinned \<noteq> pages_nr then err ctx EFAULT calls
                       else case (if inline then OK else table_result env) of
                              Inl e \<Rightarrow> err ctx e calls
                            | Inr _ \<Rightarrow>
                                let ctx = ctx\<lparr>sgc_table := \<not> inline\<rparr>;
                                    calls = calls @ (if inline then [] else [Alloc_table])
                                in if map_nents env = 0 then err ctx EIO calls
                                   else (Inr (ctx\<lparr>sgc_nents := map_nents env\<rparr>),
                                         calls @ [Map (map_nents env)]))"

text \<open>\<open>mx_parallel_count_for\<close>; \<open>page_size\<close> is \<open>mx_pdev->page_size\<close>, the PRP granularity.\<close>

definition mx_parallel_count_for :: "nat \<Rightarrow> u32 \<Rightarrow> u32 \<Rightarrow> nat \<Rightarrow> nat \<Rightarrow> int" where
  "mx_parallel_count_for page_size parallel_count parallel_split_ratio buf sz =
     (let first_page = buf div PAGE_SIZE;
          last_page = (buf + sz - 1) div PAGE_SIZE;
          nr_pages = int (min (last_page - first_page + 1) INT_MAX);
          par = sint parallel_count
      in if parallel_split_ratio = 0 then max (min nr_pages par) 1
         else
           let descs_per_list = page_size div 8;
               descs_per_split = unat ((of_nat descs_per_list * parallel_split_ratio) div 100);
               descs_per_split = (if descs_per_split < 1 then 1 else descs_per_split);
               total_descs = DIV_ROUND_UP sz page_size;
               raw_count = DIV_ROUND_UP total_descs descs_per_split;
               cnt = int (min raw_count INT_MAX);
               cnt = (if cnt < 1 then 1 else cnt)
           in max (min (min cnt nr_pages) par) 1)"

text \<open>
  The loop of \<open>alloc_mx_transfers\<close>: one triple of byte offset, slice size and device address per
  transfer. \<open>r\<close> counts down and stays at zero where the C value goes negative; both give \<open>q\<close> pages.
\<close>

primrec split_loop :: "nat \<Rightarrow> nat \<Rightarrow> nat \<Rightarrow> nat \<Rightarrow> nat \<Rightarrow> nat \<Rightarrow> nat \<Rightarrow> (nat \<times> nat \<times> nat) list" where
  "split_loop 0 q r user_addr cursor remaining device_addr = []"
| "split_loop (Suc n) q r user_addr cursor remaining device_addr =
     (let num = (if 0 < r then q + 1 else q);
          end_addr = (cursor + num * PAGE_SIZE) div PAGE_SIZE * PAGE_SIZE;
          slice = min (end_addr - cursor) remaining
      in (cursor - user_addr, slice, device_addr) #
         split_loop n q (r - 1) user_addr (cursor + slice) (remaining - slice) (device_addr + slice))"

text \<open>
  \<open>alloc_mx_transfers\<close>: \<open>array_ok\<close> is the pointer array allocation, \<open>alloc_ok i\<close> whether the
  \<open>i\<close>-th transfer could be allocated; if one fails all are released.
\<close>

definition alloc_mx_transfers ::
  "bool \<Rightarrow> (nat \<Rightarrow> bool) \<Rightarrow> nat \<Rightarrow> nat \<Rightarrow> nat \<Rightarrow> nat \<Rightarrow> nat \<Rightarrow> (nat \<times> nat \<times> nat) list option" where
  "alloc_mx_transfers array_ok alloc_ok user_addr total_size pages_nr device_addr_base n =
     (if \<not> array_ok then None
      else
        let splits = split_loop n (pages_nr div n) (pages_nr mod n) user_addr user_addr total_size
                       device_addr_base
        in if list_all alloc_ok [0..<n] then Some splits else None)"

section \<open>The slices tile the buffer\<close>

definition page_count :: "nat \<Rightarrow> nat \<Rightarrow> nat" where
  "page_count cursor n = DIV_ROUND_UP (cursor mod PAGE_SIZE + n) PAGE_SIZE"

text \<open>Consecutive, non-empty slices from \<open>cursor\<close> to \<open>cursor + n\<close>, cut at page boundaries.\<close>

fun tiles :: "nat \<Rightarrow> nat \<Rightarrow> nat \<Rightarrow> nat \<Rightarrow> (nat \<times> nat \<times> nat) list \<Rightarrow> bool" where
  "tiles user_addr cursor dev n [] = (n = 0)"
| "tiles user_addr cursor dev n ((off, len, d) # ss) =
     (off = cursor - user_addr \<and> d = dev \<and> 0 < len \<and> len \<le> n \<and>
      (ss \<noteq> [] \<longrightarrow> (cursor + len) mod PAGE_SIZE = 0) \<and>
      tiles user_addr (cursor + len) (dev + len) (n - len) ss)"

lemma page_count_eq: "page_count cursor n = (cursor mod PAGE_SIZE + n + 4095) div PAGE_SIZE"
  unfolding page_count_def DIV_ROUND_UP_def by (rule arg_cong [where f = "\<lambda>x. x div 4096"]) linarith

lemma split_loop_tiles:
  assumes "0 < c" "0 < q" "r \<le> c" "page_count cursor n = q * c + r" "0 < n"
  shows "tiles user_addr cursor dev n (split_loop c q r user_addr cursor n dev)"
  using assms
proof (induction c arbitrary: r cursor n dev)
  case (Suc c)
  define num where "num = (if 0 < r then q + 1 else q)"
  define m where "m = cursor mod 4096"
  have m: "m < 4096" by (simp add: m_def)
  have num: "0 < num" using Suc.prems(2) by (simp add: num_def)
  have e: "(cursor + num * 4096) div 4096 * 4096 - cursor = num * 4096 - m"
  proof -
    have "(cursor + num * 4096) div 4096 * 4096 = cursor div 4096 * 4096 + num * 4096" by simp
    moreover have "cursor = cursor div 4096 * 4096 + m" by (simp add: m_def)
    ultimately show ?thesis by linarith
  qed
  have pc: "(m + n + 4095) div 4096 = q * Suc c + r"
    using Suc.prems(4) by (simp add: page_count_eq m_def)
  show ?case
  proof (cases c)
    case 0
    then have "num = q + r" using Suc.prems(3) by (auto simp: num_def)
    with pc 0 have "(m + n + 4095) div 4096 = num" by simp
    then have "m + n \<le> num * 4096" by linarith
    then have "min (num * 4096 - m) n = n" by simp
    then show ?thesis using 0 Suc.prems(5) e by (simp add: Let_def num_def [symmetric])
  next
    case (Suc c')
    define len where "len = num * 4096 - m"
    have P: "q * Suc c + r = num + (q * c + (r - 1))" using num_def by auto
    have "q \<le> q * c" using Suc by simp
    then have big: "num * 4096 < m + n" using pc P Suc.prems(2) by linarith
    have len: "0 < len" "len < n" "min (num * 4096 - m) n = len" using m num big by (auto simp: len_def)
    have al: "(cursor + len) mod 4096 = 0"
    proof -
      have "cursor + len = (cursor div 4096 + num) * 4096"
        using m num unfolding len_def m_def by (simp add: algebra_simps minus_mod_eq_mult_div [symmetric])
      then show ?thesis by simp
    qed
    have "m + n + 4095 = (n - len + 4095) + num * 4096" using len m num by (simp add: len_def)
    then have "(m + n + 4095) div 4096 = (n - len + 4095) div 4096 + num" by simp
    then have "page_count (cursor + len) (n - len) = q * c + (r - 1)"
      using pc P al by (simp add: page_count_eq)
    then have "tiles user_addr (cursor + len) (dev + len) (n - len)
        (split_loop c q (r - 1) user_addr (cursor + len) (n - len) (dev + len))"
      using Suc.prems Suc len by (intro Suc.IH) auto
    then show ?thesis using e len al by (simp add: Let_def num_def [symmetric])
  qed
qed simp

lemma page_count_pages:
  "0 < n \<Longrightarrow> (cursor + n - 1) div PAGE_SIZE - cursor div PAGE_SIZE + 1 = page_count cursor n"
proof -
  assume n: "0 < n"
  have "cursor + n - 1 = (cursor mod 4096 + n - 1) + cursor div 4096 * 4096" using n by simp
  then have "(cursor + n - 1) div 4096 = (cursor mod 4096 + n - 1) div 4096 + cursor div 4096" by simp
  moreover have "(cursor mod 4096 + n - 1) div 4096 + 1 = (cursor mod 4096 + n + 4095) div 4096"
  proof -
    have "cursor mod 4096 + n + 4095 = (cursor mod 4096 + n - 1) + 4096" using n by simp
    then show ?thesis by simp
  qed
  ultimately show ?thesis by (simp add: page_count_eq)
qed

lemma parallel_count_range:
  assumes "0 < sz"
  shows "1 \<le> mx_parallel_count_for page_size par ratio buf sz"
    "mx_parallel_count_for page_size par ratio buf sz \<le> int (min (page_count buf sz) INT_MAX)"
    "mx_parallel_count_for page_size par ratio buf sz \<le> max 1 (sint par)"
proof -
  define P where "P = int (min (page_count buf sz) INT_MAX)"
  have P: "1 \<le> P" using page_count_pages [OF assms, of buf] unfolding P_def by linarith
  have "mx_parallel_count_for page_size par 0 buf sz = max (min (min P P) (sint par)) 1"
    unfolding mx_parallel_count_for_def Let_def page_count_pages [OF assms] P_def by simp
  then have "\<exists>x. mx_parallel_count_for page_size par ratio buf sz = max (min (min x P) (sint par)) 1"
    by (cases "ratio = 0")
       (blast, simp only: mx_parallel_count_for_def Let_def page_count_pages [OF assms] P_def if_False, blast)
  then show "1 \<le> mx_parallel_count_for page_size par ratio buf sz"
    "mx_parallel_count_for page_size par ratio buf sz \<le> int (min (page_count buf sz) INT_MAX)"
    "mx_parallel_count_for page_size par ratio buf sz \<le> max 1 (sint par)"
    unfolding P_def [symmetric] using P by auto
qed

text \<open>The splits of a parallel transfer tile the buffer: as many as \<open>mx_parallel_count_for\<close> asked for
  (at least one, never more than the buffer has pages or the module parameter allows), in order,
  without gap or overlap, none empty, each but the last ending on a page boundary, with device
  addresses that advance with the bytes.\<close>

theorem split_covers_buffer:
  assumes "0 < sz"
  shows "let n = nat (mx_parallel_count_for page_size par ratio buf sz) in
    1 \<le> n \<and> n \<le> page_count buf sz \<and> int n \<le> max 1 (sint par) \<and>
    (\<exists>ss. alloc_mx_transfers True (\<lambda>_. True) buf sz (page_count buf sz) dev n = Some ss \<and>
       length ss = n \<and> tiles buf buf dev sz ss)"
proof -
  define n where "n = nat (mx_parallel_count_for page_size par ratio buf sz)"
  note r = parallel_count_range [OF assms, of page_size par ratio buf]
  have n: "1 \<le> n" "n \<le> page_count buf sz" "int n \<le> max 1 (sint par)" using r unfolding n_def by auto
  have len: "length (split_loop c q r u cur m d) = c" for c q r u cur m d
    by (induction c arbitrary: r cur m d) (simp_all add: Let_def)
  have "tiles buf buf dev sz (split_loop n (page_count buf sz div n) (page_count buf sz mod n) buf buf sz dev)"
    using n assms by (intro split_loop_tiles) (auto simp: div_greater_zero_iff less_imp_le)
  then show ?thesis using n len unfolding n_def [symmetric] Let_def
    by (simp add: alloc_mx_transfers_def list_all_iff)
qed

theorem split_covers_buffer_witness:
  "nat (mx_parallel_count_for 4096 6 0 5000 9000) = 3 \<and>
   (let n = nat (mx_parallel_count_for 4096 6 0 5000 9000) in
    \<exists>ss. alloc_mx_transfers True (\<lambda>_. True) 5000 9000 (page_count 5000 9000) 0 n = Some ss \<and>
       length ss = n \<and> tiles 5000 5000 0 9000 ss)"
proof (intro conjI)
  have "sint (6 :: u32) = 6" by simp
  then show "nat (mx_parallel_count_for 4096 6 0 5000 9000) = 3" by (simp add: mx_parallel_count_for_def)
  show "let n = nat (mx_parallel_count_for 4096 6 0 5000 9000) in
    \<exists>ss. alloc_mx_transfers True (\<lambda>_. True) 5000 9000 (page_count 5000 9000) 0 n = Some ss \<and>
       length ss = n \<and> tiles 5000 5000 0 9000 ss"
    using split_covers_buffer [of 9000 4096 6 0 5000 0] unfolding Let_def by simp
qed

section \<open>The shared mapping\<close>

datatype sg_resource = R_ctx | R_pages | R_pins | R_table | R_map

text \<open>What a call acquires (positive) or gives back (negative) of each resource.\<close>

fun sg_weight :: "sg_resource \<Rightarrow> sg_call \<Rightarrow> int" where
  "sg_weight R_ctx Alloc_ctx = 1"
| "sg_weight R_ctx Free_ctx = - 1"
| "sg_weight R_pages Alloc_pages = 1"
| "sg_weight R_pages Free_pages = - 1"
| "sg_weight R_pins (Pin n) = int n"
| "sg_weight R_pins (Unpin n) = - int n"
| "sg_weight R_table Alloc_table = 1"
| "sg_weight R_table Free_table = - 1"
| "sg_weight R_map (Map n) = 1"
| "sg_weight R_map Unmap = - 1"
| "sg_weight _ _ = 0"

definition sg_held :: "sg_resource \<Rightarrow> sg_call list \<Rightarrow> int" where
  "sg_held r calls = sum_list (map (sg_weight r) calls)"

lemma sg_held_simps [simp]:
  "sg_held r [] = 0" "sg_held r (c # cs) = sg_weight r c + sg_held r cs"
  "sg_held r (cs @ cs') = sg_held r cs + sg_held r cs'"
  by (simp_all add: sg_held_def)

lemma sg_create_held:
  "case mx_sg_context_create env user_addr total_size to_device of
     (Inl e, calls) \<Rightarrow> sg_held r calls = 0
   | (Inr ctx, calls) \<Rightarrow>
       sg_held r (calls @ mx_sg_context_release ctx) = 0 \<and> sgc_refcount ctx = 1 \<and>
       sg_held R_pins calls = int (page_count user_addr total_size) \<and>
       sgc_pages_nr ctx = page_count user_addr total_size"
  unfolding mx_sg_context_create_def Let_def
  by (cases r; cases "pin_result env"; cases "table_result env")
     (simp_all add: mx_sg_context_put_def mx_sg_context_release_def page_count_def)

text \<open>Creating a shared mapping is all or nothing: on every error path, also a partial pin, each page
  that was pinned is unpinned and everything allocated is freed; on success the mapping covers all
  pages of the buffer, and the release that runs on the last reference gives back exactly what is
  held.\<close>

theorem sg_context_balanced:
  "case mx_sg_context_create env user_addr total_size to_device of
     (Inl e, calls) \<Rightarrow> sg_held r calls = 0
   | (Inr ctx, calls) \<Rightarrow>
       sg_held r (calls @ mx_sg_context_release ctx) = 0 \<and> sgc_refcount ctx = 1 \<and>
       sg_held R_pins calls = int (page_count user_addr total_size) \<and>
       sgc_pages_nr ctx = page_count user_addr total_size"
  by (rule sg_create_held)

text \<open>The segment limit handed to the scatter-gather builder is a positive multiple of the page size
  that fits 32 bits, and respects both DMA limits of the device unless these are below a page.\<close>

theorem max_sg_segment_bounds:
  "let s = mx_max_sg_segment a b in
     0 < s \<and> s mod PAGE_SIZE = 0 \<and> s \<le> UINT_MAX \<and>
     (PAGE_SIZE \<le> a \<and> (b = 0 \<or> PAGE_SIZE \<le> b) \<longrightarrow> s \<le> a \<and> (b = 0 \<or> s \<le> b))"
proof -
  define l where "l = min (if b \<noteq> 0 then min a b else a) UINT_MAX"
  have s: "mx_max_sg_segment a b = (if l div 4096 * 4096 = 0 then 4096 else l div 4096 * 4096)"
    by (simp add: mx_max_sg_segment_def l_def Let_def)
  have le: "l div 4096 * 4096 \<le> l" by simp
  have l: "l \<le> UINT_MAX" "l \<le> a" "b \<noteq> 0 \<Longrightarrow> l \<le> b" by (auto simp: l_def)
  have "4096 \<le> l" if "4096 \<le> a" "b = 0 \<or> 4096 \<le> b" using that by (auto simp: l_def)
  then have "l div 4096 * 4096 \<noteq> 0" if "4096 \<le> a" "b = 0 \<or> 4096 \<le> b"
    using that by (simp add: div_greater_zero_iff)
  then show ?thesis unfolding Let_def s using le l by auto
qed

theorem max_sg_segment_bounds_witness:
  "mx_max_sg_segment 70000 10000 = 8192 \<and> mx_max_sg_segment 70000 10000 \<le> 10000"
  using max_sg_segment_bounds [of 70000 10000] by (simp add: mx_max_sg_segment_def)

end
