(* ===== verification/Parallel.thy ===== *)
theory Parallel
  imports Split Command
begin

text \<open>
  A request submitted as parallel slices moves the same bytes to the same places as one submitted whole: the
  composition of \<open>Split\<close>, \<open>Prp\<close> and \<open>Command\<close>.
\<close>

section \<open>What a command moves\<close>

text \<open>Pairs of device address and host DMA address.\<close>

definition v2_moved :: "mx_command_v2 \<times> nat list list \<times> nat list \<Rightarrow> (nat \<times> nat) list" where
  "v2_moved = (\<lambda>(c, pages, bas). zip [c2_device_addr c..<c2_device_addr c + c2_size c] (v2_device_bytes c (dma_read bas pages)))"

text \<open>The transfer for a slice.\<close>

definition slice_req :: "nat \<Rightarrow> dma_data_direction \<Rightarrow> nat \<times> nat \<times> nat \<Rightarrow> transfer_req" where
  "slice_req i dir = (\<lambda>(off, len, dev). \<lparr>t_id = i, t_size = len, t_device_addr = dev, t_dir = dir, t_sg_byte_offset = off\<rparr>)"

definition v2_builds :: "scatterlist list \<Rightarrow> dma_data_direction \<Rightarrow> nat \<Rightarrow> nat \<times> nat \<times> nat \<Rightarrow> mx_command_v2 \<times> nat list list \<times> nat list \<Rightarrow> bool" where
  "v2_builds sgt dir opcode sl cmd \<longleftrightarrow> (\<exists>i pool. (\<forall>k. pool_ok pool NUM_OF_DESC_PER_LIST_V2 k) \<and>
     create_mx_command_sg_v2 True True pool sgt (slice_req i dir sl) opcode = Some (Inr cmd))"

lemma create_v2_checked:
  assumes "create_mx_command_sg_v2 True True pool sgt t opcode = Some (Inr (c, pages, bas))"
  obtains sgs intra n where "mx_sg_locate sgt (t_sg_byte_offset t) = Inr (sgs, intra)"
    "mx_get_total_desc_count sgs intra (t_size t) SINGLE_DMA_SIZE_V2 = Inr n" "c2_size c = t_size t" "c2_device_addr c = t_device_addr t"
  using assms
  by (auto simp: create_mx_command_sg_v2_def alloc_mx_command_v2_def Let_def
      split: sum.split_asm prod.split_asm if_split_asm option.split_asm)

lemma builds_moved:
  assumes "sg_wf sgt" "\<forall>sg \<in> set sgt. 0 < sg_dma_address sg" "v2_builds sgt dir opcode (off, len, dev) cmd"
  shows "v2_moved cmd = zip [dev..<dev + len] (take len (drop off (sg_bytes sgt)))"
proof -
  obtain i pool where p: "\<forall>k. pool_ok pool NUM_OF_DESC_PER_LIST_V2 k"
      "create_mx_command_sg_v2 True True pool sgt (slice_req i dir (off, len, dev)) opcode = Some (Inr cmd)"
    using assms(3) by (auto simp: v2_builds_def)
  obtain c pages bas where cmd: "cmd = (c, pages, bas)" by (rule prod_cases3)
  let ?t = "slice_req i dir (off, len, dev)"
  from p(2) [unfolded cmd] obtain sgs intra n where l: "mx_sg_locate sgt (t_sg_byte_offset ?t) = Inr (sgs, intra)"
    "mx_get_total_desc_count sgs intra (t_size ?t) SINGLE_DMA_SIZE_V2 = Inr n" "c2_size c = t_size ?t" "c2_device_addr c = t_device_addr ?t"
    by (rule create_v2_checked)
  from v2_moves [OF assms(1,2) l(1,2), of pool opcode] p cmd
  have "v2_device_bytes c (dma_read bas pages) = take (t_size ?t) (drop (t_sg_byte_offset ?t) (sg_bytes sgt))" by auto
  then show ?thesis using l(3,4) by (simp add: v2_moved_def cmd slice_req_def)
qed

lemma zip_split: "zip [d..<d + n] xs = zip [d..<d + m] (take m xs) @ zip [d + m..<d + n] (drop m xs)" if "m \<le> n" "m \<le> length xs"
proof -
  have "[d..<d + n] = [d..<d + m] @ [d + m..<d + n]" using that(1) by (metis le_add1 add_left_mono upt_add_eq_append le_Suc_ex add.assoc)
  then show ?thesis using that(2) by (metis append_take_drop_id length_upt add_diff_cancel_left' length_take min.absorb2 zip_append)
qed

text \<open>Slices that tile the rest of the buffer move the rest of the buffer.\<close>

lemma tiles_moved:
  "\<lbrakk> list_all2 (v2_builds sgt dir opcode) ss cmds; tiles u c d n ss; u \<le> c; c - u + n = length (sg_bytes sgt);
     sg_wf sgt; \<forall>sg \<in> set sgt. 0 < sg_dma_address sg \<rbrakk> \<Longrightarrow>
   concat (map v2_moved cmds) = zip [d..<d + n] (drop (c - u) (sg_bytes sgt))"
proof (induction arbitrary: c d n rule: list_all2_induct)
  case (Cons s ss cmd cmds)
  obtain off len dev where s: "s = (off, len, dev)" by (rule prod_cases3)
  have t: "off = c - u" "dev = d" "0 < len" "len \<le> n" "tiles u (c + len) (d + len) (n - len) ss" using Cons.prems(1) s by simp_all
  have m: "v2_moved cmd = zip [d..<d + len] (take len (drop (c - u) (sg_bytes sgt)))"
    using builds_moved [OF Cons.prems(4,5) Cons.hyps(1) [unfolded s]] t by simp
  have "concat (map v2_moved cmds) = zip [d + len..<d + len + (n - len)] (drop (c + len - u) (sg_bytes sgt))"
    using Cons.prems t by (intro Cons.IH) auto
  moreover have "c + len - u = len + (c - u)" using Cons.prems(2) by simp
  ultimately show ?case using m t(4) Cons.prems(3) zip_split [of len n "drop (c - u) (sg_bytes sgt)" d] by (simp add: add.commute)
qed (simp add: tiles.simps)

section \<open>Properties\<close>

text \<open>C15. Parallel and single submission are equivalent: whenever the driver can build the commands for the slices of a parallel
  request (of the number it chose) and the command for the whole, the device moves, in order, exactly the same bytes between the
  same device and host addresses: all of the buffer, once.\<close>

theorem parallel_equals_single:
  assumes "sg_wf sgt" "\<forall>sg \<in> set sgt. 0 < sg_dma_address sg" "length (sg_bytes sgt) = sz" "0 < sz"
    "alloc_mx_transfers True (\<lambda>_. True) buf sz (page_count buf sz) dev (nat (mx_parallel_count_for page_size par ratio buf sz)) = Some ss"
    "list_all2 (v2_builds sgt dir opcode) ss cmds" "v2_builds sgt dir opcode (0, sz, dev) whole"
  shows "concat (map v2_moved cmds) = v2_moved whole \<and> v2_moved whole = zip [dev..<dev + sz] (sg_bytes sgt)"
proof -
  define n where "n = nat (mx_parallel_count_for page_size par ratio buf sz)"
  have n: "1 \<le> n" "n \<le> page_count buf sz" using parallel_count_range(1,2) [OF assms(4), of page_size par ratio buf] unfolding n_def by auto
  have "ss = split_loop n (page_count buf sz div n) (page_count buf sz mod n) buf buf sz dev"
    using assms(5) by (simp add: alloc_mx_transfers_def n_def [symmetric] Let_def list_all_iff)
  then have "tiles buf buf dev sz ss" using n assms(4) by (auto intro!: split_loop_tiles simp: div_greater_zero_iff less_imp_le)
  from tiles_moved [OF assms(6) this] assms(1-3) have "concat (map v2_moved cmds) = zip [dev..<dev + sz] (sg_bytes sgt)" by simp
  moreover have "v2_moved whole = zip [dev..<dev + sz] (sg_bytes sgt)" using builds_moved [OF assms(1,2,7)] assms(3) by simp
  ultimately show ?thesis by simp
qed

lemma example_pool_ok: "pool_ok (cmd_example_pool 512) 512 k"
  by (auto simp: pool_ok_def cmd_example_pool_def list_all_iff distinct_map inj_on_def)

lemma builds_ex:
  assumes "mx_sg_locate cmd_example_sgt off = Inr (sgs, intra)" "mx_get_total_desc_count sgs intra len SINGLE_DMA_SIZE_V2 = Inr n"
  shows "\<exists>cmd. v2_builds cmd_example_sgt DMA_TO_DEVICE IO_OPCODE_DATA_WRITE (off, len, dev) cmd"
proof -
  let ?t = "slice_req 0 DMA_TO_DEVICE (off, len, dev)"
  have wf: "sg_wf cmd_example_sgt" "\<forall>sg \<in> set cmd_example_sgt. 0 < sg_dma_address sg" by (simp_all add: sg_wf_def cmd_example_sgt_def)
  have t: "mx_sg_locate cmd_example_sgt (t_sg_byte_offset ?t) = Inr (sgs, intra)" "mx_get_total_desc_count sgs intra (t_size ?t) SINGLE_DMA_SIZE_V2 = Inr n"
    using assms by (simp_all add: slice_req_def)
  from v2_moves [OF wf t example_pool_ok, of IO_OPCODE_DATA_WRITE]
  obtain c pages bas where "create_mx_command_sg_v2 True True (cmd_example_pool 512) cmd_example_sgt ?t IO_OPCODE_DATA_WRITE = Some (Inr (c, pages, bas))"
    by blast
  then show ?thesis unfolding v2_builds_def using example_pool_ok by blast
qed

theorem parallel_equals_single_witness:
  "\<exists>cmds whole. length cmds = 3 \<and> concat (map v2_moved cmds) = v2_moved whole \<and> v2_moved whole = zip [0..<11384] (sg_bytes cmd_example_sgt)"
proof -
  let ?s = cmd_example_sgt
  have n: "nat (mx_parallel_count_for 4096 6 0 904 11384) = 3" by (simp add: mx_parallel_count_for_def)
  have p: "page_count 904 11384 = 3" by (simp add: page_count_def DIV_ROUND_UP_def)
  have "split_loop (Suc 0) 1 0 904 8192 4096 7288 = [(7288, 4096, 7288)]" by (simp add: Let_def)
  then have "split_loop (Suc (Suc 0)) 1 0 904 4096 8192 3192 = [(3192, 4096, 3192), (7288, 4096, 7288)]"
    by (simp add: Let_def split_loop.simps(2) [of "Suc 0"] del: split_loop.simps)
  then have "split_loop (Suc (Suc (Suc 0))) 1 0 904 904 11384 0 = [(0, 3192, 0), (3192, 4096, 3192), (7288, 4096, 7288)]"
    by (simp add: Let_def split_loop.simps(2) [of "Suc (Suc 0)"] del: split_loop.simps)
  note sl = this [folded numeral_3_eq_3]
  have ss: "alloc_mx_transfers True (\<lambda>_. True) 904 11384 3 0 3 = Some [(0, 3192, 0), (3192, 4096, 3192), (7288, 4096, 7288)]"
    using sl by (simp add: alloc_mx_transfers_def list_all_iff)
  note ev = mx_sg_locate_def mx_get_total_desc_count_def cmd_example_sgt_def mx_prp_first_chunk_len_def prp_chunk_len_at_def DIV_ROUND_UP_def Let_def
  obtain c1 where c1: "v2_builds ?s DMA_TO_DEVICE IO_OPCODE_DATA_WRITE (0, 3192, 0) c1"
    using builds_ex [of 0 ?s 0 3192 1 0] by (auto simp: ev)
  obtain c2 where c2: "v2_builds ?s DMA_TO_DEVICE IO_OPCODE_DATA_WRITE (3192, 4096, 3192) c2"
    using builds_ex [of 3192 "tl ?s" 0 4096 1 3192] by (auto simp: ev)
  obtain c3 where c3: "v2_builds ?s DMA_TO_DEVICE IO_OPCODE_DATA_WRITE (7288, 4096, 7288) c3"
    using builds_ex [of 7288 "tl ?s" 4096 4096 1 7288] by (auto simp: ev)
  obtain w where w: "v2_builds ?s DMA_TO_DEVICE IO_OPCODE_DATA_WRITE (0, 11384, 0) w"
    using builds_ex [of 0 ?s 0 11384 3 0] by (auto simp: ev)
  have wf: "sg_wf ?s" "\<forall>sg \<in> set ?s. 0 < sg_dma_address sg" by (simp_all add: sg_wf_def cmd_example_sgt_def)
  have len: "length (sg_bytes ?s) = 11384" by (simp add: sg_bytes_def cmd_example_sgt_def length_concat del: upt_rec_numeral)
  have al: "alloc_mx_transfers True (\<lambda>_. True) 904 11384 (page_count 904 11384) 0 (nat (mx_parallel_count_for 4096 6 0 904 11384)) =
      Some [(0, 3192, 0), (3192, 4096, 3192), (7288, 4096, 7288)]" unfolding n p by (rule ss)
  have "list_all2 (v2_builds ?s DMA_TO_DEVICE IO_OPCODE_DATA_WRITE) [(0, 3192, 0), (3192, 4096, 3192), (7288, 4096, 7288)] [c1, c2, c3]"
    using c1 c2 c3 by simp
  from parallel_equals_single [OF wf len _ al this w] show ?thesis
    by (intro exI [of _ "[c1, c2, c3]"] exI [of _ w]) (simp del: upt_rec_numeral)
qed

end
