(* ===== verification/Sysfs.thy ===== *)
theory Sysfs
  imports Handlers
begin

text \<open>
  The attributes of the \<open>liveness\<close> group in sysfs (\<open>init.c\<close>), on the parameters of a device and the common part of its I/O
  queue.  The text written is given as the kernel's parser answers; what is read is the line without its newline.  What
  switching the watchdog on means is stated over the rounds of \<open>Handlers\<close>.
\<close>

section \<open>The code\<close>

record 'e lv_dev =
  liveness_enable :: bool
  liveness_stall_ms :: u32
  liveness_dead_ms :: u32
  liveness_max_mult :: u32
  lv_queue :: "'e mx_queue option"

datatype lv_param = stall_ms | dead_ms | max_mult

text \<open>\<open>drvdata\<close> is whether the node still has its device. Everything under \<open>sq_lock\<close> is one step.\<close>

definition liveness_enable_store :: "bool \<Rightarrow> bool result \<Rightarrow> nat \<Rightarrow> u64 \<Rightarrow> 'e lv_dev \<Rightarrow> nat result \<times> 'e lv_dev" where
  "liveness_enable_store drvdata parsed len jiffies d =
     (if \<not> drvdata then (Inl ENODEV, d)
      else case parsed of
        Inl e \<Rightarrow> (Inl e, d)
      | Inr val \<Rightarrow>
          (Inr len,
           case lv_queue d of
             None \<Rightarrow> d\<lparr>liveness_enable := val\<rparr>
           | Some q \<Rightarrow>
               let q = q\<lparr>lv_inflight := False, lv_rtt_ns := 0\<rparr>;
                   q = (if val then q\<lparr>lv_progress_jiffies := jiffies, lv_health := MX_LIVENESS_ALIVE\<rparr>
                        else q\<lparr>lv_health := MX_LIVENESS_UNKNOWN\<rparr>)
               in d\<lparr>liveness_enable := val, lv_queue := Some q\<rparr>))"

definition liveness_uint_store :: "lv_param \<Rightarrow> bool \<Rightarrow> u32 result \<Rightarrow> nat \<Rightarrow> 'e lv_dev \<Rightarrow> nat result \<times> 'e lv_dev" where
  "liveness_uint_store p drvdata parsed len d =
     (if \<not> drvdata then (Inl ENODEV, d)
      else case parsed of
        Inl e \<Rightarrow> (Inl e, d)
      | Inr val \<Rightarrow>
          (Inr len, case p of stall_ms \<Rightarrow> d\<lparr>liveness_stall_ms := val\<rparr> | dead_ms \<Rightarrow> d\<lparr>liveness_dead_ms := val\<rparr> | max_mult \<Rightarrow> d\<lparr>liveness_max_mult := val\<rparr>))"

definition liveness_uint_show :: "lv_param \<Rightarrow> bool \<Rightarrow> 'e lv_dev \<Rightarrow> u32 result" where
  "liveness_uint_show p drvdata d =
     (if \<not> drvdata then Inl ENODEV
      else Inr (case p of stall_ms \<Rightarrow> liveness_stall_ms d | dead_ms \<Rightarrow> liveness_dead_ms d | max_mult \<Rightarrow> liveness_max_mult d))"

definition liveness_enable_show :: "bool \<Rightarrow> 'e lv_dev \<Rightarrow> bool result" where
  "liveness_enable_show drvdata d = (if \<not> drvdata then Inl ENODEV else Inr (liveness_enable d))"

fun liveness_health_name :: "mx_liveness_health \<Rightarrow> string" where
  "liveness_health_name MX_LIVENESS_UNKNOWN = ''unknown''"
| "liveness_health_name MX_LIVENESS_ALIVE = ''alive''"
| "liveness_health_name MX_LIVENESS_SUSPECT = ''suspect''"
| "liveness_health_name MX_LIVENESS_DEAD = ''dead''"

definition health_show :: "bool \<Rightarrow> 'e lv_dev \<Rightarrow> string result" where
  "health_show drvdata d =
     (if \<not> drvdata then Inl ENODEV
      else Inr (liveness_health_name (case lv_queue d of Some q \<Rightarrow> if liveness_enable d then lv_health q else MX_LIVENESS_UNKNOWN
                                      | None \<Rightarrow> MX_LIVENESS_UNKNOWN)))"

definition rtt_ns_show :: "bool \<Rightarrow> 'e lv_dev \<Rightarrow> u64 result" where
  "rtt_ns_show drvdata d =
     (if \<not> drvdata then Inl ENODEV
      else Inr (case lv_queue d of Some q \<Rightarrow> if liveness_enable d then lv_rtt_ns q else 0 | None \<Rightarrow> 0))"

section \<open>What follows a store\<close>

text \<open>
  After a store other threads go on: rounds of the submit handler, completions, and whatever else changes the list, the
  counters and the hardware (\<open>Others\<close>: submitters, the waiters that park transfers, the cleaner, the device).
\<close>

datatype ('q, 'c) lv_event =
    Round "'c round_env"
  | Completed u64 u64 int
  | Others 'q "'c sq_entry list" int int

primrec lv_do ::
  "('q \<Rightarrow> bool \<times> 'q) \<Rightarrow> ('q \<Rightarrow> 'c \<Rightarrow> 'q) \<Rightarrow> ('q \<Rightarrow> 'q) \<Rightarrow> ('q, 'c) lv_event \<Rightarrow> 'q \<times> 'c sq_entry mx_queue \<Rightarrow> 'q \<times> 'c sq_entry mx_queue" where
  "lv_do pushable push post (Round e) s = (case mx_submit_round e pushable push post 0 (fst s) (snd s) of (hw, q, _) \<Rightarrow> (hw, q))"
| "lv_do pushable push post (Completed n m i) s = (fst s, complete_liveness n m i (snd s))"
| "lv_do pushable push post (Others hw l w z) s = (hw, (snd s)\<lparr>sq_list := l, wait_count := w, zombie_wait_count := z\<rparr>)"

text \<open>
  The clocks since a store at jiffy \<open>j\<close> and nanosecond \<open>N\<close>: nanoseconds do not run backwards (\<open>t\<close> is the last one seen),
  jiffies are within half their range, and every round takes place before its dead time has passed since the store on either clock.
\<close>

fun on_time :: "u64 \<Rightarrow> u64 \<Rightarrow> nat \<Rightarrow> ('q, 'c) lv_event list \<Rightarrow> bool" where
  "on_time j N t [] = True"
| "on_time j N t (Round e # evs) =
     (t \<le> unat (ns_now e - N) \<and> unat (ns_now e - N) \<le> unat (ns_send e - N) \<and>
      unat (ns_now e - N) \<le> max (dead_cfg e) 2 * 1000000 \<and>
      (\<forall>x \<le> jif_1 e - j. to_msecs e x \<le> max (dead_cfg e) 2) \<and>
      unat (jif_1 e - j) < 2 ^ 63 \<and> unat (jif_submit e - j) < 2 ^ 63 \<and> on_time j N (unat (ns_send e - N)) evs)"
| "on_time j N t (Completed n m i # evs) = (unat (n - j) < 2 ^ 63 \<and> on_time j N t evs)"
| "on_time j N t (Others hw l w z # evs) = on_time j N t evs"

definition lv_fresh :: "u64 \<Rightarrow> u64 \<Rightarrow> nat \<Rightarrow> 'e mx_queue \<Rightarrow> bool" where
  "lv_fresh j N t q \<longleftrightarrow> lv_health q \<in> {MX_LIVENESS_ALIVE, MX_LIVENESS_SUSPECT} \<and> unat (lv_progress_jiffies q - j) < 2 ^ 63 \<and>
     (lv_inflight q \<longrightarrow> unat (lv_sent_ns q - N) \<le> t)"

section \<open>Properties\<close>

lemma word_diff_le:
  fixes a b c :: u64
  assumes "unat (b - c) \<le> unat (a - c)"
  shows "unat (a - b) = unat (a - c) - unat (b - c)"
proof -
  have "a - b = (a - c) - (b - c)" by simp
  then show ?thesis using unat_sub [of "b - c" "a - c"] assms by (simp add: word_le_nat_alt)
qed

lemma stalled_within:
  assumes "unat (lv_progress_jiffies q - j) < 2 ^ 63" "unat (now - j) < 2 ^ 63" "\<forall>x \<le> now - j. f x \<le> D"
  shows "mx_liveness_stalled_ms f now q \<le> D"
proof (cases "unat (now - j) \<le> unat (lv_progress_jiffies q - j)")
  case True
  then have "unat (lv_progress_jiffies q - now) < 2 ^ 63" using assms(1) word_diff_le [OF True] by simp
  then have "\<not> bit (unat (lv_progress_jiffies q - now)) 63" by (simp add: bit_iff_odd)
  then have "\<not> sint (lv_progress_jiffies q - now) < 0"
    using bit_last_iff [of "lv_progress_jiffies q - now"] by (simp add: bit_unsigned_iff)
  then show ?thesis by (simp add: mx_liveness_stalled_ms_def)
next
  case False
  then have "now - lv_progress_jiffies q \<le> now - j"
    using word_diff_le [of "lv_progress_jiffies q" j now] by (simp add: word_le_nat_alt)
  then show ?thesis using assms(3) by (simp add: mx_liveness_stalled_ms_def)
qed

lemma submit_account_lv:
  "lv_health (submit_account n now q) = lv_health q" "lv_inflight (submit_account n now q) = lv_inflight q"
  "lv_sent_ns (submit_account n now q) = lv_sent_ns q"
  "lv_progress_jiffies (submit_account n now q) \<in> {lv_progress_jiffies q, now}"
  by (simp_all add: submit_account_def Let_def)

lemma submit_loop_lv:
  "submit_loop pushable push on now ts hw q = (hw', q', ps) \<Longrightarrow>
   lv_health q' = lv_health q \<and> lv_inflight q' = lv_inflight q \<and> lv_sent_ns q' = lv_sent_ns q \<and>
   lv_progress_jiffies q' \<in> {lv_progress_jiffies q, now}"
proof (induction ts arbitrary: hw q hw' q' ps)
  case (Cons t ts)
  obtain b hw1 where p: "pushable hw = (b, hw1)" by fastforce
  show ?case
  proof (cases "(on \<and> lv_inflight q) \<or> \<not> b")
    case True
    then show ?thesis using Cons.prems p by (auto split: if_split_asm bool.split_asm)
  next
    case False
    then obtain pd where "submit_loop pushable push on now ts (push hw1 (se_command t)) (submit_account (se_no_completion t) now q) = (hw', q', pd)"
      using Cons.prems p by (auto simp: Let_def split: prod.split_asm)
    from Cons.IH [OF this] submit_account_lv [of "se_no_completion t" now q] show ?thesis by auto
  qed
qed auto

lemma watchdog_fresh:
  assumes "mx_liveness_watchdog f dc sc now_ns send_ns j1 j2 pushable push ping hw q = (hw', q')" "lv_fresh j N t q"
    "t \<le> unat (now_ns - N)" "unat (now_ns - N) \<le> unat (send_ns - N)" "unat (now_ns - N) \<le> max dc 2 * 1000000"
    "\<forall>x \<le> j1 - j. f x \<le> max dc 2" "unat (j1 - j) < 2 ^ 63"
  shows "lv_fresh j N (unat (send_ns - N)) q'"
proof -
  note fr = assms(2) [unfolded lv_fresh_def]
  obtain b hw1 where p: "pushable hw = (b, hw1)" by fastforce
  have "\<not> max dc 2 < mx_liveness_stalled_ms f j1 q"
    unfolding not_less by (rule stalled_within [OF _ assms(7,6)]) (use fr in simp)
  moreover have "\<not> (lv_inflight q \<and> max dc 2 * 1000000 < unat (now_ns - lv_sent_ns q))"
  proof
    assume a: "lv_inflight q \<and> max dc 2 * 1000000 < unat (now_ns - lv_sent_ns q)"
    then have "unat (lv_sent_ns q - N) \<le> unat (now_ns - N)" using fr assms(3) by (simp add: le_trans)
    from word_diff_le [OF this] a assms(5) show False by linarith
  qed
  ultimately show ?thesis using assms(1) fr assms(3,4) unfolding mx_liveness_watchdog_def Let_def lv_fresh_def
    by (cases b) (auto simp: p split: if_split_asm)
qed

lemma round_fresh:
  assumes "lv_fresh j N t (snd s)" "on_time j N t [Round e]"
  shows "lv_fresh j N (unat (ns_send e - N)) (snd (lv_do pushable push post (Round e) s))"
proof -
  obtain hw1 q1 ps where l: "submit_loop pushable push (lv_on e) (jif_submit e) (sq_list (snd s)) (fst s) (snd s) = (hw1, q1, ps)"
    by (rule prod_cases3)
  have q1: "lv_fresh j N t q1" using submit_loop_lv [OF l] assms by (auto simp: lv_fresh_def)
  show ?thesis
  proof (cases "lv_on e")
    case False
    have "t \<le> unat (ns_send e - N)" using assms(2) by simp
    then have "lv_fresh j N (unat (ns_send e - N)) q1" using q1 by (auto simp: lv_fresh_def)
    then show ?thesis using False l by (simp add: mx_submit_round_def)
  next
    case True
    obtain hw2 q2 where w: "mx_liveness_watchdog (to_msecs e) (dead_cfg e) (stall_cfg e) (ns_now e) (ns_send e) (jif_1 e) (jif_2 e)
        pushable push (lv_ping_cmd e) hw1 q1 = (hw2, q2)" by fastforce
    have "lv_fresh j N (unat (ns_send e - N)) q2" by (rule watchdog_fresh [OF w q1]) (use assms(2) in simp_all)
    then show ?thesis using True l w by (simp add: mx_submit_round_def)
  qed
qed

lemma session_fresh:
  "lv_fresh j N t (snd s) \<Longrightarrow> on_time j N t evs \<Longrightarrow>
     lv_health (snd (fold (lv_do pushable push post) evs s)) \<in> {MX_LIVENESS_ALIVE, MX_LIVENESS_SUSPECT}"
proof (induction evs arbitrary: s t)
  case Nil
  then show ?case by (simp add: lv_fresh_def)
next
  case (Cons ev evs)
  have "\<exists>t'. lv_fresh j N t' (snd (lv_do pushable push post ev s)) \<and> on_time j N t' evs"
  proof (cases ev)
    case (Round e)
    then show ?thesis using round_fresh [OF Cons.prems(1), of e pushable push post] Cons.prems(2) by auto
  next
    case (Completed n m i)
    then show ?thesis using Cons.prems by (intro exI [of _ t]) (auto simp: lv_fresh_def complete_liveness_def Let_def)
  next
    case (Others hw l w z)
    then show ?thesis using Cons.prems by (intro exI [of _ t]) (auto simp: lv_fresh_def)
  qed
  then obtain t' where "lv_fresh j N t' (snd (lv_do pushable push post ev s))" "on_time j N t' evs" by blast
  from Cons.IH [OF this] show ?case by simp
qed

lemma round_submits:
  assumes "sq_list q \<noteq> []" "fst (pushable hw)" "\<not> lv_inflight q"
  shows "fst (snd (snd (mx_submit_round e pushable push post idle hw q))) \<noteq> []"
  using assms by (cases "sq_list q"; cases "pushable hw")
    (auto simp: mx_submit_round_def Let_def split: prod.split if_split)

text \<open>C40. Switching the watchdog on starts a session that owes nothing to what an earlier one left behind, be it a ping without an
  answer, a dead verdict or an old time stamp. After the store the state reads alive with no round-trip time; no ping counts as outstanding,
  so that the next round of the submit handler, on any queue with work and room, submits; and whatever submit rounds, completions and other changes follow, in
  any order, no verdict but alive or suspect is given in a round that takes place before the dead time has passed since the store: the transport
  is not declared dead for time that passed before. Switched off, the attributes report nothing and nothing is held; and a value written to a
  parameter is read back.\<close>

theorem enable_starts_clean:
  assumes "lv_queue d = Some q" "liveness_enable_store True (Inr True) len j d = (r, d')" "lv_queue d' = Some q'"
    and "on_time j N 0 evs"
  shows "r = Inr len \<and> health_show True d' = Inr ''alive'' \<and> rtt_ns_show True d' = Inr 0 \<and>
    (sq_list q \<noteq> [] \<and> fst (pushable hw) \<longrightarrow> fst (snd (snd (mx_submit_round e pushable push post idle hw q'))) \<noteq> []) \<and>
    lv_health (snd (fold (lv_do pushable push post) evs (hw, q'))) \<in> {MX_LIVENESS_ALIVE, MX_LIVENESS_SUSPECT} \<and>
    (case liveness_enable_store True (Inr False) len j d' of
       (_, d0) \<Rightarrow> health_show True d0 = Inr ''unknown'' \<and> rtt_ns_show True d0 = Inr 0 \<and> \<not> liveness_enable d0 \<and>
         (case lv_queue d0 of None \<Rightarrow> False | Some q0 \<Rightarrow> \<not> lv_inflight q0 \<and> sq_list q0 = sq_list q \<and> wait_count q0 = wait_count q)) \<and>
    liveness_uint_show p True (snd (liveness_uint_store p True (Inr v) len d')) = Inr v"
proof -
  have q': "q' = q\<lparr>lv_inflight := False, lv_rtt_ns := 0, lv_progress_jiffies := j, lv_health := MX_LIVENESS_ALIVE\<rparr>" "r = Inr len"
      "liveness_enable d'"
    using assms(1-3) by (auto simp: liveness_enable_store_def Let_def)
  have "lv_fresh j N 0 (snd (hw, q'))" by (simp add: lv_fresh_def q'(1))
  from session_fresh [OF this assms(4)]
  have "lv_health (snd (fold (lv_do pushable push post) evs (hw, q'))) \<in> {MX_LIVENESS_ALIVE, MX_LIVENESS_SUSPECT}" .
  moreover have "liveness_uint_show p True (snd (liveness_uint_store p True (Inr v) len d')) = Inr v"
    by (cases p) (simp_all add: liveness_uint_show_def liveness_uint_store_def)
  moreover have "sq_list q \<noteq> [] \<and> fst (pushable hw) \<longrightarrow> fst (snd (snd (mx_submit_round e pushable push post idle hw q'))) \<noteq> []"
    using round_submits [of q' pushable hw] by (simp add: q'(1))
  ultimately show ?thesis using q' assms(3)
    by (simp add: health_show_def rtt_ns_show_def liveness_enable_store_def Let_def)
qed

text \<open>A session that ended with a dead verdict, an unanswered ping and work held back; the counter stands for the hardware.\<close>

definition stale_queue :: "nat sq_entry mx_queue" where
  "stale_queue = (mx_queue_common_init 0)\<lparr>lv_health := MX_LIVENESS_DEAD, lv_inflight := True, wait_count := 1, sq_list := submit_example 5\<rparr>"

definition stale_dev :: "nat sq_entry lv_dev" where
  "stale_dev = \<lparr>liveness_enable = False, liveness_stall_ms = 0, liveness_dead_ms = 0, liveness_max_mult = 0, lv_queue = Some stale_queue\<rparr>"

definition late_round :: "nat round_env" where
  "late_round = \<lparr>lv_on = True, to_msecs = (\<lambda>x. min (unat x) 9), dead_cfg = 100, stall_cfg = 5, ns_now = 1000, ns_send = 1001,
     jif_submit = 10050, jif_1 = 10060, jif_2 = 10061, lv_ping_cmd = 7\<rparr>"

theorem enable_starts_clean_witness:
  "\<exists>q'. lv_queue (snd (liveness_enable_store True (Inr True) 2 10040 stale_dev)) = Some q' \<and>
     fst (snd (snd (mx_submit_round late_round (\<lambda>h. (True, h)) (\<lambda>h c. h + c) id 0 (1::nat) q'))) \<noteq> [] \<and>
     lv_health (snd (fold (lv_do (\<lambda>h. (True, h)) (\<lambda>h c. h + c) id) [Others 3 [] 1 0, Round late_round] (1::nat, q')))
       \<in> {MX_LIVENESS_ALIVE, MX_LIVENESS_SUSPECT}"
proof -
  let ?q' = "stale_queue\<lparr>lv_inflight := False, lv_rtt_ns := 0, lv_progress_jiffies := 10040, lv_health := MX_LIVENESS_ALIVE\<rparr>"
  have e: "liveness_enable_store True (Inr True) 2 10040 stale_dev = (Inr 2, stale_dev\<lparr>liveness_enable := True, lv_queue := Some ?q'\<rparr>)"
    by (simp add: liveness_enable_store_def stale_dev_def Let_def)
  have s: "lv_queue stale_dev = Some stale_queue" "sq_list stale_queue \<noteq> []"
    by (simp_all add: stale_dev_def stale_queue_def submit_example_def)
  have t: "on_time 10040 500 0 [Others 3 [] 1 0, Round late_round]" by (simp add: late_round_def min_le_iff_disj)
  note c = enable_starts_clean [OF s(1) e _ t, of ?q' "\<lambda>h. (True, h)" "1::nat" late_round "\<lambda>h c. h + c" id 0]
  show ?thesis unfolding e using c s(2) by (intro exI [of _ ?q']) simp
qed

end
