(* ===== verification/Submit.thy ===== *)
theory Submit
  imports Split Command
begin

text \<open>
  How \<open>transfer.c\<close> submits a request: allocate the transfers, build their commands, hand them to the queue, wait or
  leave the wait to a work item.  The theory follows what each step acquires and gives back: references on
  the shared mapping, transfer ids, lease references, descriptor pages, command buffers, the array of transfer pointers,
  \<open>io_ref\<close>.  The counts are integers, so that giving something back twice shows.  How a wait ends
  (\<open>mx_transfer_wait\<close>, modelled with all its races in \<open>Xfer\<close>) and which calls fail are inputs, indexed by the transfer's place
  in the request.
\<close>

section \<open>State\<close>

record xfer =
  xf_no :: nat
  xf_off :: nat
  xf_size :: nat
  xf_dev :: nat
  xf_sg :: bool
  xf_leased :: bool
  xf_desc :: nat
  xf_cmd :: bool

datatype wait_end = Finished | Recovered errno | Parked errno

record sub_env =
  sgenv :: sg_env
  array_ok :: bool      \<comment> \<open>\<open>kcalloc\<close> of the pointer array\<close>
  slab_ok :: "nat \<Rightarrow> bool"      \<comment> \<open>the transfer and its id\<close>
  lease_get :: "nat \<Rightarrow> unit result"      \<comment> \<open>\<open>mx_lease_transfer_get\<close>\<close>
  create_cmd :: "nat \<Rightarrow> unit result \<times> nat"      \<comment> \<open>result and descriptor pages held, which an error may leave behind\<close>
  waited :: "nat \<Rightarrow> wait_end"
  user_ptr :: bool      \<comment> \<open>\<open>access_ok\<close> of a control buffer; the callers in \<open>ioctl.c\<close> pass kernel buffers\<close>
  copy_out :: bool      \<comment> \<open>\<open>copy_to_user\<close> of a control result\<close>
  dev_page_size :: nat
  parallel_count :: u32
  parallel_split_ratio :: u32
  passthru_supported :: bool

record sub_state =
  sgc :: "mx_sg_context option"
  calls :: "sg_call list"
  sg_uaf :: bool      \<comment> \<open>a reference was put on a mapping already released\<close>
  arrays :: int      \<comment> \<open>pointer arrays: \<open>kcalloc\<close> less \<open>kfree\<close>\<close>
  ids :: int
  leases :: int
  desc_pages :: int
  cmd_bufs :: int
  io_refs :: int
  queued :: "xfer list"      \<comment> \<open>everything ever handed to the queue\<close>
  works :: "xfer list"      \<comment> \<open>wait work items not yet run\<close>
  zombies :: "xfer list"
  delivered :: "xfer list"      \<comment> \<open>control results copied out\<close>

definition sub_start :: sub_state where
  "sub_start = \<lparr>sgc = None, calls = [], sg_uaf = False, arrays = 0, ids = 0, leases = 0, desc_pages = 0, cmd_bufs = 0, io_refs = 0, queued = [], works = [], zombies = [],
     delivered = []\<rparr>"

section \<open>Transfers\<close>

definition put_context :: "sub_state \<Rightarrow> sub_state" where
  "put_context s = (case sgc s of None \<Rightarrow> s\<lparr>sg_uaf := True\<rparr> | Some c \<Rightarrow> (case mx_sg_context_put c of (c', cs) \<Rightarrow> s\<lparr>sgc := c', calls := calls s @ cs\<rparr>))"

definition alloc_transfer :: "sub_env \<Rightarrow> nat \<Rightarrow> nat \<Rightarrow> nat \<Rightarrow> sub_state \<Rightarrow> xfer option \<times> sub_state" where
  "alloc_transfer e i sz dev s =
     (if slab_ok e i
      then (Some \<lparr>xf_no = i, xf_off = 0, xf_size = sz, xf_dev = dev, xf_sg = False, xf_leased = False, xf_desc = 0, xf_cmd = False\<rparr>,
            s\<lparr>ids := ids s + 1\<rparr>)
      else (None, s))"

definition alloc_transfer_sg :: "sub_env \<Rightarrow> nat \<Rightarrow> nat \<Rightarrow> nat \<Rightarrow> nat \<Rightarrow> sub_state \<Rightarrow> xfer option \<times> sub_state" where
  "alloc_transfer_sg e i off sz dev s =
     (case alloc_transfer e i sz dev s of
        (None, s) \<Rightarrow> (None, s)
      | (Some x, s) \<Rightarrow> (Some (x\<lparr>xf_sg := True, xf_off := off\<rparr>), s\<lparr>sgc := map_option mx_sg_context_get (sgc s)\<rparr>))"

definition release_transfer :: "xfer \<Rightarrow> sub_state \<Rightarrow> sub_state" where
  "release_transfer x s =
     (let s = (if xf_sg x then put_context s else s)
      in s\<lparr>ids := ids s - 1, leases := (if xf_leased x then leases s - 1 else leases s),
           cmd_bufs := (if xf_cmd x then cmd_bufs s - 1 else cmd_bufs s)\<rparr>)"

text \<open>The loop of \<open>alloc_mx_transfers\<close> over the slices; the flag is false when one could not be allocated.\<close>

fun alloc_loop :: "sub_env \<Rightarrow> nat \<Rightarrow> (nat \<times> nat \<times> nat) list \<Rightarrow> sub_state \<Rightarrow> bool \<times> xfer list \<times> sub_state" where
  "alloc_loop e i [] s = (True, [], s)"
| "alloc_loop e i ((off, len, dev) # ss) s =
     (case alloc_transfer_sg e i off len dev s of
        (None, s) \<Rightarrow> (False, [], s)
      | (Some x, s) \<Rightarrow> (case alloc_loop e (i + 1) ss s of (ok, xs, s) \<Rightarrow> (ok, x # xs, s)))"

definition kfree_transfers :: "sub_state \<Rightarrow> sub_state" where
  "kfree_transfers s = s\<lparr>arrays := arrays s - 1\<rparr>"

definition alloc_transfers :: "sub_env \<Rightarrow> nat \<Rightarrow> nat \<Rightarrow> nat \<Rightarrow> nat \<Rightarrow> sub_state \<Rightarrow> xfer list option \<times> sub_state" where
  "alloc_transfers e buf sz dev n s =
     (case sgc s of
        None \<Rightarrow> (None, s)
      | Some c \<Rightarrow>
          if \<not> array_ok e then (None, s)
          else case alloc_loop e 0 (split_loop n (sgc_pages_nr c div n) (sgc_pages_nr c mod n) buf buf sz dev) (s\<lparr>arrays := arrays s + 1\<rparr>) of
                 (True, xs, s) \<Rightarrow> (Some xs, s)
               | (False, xs, s) \<Rightarrow> (None, kfree_transfers (fold release_transfer xs s)))"

definition mx_transfer_init_sg :: "sub_env \<Rightarrow> xfer \<Rightarrow> sub_state \<Rightarrow> unit result \<times> xfer \<times> sub_state" where
  "mx_transfer_init_sg e x s =
     (case lease_get e (xf_no x) of
        Inl r \<Rightarrow> (Inl r, x, s)
      | Inr _ \<Rightarrow>
          let x = x\<lparr>xf_leased := True\<rparr>; s = s\<lparr>leases := leases s + 1\<rparr> in
          (case create_cmd e (xf_no x) of
             (Inl r, k) \<Rightarrow> (Inl r, x\<lparr>xf_desc := k\<rparr>, s\<lparr>desc_pages := desc_pages s + int k\<rparr>)
           | (Inr _, k) \<Rightarrow> (OK, x\<lparr>xf_desc := k, xf_cmd := True\<rparr>, s\<lparr>desc_pages := desc_pages s + int k, cmd_bufs := cmd_bufs s + 1\<rparr>)))"

definition mx_transfer_destroy_sg :: "xfer \<Rightarrow> sub_state \<Rightarrow> sub_state" where
  "mx_transfer_destroy_sg x s = release_transfer x (s\<lparr>desc_pages := desc_pages s - int (xf_desc x)\<rparr>)"

definition mx_transfer_init_ctrl :: "sub_env \<Rightarrow> xfer \<Rightarrow> sub_state \<Rightarrow> unit result \<times> xfer \<times> sub_state" where
  "mx_transfer_init_ctrl e x s =
     (case lease_get e (xf_no x) of
        Inl r \<Rightarrow> (Inl r, x, s)
      | Inr _ \<Rightarrow>
          let x = x\<lparr>xf_leased := True\<rparr>; s = s\<lparr>leases := leases s + 1\<rparr> in
          (case fst (create_cmd e (xf_no x)) of
             Inl r \<Rightarrow> (Inl r, x, s)
           | Inr _ \<Rightarrow> (OK, x\<lparr>xf_cmd := True\<rparr>, s\<lparr>cmd_bufs := cmd_bufs s + 1\<rparr>)))"

text \<open>A read delivers its 64-bit result: to a user buffer with \<open>copy_to_user\<close>, to a kernel buffer with a store. The flag is whether that worked, and the code's caller drops it.\<close>

definition mx_transfer_destroy_ctrl :: "sub_env \<Rightarrow> bool \<Rightarrow> xfer \<Rightarrow> sub_state \<Rightarrow> bool \<times> sub_state" where
  "mx_transfer_destroy_ctrl e from_device x s =
     (let ok = (from_device \<longrightarrow> user_ptr e \<longrightarrow> copy_out e);
          s = (if from_device \<and> ok then s\<lparr>delivered := delivered s @ [x]\<rparr> else s)
      in (ok, release_transfer x s))"

definition mx_transfer_teardown_done :: "sub_env \<Rightarrow> bool \<Rightarrow> xfer \<Rightarrow> sub_state \<Rightarrow> nat \<times> sub_state" where
  "mx_transfer_teardown_done e from_device x s =
     (xf_size x, if xf_sg x then mx_transfer_destroy_sg x s else snd (mx_transfer_destroy_ctrl e from_device x s))"

definition mx_transfer_teardown_recovered :: "xfer \<Rightarrow> sub_state \<Rightarrow> sub_state" where
  "mx_transfer_teardown_recovered x s = (if xf_sg x then mx_transfer_destroy_sg x s else release_transfer x s)"

text \<open>What the end of a wait does to the resources.\<close>

definition wait_transfer :: "sub_env \<Rightarrow> bool \<Rightarrow> xfer \<Rightarrow> sub_state \<Rightarrow> nat result \<times> sub_state" where
  "wait_transfer e from_device x s =
     (case waited e (xf_no x) of
        Finished \<Rightarrow> (case mx_transfer_teardown_done e from_device x s of (n, s) \<Rightarrow> (Inr n, s))
      | Recovered r \<Rightarrow> (Inl r, mx_transfer_teardown_recovered x s)
      | Parked r \<Rightarrow> (Inl r, s\<lparr>zombies := zombies s @ [x]\<rparr>))"

text \<open>\<open>queue_work\<close> on a fresh work item always queues it.\<close>

definition mx_transfer_schedule_wait :: "xfer \<Rightarrow> sub_state \<Rightarrow> sub_state" where
  "mx_transfer_schedule_wait x s = s\<lparr>works := works s @ [x]\<rparr>"

definition mx_transfer_wait_work :: "sub_env \<Rightarrow> bool \<Rightarrow> xfer \<Rightarrow> sub_state \<Rightarrow> sub_state" where
  "mx_transfer_wait_work e from_device x s =
     (case wait_transfer e from_device x (s\<lparr>works := remove1 x (works s)\<rparr>) of (_, s) \<Rightarrow> s\<lparr>io_refs := io_refs s - 1\<rparr>)"

section \<open>Submission\<close>

definition mx_transfer_submit_sg_one :: "sub_env \<Rightarrow> xfer \<Rightarrow> bool \<Rightarrow> sub_state \<Rightarrow> nat result \<times> sub_state" where
  "mx_transfer_submit_sg_one e x nowait s =
     (case mx_transfer_init_sg e x s of
        (Inl r, x, s) \<Rightarrow> (Inl r, mx_transfer_destroy_sg x s)
      | (Inr _, x, s) \<Rightarrow>
          let s = s\<lparr>queued := queued s @ [x]\<rparr> in
          if nowait then (Inr (xf_size x), mx_transfer_schedule_wait x (s\<lparr>io_refs := io_refs s + 1\<rparr>))
          else wait_transfer e False x s)"

text \<open>The first loop of \<open>mx_transfer_submit_sg_parallel\<close>: the transfers it did not reach are returned as they were.\<close>

fun init_loop :: "sub_env \<Rightarrow> xfer list \<Rightarrow> sub_state \<Rightarrow> unit result \<times> xfer list \<times> sub_state" where
  "init_loop e [] s = (OK, [], s)"
| "init_loop e (x # xs) s =
     (case mx_transfer_init_sg e x s of
        (Inl r, x, s) \<Rightarrow> (Inl r, x # xs, s)
      | (Inr _, x, s) \<Rightarrow> (case init_loop e xs s of (r, xs, s) \<Rightarrow> (r, x # xs, s)))"

text \<open>The wait loop: the last error wins, else the sum.\<close>

fun wait_all :: "sub_env \<Rightarrow> xfer list \<Rightarrow> errno option \<Rightarrow> nat \<Rightarrow> sub_state \<Rightarrow> nat result \<times> sub_state" where
  "wait_all e [] err n s = ((case err of None \<Rightarrow> Inr n | Some r \<Rightarrow> Inl r), s)"
| "wait_all e (x # xs) err n s =
     (case wait_transfer e False x s of
        (Inl r, s) \<Rightarrow> wait_all e xs (Some r) n s
      | (Inr k, s) \<Rightarrow> wait_all e xs err (n + k) s)"

definition mx_transfer_submit_sg_parallel :: "sub_env \<Rightarrow> xfer list \<Rightarrow> bool \<Rightarrow> sub_state \<Rightarrow> nat result \<times> sub_state" where
  "mx_transfer_submit_sg_parallel e xs nowait s =
     (case init_loop e xs s of
        (Inl r, xs, s) \<Rightarrow> (Inl r, kfree_transfers (fold mx_transfer_destroy_sg xs s))
      | (Inr _, xs, s) \<Rightarrow>
          let s = s\<lparr>queued := queued s @ xs\<rparr> in
          if nowait then (Inr (sum_list (map xf_size xs)),
                          kfree_transfers (fold mx_transfer_schedule_wait xs (s\<lparr>io_refs := io_refs s + int (length xs)\<rparr>)))
          else case wait_all e xs None 0 s of (r, s) \<Rightarrow> (r, kfree_transfers s))"

definition mx_transfer_submit_sg_split :: "sub_env \<Rightarrow> nat \<Rightarrow> nat \<Rightarrow> nat \<Rightarrow> dma_data_direction \<Rightarrow> nat \<Rightarrow> bool \<Rightarrow> sub_state \<Rightarrow> nat result \<times> sub_state" where
  "mx_transfer_submit_sg_split e buf sz dev dir num nowait s =
     (case mx_sg_context_create (sgenv e) buf sz (dir = DMA_TO_DEVICE) of
        (Inl r, cs) \<Rightarrow> (Inl r, s\<lparr>calls := calls s @ cs\<rparr>)
      | (Inr c, cs) \<Rightarrow>
          let s = s\<lparr>sgc := Some c, calls := calls s @ cs\<rparr> in
          if num = 1 then
            (case alloc_transfer_sg e 0 0 sz dev s of
               (None, s) \<Rightarrow> (Inl ENOMEM, put_context s)
             | (Some x, s) \<Rightarrow> mx_transfer_submit_sg_one e x nowait (put_context s))
          else
            (case alloc_transfers e buf sz dev num s of
               (None, s) \<Rightarrow> (Inl ENOMEM, put_context s)
             | (Some xs, s) \<Rightarrow> mx_transfer_submit_sg_parallel e xs nowait (put_context s)))"

definition mx_transfer_submit_ctrl :: "sub_env \<Rightarrow> bool \<Rightarrow> xfer \<Rightarrow> bool \<Rightarrow> sub_state \<Rightarrow> nat result \<times> sub_state" where
  "mx_transfer_submit_ctrl e from_device x nowait s =
     (case mx_transfer_init_ctrl e x s of
        (Inl r, x, s) \<Rightarrow> (Inl r, release_transfer x s)
      | (Inr _, x, s) \<Rightarrow>
          let s = s\<lparr>queued := queued s @ [x]\<rparr> in
          if nowait then (Inr (xf_size x), mx_transfer_schedule_wait x (s\<lparr>io_refs := io_refs s + 1\<rparr>))
          else wait_transfer e from_device x s)"

section \<open>Entry points\<close>

definition read_data_from_device :: "sub_env \<Rightarrow> nat \<Rightarrow> nat \<Rightarrow> nat \<Rightarrow> sub_state \<Rightarrow> nat result \<times> sub_state" where
  "read_data_from_device e buf sz fpos = mx_transfer_submit_sg_split e buf sz fpos DMA_FROM_DEVICE 1 False"

definition write_data_to_device :: "sub_env \<Rightarrow> nat \<Rightarrow> nat \<Rightarrow> nat \<Rightarrow> bool \<Rightarrow> sub_state \<Rightarrow> nat result \<times> sub_state" where
  "write_data_to_device e buf sz fpos nowait = mx_transfer_submit_sg_split e buf sz fpos DMA_TO_DEVICE 1 nowait"

abbreviation (input) splits_for :: "sub_env \<Rightarrow> nat \<Rightarrow> nat \<Rightarrow> nat" where
  "splits_for e buf sz \<equiv> nat (mx_parallel_count_for (dev_page_size e) (parallel_count e) (parallel_split_ratio e) buf sz)"

definition read_data_from_device_parallel :: "sub_env \<Rightarrow> nat \<Rightarrow> nat \<Rightarrow> nat \<Rightarrow> sub_state \<Rightarrow> nat result \<times> sub_state" where
  "read_data_from_device_parallel e buf sz fpos = mx_transfer_submit_sg_split e buf sz fpos DMA_FROM_DEVICE (splits_for e buf sz) False"

definition write_data_to_device_parallel :: "sub_env \<Rightarrow> nat \<Rightarrow> nat \<Rightarrow> nat \<Rightarrow> bool \<Rightarrow> sub_state \<Rightarrow> nat result \<times> sub_state" where
  "write_data_to_device_parallel e buf sz fpos nowait = mx_transfer_submit_sg_split e buf sz fpos DMA_TO_DEVICE (splits_for e buf sz) nowait"

definition read_ctrl_from_device :: "sub_env \<Rightarrow> nat \<Rightarrow> nat \<Rightarrow> sub_state \<Rightarrow> nat result \<times> sub_state" where
  "read_ctrl_from_device e sz fpos s =
     (case alloc_transfer e 0 sz fpos s of
        (None, s) \<Rightarrow> (Inl ENOMEM, s)
      | (Some x, s) \<Rightarrow> mx_transfer_submit_ctrl e True x False s)"

definition write_ctrl_to_device :: "sub_env \<Rightarrow> nat \<Rightarrow> nat \<Rightarrow> bool \<Rightarrow> sub_state \<Rightarrow> nat result \<times> sub_state" where
  "write_ctrl_to_device e sz fpos nowait s =
     (case alloc_transfer e 0 sz fpos s of
        (None, s) \<Rightarrow> (Inl ENOMEM, s)
      | (Some x, s) \<Rightarrow> mx_transfer_submit_ctrl e False x nowait s)"

definition submit_protocol_transfer :: "sub_env \<Rightarrow> nat \<Rightarrow> nat \<Rightarrow> sub_state \<Rightarrow> nat result \<times> sub_state" where
  "submit_protocol_transfer e buf sz = mx_transfer_submit_sg_split e buf sz 0 DMA_BIDIRECTIONAL 1 False"

text \<open>A command that cannot be built is reported as \<open>ENOMEM\<close> here. Without a completion the wait is for the push only, and a command that was not pushed is taken back.\<close>

definition submit_passthru_command :: "sub_env \<Rightarrow> nat \<Rightarrow> nat \<Rightarrow> bool \<Rightarrow> sub_state \<Rightarrow> unit result \<times> sub_state" where
  "submit_passthru_command e dev sz no_completion s =
     (if \<not> passthru_supported e then (Inl EOPNOTSUPP, s)
      else case alloc_transfer e 0 sz dev s of
        (None, s) \<Rightarrow> (Inl ENOMEM, s)
      | (Some x, s) \<Rightarrow>
          (case mx_transfer_init_ctrl e x s of
             (Inl r, x, s) \<Rightarrow> (Inl (if xf_leased x then ENOMEM else r), release_transfer x s)
           | (Inr _, x, s) \<Rightarrow>
               let s = s\<lparr>queued := queued s @ [x]\<rparr> in
               (case waited e 0 of
                  Finished \<Rightarrow> (OK, release_transfer x s)
                | Recovered r \<Rightarrow> (Inl r, release_transfer x s)
                | Parked r \<Rightarrow> if no_completion then (Inl r, release_transfer x s) else (Inl r, s\<lparr>zombies := zombies s @ [x]\<rparr>))))"

end
