(* ===== verification/Submit_Correct.thy ===== *)
theory Submit_Correct
  imports Submit
begin

text \<open>
  Every path of a submission gives back what it took: \<open>bal k X s\<close> says that the state holds exactly the resources of the
  live transfers \<open>X\<close>, and \<open>k\<close> further references on the shared mapping.
\<close>

section \<open>Balance\<close>

definition bal :: "nat \<Rightarrow> xfer list \<Rightarrow> sub_state \<Rightarrow> bool" where
  "bal k X s \<longleftrightarrow> ids s = int (length X) \<and> leases s = int (length (filter xf_leased X)) \<and> desc_pages s = int (sum_list (map xf_desc X)) \<and>
     cmd_bufs s = int (length (filter xf_cmd X)) \<and> \<not> sg_uaf s \<and>
     (case sgc s of
        None \<Rightarrow> k + length (filter xf_sg X) = 0 \<and> (\<forall>r. sg_held r (calls s) = 0)
      | Some c \<Rightarrow> sgc_refcount c = k + length (filter xf_sg X) \<and> 0 < sgc_refcount c \<and> (\<forall>r. sg_held r (calls s @ mx_sg_context_release c) = 0))"

lemma bal_perm: "\<lbrakk> mset X = mset Y; bal k X s \<rbrakk> \<Longrightarrow> bal k Y s"
proof -
  assume m: "mset X = mset Y" and b: "bal k X s"
  have f: "length (filter P X) = length (filter P Y)" for P using m by (metis mset_filter size_mset)
  have "sum_list (map xf_desc X) = sum_list (map xf_desc Y)" using m by (metis mset_map sum_mset_sum_list)
  then show ?thesis using b f [of xf_leased] f [of xf_cmd] f [of xf_sg] mset_eq_length [OF m] unfolding bal_def
    by (cases "sgc s") auto
qed

lemma bal_frame [simp]:
  "bal k X (s\<lparr>queued := q\<rparr>) = bal k X s" "bal k X (s\<lparr>works := w\<rparr>) = bal k X s" "bal k X (s\<lparr>zombies := z\<rparr>) = bal k X s"
  "bal k X (s\<lparr>io_refs := n\<rparr>) = bal k X s" "bal k X (s\<lparr>delivered := l\<rparr>) = bal k X s"
  "bal k X (s\<lparr>arrays := a\<rparr>) = bal k X s"
  by (simp_all add: bal_def split: option.split)

lemma release_same_refs: "mx_sg_context_release (c\<lparr>sgc_refcount := n\<rparr>) = mx_sg_context_release c"
  by (simp add: mx_sg_context_release_def)

lemma bal_put: "bal (Suc k) X s \<Longrightarrow> bal k X (put_context s)"
  by (auto simp: bal_def put_context_def mx_sg_context_put_def release_same_refs split: option.split_asm)

lemma bal_start: "bal 0 [] sub_start"
  by (simp add: bal_def sub_start_def)

lemma bal_alloc:
  assumes "alloc_transfer e i sz dev s = (Some x, s')" "bal k X s"
  shows "bal k (x # X) s' \<and> \<not> xf_sg x \<and> xf_desc x = 0 \<and> \<not> xf_leased x \<and> \<not> xf_cmd x \<and> xf_size x = sz \<and> xf_no x = i \<and> xf_dev x = dev"
  using assms by (auto simp: alloc_transfer_def bal_def split: if_split_asm option.split_asm)


lemma alloc_none: "alloc_transfer e i sz dev s = (None, s') \<Longrightarrow> s' = s" "alloc_transfer_sg e i off sz dev s = (None, s') \<Longrightarrow> s' = s"
  by (auto simp: alloc_transfer_sg_def alloc_transfer_def split: if_split_asm)

lemma put_fields [simp]:
  "ids (put_context s) = ids s" "leases (put_context s) = leases s" "cmd_bufs (put_context s) = cmd_bufs s"
  by (simp_all add: put_context_def split: option.split prod.split)

lemma put_commute:
  "put_context (s\<lparr>ids := a, leases := b, cmd_bufs := c\<rparr>) = (put_context s)\<lparr>ids := a, leases := b, cmd_bufs := c\<rparr>"
  by (simp add: put_context_def split: option.split prod.split)

lemma bal_release:
  assumes "bal k (x # X) s" "xf_desc x = 0"
  shows "bal k X (release_transfer x s)"
proof (cases "xf_sg x")
  case True
  then have "bal (Suc k) X (s\<lparr>ids := ids s - 1, leases := (if xf_leased x then leases s - 1 else leases s),
      cmd_bufs := (if xf_cmd x then cmd_bufs s - 1 else cmd_bufs s)\<rparr>)"
    using assms by (auto simp: bal_def split: option.split_asm)
  from bal_put [OF this] show ?thesis using True by (simp only: put_commute release_transfer_def Let_def put_fields if_True)
next
  case False
  then show ?thesis using assms by (auto simp: release_transfer_def bal_def Let_def split: option.split_asm)
qed

lemma bal_destroy: "bal k (x # X) s \<Longrightarrow> bal k X (mx_transfer_destroy_sg x s)"
proof -
  assume "bal k (x # X) s"
  then have "bal k (x\<lparr>xf_desc := 0\<rparr> # X) (s\<lparr>desc_pages := desc_pages s - int (xf_desc x)\<rparr>)" by (auto simp: bal_def split: option.split_asm)
  from bal_release [OF this] show ?thesis by (simp add: mx_transfer_destroy_sg_def release_transfer_def)
qed


lemma bal_init_ctrl:
  assumes "mx_transfer_init_ctrl e x s = (r, x', s')" "bal k (x # X) s" "\<not> xf_leased x" "\<not> xf_cmd x"
  shows "bal k (x' # X) s' \<and> xf_sg x' = xf_sg x \<and> xf_size x' = xf_size x \<and> xf_desc x' = xf_desc x \<and> xf_no x' = xf_no x"
  using assms by (auto simp: mx_transfer_init_ctrl_def bal_def Let_def split: sum.split_asm prod.split_asm option.split_asm)

section \<open>Waiting\<close>

text \<open>Live transfers of a state with nothing else under way: work items and zombies.\<close>

definition settled_sub :: "xfer list \<Rightarrow> sub_state \<Rightarrow> bool" where
  "settled_sub X s \<longleftrightarrow> bal 0 (X @ works s @ zombies s) s \<and> io_refs s = int (length (works s))"

lemma frame_release [simp]:
  "works (release_transfer x s) = works s" "zombies (release_transfer x s) = zombies s" "io_refs (release_transfer x s) = io_refs s"
  "queued (release_transfer x s) = queued s" "arrays (release_transfer x s) = arrays s"
  by (simp_all add: release_transfer_def put_context_def Let_def split: option.split prod.split)

lemma frame_destroy [simp]:
  "works (mx_transfer_destroy_sg x s) = works s" "zombies (mx_transfer_destroy_sg x s) = zombies s" "io_refs (mx_transfer_destroy_sg x s) = io_refs s"
  "queued (mx_transfer_destroy_sg x s) = queued s" "arrays (mx_transfer_destroy_sg x s) = arrays s"
  by (simp_all add: mx_transfer_destroy_sg_def)

lemma sub_destroy: "settled_sub (x # X) s \<Longrightarrow> settled_sub X (mx_transfer_destroy_sg x s)"
  by (auto simp: settled_sub_def dest: bal_destroy)

lemma sub_release: "\<lbrakk> settled_sub (x # X) s; xf_desc x = 0 \<rbrakk> \<Longrightarrow> settled_sub X (release_transfer x s)"
  by (auto simp: settled_sub_def dest: bal_release)

lemma sub_park: "settled_sub (x # X) s \<Longrightarrow> settled_sub X (s\<lparr>zombies := zombies s @ [x]\<rparr>)"
  unfolding settled_sub_def by (auto intro: bal_perm [of "x # X @ works s @ zombies s"])

lemma sub_wait:
  assumes "wait_transfer e f x s = (r, s')" "settled_sub (x # X) s" "xf_sg x \<or> xf_desc x = 0"
  shows "settled_sub X s' \<and> works s' = works s \<and> queued s' = queued s \<and> arrays s' = arrays s \<and>
    (case r of Inl _ \<Rightarrow> waited e (xf_no x) \<noteq> Finished | Inr n \<Rightarrow> n = xf_size x \<and> waited e (xf_no x) = Finished \<and> zombies s' = zombies s)"
  using assms sub_destroy [of x X s] sub_release [of x X s] sub_park [of x X s] sub_release [of x X "s\<lparr>delivered := delivered s @ [x]\<rparr>"]
  by (auto simp: wait_transfer_def mx_transfer_teardown_done_def mx_transfer_teardown_recovered_def mx_transfer_destroy_ctrl_def Let_def
      settled_sub_def split: wait_end.split_asm if_split_asm)


section \<open>Submission\<close>



lemma schedule_all [simp]:
  "fold mx_transfer_schedule_wait xs s = s\<lparr>works := works s @ xs\<rparr>"
  by (induction xs arbitrary: s) (simp_all add: mx_transfer_schedule_wait_def)










lemma put_frame [simp]:
  "works (put_context s) = works s" "zombies (put_context s) = zombies s" "queued (put_context s) = queued s" "io_refs (put_context s) = io_refs s"
  "arrays (put_context s) = arrays s"
  by (simp_all add: put_context_def split: option.split prod.split)





section \<open>Work items\<close>



lemma ctrl_ok:
  assumes "mx_transfer_submit_ctrl e f x nowait s = (r, s')" "settled_sub [x] s" "xf_desc x = 0" "\<not> xf_leased x" "\<not> xf_cmd x" "\<not> xf_sg x"
    "works s = []" "zombies s = []" "queued s = []"
  shows "settled_sub [] s' \<and> (\<not> nowait \<longrightarrow> works s' = []) \<and> (r = Inr n \<longrightarrow> n = xf_size x)"
proof -
  obtain r1 x1 s1 where i: "mx_transfer_init_ctrl e x s = (r1, x1, s1)" by (rule prod_cases3)
  have f: "works s1 = works s" "zombies s1 = zombies s" "queued s1 = queued s" "io_refs s1 = io_refs s"
    using i by (auto simp: mx_transfer_init_ctrl_def Let_def split: sum.split_asm)
  have "bal 0 (x # works s @ zombies s) s" using assms(2) by (simp add: settled_sub_def)
  note b = bal_init_ctrl [OF i this assms(4,5)]
  have s1: "settled_sub [x1] s1" "xf_desc x1 = 0" "xf_size x1 = xf_size x" using b f assms(2,3) by (simp_all add: settled_sub_def)
  show ?thesis
  proof (cases r1)
    case (Inl a)
    then show ?thesis using assms(1,7) i sub_release [OF s1(1,2)] f by (auto simp: mx_transfer_submit_ctrl_def)
  next
    case (Inr u)
    let ?s = "s1\<lparr>queued := queued s1 @ [x1]\<rparr>"
    have "settled_sub [x1] ?s" using s1(1) by (simp add: settled_sub_def)
    note w = sub_wait [OF _ this, of e f]
    show ?thesis
    proof (cases nowait)
      case True
      have "settled_sub [] (?s\<lparr>io_refs := 1, works := [x1]\<rparr>)" using s1(1) f assms(7,8) by (simp add: settled_sub_def)
      then show ?thesis using assms(1,7,8) i Inr True s1(3) f assms(2)
        by (auto simp: mx_transfer_submit_ctrl_def mx_transfer_schedule_wait_def Let_def settled_sub_def)
    next
      case False
      then have "wait_transfer e f x1 ?s = (r, s')" using assms(1) i Inr by (simp add: mx_transfer_submit_ctrl_def Let_def)
      from w [OF this] s1(2,3) f assms(7) show ?thesis by (auto split: sum.split_asm)
    qed
  qed
qed

section \<open>Properties\<close>


definition sub_env_fails :: sub_env where
  "sub_env_fails = \<lparr>sgenv = \<lparr>ctx_alloc_ok = True, pages_alloc_ok = True, pin_result = Inr 3, table_result = OK, map_nents = 2\<rparr>, array_ok = True,
     slab_ok = (\<lambda>_. True), lease_get = (\<lambda>_. OK), create_cmd = (\<lambda>i. if i = 1 then (Inl ENOMEM, 2) else (OK, 1)), waited = (\<lambda>_. Finished),
     user_ptr = True, copy_out = False, dev_page_size = 4096, parallel_count = 6, parallel_split_ratio = 0, passthru_supported = True\<rparr>"


text \<open>A control request gives back what it took: reading or writing a doorbell word leaves nothing behind but the work item of a
  no-wait write or the zombie of a command the device may still answer, and reports the size it was asked for.\<close>

lemma control_balanced:
  assumes "read_ctrl_from_device e sz fpos sub_start = (r, s')" "write_ctrl_to_device e sz fpos nowait sub_start = (r2, s2)"
  shows "bal 0 (zombies s') s' \<and> (\<forall>n. r = Inr n \<longrightarrow> n = sz) \<and> bal 0 (works s2 @ zombies s2) s2 \<and> io_refs s2 = int (length (works s2)) \<and>
    (\<forall>n. r2 = Inr n \<longrightarrow> n = sz)"
proof -
  obtain o1 s1 where a: "alloc_transfer e 0 sz fpos sub_start = (o1, s1)" by (rule prod.exhaust)
  show ?thesis
  proof (cases o1)
    case None
    then have "s1 = sub_start" using a alloc_none(1) by blast
    then show ?thesis using assms a None bal_start
      by (auto simp: read_ctrl_from_device_def write_ctrl_to_device_def sub_start_def)
  next
    case (Some x)
    note al = bal_alloc [OF a [unfolded Some] bal_start]
    have f: "works s1 = []" "zombies s1 = []" "queued s1 = []" "io_refs s1 = 0" using a by (auto simp: alloc_transfer_def sub_start_def split: if_split_asm)
    have st: "settled_sub [x] s1" using al f by (simp add: settled_sub_def)
    have "mx_transfer_submit_ctrl e True x False s1 = (r, s')" "mx_transfer_submit_ctrl e False x nowait s1 = (r2, s2)"
      using assms a Some by (simp_all add: read_ctrl_from_device_def write_ctrl_to_device_def)
    note c = ctrl_ok [OF this(1) st] ctrl_ok [OF this(2) st]
    have "settled_sub [] s' \<and> works s' = [] \<and> (\<forall>n. r = Inr n \<longrightarrow> n = sz)" "settled_sub [] s2 \<and> (\<forall>n. r2 = Inr n \<longrightarrow> n = sz)"
      using c al f by auto
    then show ?thesis by (auto simp: settled_sub_def)
  qed
qed

text \<open>A control read into a user buffer would report success without delivering its result when the copy faults: the transfer is
  torn down and the size is returned. Into the kernel buffers that the callers use it delivers.\<close>

lemma ctrl_read_fault_reported_as_success:
  "\<exists>e s'. read_ctrl_from_device e 8 0 sub_start = (Inr 8, s') \<and> delivered s' = [] \<and> user_ptr e \<and> \<not> copy_out e"
proof (intro exI conjI)
  show "read_ctrl_from_device sub_env_fails 8 0 sub_start = (Inr 8, snd (read_ctrl_from_device sub_env_fails 8 0 sub_start))"
    "delivered (snd (read_ctrl_from_device sub_env_fails 8 0 sub_start)) = []" "user_ptr sub_env_fails" "\<not> copy_out sub_env_fails"
    by (simp_all add: read_ctrl_from_device_def alloc_transfer_def mx_transfer_submit_ctrl_def mx_transfer_init_ctrl_def wait_transfer_def
        mx_transfer_teardown_done_def mx_transfer_destroy_ctrl_def release_transfer_def sub_env_fails_def sub_start_def Let_def)
qed

end
