(* ===== verification/Fops.thy ===== *)
theory Fops
  imports Submit_Correct Lease_Ctl
begin

text \<open>
  The file operations of \<open>fops.c\<close> and the dispatch of \<open>ioctl.c\<close>: command numbers, routing through the lease, the data
  and passthrough ioctls, the event node and the node with the PCI address.  The mailbox and lease ioctls have their own theories.
\<close>

section \<open>Command numbers\<close>

text \<open>\<open>_IOC\<close> with the magic \<open>'X'\<close>; direction 1 is \<open>_IOW\<close>, 3 is \<open>_IOWR\<close>; the sizes are those of the argument structures.\<close>

definition MX_IOC :: "u32 \<Rightarrow> u32 \<Rightarrow> u32 \<Rightarrow> u32" where
  "MX_IOC dir nr sz = push_bit 30 dir OR push_bit 16 sz OR push_bit 8 0x58 OR nr"

definition MX_IOCTL_REGISTER_MBOX :: u32 where "MX_IOCTL_REGISTER_MBOX = MX_IOC 1 1 40"
definition MX_IOCTL_INIT_MBOX :: u32 where "MX_IOCTL_INIT_MBOX = MX_IOC 1 2 4"
definition MX_IOCTL_SEND_CMD_WITH_DATA :: u32 where "MX_IOCTL_SEND_CMD_WITH_DATA = MX_IOC 1 3 40"
definition MX_IOCTL_RECV_CMDS :: u32 where "MX_IOCTL_RECV_CMDS = MX_IOC 3 4 16"
definition MX_IOCTL_SEND_CMDS :: u32 where "MX_IOCTL_SEND_CMDS = MX_IOC 3 5 16"
definition MX_IOCTL_READ_DATA :: u32 where "MX_IOCTL_READ_DATA = MX_IOC 1 6 32"
definition MX_IOCTL_WRITE_DATA :: u32 where "MX_IOCTL_WRITE_DATA = MX_IOC 1 7 32"
definition MX_IOCTL_PASSTHRU_CMD :: u32 where "MX_IOCTL_PASSTHRU_CMD = MX_IOC 3 8 32"
definition MX_IOCTL_HIO_SEND :: u32 where "MX_IOCTL_HIO_SEND = MX_IOC 1 9 16"
definition MX_IOCTL_HIO_RECV :: u32 where "MX_IOCTL_HIO_RECV = MX_IOC 1 10 16"

definition MX_IOCTL_GET_LEASE_CAPS :: u32 where "MX_IOCTL_GET_LEASE_CAPS = MX_IOC 2 12 64"
definition MX_IOCTL_QUERY_LEASE :: u32 where "MX_IOCTL_QUERY_LEASE = MX_IOC 3 13 128"
definition MX_IOCTL_ACQUIRE_LEASE :: u32 where "MX_IOCTL_ACQUIRE_LEASE = MX_IOC 3 14 128"
definition MX_IOCTL_TRANSITION_LEASE :: u32 where "MX_IOCTL_TRANSITION_LEASE = MX_IOC 3 15 96"
definition MX_IOCTL_WORKLOAD_PROOFS :: u32 where "MX_IOCTL_WORKLOAD_PROOFS = MX_IOC 3 16 128"
definition MX_IOCTL_ANCHOR_SLOT_DOMAIN :: u32 where "MX_IOCTL_ANCHOR_SLOT_DOMAIN = MX_IOC 3 17 64"

lemmas ioctl_numbers = MX_IOC_def MX_IOCTL_REGISTER_MBOX_def MX_IOCTL_INIT_MBOX_def MX_IOCTL_SEND_CMD_WITH_DATA_def MX_IOCTL_RECV_CMDS_def
  MX_IOCTL_SEND_CMDS_def MX_IOCTL_READ_DATA_def MX_IOCTL_WRITE_DATA_def MX_IOCTL_PASSTHRU_CMD_def MX_IOCTL_HIO_SEND_def MX_IOCTL_HIO_RECV_def
  MX_IOCTL_GET_LEASE_CAPS_def MX_IOCTL_QUERY_LEASE_def MX_IOCTL_ACQUIRE_LEASE_def MX_IOCTL_TRANSITION_LEASE_def MX_IOCTL_WORKLOAD_PROOFS_def
  MX_IOCTL_ANCHOR_SLOT_DOMAIN_def

abbreviation (input) all_ioctls :: "u32 list" where
  "all_ioctls \<equiv> [MX_IOCTL_REGISTER_MBOX, MX_IOCTL_INIT_MBOX, MX_IOCTL_SEND_CMD_WITH_DATA, MX_IOCTL_RECV_CMDS, MX_IOCTL_SEND_CMDS,
     MX_IOCTL_READ_DATA, MX_IOCTL_WRITE_DATA, MX_IOCTL_PASSTHRU_CMD, MX_IOCTL_HIO_SEND, MX_IOCTL_HIO_RECV,
     MX_IOCTL_GET_LEASE_CAPS, MX_IOCTL_QUERY_LEASE, MX_IOCTL_ACQUIRE_LEASE, MX_IOCTL_TRANSITION_LEASE, MX_IOCTL_WORKLOAD_PROOFS,
     MX_IOCTL_ANCHOR_SLOT_DOMAIN]"

definition mx_lease_ioctl_cmd :: "u32 \<Rightarrow> bool" where
  "mx_lease_ioctl_cmd cmd \<longleftrightarrow> cmd = MX_IOCTL_GET_LEASE_CAPS \<or> cmd = MX_IOCTL_QUERY_LEASE \<or> cmd = MX_IOCTL_ACQUIRE_LEASE \<or>
     cmd = MX_IOCTL_TRANSITION_LEASE \<or> cmd = MX_IOCTL_WORKLOAD_PROOFS \<or> cmd = MX_IOCTL_ANCHOR_SLOT_DOMAIN"

definition mx_ioctl_is_direct_cmd :: "u32 \<Rightarrow> bool" where
  "mx_ioctl_is_direct_cmd cmd \<longleftrightarrow> cmd \<in> {MX_IOCTL_REGISTER_MBOX, MX_IOCTL_INIT_MBOX, MX_IOCTL_SEND_CMD_WITH_DATA, MX_IOCTL_RECV_CMDS, MX_IOCTL_SEND_CMDS,
     MX_IOCTL_READ_DATA, MX_IOCTL_WRITE_DATA, MX_IOCTL_PASSTHRU_CMD, MX_IOCTL_HIO_SEND, MX_IOCTL_HIO_RECV}"

datatype ioctl_handler = H_register_mbox | H_init_mbox | H_send_cmd_with_data | H_recv_cmds | H_send_cmds | H_read_data | H_write_data
  | H_passthru_cmd | H_hio_send | H_hio_recv

text \<open>The two switches of \<open>ioctl_to_device\<close>; \<open>None\<close> is the default branch, which answers \<open>EINVAL\<close>.\<close>

definition ioctl_switch :: "u32 \<Rightarrow> ioctl_handler option" where
  "ioctl_switch cmd =
     (if cmd = MX_IOCTL_REGISTER_MBOX then Some H_register_mbox
      else if cmd = MX_IOCTL_INIT_MBOX then Some H_init_mbox
      else if cmd = MX_IOCTL_SEND_CMD_WITH_DATA then Some H_send_cmd_with_data
      else if cmd = MX_IOCTL_RECV_CMDS then Some H_recv_cmds
      else if cmd = MX_IOCTL_SEND_CMDS then Some H_send_cmds
      else if cmd = MX_IOCTL_READ_DATA then Some H_read_data
      else if cmd = MX_IOCTL_WRITE_DATA then Some H_write_data
      else if cmd = MX_IOCTL_PASSTHRU_CMD then Some H_passthru_cmd
      else if cmd = MX_IOCTL_HIO_SEND then Some H_hio_send
      else if cmd = MX_IOCTL_HIO_RECV then Some H_hio_recv
      else None)"

text \<open>The switch of \<open>mx_lease_ioctl\<close>, whose default answers \<open>ENOTTY\<close>.\<close>

datatype lease_handler = L_get_caps | L_query | L_acquire | L_transition | L_workload_proofs | L_anchor_slot_domain

definition lease_switch :: "u32 \<Rightarrow> lease_handler option" where
  "lease_switch cmd =
     (if cmd = MX_IOCTL_GET_LEASE_CAPS then Some L_get_caps
      else if cmd = MX_IOCTL_QUERY_LEASE then Some L_query
      else if cmd = MX_IOCTL_ACQUIRE_LEASE then Some L_acquire
      else if cmd = MX_IOCTL_TRANSITION_LEASE then Some L_transition
      else if cmd = MX_IOCTL_WORKLOAD_PROOFS then Some L_workload_proofs
      else if cmd = MX_IOCTL_ANCHOR_SLOT_DOMAIN then Some L_anchor_slot_domain
      else None)"

section \<open>Routing\<close>

text \<open>The calls a file operation makes, in order.\<close>

datatype fop_call = Prepare | Finish | Lease_handler lease_handler | Direct_begin | Direct_end | Prewake | Handler ioctl_handler | Bar_mmap

record fop_env =
  prepared :: "unit result"
  direct_begun :: "unit result"
  lease_handled :: "lease_handler \<Rightarrow> int result"
  handled :: "ioctl_handler \<Rightarrow> int result"
  mapped :: "unit result"

definition ioctl_to_device :: "fop_env \<Rightarrow> u32 \<Rightarrow> int result \<times> fop_call list" where
  "ioctl_to_device e cmd = (case ioctl_switch cmd of None \<Rightarrow> (Inl EINVAL, []) | Some h \<Rightarrow> (handled e h, [Handler h]))"

definition mx_lease_ioctl :: "fop_env \<Rightarrow> u32 \<Rightarrow> int result \<times> fop_call list" where
  "mx_lease_ioctl e cmd = (case lease_switch cmd of None \<Rightarrow> (Inl ENOTTY, []) | Some h \<Rightarrow> (lease_handled e h, [Lease_handler h]))"

definition mxdma_device_ioctl :: "fop_env \<Rightarrow> u32 \<Rightarrow> int result \<times> fop_call list" where
  "mxdma_device_ioctl e cmd =
     (case prepared e of
        Inl r \<Rightarrow> (Inl r, [Prepare])
      | Inr _ \<Rightarrow>
          (case (if mx_lease_ioctl_cmd cmd then mx_lease_ioctl e cmd
                 else if \<not> mx_ioctl_is_direct_cmd cmd then ioctl_to_device e cmd
                 else case direct_begun e of
                        Inl r \<Rightarrow> (Inl r, [Direct_begin])
                      | Inr _ \<Rightarrow> (case ioctl_to_device e cmd of (r, cs) \<Rightarrow> (r, [Direct_begin, Prewake] @ cs @ [Direct_end])))
           of (r, cs) \<Rightarrow> (r, Prepare # cs @ [Finish])))"

text \<open>A 32-bit caller reaches the lease only.\<close>

definition mxdma_device_compat_ioctl :: "fop_env \<Rightarrow> u32 \<Rightarrow> int result \<times> fop_call list" where
  "mxdma_device_compat_ioctl e cmd = (if \<not> mx_lease_ioctl_cmd cmd then (Inl ENOIOCTLCMD, []) else mxdma_device_ioctl e cmd)"

definition mxdma_bar_mmap :: "fop_env \<Rightarrow> unit result \<times> fop_call list" where
  "mxdma_bar_mmap e =
     (case prepared e of
        Inl r \<Rightarrow> (Inl r, [Prepare])
      | Inr _ \<Rightarrow>
          (case direct_begun e of
             Inl r \<Rightarrow> (Inl r, [Prepare, Direct_begin, Finish])
           | Inr _ \<Rightarrow> (mapped e, [Prepare, Direct_begin, Bar_mmap, Direct_end, Finish])))"

text \<open>The guards a trace of calls goes through, and what each call needs: the state is whether the device is prepared and whether direct
  access has been begun, and \<open>None\<close> is a call made without its guard, a guard given back that is not held, or taken twice.\<close>

fun guard_run :: "fop_env \<Rightarrow> bool \<times> bool \<Rightarrow> fop_call list \<Rightarrow> (bool \<times> bool) option" where
  "guard_run e g [] = Some g"
| "guard_run e (p, d) (Prepare # cs) = (if p then None else guard_run e (prepared e = OK, d) cs)"
| "guard_run e (p, d) (Direct_begin # cs) = (if \<not> p \<or> d then None else guard_run e (p, direct_begun e = OK) cs)"
| "guard_run e (p, d) (Direct_end # cs) = (if \<not> d then None else guard_run e (p, False) cs)"
| "guard_run e (p, d) (Finish # cs) = (if \<not> p \<or> d then None else guard_run e (False, d) cs)"
| "guard_run e (p, d) (Lease_handler h # cs) = (if \<not> p \<or> d then None else guard_run e (p, d) cs)"
| "guard_run e (p, d) (Prewake # cs) = (if \<not> p \<or> \<not> d then None else guard_run e (p, d) cs)"
| "guard_run e (p, d) (Handler h # cs) = (if \<not> p \<or> \<not> d then None else guard_run e (p, d) cs)"
| "guard_run e (p, d) (Bar_mmap # cs) = (if \<not> p \<or> \<not> d then None else guard_run e (p, d) cs)"

lemma ioctl_numbers_distinct: "distinct all_ioctls"
  by (simp add: ioctl_numbers)

lemma switch_lists:
  "mx_ioctl_is_direct_cmd cmd \<longleftrightarrow> ioctl_switch cmd \<noteq> None" "mx_lease_ioctl_cmd cmd \<longleftrightarrow> lease_switch cmd \<noteq> None"
  "\<not> (mx_ioctl_is_direct_cmd cmd \<and> mx_lease_ioctl_cmd cmd)"
proof -
  show "mx_ioctl_is_direct_cmd cmd \<longleftrightarrow> ioctl_switch cmd \<noteq> None" "mx_lease_ioctl_cmd cmd \<longleftrightarrow> lease_switch cmd \<noteq> None"
    unfolding mx_ioctl_is_direct_cmd_def ioctl_switch_def mx_lease_ioctl_cmd_def lease_switch_def by (simp_all split: if_split)
  show "\<not> (mx_ioctl_is_direct_cmd cmd \<and> mx_lease_ioctl_cmd cmd)"
    unfolding mx_ioctl_is_direct_cmd_def mx_lease_ioctl_cmd_def using ioctl_numbers_distinct by auto
qed

lemma ioctl_outcome:
  "mxdma_device_ioctl e cmd =
     (case (prepared e, lease_switch cmd, ioctl_switch cmd) of
        (Inl r, _, _) \<Rightarrow> (Inl r, [Prepare])
      | (_, Some h, _) \<Rightarrow> (lease_handled e h, [Prepare, Lease_handler h, Finish])
      | (_, _, None) \<Rightarrow> (Inl EINVAL, [Prepare, Finish])
      | (_, _, Some h) \<Rightarrow> (case direct_begun e of
            Inl r \<Rightarrow> (Inl r, [Prepare, Direct_begin, Finish])
          | Inr _ \<Rightarrow> (handled e h, [Prepare, Direct_begin, Prewake, Handler h, Direct_end, Finish])))"
  using switch_lists [of cmd]
  by (cases "prepared e"; cases "lease_switch cmd"; cases "ioctl_switch cmd"; cases "direct_begun e")
    (simp_all add: mxdma_device_ioctl_def ioctl_to_device_def mx_lease_ioctl_def)

lemma ioctl_guarded:
  "guard_run e (False, False) (snd (mxdma_device_ioctl e cmd)) = Some (False, False)"
  "guard_run e (False, False) (snd (mxdma_device_compat_ioctl e cmd)) = Some (False, False)"
  "guard_run e (False, False) (snd (mxdma_bar_mmap e)) = Some (False, False)"
proof -
  show i: "guard_run e (False, False) (snd (mxdma_device_ioctl e cmd)) = Some (False, False)"
    unfolding ioctl_outcome
    by (cases "prepared e"; cases "lease_switch cmd"; cases "ioctl_switch cmd"; cases "direct_begun e") simp_all
  then show "guard_run e (False, False) (snd (mxdma_device_compat_ioctl e cmd)) = Some (False, False)"
    by (simp add: mxdma_device_compat_ioctl_def)
  show "guard_run e (False, False) (snd (mxdma_bar_mmap e)) = Some (False, False)"
    by (cases "prepared e"; cases "direct_begun e") (simp_all add: mxdma_bar_mmap_def)
qed

text \<open>C38. Every command reaches its own handler under the right guard. The sixteen numbers differ and each is tied to the handler of its
  name; the lists that decide which commands need direct access and which belong to the lease are exactly those the two switches
  handle, and have nothing in common. On every path of the ioctl, of its 32-bit entry and of the BAR mapping, a data or mailbox handler, the wake-up of
  the handlers and the mapping run only on a prepared device with direct access begun, a lease handler on a prepared device without
  it, and every guard that was taken is given back exactly once, direct access before the device. The caller gets the answer of the handler, of
  the first guard that refuses, or \<open>EINVAL\<close> for a command nobody knows, and then no handler runs. A 32-bit caller reaches the lease only.\<close>

theorem ioctl_routed:
  "distinct all_ioctls \<and>
   map ioctl_switch [MX_IOCTL_REGISTER_MBOX, MX_IOCTL_INIT_MBOX, MX_IOCTL_SEND_CMD_WITH_DATA, MX_IOCTL_RECV_CMDS, MX_IOCTL_SEND_CMDS,
     MX_IOCTL_READ_DATA, MX_IOCTL_WRITE_DATA, MX_IOCTL_PASSTHRU_CMD, MX_IOCTL_HIO_SEND, MX_IOCTL_HIO_RECV] =
     map Some [H_register_mbox, H_init_mbox, H_send_cmd_with_data, H_recv_cmds, H_send_cmds,
     H_read_data, H_write_data, H_passthru_cmd, H_hio_send, H_hio_recv] \<and>
   map lease_switch [MX_IOCTL_GET_LEASE_CAPS, MX_IOCTL_QUERY_LEASE, MX_IOCTL_ACQUIRE_LEASE, MX_IOCTL_TRANSITION_LEASE,
     MX_IOCTL_WORKLOAD_PROOFS, MX_IOCTL_ANCHOR_SLOT_DOMAIN] =
     map Some [L_get_caps, L_query, L_acquire, L_transition, L_workload_proofs, L_anchor_slot_domain] \<and>
   (mx_ioctl_is_direct_cmd cmd \<longleftrightarrow> ioctl_switch cmd \<noteq> None) \<and> (mx_lease_ioctl_cmd cmd \<longleftrightarrow> lease_switch cmd \<noteq> None) \<and>
   \<not> (mx_ioctl_is_direct_cmd cmd \<and> mx_lease_ioctl_cmd cmd) \<and>
   guard_run e (False, False) (snd (mxdma_device_ioctl e cmd)) = Some (False, False) \<and>
   guard_run e (False, False) (snd (mxdma_device_compat_ioctl e cmd)) = Some (False, False) \<and>
   guard_run e (False, False) (snd (mxdma_bar_mmap e)) = Some (False, False) \<and>
   mxdma_device_ioctl e cmd =
     (case (prepared e, lease_switch cmd, ioctl_switch cmd) of
        (Inl r, _, _) \<Rightarrow> (Inl r, [Prepare])
      | (_, Some h, _) \<Rightarrow> (lease_handled e h, [Prepare, Lease_handler h, Finish])
      | (_, _, None) \<Rightarrow> (Inl EINVAL, [Prepare, Finish])
      | (_, _, Some h) \<Rightarrow> (case direct_begun e of
            Inl r \<Rightarrow> (Inl r, [Prepare, Direct_begin, Finish])
          | Inr _ \<Rightarrow> (handled e h, [Prepare, Direct_begin, Prewake, Handler h, Direct_end, Finish]))) \<and>
   mxdma_device_compat_ioctl e cmd =
     (if lease_switch cmd = None then (Inl ENOIOCTLCMD, []) else mxdma_device_ioctl e cmd) \<and>
   Handler h \<notin> set (snd (mxdma_device_compat_ioctl e cmd)) \<and>
   filter (\<lambda>c. c = Bar_mmap) (snd (mxdma_bar_mmap e)) =
     (if prepared e = OK \<and> direct_begun e = OK then [Bar_mmap] else []) \<and>
   fst (mxdma_bar_mmap e) =
     (case prepared e of Inl r \<Rightarrow> Inl r | Inr _ \<Rightarrow> (case direct_begun e of Inl r \<Rightarrow> Inl r | Inr _ \<Rightarrow> mapped e))"
proof (intro conjI ioctl_guarded switch_lists ioctl_numbers_distinct ioctl_outcome)
  show "map ioctl_switch [MX_IOCTL_REGISTER_MBOX, MX_IOCTL_INIT_MBOX, MX_IOCTL_SEND_CMD_WITH_DATA, MX_IOCTL_RECV_CMDS, MX_IOCTL_SEND_CMDS,
     MX_IOCTL_READ_DATA, MX_IOCTL_WRITE_DATA, MX_IOCTL_PASSTHRU_CMD, MX_IOCTL_HIO_SEND, MX_IOCTL_HIO_RECV] =
     map Some [H_register_mbox, H_init_mbox, H_send_cmd_with_data, H_recv_cmds, H_send_cmds,
     H_read_data, H_write_data, H_passthru_cmd, H_hio_send, H_hio_recv]"
    by (simp add: ioctl_switch_def ioctl_numbers)
  show "map lease_switch [MX_IOCTL_GET_LEASE_CAPS, MX_IOCTL_QUERY_LEASE, MX_IOCTL_ACQUIRE_LEASE, MX_IOCTL_TRANSITION_LEASE,
     MX_IOCTL_WORKLOAD_PROOFS, MX_IOCTL_ANCHOR_SLOT_DOMAIN] =
     map Some [L_get_caps, L_query, L_acquire, L_transition, L_workload_proofs, L_anchor_slot_domain]"
    by (simp add: lease_switch_def ioctl_numbers)
  show c: "mxdma_device_compat_ioctl e cmd = (if lease_switch cmd = None then (Inl ENOIOCTLCMD, []) else mxdma_device_ioctl e cmd)"
    using switch_lists(2) [of cmd] by (simp add: mxdma_device_compat_ioctl_def)
  show "Handler h \<notin> set (snd (mxdma_device_compat_ioctl e cmd))"
    unfolding c ioctl_outcome by (cases "prepared e"; cases "lease_switch cmd") simp_all
  show "filter (\<lambda>c. c = Bar_mmap) (snd (mxdma_bar_mmap e)) = (if prepared e = OK \<and> direct_begun e = OK then [Bar_mmap] else [])"
    "fst (mxdma_bar_mmap e) =
       (case prepared e of Inl r \<Rightarrow> Inl r | Inr _ \<Rightarrow> (case direct_begun e of Inl r \<Rightarrow> Inl r | Inr _ \<Rightarrow> mapped e))"
    by (cases "prepared e"; cases "direct_begun e"; simp add: mxdma_bar_mmap_def)+
qed

section \<open>Data ioctls\<close>

record mx_ioctl_data =
  d_user_addr :: nat
  d_device_addr :: nat
  d_size :: nat
  d_no_wait :: bool

text \<open>\<open>None\<close> is an argument that cannot be copied in.\<close>

definition ioctl_read_data :: "sub_env \<Rightarrow> mx_ioctl_data option \<Rightarrow> sub_state \<Rightarrow> unit result \<times> sub_state" where
  "ioctl_read_data e arg s =
     (case arg of
        None \<Rightarrow> (Inl EFAULT, s)
      | Some a \<Rightarrow>
          if d_size a = 0 \<or> d_user_addr a = 0 then (Inl EINVAL, s)
          else (case read_data_from_device_parallel e (d_user_addr a) (d_size a) (d_device_addr a) s of
                  (Inl r, s) \<Rightarrow> (Inl r, s)
                | (Inr _, s) \<Rightarrow> (OK, s)))"

definition ioctl_write_data :: "sub_env \<Rightarrow> mx_ioctl_data option \<Rightarrow> sub_state \<Rightarrow> unit result \<times> sub_state" where
  "ioctl_write_data e arg s =
     (case arg of
        None \<Rightarrow> (Inl EFAULT, s)
      | Some a \<Rightarrow>
          if d_size a = 0 \<or> d_user_addr a = 0 then (Inl EINVAL, s)
          else (case write_data_to_device_parallel e (d_user_addr a) (d_size a) (d_device_addr a) (d_no_wait a) s of
                  (Inl r, s) \<Rightarrow> (Inl r, s)
                | (Inr _, s) \<Rightarrow> (OK, s)))"

record mx_ioctl_passthru_cmd =
  p_device_addr :: nat
  p_size :: nat
  p_subopcode :: u16
  p_no_completion :: bool

definition ioctl_passthru_cmd :: "sub_env \<Rightarrow> mx_file_ctx option \<Rightarrow> bool \<Rightarrow> mx_ioctl_passthru_cmd option \<Rightarrow> sub_state \<Rightarrow> unit result \<times> sub_state" where
  "ioctl_passthru_cmd e ctx answer_ok arg s =
     (case arg of
        None \<Rightarrow> (Inl EFAULT, s)
      | Some a \<Rightarrow>
          if p_subopcode a > 0xF then (Inl EINVAL, s)
          else case mx_lease_authorize_memory_cmd ctx (p_subopcode a) of
                 Inl r \<Rightarrow> (Inl r, s)
               | Inr _ \<Rightarrow>
                   (case (if p_no_completion a then mx_lease_authorize_no_completion ctx else OK) of
                      Inl r \<Rightarrow> (Inl r, s)
                    | Inr _ \<Rightarrow>
                        (case submit_passthru_command e (p_device_addr a) (p_size a) (p_no_completion a) s of
                           (Inl r, s) \<Rightarrow> (Inl r, s)
                         | (Inr _, s) \<Rightarrow> if answer_ok then (OK, s) else (Inl EFAULT, s))))"

text \<open>Unlike the other data ioctls the size is the result.\<close>

definition ioctl_hio_protocol :: "sub_env \<Rightarrow> (nat \<times> nat) option \<Rightarrow> sub_state \<Rightarrow> nat result \<times> sub_state" where
  "ioctl_hio_protocol e arg s =
     (case arg of
        None \<Rightarrow> (Inl EFAULT, s)
      | Some (buf, sz) \<Rightarrow> if buf = 0 then (Inl EINVAL, s) else submit_protocol_transfer e buf sz s)"

text \<open>Refused requests submit nothing; commands without a completion are never let through.\<close>

lemma passthru_refused:
  "\<lbrakk> arg = Some a; p_subopcode a > 0xF \<or> p_no_completion a \<or> mx_lease_authorize_memory_cmd ctx (p_subopcode a) \<noteq> OK \<rbrakk> \<Longrightarrow>
     snd (ioctl_passthru_cmd e ctx answer_ok arg s) = s \<and> fst (ioctl_passthru_cmd e ctx answer_ok arg s) \<noteq> OK"
  by (auto simp: ioctl_passthru_cmd_def mx_lease_authorize_no_completion_def split: sum.split)

section \<open>The event node\<close>

text \<open>
  \<open>ev_count\<close> is \<open>event.count\<close> (it does not get near the bounds of an \<open>int\<close>).  \<open>irqs\<close> and \<open>reports\<close> are not state of the driver: they count
  the interrupts and the polls that were told of one.
\<close>

record ev_state =
  ev_count :: int
  ev_gone :: bool      \<comment> \<open>\<open>io_ref\<close> is dying or the lease says removed\<close>
  irqs :: nat
  reports :: nat

datatype poll_mask = POLL_NOTHING | POLL_IN | POLL_ERR | POLL_ERR_HUP

definition msi_irq_handler :: "ev_state \<Rightarrow> ev_state" where
  "msi_irq_handler s = s\<lparr>ev_count := ev_count s + 1, irqs := irqs s + 1\<rparr>"

text \<open>The read and the decrement of the count are two atomic steps.\<close>

definition poll_check :: "ev_state \<Rightarrow> poll_mask" where
  "poll_check s = (if ev_gone s then POLL_ERR_HUP else if 0 < ev_count s then POLL_IN else POLL_NOTHING)"

definition poll_take :: "ev_state \<Rightarrow> ev_state" where
  "poll_take s = s\<lparr>ev_count := ev_count s - 1, reports := reports s + 1\<rparr>"

definition mxdma_device_poll :: "unit result \<Rightarrow> ev_state \<Rightarrow> poll_mask \<times> ev_state" where
  "mxdma_device_poll prep s =
     (case prep of
        Inl r \<Rightarrow> (if r = ENODEV then POLL_ERR_HUP else POLL_ERR, s)
      | Inr _ \<Rightarrow> (poll_check s, if poll_check s = POLL_IN then poll_take s else s))"

text \<open>One poll at a time.\<close>

datatype ev_event = Ev_irq | Ev_poll "unit result" | Ev_remove

fun ev_step :: "ev_event \<Rightarrow> ev_state \<Rightarrow> ev_state" where
  "ev_step Ev_irq s = msi_irq_handler s"
| "ev_step (Ev_poll prep) s = snd (mxdma_device_poll prep s)"
| "ev_step Ev_remove s = s\<lparr>ev_gone := True\<rparr>"

definition ev_start :: ev_state where
  "ev_start = \<lparr>ev_count = 0, ev_gone = False, irqs = 0, reports = 0\<rparr>"

lemma ev_conserved: "int (irqs s) = ev_count s + int (reports s) \<and> 0 \<le> ev_count s \<Longrightarrow>
    int (irqs (fold ev_step evs s)) = ev_count (fold ev_step evs s) + int (reports (fold ev_step evs s)) \<and> 0 \<le> ev_count (fold ev_step evs s)"
proof (induction evs arbitrary: s)
  case (Cons ev evs)
  have "int (irqs (ev_step ev s)) = ev_count (ev_step ev s) + int (reports (ev_step ev s)) \<and> 0 \<le> ev_count (ev_step ev s)"
    using Cons.prems by (cases ev) (auto simp: msi_irq_handler_def mxdma_device_poll_def poll_check_def poll_take_def split: sum.split)
  from Cons.IH [OF this] show ?case by simp
qed simp

text \<open>Polls that do not overlap lose no interrupt: after any sequence of interrupts and polls, the polls that reported an event are
  at most as many as the interrupts, the count is what is still to be reported, and a poll of a live device reports an event exactly
  when there is one. After removal every poll reports an error, also one that was already past its preparation.\<close>

theorem events_conserved:
  "let s = fold ev_step evs ev_start in
     int (irqs s) = ev_count s + int (reports s) \<and> 0 \<le> ev_count s \<and>
     fst (mxdma_device_poll OK s) = (if ev_gone s then POLL_ERR_HUP else if reports s < irqs s then POLL_IN else POLL_NOTHING) \<and>
     fst (mxdma_device_poll (Inl ENODEV) s) = POLL_ERR_HUP"
proof -
  have "int (irqs ev_start) = ev_count ev_start + int (reports ev_start) \<and> 0 \<le> ev_count ev_start" by (simp add: ev_start_def)
  from ev_conserved [OF this, of evs] show ?thesis by (auto simp: Let_def mxdma_device_poll_def poll_check_def)
qed

text \<open>Overlapping polls: each poller may be between its check and its decrement.\<close>

inductive ev_race :: "ev_state \<times> nat set \<Rightarrow> bool" where
  start: "ev_race (ev_start, {})"
| irq: "ev_race (s, P) \<Longrightarrow> ev_race (msi_irq_handler s, P)"
| check: "\<lbrakk> ev_race (s, P); p \<notin> P; poll_check s = POLL_IN \<rbrakk> \<Longrightarrow> ev_race (s, insert p P)"
| take_one: "\<lbrakk> ev_race (s, P); p \<in> P \<rbrakk> \<Longrightarrow> ev_race (poll_take s, P - {p})"

text \<open>C39. Two overlapping polls can lose an interrupt: both see the one event before either takes it, the count drops below zero, and
  the next interrupt, which arrives after both polls have returned, only brings it back to zero, so that no poll reports it.\<close>

theorem poll_race_loses_interrupt:
  "\<exists>s. ev_race (s, {}) \<and> irqs s = 1 \<and> reports s = 2 \<and> ev_race (msi_irq_handler s, {}) \<and>
     fst (mxdma_device_poll OK (msi_irq_handler s)) = POLL_NOTHING"
proof -
  let ?s = "poll_take (poll_take (msi_irq_handler ev_start))"
  have 1: "ev_race (msi_irq_handler ev_start, {})" by (intro ev_race.intros)
  have "ev_race (msi_irq_handler ev_start, insert 1 {0})"
    by (rule ev_race.check, rule ev_race.check [OF 1]) (simp_all add: poll_check_def msi_irq_handler_def ev_start_def)
  from ev_race.take_one [OF ev_race.take_one [OF this, of 0], of 1]
  have "ev_race (?s, insert 1 {0} - {0} - {1})" by simp
  moreover have "insert 1 {0::nat} - {0} - {1} = {}" by auto
  ultimately have r: "ev_race (?s, {})" by metis
  then have "ev_race (msi_irq_handler ?s, {})" by (rule ev_race.irq)
  then show ?thesis using r
    by (intro exI [of _ ?s]) (simp add: msi_irq_handler_def poll_take_def ev_start_def mxdma_device_poll_def poll_check_def)
qed

section \<open>The node with the PCI address\<close>

text \<open>\<open>scnprintf\<close> into 32 bytes, and what \<open>simple_read_from_buffer\<close> answers: the bytes and the new position.\<close>

definition bdf_line :: "string \<Rightarrow> string" where
  "bdf_line bdf = take 31 (bdf @ [CHR 0x0A])"

definition mxdma_bdf_read :: "unit result \<Rightarrow> string \<Rightarrow> nat \<Rightarrow> nat \<Rightarrow> (string \<times> nat) result" where
  "mxdma_bdf_read prep bdf n pos =
     (case prep of
        Inl r \<Rightarrow> Inl r
      | Inr _ \<Rightarrow> let chunk = take n (drop pos (bdf_line bdf)) in Inr (chunk, pos + length chunk))"

fun bdf_reads :: "string \<Rightarrow> nat list \<Rightarrow> nat \<Rightarrow> string" where
  "bdf_reads bdf [] pos = []"
| "bdf_reads bdf (n # ns) pos =
     (case mxdma_bdf_read OK bdf n pos of Inl _ \<Rightarrow> [] | Inr (chunk, pos) \<Rightarrow> chunk @ bdf_reads bdf ns pos)"

lemma bdf_reads_line: "bdf_reads bdf ns pos = take (sum_list ns) (drop pos (bdf_line bdf))"
proof (induction ns arbitrary: pos)
  case (Cons n ns)
  let ?l = "bdf_line bdf"
  have "drop (pos + min n (length ?l - pos)) ?l = drop n (drop pos ?l)" by (cases "n \<le> length ?l - pos") (simp_all add: add.commute)
  then show ?case using Cons.IH by (simp add: mxdma_bdf_read_def Let_def take_add min.commute)
qed simp


end
