(* ===== verification/Spec2Isabelle.thy ===== *)
theory Spec2Isabelle
  imports Lifetime_Correct Lease_Proofs_Correct Attach_Props Handlers Desc_Pool Parallel Sysfs Fops
begin

text \<open>
  Verification of the mxdriver kernel module (\<open>src/\<close>), a PCIe/CXL DMA driver.

  \<^bold>\<open>The program.\<close> A user process opens one of the device's nodes (\<open>fops.c\<close>) and issues ioctls (\<open>ioctl.c\<close>): data
  transfers, mailbox commands, pass-through and protocol commands, or requests to the lease (\<open>lease.c\<close>, \<open>lease_sm.h\<close>), which decides who
  may use the device directly. A data request pins and maps the user buffer, is cut into slices, and each slice becomes a
  transfer with a hardware command and a chain of descriptor pages (\<open>transfer.c\<close>, \<open>core_common.c\<close>, \<open>core_v1.c\<close>, \<open>core_v2.c\<close>). Two
  kernel threads push the commands into the hardware queue and pop completions (\<open>core_common.c\<close>); transfers are found by id
  (\<open>helper.c\<close>); a transfer that times out after it reached the device becomes a zombie that a third thread reclaims. Version 1
  hardware uses the mailboxes of \<open>mbox.c\<close>, version 2 uses rings in memory that are created through an admin queue (\<open>core_v2.c\<close>).
  \<open>init.c\<close> attaches and detaches PCI functions and stops the device.

  \<^bold>\<open>The theories\<close>, bottom up. Structures are records with the source's field names (prefixed where they would clash), enums with data are
  datatypes, fixed-width counters and registers are words, errors are the left summand of \<^typ>\<open>'a result\<close>. Functions keep their C names; a
  suffix \<open>_v1\<close> or \<open>_v2\<close> tells apart functions of the same name in \<open>core_v1.c\<close> and \<open>core_v2.c\<close>. A function that drops its lock
  in the middle is split at that point, so that other steps can come in between.

  \<^item> \<open>Mx_Prelude\<close>: integer types, errno values, results, counting in lists, word increments.
  \<^item> \<open>Lease_Abi\<close>, \<open>Lease_SM\<close>, \<open>Lease_Inv\<close>: the ABI constants, every function of \<open>lease_sm.h\<close>, and the state machine over all open files
    of a device. The contract \<open>lease_op\<close> is interpreted for each operation; the counters equal a scan of all holders, one
    publisher at most, quiescence excludes everybody else and ends only with the device drained or the lease given up.
  \<^item> \<open>Lease_Ctl\<close>, \<open>Lease_Proofs\<close>, \<open>Lease_Dev\<close>, \<open>Lease_Ctl_Correct\<close>, \<open>Lease_Proofs_Correct\<close>: the handlers of \<open>lease.c\<close> with both of their
    lock sections (\<open>mid\<close> is what other callers do in between), reclamation proofs with their file references, and
    the contract \<open>ctl_op\<close> interpreted for every section; reachable devices are consistent, an acquire is sound, a transfer carries the
    proofs of its profile, and a bind balances its file references whatever another thread does to the same files meanwhile.
  \<^item> \<open>Mbox\<close>, \<open>Mbox_Ioctl\<close>, \<open>Mbox_Fifo\<close>: ring arithmetic with lap bits (\<open>mbox.c\<close>) and the mailbox ioctls, as a queue of words.
  \<^item> \<open>Prp\<close>, \<open>Prp_Correct\<close>, \<open>Desc_Pool\<close>, \<open>Command\<close>: descriptor lists and the commands of both versions. The device side (\<open>device_chain\<close>,
    \<open>v2_device_bytes\<close>, \<open>v1_device_bytes\<close>) is a specification after the comments of the source; the theorems say that it reads back exactly
    the bytes of the slice, that no store leaves the allocated pages, and that the pages of a list go back to the pool exactly once.
  \<^item> \<open>Split\<close>, \<open>Submit\<close>, \<open>Submit_Correct\<close>, \<open>Parallel\<close>: the shared mapping, the number and the tiling of slices, every submit path
    of \<open>transfer.c\<close> with the resources it takes and gives back (down to the array of transfer pointers), and the equivalence of parallel with single submission.
  \<^item> \<open>Hw_Queue\<close>, \<open>Queue_V2\<close>, \<open>Queue_Ops\<close>, \<open>Liveness\<close>, \<open>Handlers\<close>, \<open>Sysfs\<close>: the hardware queues of both versions, the ring protocol
    against a device that follows the phase and doorbell rules, the contracts \<open>submit_ops\<close> and \<open>complete_ops\<close> (the interface
    \<open>struct mx_queue_ops\<close>) with their extensions \<open>submit_handler\<close> and \<open>complete_handler\<close>, interpreted for both versions. What a submission
    has announced is read off the device's side: the tail doorbell of version 2, the context words written to the mailbox registers of
    version 1. The watchdog, the backoff, one round of each handler thread, and on top of the rounds the sysfs attributes of the watchdog.
  \<^item> \<open>Xfer\<close>, \<open>Xfer_Inv\<close>, \<open>Xfer_Correct\<close>: ids, queueing, pushing, completion, time-out, recovery and zombies as steps of one system in every
    interleaving (\<open>xfer_reachable\<close>).
  \<^item> \<open>Lifetime\<close>, \<open>Lifetime_Inv\<close>, \<open>Lifetime_Correct\<close>: reference counts of device, open files, BAR mappings, running operations and
    the queued wait work of no-wait requests.
  \<^item> \<open>Admin_V2\<close>, \<open>Admin_Inv\<close>, \<open>Admin_Correct\<close>: the admin queue. The log holds what passed on its two rings: each command
    pushed, and each completion popped with the command id the device wrote into it, used or stale. The driver's record of I/O rings
    refines a replay of that log (\<open>admin_spec\<close>), also when a command's outcome is unclear.
  \<^item> \<open>Pci_Setup\<close>, \<open>Teardown\<close>, \<open>Teardown_Correct\<close>, \<open>Attach\<close>, \<open>Attach_Correct\<close>, \<open>Teardown_Live\<close>, \<open>Attach_Props\<close>: \<open>init.c\<close>. The contracts
    \<open>queue_teardown\<close> and \<open>recover_progress\<close> are what a hardware version promises (\<open>struct mx_operations\<close>), interpreted for both; memory is
    freed only with the handlers stopped and after a moment at which the queue was idle and the rings given up, or the function gone; an unbind ends, the registry counts exactly, a detach gives back the function.
  \<^item> \<open>Fops\<close>: ioctl numbers, the handler of each, the order in which the device and lease guards are taken and released on every path
    (\<open>guard_run\<close>, also for mapping the BAR), data ioctls, interrupts and polling.

  This theory adds what spans them: the drain of an unbind against the transfer life cycle.

  \<^bold>\<open>Inputs.\<close> Calls into the kernel (allocation, pinning, DMA mapping, copying from and to user space, file locks, PCI configuration,
  clocks) and reads of device registers are arguments: an environment record or a function of time or of the place of the call, so
  that theorems hold for all their outcomes. Contracts that are assumed of such a parameter are named predicates with a witness
  (\<open>pool_ok\<close> of a descriptor pool, \<open>vfs_ok\<close> of file locks, \<open>restores_ok\<close> of PCI calls).

  \<^bold>\<open>Bounds and fuel.\<close> Loops over lists, pages and slices recurse structurally or with a measure. Loops that wait for the device or for another
  thread have no bound in the code: they take fuel and answer \<open>None\<close> when it runs out. Their theorems state that some fuel suffices when
  the awaited event happens (the unbind, the wait for a transfer), or give the amount: for the complete handler, more than the number
  of completions in the ring. Theorems about results quantify over all fuels that return. Sizes and addresses of DMA mappings are naturals:
  a mapping does not wrap around the 64-bit address space.

  \<^bold>\<open>Not modelled.\<close> Tracepoints (\<open>trace.h\<close>, \<open>trace.c\<close>), log messages, the pinning of threads to NUMA nodes and their early wake-up,
  module parameters as such, names and creation of device nodes, the tables of function pointers and PCI ids, compatibility code for
  kernel versions, and the tests: they change no state that the driver's logic reads, or are declarations only. Memory ordering is
  not modelled: a step of a handler, or a critical section, is atomic; so is the end of a wait in \<open>mx_transfer_wait\<close> (the claim test and what
  follows from it). The id table of \<open>helper.c\<close> is one for all devices; it is modelled beside one queue, whose ids are unique in it. The
  \<open>memcmp\<close> of two holders in \<open>lease.c\<close> is equality of records: both are copies of structures that were assigned as a whole.
\<close>

section \<open>Draining and the transfer life cycle\<close>

text \<open>C13. When the drain of an unbind returns on a device that is still there, the device holds no command: run beside the
  submitters, the handlers and the zombie cleaner in any interleaving, the three counters that the drain reads are zero only if
  nothing is queued, nothing is in flight, no zombie is left, and every transfer still allocated belongs to a submitter that has
  not queued it, so that its buffers are not known to the device.\<close>

theorem drain_leaves_nothing_in_flight:
  assumes "mxdma_drain_device_protocol te fuel s = Some s'" "io_queue s \<noteq> None" "\<not> gone_at te (clock s')"
    "xfer_reachable W" "io_at te (clock s') = xq (xs W)"
  shows "inflight (xs W) = {} \<and> zombie_list (xs W) = [] \<and> sq_list (xq (xs W)) = [] \<and> dom (xheap (xs W)) = own W \<and>
    (\<forall>t x. xheap (xs W) t = Some x \<longrightarrow> \<not> x_zombie x)"
proof -
  note inv = xfer_reachable_inv [OF assms(4)]
  note i = xfer_invD [OF inv]
  have "queue_idle (xq (xs W))"
    using v1_td.drain_frame [OF assms(1)] assms(2,3,5) by (auto simp: mxdma_io_queue_idle_def)
  then have z: "sq_list (xq (xs W)) = []" "wait_count (xq (xs W)) = 0" "zombie_wait_count (xq (xs W)) = 0" by (simp_all add: queue_idle_def)
  then have "zombie_list (xs W) = []" "inflight (xs W) = {}" using i(11,12) inflight_finite [OF inv] by auto
  moreover have "\<not> x_zombie x" if "xheap (xs W) t = Some x" for t x
    using i(8) [OF that] i(5,6) that calculation by (auto simp: xfer_ok_def)
  ultimately show ?thesis using z i(6) by auto
qed

text \<open>Two transfers are queued at first and taken back before the second look.\<close>

theorem drain_leaves_nothing_in_flight_witness:
  "\<exists>te s s'. mxdma_drain_device_protocol te 2 s = Some s' \<and> clock s' = 1 \<and> io_at te 0 \<noteq> io_at te 1 \<and>
     inflight (xs (wst (qst [] 0 0) (heap2 False False) idr2 2 [] {} {7, 8} {7, 8})) = {}"
proof -
  let ?te = "(te_ok (\<lambda>_. False))\<lparr>io_at := (\<lambda>t. if t = 0 then qst [7, 8] 0 0 else qst [] 0 0)\<rparr>"
  let ?s = "dev0\<lparr>io_queue := Some \<lparr>iq_common = qst [] 0 0, iq_ring = configure_queue 2, iq_qid = 1, iq_sq_dma = 0, iq_cq_dma = 0, hw_cq_created = True,
     hw_sq_created = True, hw_cq_id = 1, hw_sq_id = 1\<rparr>\<rparr>"
  have d: "mxdma_drain_device_protocol ?te 2 ?s = Some (?s\<lparr>clock := 1\<rparr>)"
    by (simp add: numeral_2_eq_2 mxdma_io_queue_idle_def queue_idle_def mxdma_pci_permanently_gone_def te_ok_def dev0_def qst_def)
  from drain_leaves_nothing_in_flight [OF d _ _ run_staged]
  have "inflight (xs (wst (qst [] 0 0) (heap2 False False) idr2 2 [] {} {7, 8} {7, 8})) = {}"
    by (simp add: te_ok_def wst_def)
  then show ?thesis using d by (intro exI [of _ ?te] exI [of _ ?s] exI [of _ "?s\<lparr>clock := 1\<rparr>"]) (simp add: qst_def)
qed

end
